(* ===== verification/Prelude.thy ===== *)
theory Prelude
  imports Main "HOL-Library.Word"
begin

text \<open>
  Shared vocabulary of the development: bytes, the ways in which a C function can go wrong
  (faults), a result type for functions that may fault, array reads and writes with their
  bounds checks, C strings, and the lemma collections the component theories add to.
\<close>

unbundle bit_operations_syntax

section \<open>Automation\<close>

named_theorems exec_simps "equations that run a modelled operation symbolically"
named_theorems inv_intros "preservation lemmas of the component invariants"

section \<open>Bytes and faults\<close>

type_synonym byte = "8 word"

text \<open>
  A fault is an execution the C program has no defined continuation for, or one it stops
  itself: an access outside an array, a call or read through a null pointer, a read of freed
  or of never initialised memory, a failed \<^verbatim>\<open>assert\<close>,
  \<^verbatim>\<open>abort()\<close> and \<^verbatim>\<open>exit()\<close>.
\<close>

datatype fault =
    OutOfBounds
  | NullDeref
  | UseAfterFree
  | Uninitialised
  | AssertFailed
  | UndefinedShift
  | Aborted
  | Exited

type_synonym 'a res = "fault + 'a"

definition bindr :: "'a res \<Rightarrow> ('a \<Rightarrow> 'b res) \<Rightarrow> 'b res" where
  "bindr m f = (case m of Inl e \<Rightarrow> Inl e | Inr x \<Rightarrow> f x)"

lemma bindr_simps [simp, exec_simps]:
  "bindr (Inl e) f = Inl e"
  "bindr (Inr x) f = f x"
  by (simp_all add: bindr_def)

lemma bindr_assoc [simp]: "bindr (bindr m f) g = bindr m (\<lambda>x. bindr (f x) g)"
  by (simp add: bindr_def split: sum.splits)

lemma bindr_Inr_iff: "bindr m f = Inr y \<longleftrightarrow> (\<exists>x. m = Inr x \<and> f x = Inr y)"
  by (simp add: bindr_def split: sum.splits)

lemma bindr_InrE [elim!]:
  assumes "bindr m f = Inr y"
  obtains x where "m = Inr x" and "f x = Inr y"
  using assms by (auto simp: bindr_Inr_iff)

lemma bindr_split:
  "P (bindr m f) \<longleftrightarrow> (\<forall>e. m = Inl e \<longrightarrow> P (Inl e)) \<and> (\<forall>x. m = Inr x \<longrightarrow> P (f x))"
  by (simp add: bindr_def split: sum.splits)

definition guardr :: "fault \<Rightarrow> bool \<Rightarrow> unit res" where
  "guardr e b = (if b then Inr () else Inl e)"

lemma guardr_simps [simp, exec_simps]:
  "guardr e True = Inr ()"
  "guardr e False = Inl e"
  by (simp_all add: guardr_def)

lemma guardr_Inr_iff [simp]: "guardr e b = Inr u \<longleftrightarrow> b"
  by (simp add: guardr_def)

lemma guardr_Inl_iff [simp]: "guardr e b = Inl e' \<longleftrightarrow> \<not> b \<and> e' = e"
  by (auto simp: guardr_def)

definition deref :: "fault \<Rightarrow> 'a option \<Rightarrow> 'a res" where
  "deref e p = (case p of None \<Rightarrow> Inl e | Some x \<Rightarrow> Inr x)"

lemma deref_simps [simp, exec_simps]:
  "deref e None = Inl e"
  "deref e (Some x) = Inr x"
  by (simp_all add: deref_def)

lemma deref_Inr_iff [simp]: "deref e p = Inr x \<longleftrightarrow> p = Some x"
  by (simp add: deref_def split: option.splits)

section \<open>Arrays\<close>

text \<open>Reading and writing one element, and a block of elements, at an index of an array.\<close>

definition arr_get :: "'a list \<Rightarrow> nat \<Rightarrow> 'a res" where
  "arr_get xs i = (if i < length xs then Inr (xs ! i) else Inl OutOfBounds)"

definition arr_set :: "'a list \<Rightarrow> nat \<Rightarrow> 'a \<Rightarrow> 'a list res" where
  "arr_set xs i x = (if i < length xs then Inr (xs[i := x]) else Inl OutOfBounds)"

definition overwrite :: "'a list \<Rightarrow> nat \<Rightarrow> 'a list \<Rightarrow> 'a list" where
  "overwrite xs i ys = take i xs @ ys @ drop (i + length ys) xs"

definition arr_blit :: "'a list \<Rightarrow> nat \<Rightarrow> 'a list \<Rightarrow> 'a list res" where
  "arr_blit xs i ys =
     (if i + length ys \<le> length xs then Inr (overwrite xs i ys) else Inl OutOfBounds)"

lemma arr_get_in [simp, exec_simps]: "i < length xs \<Longrightarrow> arr_get xs i = Inr (xs ! i)"
  by (simp add: arr_get_def)

lemma arr_get_out [simp, exec_simps]: "length xs \<le> i \<Longrightarrow> arr_get xs i = Inl OutOfBounds"
  by (simp add: arr_get_def)

lemma arr_set_in [simp, exec_simps]: "i < length xs \<Longrightarrow> arr_set xs i x = Inr (xs[i := x])"
  by (simp add: arr_set_def)

lemma arr_set_out [simp, exec_simps]: "length xs \<le> i \<Longrightarrow> arr_set xs i x = Inl OutOfBounds"
  by (simp add: arr_set_def)

lemma length_overwrite [simp]:
  "i + length ys \<le> length xs \<Longrightarrow> length (overwrite xs i ys) = length xs"
  by (simp add: overwrite_def)

lemma arr_blit_in [simp, exec_simps]:
  "i + length ys \<le> length xs \<Longrightarrow> arr_blit xs i ys = Inr (overwrite xs i ys)"
  by (simp add: arr_blit_def)

lemma arr_set_Inr_iff:
  "arr_set xs i x = Inr ys \<longleftrightarrow> i < length xs \<and> ys = xs[i := x]"
  by (auto simp: arr_set_def)

lemma arr_get_Inr_iff: "arr_get xs i = Inr y \<longleftrightarrow> i < length xs \<and> y = xs ! i"
  by (auto simp: arr_get_def)

lemma take_list_update_snoc:
  "i < length xs \<Longrightarrow> take (Suc i) (xs[i := x]) = take i xs @ [x]"
  by (simp add: take_Suc_conv_app_nth)

section \<open>C strings\<close>

text \<open>The string a character array holds: its bytes before the first zero byte.\<close>

definition cstr :: "byte list \<Rightarrow> byte list" where
  "cstr bs = takeWhile (\<lambda>c. c \<noteq> 0) bs"

definition has_nul :: "byte list \<Rightarrow> bool" where
  "has_nul bs \<longleftrightarrow> 0 \<in> set bs"

lemma cstr_append_nul: "0 \<notin> set s \<Longrightarrow> cstr (s @ 0 # rest) = s"
  unfolding cstr_def by (induction s) auto

lemma cstr_no_nul: "0 \<notin> set (cstr bs)"
  unfolding cstr_def by (auto dest: set_takeWhileD)

lemma cstr_ident: "0 \<notin> set s \<Longrightarrow> cstr s = s"
  unfolding cstr_def by (induction s) auto

lemma cstr_idem [simp]: "cstr (cstr bs) = cstr bs"
  by (simp add: cstr_ident cstr_no_nul)

lemma length_cstr: "length (cstr bs) \<le> length bs"
  by (simp add: cstr_def length_takeWhile_le)

text \<open>
  A zeroed array of \<open>n\<close> bytes whose first bytes were stored, and what storing one more byte and
  its terminator does.
\<close>

definition filled :: "byte list \<Rightarrow> nat \<Rightarrow> byte list" where
  "filled xs n = xs @ replicate (n - length xs) 0"

lemma filled_Nil: "filled [] n = replicate n 0"
  by (simp add: filled_def)

lemma length_filled [simp]: "length xs \<le> n \<Longrightarrow> length (filled xs n) = n"
  by (simp add: filled_def)

lemma filled_store:
  assumes "length xs < n"
  shows "(filled xs n)[length xs := d] = filled (xs @ [d]) n"
proof -
  from assms obtain k where "n - length xs = Suc k" by (metis Suc_diff_Suc)
  with assms show ?thesis by (simp add: filled_def)
qed

lemma filled_terminate:
  assumes "length xs < n"
  shows "(filled xs n)[length xs := 0] = filled xs n"
proof -
  from assms obtain k where "n - length xs = Suc k" by (metis Suc_diff_Suc)
  with assms show ?thesis by (simp add: filled_def)
qed

lemma cstr_filled:
  assumes "length xs < n"
  shows "cstr (filled xs n) = cstr xs" and "has_nul (filled xs n)"
proof -
  from assms obtain k where k: "n - length xs = Suc k" by (metis Suc_diff_Suc)
  show "has_nul (filled xs n)" by (simp add: filled_def k has_nul_def)
  show "cstr (filled xs n) = cstr xs"
  proof (cases "0 \<in> set xs")
    case True
    then show ?thesis unfolding filled_def cstr_def by (simp add: takeWhile_append1)
  next
    case False
    then show ?thesis by (simp add: filled_def k cstr_append_nul cstr_ident)
  qed
qed

section \<open>Counting in a byte\<close>

lemma unat_byte_le: "unat (b :: byte) \<le> 255"
  using unsigned_less [where ?'a = nat, of b] by simp

lemma unat_byte_Suc: "unat (b :: byte) < unat (c :: byte) \<Longrightarrow> unat (b + 1) = Suc (unat b)"
  using unat_byte_le [of c] by (simp add: unat_word_ariths)

lemma byte_of_nat_unat: "n \<le> 255 \<Longrightarrow> unat (of_nat n :: byte) = n"
  by (simp add: unat_of_nat)

lemma byte_eq_iff_unat: "(b :: byte) = c \<longleftrightarrow> unat b = unat c"
  by (rule word_unat_eq_iff)

section \<open>Words in memory and on the wire\<close>

text \<open>
  The hosts are little-endian: \<^verbatim>\<open>htonl\<close> and \<^verbatim>\<open>ntohl\<close> reverse the bytes of a 32-bit word, and
  a 64-bit word lies in memory lowest byte first.
\<close>

definition swap32 :: "32 word \<Rightarrow> 32 word" where
  "swap32 x = push_bit 24 (take_bit 8 x) OR push_bit 16 (take_bit 8 (drop_bit 8 x)) OR
     push_bit 8 (take_bit 8 (drop_bit 16 x)) OR take_bit 8 (drop_bit 24 x)"

definition bytes_of_u64 :: "64 word \<Rightarrow> byte list" where
  "bytes_of_u64 x = map (\<lambda>i. ucast (drop_bit (8 * i) x)) [0..<8]"

definition u64_of_bytes :: "byte list \<Rightarrow> 64 word" where
  "u64_of_bytes bs = foldr (\<lambda>b x. ucast b OR push_bit 8 x) bs 0"

lemma length_bytes_of_u64 [simp]: "length (bytes_of_u64 x) = 8"
  by (simp add: bytes_of_u64_def)

lemma bit_swap32: "bit (swap32 x) n \<longleftrightarrow>
   n < 8 \<and> bit x (n + 24) \<or> 8 \<le> n \<and> n < 16 \<and> bit x (n + 8) \<or> 16 \<le> n \<and> n < 24 \<and> bit x (n - 8) \<or>
   24 \<le> n \<and> n < 32 \<and> bit x (n - 24)"
  unfolding swap32_def bit_or_iff bit_push_bit_iff bit_take_bit_iff bit_drop_bit_eq by (auto simp: algebra_simps)

lemma swap32_swap32 [simp]: "swap32 (swap32 x) = x"
proof (rule bit_word_eqI)
  fix n assume "n < LENGTH(32)"
  then consider "n < 8" | "8 \<le> n \<and> n < 16" | "16 \<le> n \<and> n < 24" | "24 \<le> n \<and> n < 32" by simp arith
  then show "bit (swap32 (swap32 x)) n = bit x n"
    by cases (auto simp: bit_swap32)
qed

text \<open>The two halves of a 64-bit word put together from them.\<close>

lemma word_halves [simp]:
  "(ucast (drop_bit 32 (push_bit 32 (ucast h) OR ucast l :: 64 word)) :: 32 word) = h"
  "(ucast ((push_bit 32 (ucast h) OR ucast l :: 64 word) AND 0xFFFFFFFF) :: 32 word) = l" for h l :: "32 word"
proof -
  have "\<not> bit l (32 + n)" for n using bit_imp_le_length [of l "32 + n"] by auto
  then show "(ucast (drop_bit 32 (push_bit 32 (ucast h) OR ucast l :: 64 word)) :: 32 word) = h"
    by (intro bit_word_eqI) (auto simp: bit_simps)
  have "(x AND 0xFFFFFFFF) = take_bit 32 x" for x :: "64 word" by (simp add: take_bit_eq_mask mask_eq_exp_minus_1)
  then show "(ucast ((push_bit 32 (ucast h) OR ucast l :: 64 word) AND 0xFFFFFFFF) :: 32 word) = l"
    by (intro bit_word_eqI) (auto simp: bit_simps)
qed

lemma low_byte_step:
  "ucast (ucast (drop_bit k x) :: byte) OR push_bit 8 (take_bit n (drop_bit (k + 8) x)) =
     take_bit (n + 8) (drop_bit k x)" for x :: "64 word"
proof (rule bit_word_eqI)
  fix i
  show "bit (ucast (ucast (drop_bit k x) :: byte) OR push_bit 8 (take_bit n (drop_bit (k + 8) x))) i =
      bit (take_bit (n + 8) (drop_bit k x)) i" if "i < LENGTH(64)"
    using that by (cases "i < 8") (auto simp: bit_simps)
qed

lemma u64_of_bytes_part:
  "foldr (\<lambda>b x. ucast b OR push_bit 8 x) (map (\<lambda>i. ucast (drop_bit (8 * i) x) :: byte) [k..<k + n]) 0 =
     take_bit (8 * n) (drop_bit (8 * k) x)" for x :: "64 word"
proof (induction n arbitrary: k)
  case (Suc n)
  have "[k..<k + Suc n] = k # [Suc k..<Suc k + n]" by (simp add: upt_rec)
  then show ?case using Suc [of "Suc k"] low_byte_step [of "8 * k" x "8 * n"] by (simp add: ac_simps)
qed simp

lemma u64_of_bytes_of [simp]: "u64_of_bytes (bytes_of_u64 x) = x"
  using u64_of_bytes_part [of x 0 8] take_bit_length_eq [of x]
  by (simp add: u64_of_bytes_def bytes_of_u64_def)

end
