(* ===== verification/Buffer.thy ===== *)
theory Buffer
  imports Prelude
begin

text \<open>
  The byte buffer of \<^verbatim>\<open>src/src/lib/buffer/buffer.c\<close>: an array with a read and a write
  pointer. Pointers are offsets from \<^verbatim>\<open>data\<close>. The functions that assert return a fault when
  the assertion fails. The contract the rest of the server relies on is that the buffer is a
  first-in first-out queue of bytes; it is stated as the locale \<open>byte_fifo\<close> and
  interpreted on the buffer.
\<close>

section \<open>The buffer\<close>

record buffer =
  b_data :: "byte list"
  b_limit :: nat
  b_read :: nat
  b_write :: nat

definition buffer_reset :: "buffer \<Rightarrow> buffer" where
  "buffer_reset b = b\<lparr>b_read := 0, b_write := 0\<rparr>"

definition buffer_init :: "nat \<Rightarrow> byte list \<Rightarrow> buffer" where
  "buffer_init n data =
     (let b = \<lparr>b_data = data, b_limit = 0, b_read = 0, b_write = 0\<rparr>
      in (buffer_reset b)\<lparr>b_limit := n\<rparr>)"

definition buffer_can_write :: "buffer \<Rightarrow> bool" where
  "buffer_can_write b \<longleftrightarrow> int (b_limit b) - int (b_write b) > 0"

definition buffer_write_ptr :: "buffer \<Rightarrow> (nat \<times> nat) res" where
  "buffer_write_ptr b =
     bindr (guardr AssertFailed (b_write b \<le> b_limit b)) (\<lambda>_.
       Inr (b_write b, b_limit b - b_write b))"

definition buffer_can_read :: "buffer \<Rightarrow> bool" where
  "buffer_can_read b \<longleftrightarrow> int (b_write b) - int (b_read b) > 0"

definition buffer_read_ptr :: "buffer \<Rightarrow> (nat \<times> nat) res" where
  "buffer_read_ptr b =
     bindr (guardr AssertFailed (b_read b \<le> b_write b)) (\<lambda>_.
       Inr (b_read b, b_write b - b_read b))"

definition buffer_compact :: "buffer \<Rightarrow> buffer" where
  "buffer_compact b =
     (if b_read b = 0 then b
      else if b_read b = b_write b then b\<lparr>b_read := 0, b_write := 0\<rparr>
      else
        let n = b_write b - b_read b in
        b\<lparr>b_data := overwrite (b_data b) 0 (take n (drop (b_read b) (b_data b))),
          b_read := 0, b_write := n\<rparr>)"

definition buffer_write_adv :: "buffer \<Rightarrow> int \<Rightarrow> buffer res" where
  "buffer_write_adv b bytes =
     (if bytes > -1 then
        let b' = b\<lparr>b_write := b_write b + nat bytes\<rparr> in
        bindr (guardr AssertFailed (b_write b' \<le> b_limit b')) (\<lambda>_. Inr b')
      else Inr b)"

definition buffer_read_adv :: "buffer \<Rightarrow> int \<Rightarrow> buffer res" where
  "buffer_read_adv b bytes =
     (if bytes > -1 then
        let b' = b\<lparr>b_read := b_read b + nat bytes\<rparr> in
        bindr (guardr AssertFailed (b_read b' \<le> b_write b')) (\<lambda>_.
          Inr (if b_read b' = b_write b' then buffer_compact b' else b'))
      else Inr b)"

definition buffer_read :: "buffer \<Rightarrow> (byte \<times> buffer) res" where
  "buffer_read b =
     (if buffer_can_read b then
        bindr (arr_get (b_data b) (b_read b)) (\<lambda>ret.
        bindr (buffer_read_adv b 1) (\<lambda>b'. Inr (ret, b')))
      else Inr (0, b))"

definition buffer_write :: "buffer \<Rightarrow> byte \<Rightarrow> buffer res" where
  "buffer_write b c =
     (if buffer_can_write b then
        bindr (arr_set (b_data b) (b_write b) c) (\<lambda>data.
          buffer_write_adv (b\<lparr>b_data := data\<rparr>) 1)
      else Inr b)"

section \<open>Invariant and abstraction\<close>

text \<open>The invariant of the header file, \<open>R \<le> W \<le> limit\<close>, for a limit inside the storage.\<close>

definition buffer_ok :: "buffer \<Rightarrow> bool" where
  "buffer_ok b \<longleftrightarrow> b_read b \<le> b_write b \<and> b_write b \<le> b_limit b \<and> b_limit b = length (b_data b)"

definition contents :: "buffer \<Rightarrow> byte list" where
  "contents b = take (b_write b - b_read b) (drop (b_read b) (b_data b))"

text \<open>
  The use the server makes of the buffer: a block of bytes is stored at the write pointer (by
  \<^verbatim>\<open>recv\<close>) and accounted for, and a prefix of the readable block is consumed (by \<^verbatim>\<open>send\<close>).
\<close>

definition buffer_fill :: "buffer \<Rightarrow> byte list \<Rightarrow> buffer res" where
  "buffer_fill b bs =
     bindr (buffer_write_ptr b) (\<lambda>(ptr, _).
     bindr (arr_blit (b_data b) ptr bs) (\<lambda>data.
       buffer_write_adv (b\<lparr>b_data := data\<rparr>) (int (length bs))))"

definition buffer_space :: "buffer \<Rightarrow> nat" where
  "buffer_space b = b_limit b - b_write b"

lemma buffer_ok_init [inv_intros]: "length data = n \<Longrightarrow> buffer_ok (buffer_init n data)"
  by (simp add: buffer_ok_def buffer_init_def buffer_reset_def)

lemma contents_init: "contents (buffer_init n data) = []"
  by (simp add: contents_def buffer_init_def buffer_reset_def)

lemma buffer_ok_reset [inv_intros]: "buffer_ok b \<Longrightarrow> buffer_ok (buffer_reset b)"
  by (simp add: buffer_ok_def buffer_reset_def)

lemma contents_reset: "contents (buffer_reset b) = []"
  by (simp add: contents_def buffer_reset_def)

lemma length_contents: "buffer_ok b \<Longrightarrow> length (contents b) = b_write b - b_read b"
  by (auto simp: buffer_ok_def contents_def)

lemma can_read_iff: "buffer_can_read b \<longleftrightarrow> b_read b < b_write b"
  by (auto simp: buffer_can_read_def)

lemma can_write_iff: "buffer_can_write b \<longleftrightarrow> b_write b < b_limit b"
  by (auto simp: buffer_can_write_def)

lemma can_read_contents: "buffer_ok b \<Longrightarrow> buffer_can_read b \<longleftrightarrow> contents b \<noteq> []"
  by (metis can_read_iff diff_is_0_eq' length_contents length_greater_0_conv not_less zero_less_diff)

lemma can_write_space: "buffer_can_write b \<longleftrightarrow> 0 < buffer_space b"
  by (auto simp: buffer_space_def can_write_iff)

lemma buffer_ok_compact [inv_intros]: "buffer_ok b \<Longrightarrow> buffer_ok (buffer_compact b)"
  by (auto simp: buffer_ok_def buffer_compact_def Let_def)

lemma contents_compact: "buffer_ok b \<Longrightarrow> contents (buffer_compact b) = contents b"
  by (auto simp: buffer_ok_def buffer_compact_def contents_def Let_def overwrite_def)

lemma compact_reclaims: "buffer_ok b \<Longrightarrow> b_read (buffer_compact b) = 0"
  by (simp add: buffer_compact_def Let_def)

text \<open>Advancing either pointer: the exact conditions under which the assertion holds.\<close>

lemma read_adv_total:
  assumes "buffer_ok b" and "n \<le> length (contents b)"
  shows "\<exists>b'. buffer_read_adv b (int n) = Inr b' \<and> buffer_ok b' \<and> contents b' = drop n (contents b)"
proof -
  let ?b = "b\<lparr>b_read := b_read b + n\<rparr>"
  from assms have n: "b_read b + n \<le> b_write b"
    by (simp add: length_contents) (auto simp: buffer_ok_def)
  with assms(1) have ok: "buffer_ok ?b" by (simp add: buffer_ok_def)
  have c: "contents ?b = drop n (contents b)"
    by (simp add: contents_def drop_take add.commute)
  have "buffer_read_adv b (int n) =
          Inr (if b_read ?b = b_write ?b then buffer_compact ?b else ?b)"
    using n by (simp add: buffer_read_adv_def Let_def)
  then show ?thesis
    using ok c buffer_ok_compact [OF ok] contents_compact [OF ok] by (auto split: if_splits)
qed

lemma read_adv_assert:
  "buffer_ok b \<Longrightarrow> length (contents b) < n \<Longrightarrow> buffer_read_adv b (int n) = Inl AssertFailed"
  by (frule length_contents) (simp add: buffer_read_adv_def Let_def guardr_def buffer_ok_def)

lemma fill_total:
  assumes ok: "buffer_ok b" and n: "length bs \<le> buffer_space b"
  shows "\<exists>b'. buffer_fill b bs = Inr b' \<and> buffer_ok b' \<and> contents b' = contents b @ bs"
proof -
  let ?b = "b\<lparr>b_data := overwrite (b_data b) (b_write b) bs, b_write := b_write b + length bs\<rparr>"
  from ok n have len: "b_write b + length bs \<le> length (b_data b)"
    by (auto simp: buffer_ok_def buffer_space_def)
  with ok have run: "buffer_fill b bs = Inr ?b"
    by (simp add: buffer_fill_def buffer_write_ptr_def buffer_write_adv_def buffer_ok_def Let_def)
  from ok len have ok': "buffer_ok ?b" by (simp add: buffer_ok_def)
  have "contents ?b = contents b @ bs"
    using ok len by (simp add: contents_def buffer_ok_def overwrite_def drop_take)
  with run ok' show ?thesis by blast
qed

lemma fill_overflow:
  "buffer_ok b \<Longrightarrow> buffer_space b < length bs \<Longrightarrow> buffer_fill b bs = Inl OutOfBounds"
  by (auto simp: buffer_fill_def buffer_write_ptr_def buffer_ok_def buffer_space_def arr_blit_def)

section \<open>The queue interface\<close>

text \<open>
  What a client of the buffer may rely on. \<open>fifo_run\<close> runs a sequence of stores and
  consumptions and collects the bytes consumed.
\<close>

datatype fifo_op = Fill "byte list" | Consume nat

fun fifo_run ::
  "('b \<Rightarrow> byte list \<Rightarrow> 'b res) \<Rightarrow> ('b \<Rightarrow> nat \<Rightarrow> 'b res) \<Rightarrow> ('b \<Rightarrow> byte list) \<Rightarrow>
   'b \<Rightarrow> fifo_op list \<Rightarrow> (byte list \<times> 'b) res" where
  "fifo_run fill consume bytes b [] = Inr ([], b)"
| "fifo_run fill consume bytes b (Fill bs # ops) =
     bindr (fill b bs) (\<lambda>b'. fifo_run fill consume bytes b' ops)"
| "fifo_run fill consume bytes b (Consume n # ops) =
     bindr (consume b n) (\<lambda>b'.
     bindr (fifo_run fill consume bytes b' ops) (\<lambda>(out, b'').
       Inr (take n (bytes b) @ out, b'')))"

fun stored :: "fifo_op list \<Rightarrow> byte list" where
  "stored [] = []"
| "stored (Fill bs # ops) = bs @ stored ops"
| "stored (Consume n # ops) = stored ops"

locale byte_fifo =
  fixes invar :: "'b \<Rightarrow> bool"
    and bytes :: "'b \<Rightarrow> byte list"
    and space :: "'b \<Rightarrow> nat"
    and fill :: "'b \<Rightarrow> byte list \<Rightarrow> 'b res"
    and consume :: "'b \<Rightarrow> nat \<Rightarrow> 'b res"
  assumes fill_ok: "invar b \<Longrightarrow> length bs \<le> space b \<Longrightarrow>
      \<exists>b'. fill b bs = Inr b' \<and> invar b' \<and> bytes b' = bytes b @ bs"
    and fill_full: "invar b \<Longrightarrow> space b < length bs \<Longrightarrow> \<exists>e. fill b bs = Inl e"
    and consume_ok: "invar b \<Longrightarrow> n \<le> length (bytes b) \<Longrightarrow>
      \<exists>b'. consume b n = Inr b' \<and> invar b' \<and> bytes b' = drop n (bytes b)"
    and consume_short: "invar b \<Longrightarrow> length (bytes b) < n \<Longrightarrow> \<exists>e. consume b n = Inl e"
begin

lemma fill_Inr:
  assumes "invar b" and "fill b bs = Inr b'"
  shows "invar b' \<and> bytes b' = bytes b @ bs"
proof -
  have "length bs \<le> space b" using assms fill_full by (metis not_less sum.simps(4))
  with assms fill_ok show ?thesis by fastforce
qed

lemma consume_Inr:
  assumes "invar b" and "consume b n = Inr b'"
  shows "invar b' \<and> bytes b = take n (bytes b) @ bytes b'"
proof -
  have "n \<le> length (bytes b)" using assms consume_short by (metis not_less sum.simps(4))
  with assms consume_ok show ?thesis by fastforce
qed

lemma run_fifo:
  "invar b \<Longrightarrow> fifo_run fill consume bytes b ops = Inr (out, b') \<Longrightarrow>
     invar b' \<and> out @ bytes b' = bytes b @ stored ops"
proof (induction ops arbitrary: b out)
  case Nil
  then show ?case by simp
next
  case (Cons op ops)
  show ?case
  proof (cases op)
    case (Fill bs)
    with Cons.prems obtain b1 where b1: "fill b bs = Inr b1"
      and run: "fifo_run fill consume bytes b1 ops = Inr (out, b')" by auto
    from fill_Inr [OF Cons.prems(1) b1] Cons.IH [OF _ run] Fill show ?thesis by simp
  next
    case (Consume n)
    with Cons.prems obtain b1 out' where b1: "consume b n = Inr b1"
      and run: "fifo_run fill consume bytes b1 ops = Inr (out', b')"
      and out: "out = take n (bytes b) @ out'" by auto
    from consume_Inr [OF Cons.prems(1) b1] Cons.IH [OF _ run] Consume out show ?thesis
      by (metis append.assoc stored.simps(3))
  qed
qed

end

interpretation buf: byte_fifo buffer_ok contents buffer_space buffer_fill
  "\<lambda>b n. buffer_read_adv b (int n)"
proof unfold_locales
  show "buffer_ok b \<Longrightarrow> buffer_space b < length bs \<Longrightarrow> \<exists>e. buffer_fill b bs = Inl e" for b bs
    by (simp add: fill_overflow)
  show "buffer_ok b \<Longrightarrow> length (contents b) < n \<Longrightarrow> \<exists>e. buffer_read_adv b (int n) = Inl e" for b n
    by (simp add: read_adv_assert)
qed (simp_all add: fill_total read_adv_total)

section \<open>Properties\<close>

text \<open>
  C21. The buffer is a first-in first-out queue: after any sequence of block stores and
  consumptions on a buffer that was just initialised, none of which trips an assertion or leaves
  the storage, the bytes consumed so far followed by the bytes still readable are exactly the
  bytes stored, in the order they were stored; no byte is lost, duplicated or reordered by the
  compactions in between, and the pointer invariant holds.
\<close>

theorem buffer_is_fifo:
  assumes "length data = n"
    and "fifo_run buffer_fill (\<lambda>b n. buffer_read_adv b (int n)) contents (buffer_init n data) ops
           = Inr (out, b')"
  shows "buffer_ok b' \<and> out @ contents b' = stored ops"
  using buf.run_fifo [OF buffer_ok_init [OF assms(1)] assms(2)] by (simp add: contents_init)

theorem buffer_is_fifo_witness:
  "\<exists>b'. fifo_run buffer_fill (\<lambda>b n. buffer_read_adv b (int n)) contents (buffer_init 6 [0,0,0,0,0,0])
      [Fill [72, 79, 76, 65], Consume 3, Fill [77, 77]] = Inr ([72, 79, 76], b') \<and>
    [72, 79, 76] @ contents b' = [72, 79, 76, 65, 77, 77]"
proof -
  have run: "fifo_run buffer_fill (\<lambda>b n. buffer_read_adv b (int n)) contents
      (buffer_init 6 [0,0,0,0,0,0]) [Fill [72, 79, 76, 65], Consume 3, Fill [77, 77]]
    = Inr ([72, 79, 76], \<lparr>b_data = [72, 79, 76, 65, 77, 77], b_limit = 6, b_read = 3, b_write = 6\<rparr>)"
    by code_simp
  from buffer_is_fifo [OF _ run] run show ?thesis by simp
qed

end
