(* ===== verification/Parser.thy ===== *)
theory Parser
  imports Prelude
begin

text \<open>
  The table-driven parser engine of \<^verbatim>\<open>src/src/lib/parser/parser.c\<close>. A definition lists, for
  each state, transitions that are tried in order; the first one that matches runs its actions on
  the events the parser owns and moves to the destination state. The servers' tables share one
  shape: each state ends in a transition that matches every byte. That shape is the locale
  \<open>total_table\<close>, interpreted on every table of the program, in its own component theory.
\<close>

section \<open>Events and definitions\<close>

text \<open>
  The event \<^verbatim>\<open>next\<close> pointer is null or points to the second event of the same parser, so it
  is a flag. Pointers to action functions may be null.
\<close>

record parser_event =
  ev_type :: nat
  ev_data :: "byte list"
  ev_n :: byte
  ev_next :: bool

type_synonym parser_action = "parser_event \<Rightarrow> byte \<Rightarrow> parser_event"

record parser_state_transition =
  tr_when :: int
  tr_dest :: nat
  tr_act1 :: "parser_action option"
  tr_act2 :: "parser_action option"

definition ANY :: int where "ANY = 512"

text \<open>
  \<open>def_states\<close> holds, for each state, the transitions from the pointer stored in
  \<^verbatim>\<open>states\<close> to the end of the array it points into; \<open>def_states_n\<close> how many of them
  belong to the state.
\<close>

record parser_definition =
  def_states_count :: nat
  def_states :: "parser_state_transition list list"
  def_states_n :: "nat list"
  def_start_state :: nat

text \<open>
  \<open>p_classes\<close> is the memory read through the \<^verbatim>\<open>classes\<close> pointer, at any offset: the array
  itself has 255 entries, one less than there are byte values.
\<close>

record parser =
  p_classes :: "nat \<Rightarrow> int"
  p_def :: parser_definition
  p_state :: nat
  p_e1 :: parser_event
  p_e2 :: parser_event

definition zero_event :: parser_event where
  "zero_event = \<lparr>ev_type = 0, ev_data = [0, 0, 0], ev_n = 0, ev_next = False\<rparr>"

definition parser_init :: "bool \<Rightarrow> (nat \<Rightarrow> int) \<Rightarrow> parser_definition \<Rightarrow> parser option" where
  "parser_init malloc_ok classes def =
     (if malloc_ok
      then Some \<lparr>p_classes = classes, p_def = def, p_state = def_start_state def,
                 p_e1 = zero_event, p_e2 = zero_event\<rparr>
      else None)"

definition parser_reset :: "parser \<Rightarrow> parser" where
  "parser_reset p = p\<lparr>p_state := def_start_state (p_def p)\<rparr>"

definition parser_set_state :: "parser \<Rightarrow> nat \<Rightarrow> parser" where
  "parser_set_state p st = p\<lparr>p_state := st\<rparr>"

definition NO_CLASSES_SIZE :: nat where "NO_CLASSES_SIZE = 255"

text \<open>The array \<^verbatim>\<open>classes[0xFF]\<close> and, past its end, whatever the program keeps there.\<close>

definition parser_no_classes :: "(nat \<Rightarrow> int) \<Rightarrow> nat \<Rightarrow> int" where
  "parser_no_classes stray i = (if i < NO_CLASSES_SIZE then 0 else stray i)"

section \<open>Feeding a byte\<close>

definition transition_matches :: "int \<Rightarrow> byte \<Rightarrow> parser_state_transition \<Rightarrow> bool" where
  "transition_matches type c t =
     (if tr_when t \<le> 255 then uint c = tr_when t
      else if tr_when t = ANY then True
      else if tr_when t > 255 then type AND tr_when t \<noteq> 0
      else False)"

text \<open>The loop over the first \<open>n\<close> transitions of a state.\<close>

fun match_loop :: "parser_state_transition list \<Rightarrow> nat \<Rightarrow> int \<Rightarrow> byte \<Rightarrow>
    parser_state_transition option res" where
  "match_loop ts 0 type c = Inr None"
| "match_loop [] (Suc n) type c = Inl OutOfBounds"
| "match_loop (t # ts) (Suc n) type c =
     (if transition_matches type c t then Inr (Some t) else match_loop ts n type c)"

definition take_transition :: "parser \<Rightarrow> parser_state_transition \<Rightarrow> byte \<Rightarrow> parser res" where
  "take_transition p t c =
     bindr (deref NullDeref (tr_act1 t)) (\<lambda>act1.
       let p1 = p\<lparr>p_e1 := act1 (p_e1 p) c\<rparr>;
           p2 = (case tr_act2 t of
                   None \<Rightarrow> p1
                 | Some act2 \<Rightarrow>
                     p1\<lparr>p_e1 := (p_e1 p1)\<lparr>ev_next := True\<rparr>, p_e2 := act2 (p_e2 p1) c\<rparr>)
       in Inr (p2\<lparr>p_state := tr_dest t\<rparr>))"

definition parser_feed :: "parser \<Rightarrow> byte \<Rightarrow> parser res" where
  "parser_feed p c =
     (let type = p_classes p (unat c);
          p' = p\<lparr>p_e1 := (p_e1 p)\<lparr>ev_next := False\<rparr>, p_e2 := (p_e2 p)\<lparr>ev_next := False\<rparr>\<rparr>
      in bindr (arr_get (def_states (p_def p)) (p_state p)) (\<lambda>ts.
         bindr (arr_get (def_states_n (p_def p)) (p_state p)) (\<lambda>n.
         bindr (match_loop ts n type c) (\<lambda>m.
           case m of None \<Rightarrow> Inr p' | Some t \<Rightarrow> take_transition p' t c))))"

text \<open>The list of events a caller sees when it follows the returned pointer.\<close>

definition parser_events :: "parser \<Rightarrow> parser_event list" where
  "parser_events p = (if ev_next (p_e1 p) then [p_e1 p, p_e2 p] else [p_e1 p])"

text \<open>The actions of the program store a type, a count and, where the count is 1, the byte.\<close>

definition put_byte :: "nat \<Rightarrow> parser_action" where
  "put_byte ty ev c = ev\<lparr>ev_type := ty, ev_n := 1, ev_data := (ev_data ev)[0 := c]\<rparr>"

definition put_none :: "nat \<Rightarrow> parser_action" where
  "put_none ty ev c = ev\<lparr>ev_type := ty, ev_n := 0\<rparr>"

definition on_any :: "nat \<Rightarrow> parser_action \<Rightarrow> parser_state_transition" where
  "on_any dest act = \<lparr>tr_when = ANY, tr_dest = dest, tr_act1 = Some act, tr_act2 = None\<rparr>"

definition on_byte :: "int \<Rightarrow> nat \<Rightarrow> parser_action \<Rightarrow> parser_state_transition" where
  "on_byte w dest act = \<lparr>tr_when = w, tr_dest = dest, tr_act1 = Some act, tr_act2 = None\<rparr>"

lemma on_any_sel [simp]:
  "tr_when (on_any d a) = ANY" "tr_dest (on_any d a) = d"
  "tr_act1 (on_any d a) = Some a" "tr_act2 (on_any d a) = None"
  by (simp_all add: on_any_def)

lemma on_byte_sel [simp]:
  "tr_when (on_byte w d a) = w" "tr_dest (on_byte w d a) = d"
  "tr_act1 (on_byte w d a) = Some a" "tr_act2 (on_byte w d a) = None"
  by (simp_all add: on_byte_def)

lemma matches_any [simp, exec_simps]: "transition_matches type c (on_any d a)"
  by (simp add: transition_matches_def ANY_def)

lemma matches_byte [simp, exec_simps]:
  "w \<le> 255 \<Longrightarrow> transition_matches type c (on_byte w d a) \<longleftrightarrow> uint c = w"
  by (simp add: transition_matches_def)

lemma put_byte_sel [simp]:
  "ev_type (put_byte ty ev c) = ty" "ev_n (put_byte ty ev c) = 1"
  "ev_data (put_byte ty ev c) = (ev_data ev)[0 := c]" "ev_next (put_byte ty ev c) = ev_next ev"
  by (simp_all add: put_byte_def)

lemma put_none_sel [simp]:
  "ev_type (put_none ty ev c) = ty" "ev_n (put_none ty ev c) = 0"
  "ev_data (put_none ty ev c) = ev_data ev" "ev_next (put_none ty ev c) = ev_next ev"
  by (simp_all add: put_none_def)

section \<open>Total tables\<close>

text \<open>
  A parser that has its definition, a valid state and well-shaped events. The event record keeps
  three data bytes, of which the actions use the first.
\<close>

definition parser_ok :: "parser_definition \<Rightarrow> parser \<Rightarrow> bool" where
  "parser_ok def p \<longleftrightarrow>
     p_def p = def \<and> p_state p < def_states_count def \<and> length (ev_data (p_e1 p)) = 3"

lemma parser_ok_def_eq: "parser_ok def p \<Longrightarrow> p_def p = def"
  by (simp add: parser_ok_def)

lemma parser_ok_set_state [inv_intros]:
  "parser_ok def p \<Longrightarrow> st < def_states_count def \<Longrightarrow> parser_ok def (parser_set_state p st)"
  by (simp add: parser_ok_def parser_set_state_def)

lemma parser_set_state_state [simp]: "p_state (parser_set_state p st) = st"
  by (simp add: parser_set_state_def)

lemma parser_ok_reset [inv_intros]:
  "parser_ok def p \<Longrightarrow> def_start_state def < def_states_count def \<Longrightarrow> parser_ok def (parser_reset p)"
  by (simp add: parser_ok_def parser_reset_def)

lemma parser_ok_init [inv_intros]:
  "parser_init ok cls def = Some p \<Longrightarrow> def_start_state def < def_states_count def \<Longrightarrow>
     parser_ok def p"
  by (auto simp: parser_init_def parser_ok_def zero_event_def split: if_splits)

text \<open>
  The transition a state of a total table takes on a byte: the first that matches.
\<close>

definition next_transition :: "parser_definition \<Rightarrow> nat \<Rightarrow> byte \<Rightarrow> parser_state_transition option" where
  "next_transition def st c =
     List.find (transition_matches 0 c) (take (def_states_n def ! st) (def_states def ! st))"

text \<open>A transition of the shape the servers' tables use.\<close>

definition plain_transition :: "nat \<Rightarrow> parser_state_transition \<Rightarrow> bool" where
  "plain_transition count t \<longleftrightarrow>
     (tr_when t \<le> 255 \<or> tr_when t = ANY) \<and> tr_dest t < count \<and> tr_act2 t = None \<and>
     (\<exists>ty. tr_act1 t = Some (put_byte ty) \<or> tr_act1 t = Some (put_none ty))"

lemma plain_on [simp]:
  "plain_transition n (on_any d (put_byte ty)) \<longleftrightarrow> d < n"
  "plain_transition n (on_any d (put_none ty)) \<longleftrightarrow> d < n"
  "w \<le> 255 \<Longrightarrow> plain_transition n (on_byte w d (put_byte ty)) \<longleftrightarrow> d < n"
  by (auto simp: plain_transition_def)

locale total_table =
  fixes def :: parser_definition
  assumes start: "def_start_state def < def_states_count def"
    and count: "length (def_states def) = def_states_count def"
      "length (def_states_n def) = def_states_count def"
    and rows: "st < def_states_count def \<Longrightarrow>
      def_states_n def ! st \<le> length (def_states def ! st) \<and>
      (\<forall>t \<in> set (take (def_states_n def ! st) (def_states def ! st)).
         plain_transition (def_states_count def) t) \<and>
      (\<exists>t \<in> set (take (def_states_n def ! st) (def_states def ! st)). tr_when t = ANY)"
begin

lemma match_loop_plain:
  assumes "n \<le> length ts" and "\<forall>t \<in> set (take n ts). tr_when t \<le> 255 \<or> tr_when t = ANY"
  shows "match_loop ts n type c = Inr (List.find (transition_matches 0 c) (take n ts))"
  using assms
proof (induction ts n type c rule: match_loop.induct)
  case (3 t ts n type c)
  then have "transition_matches type c t = transition_matches 0 c t"
    by (auto simp: transition_matches_def)
  with 3 show ?case by auto
qed auto

lemma next_some:
  assumes "st < def_states_count def"
  shows "\<exists>t. next_transition def st c = Some t \<and> plain_transition (def_states_count def) t"
proof -
  let ?ts = "take (def_states_n def ! st) (def_states def ! st)"
  obtain t where t: "t \<in> set ?ts" "tr_when t = ANY"
    using rows [OF assms] by blast
  then have "List.find (transition_matches 0 c) ?ts \<noteq> None"
    by (auto simp: find_None_iff transition_matches_def ANY_def)
  then obtain u where u: "List.find (transition_matches 0 c) ?ts = Some u" by blast
  then have "u \<in> set ?ts" by (auto simp: find_Some_iff in_set_conv_nth)
  with u show ?thesis using rows [OF assms] by (auto simp: next_transition_def)
qed

text \<open>
  On a total table the engine never faults, raises exactly one event, stays inside the table and
  does not depend on what it reads through the \<^verbatim>\<open>classes\<close> pointer.
\<close>

lemma feed_total:
  assumes "parser_ok def p"
  shows "\<exists>t act p'. next_transition def (p_state p) c = Some t \<and> tr_act1 t = Some act \<and>
     parser_feed p c = Inr p' \<and> parser_ok def p' \<and> p_state p' = tr_dest t \<and>
     p_classes p' = p_classes p \<and> parser_events p' = [p_e1 p'] \<and>
     p_e1 p' = act ((p_e1 p)\<lparr>ev_next := False\<rparr>) c"
proof -
  have st: "p_state p < def_states_count def" and d: "p_def p = def"
    and len: "length (ev_data (p_e1 p)) = 3"
    using assms by (auto simp: parser_ok_def)
  obtain t where t: "next_transition def (p_state p) c = Some t"
    and pl: "plain_transition (def_states_count def) t"
    using next_some [OF st] by blast
  then obtain ty act where act: "tr_act1 t = Some act" "act = put_byte ty \<or> act = put_none ty"
    unfolding plain_transition_def by metis
  have plain: "\<forall>t \<in> set (take (def_states_n def ! p_state p) (def_states def ! p_state p)).
      tr_when t \<le> 255 \<or> tr_when t = ANY"
    using rows [OF st] by (auto simp: plain_transition_def)
  have "match_loop (def_states def ! p_state p) (def_states_n def ! p_state p)
      (p_classes p (unat c)) c = Inr (Some t)"
    using match_loop_plain [OF _ plain] rows [OF st] t by (simp add: next_transition_def)
  with st d t act len pl show ?thesis
    by (auto simp: parser_feed_def count take_transition_def Let_def plain_transition_def
        parser_ok_def parser_events_def)
qed

lemma feed_ok [inv_intros]: "parser_ok def p \<Longrightarrow> parser_feed p c = Inr p' \<Longrightarrow> parser_ok def p'"
  by (metis feed_total sum.inject(2))

lemma feed_no_fault: "parser_ok def p \<Longrightarrow> parser_feed p c \<noteq> Inl e"
  by (metis feed_total sum.distinct(1))

end

text \<open>
  The case every state but one of the servers' tables falls into: a single transition for any
  byte that stores the byte, or stores nothing.
\<close>

lemma feed_single_byte:
  assumes "parser_ok def p" and "length (def_states def) = def_states_count def"
    and "length (def_states_n def) = def_states_count def"
    and "def_states def ! p_state p = [on_any dest (put_byte ty)]"
    and "def_states_n def ! p_state p = 1"
    and "dest < def_states_count def"
  shows "\<exists>p'. parser_feed p c = Inr p' \<and> parser_ok def p' \<and> p_state p' = dest \<and>
     parser_events p' = [p_e1 p'] \<and> ev_type (p_e1 p') = ty \<and> ev_data (p_e1 p') ! 0 = c"
  using assms
  by (auto simp: parser_ok_def parser_feed_def take_transition_def Let_def parser_events_def
      eval_nat_numeral)

text \<open>The parser after such a step, and what it reads back as.\<close>

definition stepped :: "parser \<Rightarrow> byte \<Rightarrow> nat \<Rightarrow> nat \<Rightarrow> parser" where
  "stepped p c ty dest =
     p\<lparr>p_e1 := put_byte ty ((p_e1 p)\<lparr>ev_next := False\<rparr>) c,
       p_e2 := (p_e2 p)\<lparr>ev_next := False\<rparr>, p_state := dest\<rparr>"

lemma feed_row:
  assumes "parser_ok def p" and "p_state p < length (def_states def)"
    and "p_state p < length (def_states_n def)"
    and "def_states def ! p_state p = [on_any dest (put_byte ty)]"
    and "def_states_n def ! p_state p = 1"
  shows "parser_feed p c = Inr (stepped p c ty dest)"
  using assms
  by (auto simp: parser_ok_def parser_feed_def take_transition_def Let_def stepped_def
      eval_nat_numeral)

lemma stepped_sel [simp]:
  "p_state (stepped p c ty dest) = dest"
  "parser_events (stepped p c ty dest) = [p_e1 (stepped p c ty dest)]"
  "ev_type (p_e1 (stepped p c ty dest)) = ty"
  "p_def (stepped p c ty dest) = p_def p"
  by (simp_all add: stepped_def parser_events_def)

lemma stepped_data [simp]:
  "parser_ok def p \<Longrightarrow> arr_get (ev_data (p_e1 (stepped p c ty dest))) 0 = Inr c"
  by (simp add: stepped_def parser_ok_def)

lemma parser_ok_stepped [inv_intros]:
  "parser_ok def p \<Longrightarrow> dest < def_states_count def \<Longrightarrow> parser_ok def (stepped p c ty dest)"
  by (simp add: stepped_def parser_ok_def)

text \<open>Feeding a whole input, one byte at a time.\<close>

fun parser_feed_all :: "parser \<Rightarrow> byte list \<Rightarrow> parser res" where
  "parser_feed_all p [] = Inr p"
| "parser_feed_all p (c # cs) = bindr (parser_feed p c) (\<lambda>p'. parser_feed_all p' cs)"

lemma parser_feed_all_append:
  "parser_feed_all p (xs @ ys) = bindr (parser_feed_all p xs) (\<lambda>p'. parser_feed_all p' ys)"
  by (induction xs arbitrary: p) simp_all

text \<open>
  The class array passed by every parser of the program has 255 entries, and feeding the byte
  255 reads one entry past its end: the offset read by \<^verbatim>\<open>parser_feed\<close> is inside the array
  exactly for the other 255 byte values.
\<close>

lemma no_classes_overread: "unat (c :: byte) < NO_CLASSES_SIZE \<longleftrightarrow> c \<noteq> 255"
proof -
  have "unat c < 256" using unsigned_less [where ?'a = nat, of c] by simp
  moreover have "c = 255 \<longleftrightarrow> unat c = 255"
    by (simp add: word_eq_iff_unsigned [where ?'a = nat])
  ultimately show ?thesis by (auto simp: NO_CLASSES_SIZE_def)
qed

end
