(* ===== verification/Selector.thy ===== *)
theory Selector
  imports Prelude
begin

text \<open>
  The I/O multiplexer of \<^verbatim>\<open>src/src/lib/selector/selector.c\<close>: a table of registered
  descriptors indexed by descriptor, the descriptor sets given to \<^verbatim>\<open>pselect\<close>, and the
  dispatch of ready descriptors to their handlers. The theory is generic in the type of handlers
  and of the data attached to a descriptor; callbacks act on a state \<open>'w\<close> that contains the
  selector. Its contract, a registry of descriptors, is the locale \<open>fd_registry\<close>.
\<close>

section \<open>Data\<close>

datatype selector_status =
    SELECTOR_SUCCESS
  | SELECTOR_ENOMEM
  | SELECTOR_MAXFD
  | SELECTOR_IARGS
  | SELECTOR_FDINUSE
  | SELECTOR_IO

definition selector_error :: "selector_status \<Rightarrow> string" where
  "selector_error status =
     (case status of
        SELECTOR_SUCCESS \<Rightarrow> ''Success''
      | SELECTOR_ENOMEM \<Rightarrow> ''Not enough memory''
      | SELECTOR_MAXFD \<Rightarrow> ''Can't handle any more file descriptors''
      | SELECTOR_IARGS \<Rightarrow> ''Illegal argument''
      | SELECTOR_IO \<Rightarrow> ''I/O error''
      | _ \<Rightarrow> ''something failed'')"

type_synonym fd_interest = "32 word"

definition OP_NOOP :: fd_interest where "OP_NOOP = 0"
definition OP_READ :: fd_interest where "OP_READ = 1"
definition OP_WRITE :: fd_interest where "OP_WRITE = 4"

definition wants :: "fd_interest \<Rightarrow> fd_interest \<Rightarrow> bool" where
  "wants i flag \<longleftrightarrow> i AND flag \<noteq> 0"

definition INTEREST_OFF :: "fd_interest \<Rightarrow> fd_interest \<Rightarrow> fd_interest" where
  "INTEREST_OFF flag m = flag AND (NOT m)"

record ('h, 'd) item =
  it_fd :: int
  it_interest :: fd_interest
  it_handler :: "'h option"
  it_data :: "'d option"

definition FD_UNUSED :: int where "FD_UNUSED = -1"

definition ITEM_USED :: "('h, 'd) item \<Rightarrow> bool" where
  "ITEM_USED it \<longleftrightarrow> FD_UNUSED \<noteq> it_fd it"

text \<open>The table pointer \<^verbatim>\<open>fds\<close> is null exactly when the list is empty.\<close>

record ('h, 'd) fdselector =
  s_fds :: "('h, 'd) item list"
  s_fd_size :: nat
  s_max_fd :: int
  s_master_r :: "int set"
  s_master_w :: "int set"
  s_master_t :: "int \<times> int"
  s_jobs :: "int list"

definition ITEMS_MAX_SIZE :: nat where "ITEMS_MAX_SIZE = 1024"
definition SIZE_MAX :: nat where "SIZE_MAX = 2 ^ 64 - 1"
definition ITEM_SIZE :: nat where "ITEM_SIZE = 24"

section \<open>The table of items\<close>

fun capacity_bits :: "nat \<Rightarrow> nat \<Rightarrow> nat" where
  "capacity_bits tmp bits = (if tmp \<noteq> 0 then capacity_bits (tmp div 2) (bits + 1) else bits)"

declare capacity_bits.simps [simp del]

definition next_capacity :: "nat \<Rightarrow> nat res" where
  "next_capacity n =
     (let bits = capacity_bits n 0 in
      bindr (guardr UndefinedShift (bits < 64)) (\<lambda>_.
        let tmp = 2 ^ bits in
        bindr (guardr AssertFailed (tmp \<ge> n)) (\<lambda>_.
          let tmp = (if tmp > ITEMS_MAX_SIZE then ITEMS_MAX_SIZE else tmp)
          in Inr (tmp + 1))))"

definition zero_item :: "('h, 'd) item" where
  "zero_item = \<lparr>it_fd = 0, it_interest = OP_NOOP, it_handler = None, it_data = None\<rparr>"

definition item_init :: "('h, 'd) item \<Rightarrow> ('h, 'd) item" where
  "item_init it = it\<lparr>it_fd := FD_UNUSED\<rparr>"

definition items_init :: "('h, 'd) fdselector \<Rightarrow> nat \<Rightarrow> ('h, 'd) fdselector res" where
  "items_init s from_idx =
     bindr (guardr AssertFailed (from_idx \<le> s_fd_size s)) (\<lambda>_.
       Inr (s\<lparr>s_fds := take from_idx (s_fds s) @ map item_init (drop from_idx (s_fds s))\<rparr>))"

fun items_max_loop :: "('h, 'd) item list \<Rightarrow> nat list \<Rightarrow> int \<Rightarrow> int res" where
  "items_max_loop fds [] mx = Inr mx"
| "items_max_loop fds (i # is) mx =
     bindr (arr_get fds i) (\<lambda>it.
       items_max_loop fds is (if ITEM_USED it \<and> it_fd it > mx then it_fd it else mx))"

definition items_max_fd :: "('h, 'd) fdselector \<Rightarrow> int res" where
  "items_max_fd s = items_max_loop (s_fds s) [0..<nat (s_max_fd s + 1)] 0"

definition items_update_fdset_for_fd :: "('h, 'd) fdselector \<Rightarrow> ('h, 'd) item \<Rightarrow> ('h, 'd) fdselector" where
  "items_update_fdset_for_fd s it =
     (let r = s_master_r s - {it_fd it}; w = s_master_w s - {it_fd it} in
      if ITEM_USED it then
        s\<lparr>s_master_r := if wants (it_interest it) OP_READ then insert (it_fd it) r else r,
          s_master_w := if wants (it_interest it) OP_WRITE then insert (it_fd it) w else w\<rparr>
      else s\<lparr>s_master_r := r, s_master_w := w\<rparr>)"

text \<open>
  \<open>alloc_ok\<close> says whether the allocator delivers, \<open>junk\<close> what the entries added by
  \<^verbatim>\<open>realloc\<close> hold.
\<close>

definition ensure_capacity :: "bool \<Rightarrow> (nat \<Rightarrow> ('h, 'd) item) \<Rightarrow> ('h, 'd) fdselector \<Rightarrow> nat \<Rightarrow>
    (selector_status \<times> ('h, 'd) fdselector) res" where
  "ensure_capacity alloc_ok junk s n =
     (if n < s_fd_size s then Inr (SELECTOR_SUCCESS, s)
      else if n > ITEMS_MAX_SIZE then Inr (SELECTOR_MAXFD, s)
      else if s_fds s = [] then
        bindr (next_capacity n) (\<lambda>new_size.
          if \<not> alloc_ok then Inr (SELECTOR_ENOMEM, s)
          else
            bindr (items_init (s\<lparr>s_fds := replicate new_size zero_item, s_fd_size := new_size\<rparr>) 0)
              (\<lambda>s'. Inr (SELECTOR_SUCCESS, s')))
      else
        bindr (next_capacity n) (\<lambda>new_size.
          if new_size > SIZE_MAX div ITEM_SIZE then Inr (SELECTOR_ENOMEM, s)
          else if \<not> alloc_ok then Inr (SELECTOR_ENOMEM, s)
          else
            let old_size = s_fd_size s;
                fds = s_fds s @ map junk [length (s_fds s)..<new_size] in
            bindr (items_init (s\<lparr>s_fds := fds, s_fd_size := new_size\<rparr>) old_size)
              (\<lambda>s'. Inr (SELECTOR_SUCCESS, s'))))"

text \<open>\<open>mem_ok\<close> is the outcome of the allocation of the selector, \<open>alloc_ok\<close> that of its table.\<close>

definition selector_new :: "bool \<Rightarrow> bool \<Rightarrow> int \<times> int \<Rightarrow> nat \<Rightarrow> ('h, 'd) fdselector option res" where
  "selector_new mem_ok alloc_ok timeout initial_elements =
     (if \<not> mem_ok then Inr None
      else
        let s = \<lparr>s_fds = [], s_fd_size = 0, s_max_fd = 0, s_master_r = {}, s_master_w = {},
                 s_master_t = timeout, s_jobs = []\<rparr> in
        bindr (ensure_capacity alloc_ok (\<lambda>_. zero_item) s initial_elements) (\<lambda>(st, s').
          Inr (if st \<noteq> SELECTOR_SUCCESS then None else Some s')))"

section \<open>Registration\<close>

definition INVALID_FD :: "int \<Rightarrow> bool" where
  "INVALID_FD fd \<longleftrightarrow> fd < 0 \<or> fd \<ge> int ITEMS_MAX_SIZE"

definition selector_register :: "bool \<Rightarrow> (nat \<Rightarrow> ('h, 'd) item) \<Rightarrow> ('h, 'd) fdselector \<Rightarrow> int \<Rightarrow>
    'h option \<Rightarrow> fd_interest \<Rightarrow> 'd option \<Rightarrow> (selector_status \<times> ('h, 'd) fdselector) res" where
  "selector_register alloc_ok junk s fd handler interest data =
     (if INVALID_FD fd \<or> handler = None then Inr (SELECTOR_IARGS, s)
      else
        let ufd = nat fd in
        bindr (if ufd > s_fd_size s then ensure_capacity alloc_ok junk s ufd
               else Inr (SELECTOR_SUCCESS, s)) (\<lambda>(st, s).
          if st \<noteq> SELECTOR_SUCCESS then Inr (st, s)
          else
            bindr (arr_get (s_fds s) ufd) (\<lambda>it.
              if ITEM_USED it then Inr (SELECTOR_FDINUSE, s)
              else
                let it' = it\<lparr>it_fd := fd, it_handler := handler, it_interest := interest,
                             it_data := data\<rparr>;
                    s' = s\<lparr>s_fds := (s_fds s)[ufd := it'],
                           s_max_fd := if fd > s_max_fd s then fd else s_max_fd s\<rparr>
                in Inr (SELECTOR_SUCCESS, items_update_fdset_for_fd s' it'))))"

text \<open>The part of \<^verbatim>\<open>selector_unregister_fd\<close> after the close callback.\<close>

definition unregister_finish :: "('h, 'd) fdselector \<Rightarrow> int \<Rightarrow> (selector_status \<times> ('h, 'd) fdselector) res" where
  "unregister_finish s fd =
     bindr (arr_get (s_fds s) (nat fd)) (\<lambda>it.
       let it1 = it\<lparr>it_interest := OP_NOOP\<rparr>;
           s1 = items_update_fdset_for_fd s it1;
           s2 = s1\<lparr>s_fds := (s_fds s1)[nat fd := item_init zero_item]\<rparr>
       in bindr (items_max_fd s2) (\<lambda>m. Inr (SELECTOR_SUCCESS, s2\<lparr>s_max_fd := m\<rparr>)))"

text \<open>
  The whole of \<^verbatim>\<open>selector_unregister_fd\<close>. \<open>get\<close> and \<open>put\<close> access the selector inside the
  state; \<open>on_close\<close> gives the close callback of a handler, if it has one.
\<close>

definition selector_unregister_fd ::
  "('w \<Rightarrow> ('h, 'd) fdselector) \<Rightarrow> (('h, 'd) fdselector \<Rightarrow> 'w \<Rightarrow> 'w) \<Rightarrow>
   ('h \<Rightarrow> (int \<times> 'd option \<Rightarrow> 'w \<Rightarrow> 'w res) option) \<Rightarrow> int \<Rightarrow> 'w \<Rightarrow> (selector_status \<times> 'w) res" where
  "selector_unregister_fd get put on_close fd w =
     (if INVALID_FD fd then Inr (SELECTOR_IARGS, w)
      else
        bindr (arr_get (s_fds (get w)) (nat fd)) (\<lambda>it.
          if \<not> ITEM_USED it then Inr (SELECTOR_IARGS, w)
          else
            bindr (deref NullDeref (it_handler it)) (\<lambda>h.
            bindr (case on_close h of None \<Rightarrow> Inr w | Some f \<Rightarrow> f (it_fd it, it_data it) w) (\<lambda>w1.
            bindr (unregister_finish (get w1) fd) (\<lambda>(st, s'). Inr (st, put s' w1))))))"

definition selector_set_interest :: "('h, 'd) fdselector \<Rightarrow> int \<Rightarrow> fd_interest \<Rightarrow>
    (selector_status \<times> ('h, 'd) fdselector) res" where
  "selector_set_interest s fd i =
     (if INVALID_FD fd then Inr (SELECTOR_IARGS, s)
      else
        bindr (arr_get (s_fds s) (nat fd)) (\<lambda>it.
          if \<not> ITEM_USED it then Inr (SELECTOR_IARGS, s)
          else
            let it' = it\<lparr>it_interest := i\<rparr>;
                s' = s\<lparr>s_fds := (s_fds s)[nat fd := it']\<rparr>
            in Inr (SELECTOR_SUCCESS, items_update_fdset_for_fd s' it')))"

definition selector_set_interest_key :: "('h, 'd) fdselector \<Rightarrow> int \<Rightarrow> fd_interest \<Rightarrow>
    (selector_status \<times> ('h, 'd) fdselector) res" where
  "selector_set_interest_key s key_fd i =
     (if INVALID_FD key_fd then Inr (SELECTOR_IARGS, s) else selector_set_interest s key_fd i)"

section \<open>Dispatch\<close>

text \<open>
  One round over the ready descriptors. \<open>rd\<close> and \<open>wr\<close> give the read and write callbacks of
  a handler. The descriptor and the data of the key are taken before the read callback runs; the
  interest and the handler are looked up again for the write callback, as the code does.
\<close>

type_synonym ('h, 'd, 'w) callbacks = "'h \<Rightarrow> (int \<times> 'd option \<Rightarrow> 'w \<Rightarrow> 'w res) option"

definition fire :: "('h, 'd, 'w) callbacks \<Rightarrow> ('h, 'd) item \<Rightarrow> int \<times> 'd option \<Rightarrow> 'w \<Rightarrow> 'w res" where
  "fire cb it key w =
     bindr (deref NullDeref (it_handler it)) (\<lambda>h.
       case cb h of None \<Rightarrow> Inl AssertFailed | Some f \<Rightarrow> f key w)"

definition dispatch_fd ::
  "('w \<Rightarrow> ('h, 'd) fdselector) \<Rightarrow> ('h, 'd, 'w) callbacks \<Rightarrow> ('h, 'd, 'w) callbacks \<Rightarrow>
   int set \<Rightarrow> int set \<Rightarrow> nat \<Rightarrow> 'w \<Rightarrow> 'w res" where
  "dispatch_fd get rd wr slave_r slave_w i w =
     bindr (arr_get (s_fds (get w)) i) (\<lambda>it.
       if \<not> ITEM_USED it then Inr w
       else
         let key = (it_fd it, it_data it) in
         bindr (if it_fd it \<in> slave_r \<and> wants (it_interest it) OP_READ
                then fire rd it key w else Inr w) (\<lambda>w1.
           if int i \<in> slave_w then
             bindr (arr_get (s_fds (get w1)) i) (\<lambda>it1.
               if wants (it_interest it1) OP_WRITE then fire wr it1 key w1 else Inr w1)
           else Inr w1))"

fun handle_iteration_loop ::
  "('w \<Rightarrow> ('h, 'd) fdselector) \<Rightarrow> ('h, 'd, 'w) callbacks \<Rightarrow> ('h, 'd, 'w) callbacks \<Rightarrow>
   int set \<Rightarrow> int set \<Rightarrow> nat list \<Rightarrow> 'w \<Rightarrow> 'w res" where
  "handle_iteration_loop get rd wr slave_r slave_w [] w = Inr w"
| "handle_iteration_loop get rd wr slave_r slave_w (i # is) w =
     bindr (dispatch_fd get rd wr slave_r slave_w i w)
       (handle_iteration_loop get rd wr slave_r slave_w is)"

definition handle_iteration ::
  "('w \<Rightarrow> ('h, 'd) fdselector) \<Rightarrow> ('h, 'd, 'w) callbacks \<Rightarrow> ('h, 'd, 'w) callbacks \<Rightarrow>
   int set \<Rightarrow> int set \<Rightarrow> 'w \<Rightarrow> 'w res" where
  "handle_iteration get rd wr slave_r slave_w w =
     handle_iteration_loop get rd wr slave_r slave_w [0..<nat (s_max_fd (get w) + 1)] w"

text \<open>The notifications of finished blocking jobs; an absent block callback is a null call.\<close>

fun block_loop :: "('w \<Rightarrow> ('h, 'd) fdselector) \<Rightarrow> ('h, 'd, 'w) callbacks \<Rightarrow> int list \<Rightarrow> 'w \<Rightarrow> 'w res" where
  "block_loop get blk [] w = Inr w"
| "block_loop get blk (fd # fds) w =
     bindr (if fd < 0 then Inl OutOfBounds else arr_get (s_fds (get w)) (nat fd)) (\<lambda>it.
     bindr (if ITEM_USED it then
              bindr (deref NullDeref (it_handler it)) (\<lambda>h.
              bindr (deref NullDeref (blk h)) (\<lambda>f. f (it_fd it, it_data it) w))
            else Inr w)
       (block_loop get blk fds))"

definition handle_block_notifications ::
  "('w \<Rightarrow> ('h, 'd) fdselector) \<Rightarrow> (('h, 'd) fdselector \<Rightarrow> 'w \<Rightarrow> 'w) \<Rightarrow> ('h, 'd, 'w) callbacks \<Rightarrow> 'w \<Rightarrow> 'w res" where
  "handle_block_notifications get put blk w =
     bindr (block_loop get blk (s_jobs (get w)) w) (\<lambda>w'.
       Inr (put ((get w')\<lparr>s_jobs := []\<rparr>) w'))"

definition selector_notify_block :: "bool \<Rightarrow> ('h, 'd) fdselector \<Rightarrow> int \<Rightarrow> selector_status \<times> ('h, 'd) fdselector" where
  "selector_notify_block malloc_ok s fd =
     (if malloc_ok then (SELECTOR_SUCCESS, s\<lparr>s_jobs := fd # s_jobs s\<rparr>) else (SELECTOR_ENOMEM, s))"

text \<open>
  The outcome of \<^verbatim>\<open>pselect\<close>: an error number, or the sets of ready descriptors, of which it
  reports only those it was asked about.
\<close>

datatype pselect_result = PselectError int | PselectReady "int set" "int set"

definition EAGAIN :: int where "EAGAIN = 11"
definition EINTR :: int where "EINTR = 4"
definition EBADF :: int where "EBADF = 9"

definition selector_select ::
  "('w \<Rightarrow> ('h, 'd) fdselector) \<Rightarrow> (('h, 'd) fdselector \<Rightarrow> 'w \<Rightarrow> 'w) \<Rightarrow> ('h, 'd, 'w) callbacks \<Rightarrow>
   ('h, 'd, 'w) callbacks \<Rightarrow> ('h, 'd, 'w) callbacks \<Rightarrow> pselect_result \<Rightarrow> 'w \<Rightarrow>
   (selector_status \<times> 'w) res" where
  "selector_select get put rd wr blk result w =
     (case result of
        PselectError err \<Rightarrow>
          if err = EAGAIN \<or> err = EINTR
          then bindr (handle_block_notifications get put blk w) (\<lambda>w'. Inr (SELECTOR_SUCCESS, w'))
          else Inr (SELECTOR_IO, w)
      | PselectReady r wr_set \<Rightarrow>
          bindr (handle_iteration get rd wr (r \<inter> s_master_r (get w)) (wr_set \<inter> s_master_w (get w)) w)
            (\<lambda>w'. bindr (handle_block_notifications get put blk w') (\<lambda>w''. Inr (SELECTOR_SUCCESS, w''))))"

text \<open>Destroying a selector unregisters every descriptor still in the table.\<close>

fun selector_destroy_loop ::
  "('w \<Rightarrow> ('h, 'd) fdselector) \<Rightarrow> (('h, 'd) fdselector \<Rightarrow> 'w \<Rightarrow> 'w) \<Rightarrow> ('h, 'd, 'w) callbacks \<Rightarrow>
   nat list \<Rightarrow> 'w \<Rightarrow> 'w res" where
  "selector_destroy_loop get put on_close [] w = Inr w"
| "selector_destroy_loop get put on_close (i # is) w =
     bindr (arr_get (s_fds (get w)) i) (\<lambda>it.
     bindr (if ITEM_USED it
            then bindr (selector_unregister_fd get put on_close (int i) w) (\<lambda>(_, w'). Inr w')
            else Inr w)
       (selector_destroy_loop get put on_close is))"

definition selector_destroy ::
  "('w \<Rightarrow> ('h, 'd) fdselector) \<Rightarrow> (('h, 'd) fdselector \<Rightarrow> 'w \<Rightarrow> 'w) \<Rightarrow> ('h, 'd, 'w) callbacks \<Rightarrow> 'w \<Rightarrow> 'w res" where
  "selector_destroy get put on_close w =
     bindr (selector_destroy_loop get put on_close [0..<s_fd_size (get w)] w) (\<lambda>w'.
       Inr (put ((get w')\<lparr>s_fds := [], s_fd_size := 0, s_jobs := []\<rparr>) w'))"

section \<open>Invariant and abstraction\<close>

lemma wants_values [simp, exec_simps]:
  "\<not> wants OP_NOOP f" "wants OP_READ OP_READ" "\<not> wants OP_READ OP_WRITE"
  "wants OP_WRITE OP_WRITE" "\<not> wants OP_WRITE OP_READ"
  "wants (OP_READ OR OP_WRITE) OP_READ" "wants (OP_READ OR OP_WRITE) OP_WRITE"
  by (simp_all add: wants_def OP_NOOP_def OP_READ_def OP_WRITE_def)

lemma INVALID_FD_iff: "INVALID_FD fd \<longleftrightarrow> \<not> (0 \<le> fd \<and> fd < 1024)"
  by (auto simp: INVALID_FD_def ITEMS_MAX_SIZE_def)

text \<open>
  The table as a map: what is registered for a descriptor.
\<close>

definition sel_lookup :: "('h, 'd) fdselector \<Rightarrow> int \<Rightarrow> (fd_interest \<times> 'h option \<times> 'd option) option" where
  "sel_lookup s fd =
     (if 0 \<le> fd \<and> nat fd < length (s_fds s) \<and> ITEM_USED (s_fds s ! nat fd)
      then let it = s_fds s ! nat fd in Some (it_interest it, it_handler it, it_data it)
      else None)"

definition interest_set :: "('h, 'd) fdselector \<Rightarrow> fd_interest \<Rightarrow> int set" where
  "interest_set s flag =
     {fd. case sel_lookup s fd of None \<Rightarrow> False | Some (i, _, _) \<Rightarrow> wants i flag}"

text \<open>
  A selector whose table covers every descriptor \<^verbatim>\<open>select\<close> can handle, with each entry at its
  own index, and whose descriptor sets and maximum agree with the table.
\<close>

definition item_ok :: "('h, 'd) fdselector \<Rightarrow> nat \<Rightarrow> ('h, 'd) item \<Rightarrow> bool" where
  "item_ok s i it \<longleftrightarrow> (ITEM_USED it \<longrightarrow>
     it_fd it = int i \<and> i < ITEMS_MAX_SIZE \<and> it_handler it \<noteq> None \<and> int i \<le> s_max_fd s)"

definition selector_ok :: "('h, 'd) fdselector \<Rightarrow> bool" where
  "selector_ok s \<longleftrightarrow>
     length (s_fds s) = s_fd_size s \<and> s_fd_size s = ITEMS_MAX_SIZE + 1 \<and>
     (\<forall>i < length (s_fds s). item_ok s i (s_fds s ! i)) \<and>
     0 \<le> s_max_fd s \<and> s_max_fd s < int ITEMS_MAX_SIZE \<and>
     s_master_r s = interest_set s OP_READ \<and> s_master_w s = interest_set s OP_WRITE"

lemma selector_ok_size: "selector_ok s \<Longrightarrow> length (s_fds s) = 1025 \<and> s_fd_size s = 1025"
  by (simp add: selector_ok_def ITEMS_MAX_SIZE_def)

lemma selector_ok_in_range: "selector_ok s \<Longrightarrow> \<not> INVALID_FD fd \<Longrightarrow> nat fd < length (s_fds s)"
  by (auto simp: INVALID_FD_iff dest!: selector_ok_size)

lemma selector_ok_item: "selector_ok s \<Longrightarrow> i < length (s_fds s) \<Longrightarrow> item_ok s i (s_fds s ! i)"
  by (simp add: selector_ok_def)

lemma sel_lookup_item:
  "\<not> INVALID_FD fd \<Longrightarrow> selector_ok s \<Longrightarrow>
     ITEM_USED (s_fds s ! nat fd) \<longleftrightarrow> sel_lookup s fd \<noteq> None"
  by (auto simp: sel_lookup_def INVALID_FD_iff Let_def dest!: selector_ok_size)

lemma sel_lookup_valid: "selector_ok s \<Longrightarrow> sel_lookup s fd \<noteq> None \<Longrightarrow> \<not> INVALID_FD fd"
  by (auto simp: sel_lookup_def INVALID_FD_def item_ok_def Let_def dest!: selector_ok_item
      split: if_splits)

lemma sel_lookup_SomeD:
  assumes "sel_lookup s fd = Some (i, h, d)"
  shows "0 \<le> fd" "nat fd < length (s_fds s)" "ITEM_USED (s_fds s ! nat fd)"
    "it_interest (s_fds s ! nat fd) = i" "it_handler (s_fds s ! nat fd) = h"
    "it_data (s_fds s ! nat fd) = d"
  using assms by (auto simp: sel_lookup_def Let_def split: if_splits)

subsection \<open>Writing one entry\<close>

definition put_item :: "('h, 'd) fdselector \<Rightarrow> nat \<Rightarrow> ('h, 'd) item \<Rightarrow> ('h, 'd) fdselector" where
  "put_item s i it = s\<lparr>s_fds := (s_fds s)[i := it],
     s_max_fd := if ITEM_USED it \<and> int i > s_max_fd s then int i else s_max_fd s\<rparr>"

lemma update_fdset_sel [simp]:
  "s_fds (items_update_fdset_for_fd s it) = s_fds s"
  "s_fd_size (items_update_fdset_for_fd s it) = s_fd_size s"
  "s_max_fd (items_update_fdset_for_fd s it) = s_max_fd s"
  "s_master_t (items_update_fdset_for_fd s it) = s_master_t s"
  "s_jobs (items_update_fdset_for_fd s it) = s_jobs s"
  by (simp_all add: items_update_fdset_for_fd_def Let_def)

lemma sel_lookup_cong: "s_fds s = s_fds s' \<Longrightarrow> sel_lookup s = sel_lookup s'"
  by (simp add: sel_lookup_def fun_eq_iff)

lemma sel_lookup_put_item:
  assumes "i < length (s_fds s)"
  shows "sel_lookup (put_item s i it) =
     (sel_lookup s)(int i := if ITEM_USED it then Some (it_interest it, it_handler it, it_data it) else None)"
  using assms by (auto simp: sel_lookup_def put_item_def Let_def fun_eq_iff nth_list_update)

lemma put_item_used:
  assumes ok: "selector_ok s" and i: "i < ITEMS_MAX_SIZE"
    and it: "it_fd it = int i" "it_handler it \<noteq> None"
  defines "s' \<equiv> items_update_fdset_for_fd (put_item s i it) it"
  shows "selector_ok s'" and "sel_lookup s' = (sel_lookup s)(int i \<mapsto> (it_interest it, it_handler it, it_data it))"
proof -
  have used: "ITEM_USED it" using it by (simp add: ITEM_USED_def FD_UNUSED_def)
  have len: "i < length (s_fds s)" using ok i by (simp add: selector_ok_def)
  show l: "sel_lookup s' = (sel_lookup s)(int i \<mapsto> (it_interest it, it_handler it, it_data it))"
    using sel_lookup_put_item [OF len, of it] used
      sel_lookup_cong [of s' "put_item s i it"] by (simp add: s'_def)
  have "item_ok s' j (s_fds s' ! j)" if "j < length (s_fds s')" for j
    using selector_ok_item [OF ok, of j] that it i used len
    by (cases "i = j") (auto simp: s'_def put_item_def item_ok_def)
  moreover have "s_master_r s' = interest_set s' OP_READ" "s_master_w s' = interest_set s' OP_WRITE"
    using ok used it(1) unfolding interest_set_def l
    by (auto simp: s'_def items_update_fdset_for_fd_def put_item_def Let_def selector_ok_def
        interest_set_def split: if_splits)
  ultimately show "selector_ok s'"
    using ok i by (auto simp: selector_ok_def s'_def put_item_def)
qed

subsection \<open>The operations on a well-formed selector\<close>

lemma selector_set_interest_ok:
  assumes ok: "selector_ok s" and fd: "sel_lookup s fd = Some (i0, h, d)"
  shows "\<exists>s'. selector_set_interest s fd i = Inr (SELECTOR_SUCCESS, s') \<and> selector_ok s' \<and>
     sel_lookup s' = (sel_lookup s)(fd \<mapsto> (i, h, d)) \<and> s_max_fd s' = s_max_fd s"
proof -
  note it = sel_lookup_SomeD [OF fd]
  let ?it = "(s_fds s ! nat fd)\<lparr>it_interest := i\<rparr>"
  have v: "\<not> INVALID_FD fd" using sel_lookup_valid [OF ok] fd by simp
  then have bound: "nat fd < ITEMS_MAX_SIZE" by (simp add: INVALID_FD_iff ITEMS_MAX_SIZE_def nat_less_iff)
  have iok: "it_fd ?it = int (nat fd)" "it_handler ?it \<noteq> None" "int (nat fd) \<le> s_max_fd s"
    using selector_ok_item [OF ok it(2)] it(3) by (auto simp: item_ok_def)
  have used: "ITEM_USED ?it" using it(3) by (simp add: ITEM_USED_def)
  have eq: "put_item s (nat fd) ?it = s\<lparr>s_fds := (s_fds s)[nat fd := ?it]\<rparr>"
    using iok(3) by (simp add: put_item_def)
  have run: "selector_set_interest s fd i =
      Inr (SELECTOR_SUCCESS, items_update_fdset_for_fd (put_item s (nat fd) ?it) ?it)"
    using v it by (simp add: selector_set_interest_def Let_def eq)
  from put_item_used [OF ok bound iok(1,2)] it(1,4-6) run show ?thesis
    by (auto simp: eq)
qed

lemma selector_set_interest_unused:
  assumes "selector_ok s" and "sel_lookup s fd = None"
  shows "selector_set_interest s fd i = Inr (SELECTOR_IARGS, s)"
proof (cases "INVALID_FD fd")
  case False
  with assms sel_lookup_item [OF False assms(1)] selector_ok_in_range [OF assms(1) False]
  show ?thesis by (simp add: selector_set_interest_def)
qed (simp add: selector_set_interest_def)

lemma selector_set_interest_key_eq: "selector_set_interest_key s fd i = selector_set_interest s fd i"
  by (simp add: selector_set_interest_key_def selector_set_interest_def)

lemma selector_register_fresh:
  assumes ok: "selector_ok s" and v: "\<not> INVALID_FD fd" and free: "sel_lookup s fd = None"
  shows "\<exists>s'. selector_register a j s fd (Some h) i d = Inr (SELECTOR_SUCCESS, s') \<and>
     selector_ok s' \<and> sel_lookup s' = (sel_lookup s)(fd \<mapsto> (i, Some h, d))"
proof -
  let ?it = "(s_fds s ! nat fd)\<lparr>it_fd := fd, it_handler := Some h, it_interest := i, it_data := d\<rparr>"
  from v have fd: "0 \<le> fd" "nat fd < ITEMS_MAX_SIZE"
    by (auto simp: INVALID_FD_iff ITEMS_MAX_SIZE_def)
  have len: "nat fd < length (s_fds s)" using selector_ok_in_range [OF ok v] .
  have unused: "\<not> ITEM_USED (s_fds s ! nat fd)" using sel_lookup_item [OF v ok] free by simp
  have sz: "\<not> nat fd > s_fd_size s" using ok len by (simp add: selector_ok_def)
  have used: "ITEM_USED ?it" using fd by (simp add: ITEM_USED_def FD_UNUSED_def)
  have "selector_register a j s fd (Some h) i d =
      Inr (SELECTOR_SUCCESS, items_update_fdset_for_fd (put_item s (nat fd) ?it) ?it)"
    using v sz len unused fd used by (simp add: selector_register_def Let_def put_item_def)
  moreover note put_item_used [OF ok fd(2), of ?it]
  ultimately show ?thesis using fd by auto
qed

lemma selector_register_inuse:
  assumes ok: "selector_ok s" and v: "\<not> INVALID_FD fd" and used: "sel_lookup s fd \<noteq> None"
  shows "selector_register a j s fd (Some h) i d = Inr (SELECTOR_FDINUSE, s)"
proof -
  have len: "nat fd < length (s_fds s)" using selector_ok_in_range [OF ok v] .
  moreover have "ITEM_USED (s_fds s ! nat fd)" using sel_lookup_item [OF v ok] used by simp
  moreover have "\<not> nat fd > s_fd_size s" using ok len by (simp add: selector_ok_def)
  ultimately show ?thesis using v by (simp add: selector_register_def Let_def)
qed

lemma selector_register_invalid:
  "INVALID_FD fd \<Longrightarrow> selector_register a j s fd h i d = Inr (SELECTOR_IARGS, s)"
  by (simp add: selector_register_def)

lemma items_max_loop_bounds:
  assumes "\<forall>i \<in> set is. i < length fds"
  shows "\<exists>m. items_max_loop fds is mx = Inr m \<and> mx \<le> m \<and>
     (\<forall>i \<in> set is. ITEM_USED (fds ! i) \<longrightarrow> it_fd (fds ! i) \<le> m) \<and>
     (m = mx \<or> (\<exists>i \<in> set is. ITEM_USED (fds ! i) \<and> it_fd (fds ! i) = m))"
  using assms
proof (induction "is" arbitrary: mx)
  case (Cons i "is")
  let ?mx = "if ITEM_USED (fds ! i) \<and> it_fd (fds ! i) > mx then it_fd (fds ! i) else mx"
  have "\<forall>i \<in> set is. i < length fds" using Cons.prems by simp
  from Cons.IH [OF this, of ?mx] obtain m where
    m: "items_max_loop fds is ?mx = Inr m" "?mx \<le> m"
      "\<forall>i \<in> set is. ITEM_USED (fds ! i) \<longrightarrow> it_fd (fds ! i) \<le> m"
      "m = ?mx \<or> (\<exists>i \<in> set is. ITEM_USED (fds ! i) \<and> it_fd (fds ! i) = m)"
    by blast
  have run: "items_max_loop fds (i # is) mx = Inr m" using m(1) Cons.prems by simp
  have "mx \<le> m" "ITEM_USED (fds ! i) \<longrightarrow> it_fd (fds ! i) \<le> m" using m(2) by (auto split: if_splits)
  moreover have "m = mx \<or> (\<exists>j \<in> set (i # is). ITEM_USED (fds ! j) \<and> it_fd (fds ! j) = m)"
    using m(4) by (auto split: if_splits)
  ultimately show ?case using run m(3) by auto
qed simp

lemma unregister_finish_ok:
  assumes ok: "selector_ok s" and fd: "sel_lookup s fd \<noteq> None"
  shows "\<exists>s'. unregister_finish s fd = Inr (SELECTOR_SUCCESS, s') \<and> selector_ok s' \<and>
     sel_lookup s' = (sel_lookup s)(fd := None)"
proof -
  have v: "\<not> INVALID_FD fd" using sel_lookup_valid [OF ok fd] .
  from fd obtain i h d where l: "sel_lookup s fd = Some (i, h, d)" by (cases "sel_lookup s fd") auto
  note it = sel_lookup_SomeD [OF l]
  define it1 where "it1 = (s_fds s ! nat fd)\<lparr>it_interest := OP_NOOP\<rparr>"
  define s1 where "s1 = items_update_fdset_for_fd s it1"
  define free :: "('a, 'b) item" where "free = item_init zero_item"
  define s2 where "s2 = s1\<lparr>s_fds := (s_fds s1)[nat fd := free]\<rparr>"
  have free: "\<not> ITEM_USED free" by (simp add: free_def ITEM_USED_def item_init_def)
  have fdeq: "it_fd it1 = fd"
    using selector_ok_item [OF ok it(2)] it(1,3) by (simp add: item_ok_def it1_def)
  have max0: "0 \<le> s_max_fd s" "s_max_fd s < int ITEMS_MAX_SIZE" and len: "length (s_fds s) = ITEMS_MAX_SIZE + 1"
    using ok by (auto simp: selector_ok_def)
  then have "\<forall>i \<in> set [0..<nat (s_max_fd s + 1)]. i < length (s_fds s2)"
    by (auto simp: s2_def s1_def)
  from items_max_loop_bounds [OF this, of 0] obtain m where
    m: "items_max_fd s2 = Inr m" "0 \<le> m"
      "\<forall>i \<in> set [0..<nat (s_max_fd s + 1)]. ITEM_USED (s_fds s2 ! i) \<longrightarrow> it_fd (s_fds s2 ! i) \<le> m"
      "m = 0 \<or> (\<exists>i \<in> set [0..<nat (s_max_fd s + 1)]. ITEM_USED (s_fds s2 ! i) \<and> it_fd (s_fds s2 ! i) = m)"
    by (auto simp: items_max_fd_def s2_def s1_def)
  have nth: "s_fds s2 ! j = (if j = nat fd then free else s_fds s ! j)" for j
    using it(2) by (auto simp: s2_def s1_def)
  have lk: "sel_lookup (s2\<lparr>s_max_fd := m\<rparr>) = (sel_lookup s)(fd := None)"
    using it(1,2) free by (auto simp: sel_lookup_def fun_eq_iff s2_def s1_def Let_def nth_list_update)
  have items: "item_ok (s2\<lparr>s_max_fd := m\<rparr>) j (s_fds s2 ! j)" if "j < length (s_fds s2)" for j
  proof (cases "j = nat fd")
    case True
    with free show ?thesis by (simp add: nth item_ok_def)
  next
    case False
    have "item_ok s j (s_fds s ! j)" using selector_ok_item [OF ok, of j] that by (simp add: s2_def s1_def)
    with False m(3) [rule_format, of j] show ?thesis by (auto simp: nth item_ok_def)
  qed
  have "m < int ITEMS_MAX_SIZE"
    using m(4) max0 selector_ok_item [OF ok] len free
    by (auto simp: nth item_ok_def ITEMS_MAX_SIZE_def split: if_splits)
  moreover have "s_master_r s2 = s_master_r s - {fd}" "s_master_w s2 = s_master_w s - {fd}"
    using fdeq by (simp_all add: s2_def s1_def items_update_fdset_for_fd_def Let_def)
      (simp_all add: it1_def)
  moreover have "interest_set (s2\<lparr>s_max_fd := m\<rparr>) flag = interest_set s flag - {fd}" for flag
    unfolding interest_set_def lk by auto
  moreover have "s_master_r s = interest_set s OP_READ" "s_master_w s = interest_set s OP_WRITE"
    using ok by (simp_all add: selector_ok_def)
  moreover have "length (s_fds s2) = s_fd_size s2" "s_fd_size s2 = ITEMS_MAX_SIZE + 1"
    using ok by (simp_all add: selector_ok_def s2_def s1_def)
  ultimately have "selector_ok (s2\<lparr>s_max_fd := m\<rparr>)"
    using items m(2) unfolding selector_ok_def by simp
  moreover have "unregister_finish s fd = Inr (SELECTOR_SUCCESS, s2\<lparr>s_max_fd := m\<rparr>)"
    using it(2) m(1) by (simp add: unregister_finish_def Let_def s2_def s1_def it1_def free_def)
  ultimately show ?thesis using lk by blast
qed

lemma selector_unregister_used:
  assumes ok: "selector_ok (get w)" and l: "sel_lookup (get w) fd = Some (i, Some h, d)"
    and close: "(case on_close h of None \<Rightarrow> Inr w | Some f \<Rightarrow> f (fd, d) w) = Inr w1"
    and ok1: "selector_ok (get w1)" and l1: "sel_lookup (get w1) fd \<noteq> None"
  shows "\<exists>s'. selector_unregister_fd get put on_close fd w = Inr (SELECTOR_SUCCESS, put s' w1) \<and>
     selector_ok s' \<and> sel_lookup s' = (sel_lookup (get w1))(fd := None)"
proof -
  note it = sel_lookup_SomeD [OF l]
  have v: "\<not> INVALID_FD fd" using sel_lookup_valid [OF ok] l by simp
  have fd: "it_fd (s_fds (get w) ! nat fd) = fd"
    using selector_ok_item [OF ok it(2)] it(1,3) by (simp add: item_ok_def)
  from unregister_finish_ok [OF ok1 l1] obtain s' where
    "unregister_finish (get w1) fd = Inr (SELECTOR_SUCCESS, s')" "selector_ok s'"
    "sel_lookup s' = (sel_lookup (get w1))(fd := None)" by blast
  moreover from this(1) have
    "selector_unregister_fd get put on_close fd w = Inr (SELECTOR_SUCCESS, put s' w1)"
    using v it close fd
    by (cases "on_close h") (auto simp: selector_unregister_fd_def)
  ultimately show ?thesis by blast
qed

lemma selector_unregister_unused:
  assumes "selector_ok (get w)" and "sel_lookup (get w) fd = None"
  shows "selector_unregister_fd get put on_close fd w = Inr (SELECTOR_IARGS, w)"
proof (cases "INVALID_FD fd")
  case False
  with assms sel_lookup_item [OF False assms(1)] selector_ok_in_range [OF assms(1) False]
  show ?thesis by (simp add: selector_unregister_fd_def)
qed (simp add: selector_unregister_fd_def)

subsection \<open>The selector the servers create\<close>

lemma capacity_bits_0: "capacity_bits 0 b = b"
  by (subst capacity_bits.simps) simp

lemma capacity_bits_step: "n \<noteq> 0 \<Longrightarrow> capacity_bits n b = capacity_bits (n div 2) (Suc b)"
  by (subst capacity_bits.simps) simp

lemma capacity_bits_acc: "capacity_bits n b = capacity_bits n 0 + b"
proof (induction n arbitrary: b rule: less_induct)
  case (less n)
  show ?case
  proof (cases "n = 0")
    case False
    then have "n div 2 < n" by simp
    from less.IH [OF this, of "Suc b"] less.IH [OF this, of "Suc 0"] False show ?thesis
      by (simp add: capacity_bits_step)
  qed (simp add: capacity_bits_0)
qed

text \<open>The slack is the next power of two above the request, capped, and one more.\<close>

lemma capacity_bits_power: "n < 2 ^ capacity_bits n 0 \<and> (0 < n \<longrightarrow> 2 ^ capacity_bits n 0 \<le> 2 * n)"
proof (induction n rule: less_induct)
  case (less n)
  show ?case
  proof (cases "n = 0")
    case False
    then have step: "capacity_bits n 0 = Suc (capacity_bits (n div 2) 0)"
      by (simp add: capacity_bits_step capacity_bits_acc [of "n div 2" "Suc 0"])
    from False have "n div 2 < n" by simp
    from less.IH [OF this] have h: "n div 2 < 2 ^ capacity_bits (n div 2) 0"
      "0 < n div 2 \<Longrightarrow> 2 ^ capacity_bits (n div 2) 0 \<le> 2 * (n div 2)" by auto
    have "2 ^ capacity_bits (n div 2) 0 \<le> n"
      using h(2) False by (cases "n div 2 = 0") (auto simp: capacity_bits_0)
    with h(1) step show ?thesis by simp
  qed (simp add: capacity_bits_0)
qed

lemma next_capacity_server: "512 \<le> n \<Longrightarrow> n \<le> 1024 \<Longrightarrow> next_capacity n = Inr 1025"
proof -
  assume n: "512 \<le> n" "n \<le> 1024"
  let ?b = "capacity_bits n 0"
  have b: "n < 2 ^ ?b" "(2 :: nat) ^ ?b \<le> 2 * n" using capacity_bits_power [of n] n by auto
  have "(2 :: nat) ^ 9 < 2 ^ ?b" using b n by simp
  then have "9 < ?b" by (subst (asm) power_strict_increasing_iff) auto
  then have "(2 :: nat) ^ 10 \<le> 2 ^ ?b" by (intro power_increasing) auto
  moreover have "?b < 64"
  proof -
    have "(2 :: nat) ^ ?b < 2 ^ 64" using b n by simp
    then show ?thesis by (subst (asm) power_strict_increasing_iff) auto
  qed
  ultimately show ?thesis using b by (simp add: next_capacity_def Let_def ITEMS_MAX_SIZE_def)
qed

lemma selector_new_server:
  assumes "512 \<le> n" and "n \<le> 1024"
  shows "\<exists>s. selector_new True True t n = Inr (Some s) \<and> selector_ok s \<and> sel_lookup s = (\<lambda>_. None)"
proof -
  let ?s = "\<lparr>s_fds = map item_init (replicate 1025 zero_item), s_fd_size = 1025, s_max_fd = 0,
    s_master_r = {}, s_master_w = {}, s_master_t = t, s_jobs = []\<rparr>"
  have "selector_new True True t n = Inr (Some ?s)"
    using assms next_capacity_server [OF assms]
    by (simp add: selector_new_def ensure_capacity_def ITEMS_MAX_SIZE_def items_init_def)
  moreover have l: "sel_lookup ?s = (\<lambda>_. None)"
    by (auto simp: sel_lookup_def fun_eq_iff ITEM_USED_def item_init_def nat_less_iff)
  moreover have none: "interest_set ?s flag = {}" for flag
    unfolding interest_set_def l by simp
  moreover have "item_ok ?s i (s_fds ?s ! i)" if "i < length (s_fds ?s)" for i
    using that by (simp add: item_ok_def ITEM_USED_def item_init_def)
  then have "selector_ok ?s"
    unfolding selector_ok_def none by (auto simp: ITEMS_MAX_SIZE_def)
  ultimately show ?thesis by blast
qed

section \<open>The registry interface\<close>

text \<open>What the servers' handlers rely on: a finite map from descriptors to registrations.\<close>

datatype ('h, 'd) registry_op =
    Register int 'h fd_interest 'd
  | SetInterest int fd_interest
  | Unregister int

type_synonym ('h, 'd) registry = "int \<Rightarrow> (fd_interest \<times> 'h option \<times> 'd option) option"

fun registry_op_spec :: "('h, 'd) registry \<Rightarrow> ('h, 'd) registry_op \<Rightarrow> selector_status \<times> ('h, 'd) registry" where
  "registry_op_spec m (Register fd h i d) =
     (if INVALID_FD fd then (SELECTOR_IARGS, m)
      else if m fd \<noteq> None then (SELECTOR_FDINUSE, m)
      else (SELECTOR_SUCCESS, m(fd \<mapsto> (i, Some h, Some d))))"
| "registry_op_spec m (SetInterest fd i) =
     (case m fd of None \<Rightarrow> (SELECTOR_IARGS, m)
      | Some (_, h, d) \<Rightarrow> (SELECTOR_SUCCESS, m(fd \<mapsto> (i, h, d))))"
| "registry_op_spec m (Unregister fd) =
     (case m fd of None \<Rightarrow> (SELECTOR_IARGS, m) | Some _ \<Rightarrow> (SELECTOR_SUCCESS, m(fd := None)))"

fun registry_run_spec :: "('h, 'd) registry \<Rightarrow> ('h, 'd) registry_op list \<Rightarrow> selector_status list \<times> ('h, 'd) registry" where
  "registry_run_spec m [] = ([], m)"
| "registry_run_spec m (op # ops) =
     (let (st, m') = registry_op_spec m op; (sts, m'') = registry_run_spec m' ops in (st # sts, m''))"

fun registry_run :: "('s \<Rightarrow> ('h, 'd) registry_op \<Rightarrow> (selector_status \<times> 's) res) \<Rightarrow> 's \<Rightarrow>
    ('h, 'd) registry_op list \<Rightarrow> (selector_status list \<times> 's) res" where
  "registry_run step s [] = Inr ([], s)"
| "registry_run step s (op # ops) =
     bindr (step s op) (\<lambda>(st, s').
     bindr (registry_run step s' ops) (\<lambda>(sts, s''). Inr (st # sts, s'')))"

locale fd_registry =
  fixes invar :: "'s \<Rightarrow> bool"
    and lookup :: "'s \<Rightarrow> ('h, 'd) registry"
    and step :: "'s \<Rightarrow> ('h, 'd) registry_op \<Rightarrow> (selector_status \<times> 's) res"
  assumes step_ok: "invar s \<Longrightarrow> \<exists>s'. invar s' \<and>
      step s op = Inr (fst (registry_op_spec (lookup s) op), s') \<and>
      lookup s' = snd (registry_op_spec (lookup s) op)"
begin

lemma step_total: "invar s \<Longrightarrow> step s op \<noteq> Inl e"
  by (metis step_ok sum.distinct(1))

lemma run_refines:
  "invar s \<Longrightarrow> \<exists>s'. invar s' \<and>
     registry_run step s ops = Inr (fst (registry_run_spec (lookup s) ops), s') \<and>
     lookup s' = snd (registry_run_spec (lookup s) ops)"
proof (induction ops arbitrary: s)
  case (Cons op ops)
  from step_ok [OF Cons.prems, of op] obtain s1 where s1: "invar s1"
    "step s op = Inr (fst (registry_op_spec (lookup s) op), s1)"
    "lookup s1 = snd (registry_op_spec (lookup s) op)" by blast
  from Cons.IH [OF s1(1)] s1 show ?case by (auto simp: split_beta)
qed simp

text \<open>A registration that was dropped can be made again, and the other descriptors keep theirs.\<close>

lemma drop_then_register:
  assumes "invar s" and "\<not> INVALID_FD fd" and "lookup s fd \<noteq> None"
  shows "\<exists>s'. registry_run step s [Unregister fd, Register fd h i d] =
      Inr ([SELECTOR_SUCCESS, SELECTOR_SUCCESS], s') \<and>
    lookup s' = (lookup s)(fd \<mapsto> (i, Some h, Some d))"
  using run_refines [OF assms(1), of "[Unregister fd, Register fd h i d]"] assms(2,3)
  by (auto simp: split_beta)

end

text \<open>The operations of the selector, seen as such a registry; handlers without a close callback.\<close>

fun selector_step :: "('h, 'd) fdselector \<Rightarrow> ('h, 'd) registry_op \<Rightarrow> (selector_status \<times> ('h, 'd) fdselector) res" where
  "selector_step s (Register fd h i d) = selector_register True (\<lambda>_. zero_item) s fd (Some h) i (Some d)"
| "selector_step s (SetInterest fd i) = selector_set_interest s fd i"
| "selector_step s (Unregister fd) = selector_unregister_fd (\<lambda>s. s) (\<lambda>s _. s) (\<lambda>_. None) fd s"

lemma selector_ok_handler: "selector_ok s \<Longrightarrow> sel_lookup s fd = Some (i, h, d) \<Longrightarrow> h \<noteq> None"
  using sel_lookup_SomeD selector_ok_item by (fastforce simp: item_ok_def)

lemma selector_step_refines:
  assumes ok: "selector_ok s"
  shows "\<exists>s'. selector_ok s' \<and> selector_step s op = Inr (fst (registry_op_spec (sel_lookup s) op), s') \<and>
     sel_lookup s' = snd (registry_op_spec (sel_lookup s) op)"
proof (cases op)
  case (Register fd h i d)
  show ?thesis
  proof (cases "INVALID_FD fd")
    case False
    then show ?thesis
      using Register ok selector_register_fresh [OF ok False] selector_register_inuse [OF ok False]
      by (cases "sel_lookup s fd") fastforce+
  qed (use Register ok in \<open>simp add: selector_register_invalid\<close>)
next
  case (SetInterest fd i)
  show ?thesis
  proof (cases "sel_lookup s fd")
    case None
    with SetInterest ok show ?thesis by (simp add: selector_set_interest_unused)
  next
    case (Some r)
    obtain i0 h d where "r = (i0, h, d)" by (cases r) auto
    with Some SetInterest selector_set_interest_ok [OF ok, of fd i0 h d i] show ?thesis by auto
  qed
next
  case (Unregister fd)
  show ?thesis
  proof (cases "sel_lookup s fd")
    case None
    with Unregister ok show ?thesis by (simp add: selector_unregister_unused)
  next
    case (Some r)
    then obtain i h d where r: "sel_lookup s fd = Some (i, Some h, d)"
      using selector_ok_handler [OF ok] by (cases r) fastforce
    show ?thesis
      using selector_unregister_used [where get = "\<lambda>s. s" and put = "\<lambda>s _. s" and on_close = "\<lambda>_. None",
          OF ok r _ ok] r Unregister by auto
  qed
qed

interpretation sel: fd_registry selector_ok sel_lookup selector_step
  by unfold_locales (rule selector_step_refines)

section \<open>Properties\<close>

text \<open>
  C19. The selector the servers create (\<^verbatim>\<open>selector_new(1000)\<close>) implements a finite map from
  descriptors to registrations: for every sequence of registrations, changes of interest and
  removals, valid or not, no operation leaves the table or trips an assertion, each returns the
  status the map specification gives (\<^verbatim>\<open>SELECTOR_IARGS\<close>, \<^verbatim>\<open>SELECTOR_FDINUSE\<close>,
  \<^verbatim>\<open>SELECTOR_SUCCESS\<close>), the registrations afterwards are those of the map, and the two
  descriptor sets given to \<^verbatim>\<open>pselect\<close> hold exactly the descriptors registered with an
  interest in reading and in writing.
\<close>

theorem selector_refines_registry:
  "\<exists>s s'. selector_new True True t 1000 = Inr (Some s) \<and>
     registry_run selector_step s ops = Inr (fst (registry_run_spec (\<lambda>_. None) ops), s') \<and>
     sel_lookup s' = snd (registry_run_spec (\<lambda>_. None) ops) \<and>
     s_master_r s' = {fd. \<exists>i h d. sel_lookup s' fd = Some (i, h, d) \<and> wants i OP_READ} \<and>
     s_master_w s' = {fd. \<exists>i h d. sel_lookup s' fd = Some (i, h, d) \<and> wants i OP_WRITE}"
proof -
  obtain s :: "('a, 'b) fdselector" where s: "selector_new True True t 1000 = Inr (Some s)"
    "selector_ok s" "sel_lookup s = (\<lambda>_. None)"
    using selector_new_server [of 1000 t] by auto
  from sel.run_refines [OF s(2), of ops] s(3) obtain s' where s': "selector_ok s'"
    "registry_run selector_step s ops = Inr (fst (registry_run_spec (\<lambda>_. None) ops), s')"
    "sel_lookup s' = snd (registry_run_spec (\<lambda>_. None) ops)" by auto
  have sets: "interest_set s' flag = {fd. \<exists>i h d. sel_lookup s' fd = Some (i, h, d) \<and> wants i flag}" for flag
    by (auto simp: interest_set_def split: option.splits)
  have "s_master_r s' = interest_set s' OP_READ" "s_master_w s' = interest_set s' OP_WRITE"
    using s'(1) by (simp_all add: selector_ok_def)
  with s(1) s'(2,3) show ?thesis unfolding sets by blast
qed

text \<open>
  The growth test of \<^verbatim>\<open>selector_register\<close> is off by one: registering the descriptor equal to
  the number of entries does not grow the table and reads the entry just past its end. (The
  servers never get there, because their first table already covers every valid descriptor.)
\<close>

theorem selector_register_off_by_one:
  assumes "length (s_fds s) = s_fd_size s" and "s_fd_size s < ITEMS_MAX_SIZE"
  shows "selector_register True junk s (int (s_fd_size s)) (Some h) i d = Inl OutOfBounds"
  using assms by (simp add: selector_register_def INVALID_FD_def)

theorem selector_register_off_by_one_witness:
  "\<exists>s :: (nat, nat) fdselector. selector_new True True (60, 0) 0 = Inr (Some s) \<and>
     selector_register True (\<lambda>_. zero_item) s 2 (Some 0) OP_READ None = Inl OutOfBounds"
proof -
  let ?s = "\<lparr>s_fds = map item_init (replicate 2 zero_item), s_fd_size = 2, s_max_fd = 0,
    s_master_r = {}, s_master_w = {}, s_master_t = (60, 0), s_jobs = []\<rparr> :: (nat, nat) fdselector"
  have new: "selector_new True True (60, 0) 0 = Inr (Some ?s)"
    by (simp add: selector_new_def ensure_capacity_def next_capacity_def capacity_bits_0
        ITEMS_MAX_SIZE_def items_init_def numeral_2_eq_2)
  from selector_register_off_by_one [of ?s "\<lambda>_. zero_item" 0 OP_READ None] new show ?thesis
    by (simp add: ITEMS_MAX_SIZE_def)
qed

end
