(* ===== verification/Stm.thy ===== *)
theory Stm
  imports Prelude
begin

text \<open>
  The state machine engine of \<^verbatim>\<open>src/src/lib/stm/stm.c\<close>. A machine lives inside the object
  attached to a descriptor, so the engine reads and writes it through an access pair \<open>get\<close>,
  \<open>put\<close>; reading it after the object was freed is a fault. States are described by a table of
  optional callbacks on a key \<open>'k\<close> and a program state \<open>'w\<close>. The laws of the access pair are the
  locale \<open>stm_access\<close>.
\<close>

section \<open>Machines and tables\<close>

record ('k, 'w) state_definition =
  sd_state :: nat
  on_arrival :: "(nat \<Rightarrow> 'k \<Rightarrow> 'w \<Rightarrow> 'w res) option"
  on_departure :: "(nat \<Rightarrow> 'k \<Rightarrow> 'w \<Rightarrow> 'w res) option"
  on_read_ready :: "('k \<Rightarrow> 'w \<Rightarrow> (nat \<times> 'w) res) option"
  on_write_ready :: "('k \<Rightarrow> 'w \<Rightarrow> (nat \<times> 'w) res) option"
  on_block_ready :: "('k \<Rightarrow> 'w \<Rightarrow> (nat \<times> 'w) res) option"

text \<open>The pointer \<^verbatim>\<open>current\<close> into the table is an index, or null.\<close>

record state_machine =
  stm_initial :: nat
  stm_max_state :: nat
  stm_current :: "nat option"

fun stm_init_loop :: "('k, 'w) state_definition list \<Rightarrow> nat list \<Rightarrow> unit res" where
  "stm_init_loop states [] = Inr ()"
| "stm_init_loop states (i # is) =
     bindr (arr_get states i) (\<lambda>sd.
     bindr (guardr Aborted (i = sd_state sd)) (\<lambda>_. stm_init_loop states is))"

definition stm_init :: "('k, 'w) state_definition list \<Rightarrow> state_machine \<Rightarrow> state_machine res" where
  "stm_init states m =
     bindr (stm_init_loop states [0..<stm_max_state m + 1]) (\<lambda>_.
       if stm_initial m < stm_max_state m then Inr (m\<lparr>stm_current := None\<rparr>) else Inl Aborted)"

section \<open>Running callbacks\<close>

definition run_hook :: "(nat \<Rightarrow> 'k \<Rightarrow> 'w \<Rightarrow> 'w res) option \<Rightarrow> nat \<Rightarrow> 'k \<Rightarrow> 'w \<Rightarrow> 'w res" where
  "run_hook hook st key w = (case hook of None \<Rightarrow> Inr w | Some f \<Rightarrow> f st key w)"

lemma run_hook_simps [simp, exec_simps]:
  "run_hook None st key w = Inr w"
  "run_hook (Some f) st key w = f st key w"
  by (simp_all add: run_hook_def)

definition handle_first :: "('w \<Rightarrow> state_machine res) \<Rightarrow> (state_machine \<Rightarrow> 'w \<Rightarrow> 'w) \<Rightarrow>
    ('k, 'w) state_definition list \<Rightarrow> 'k \<Rightarrow> 'w \<Rightarrow> 'w res" where
  "handle_first get put states key w =
     bindr (get w) (\<lambda>m.
       case stm_current m of
         Some _ \<Rightarrow> Inr w
       | None \<Rightarrow>
           let w1 = put (m\<lparr>stm_current := Some (stm_initial m)\<rparr>) w in
           bindr (arr_get states (stm_initial m)) (\<lambda>sd.
             run_hook (on_arrival sd) (sd_state sd) key w1))"

definition jump :: "('w \<Rightarrow> state_machine res) \<Rightarrow> (state_machine \<Rightarrow> 'w \<Rightarrow> 'w) \<Rightarrow>
    ('k, 'w) state_definition list \<Rightarrow> nat \<Rightarrow> 'k \<Rightarrow> 'w \<Rightarrow> 'w res" where
  "jump get put states nxt key w =
     bindr (get w) (\<lambda>m.
       if nxt > stm_max_state m then Inl Aborted
       else if stm_current m = Some nxt then Inr w
       else
         bindr (case stm_current m of
                  None \<Rightarrow> Inr w
                | Some c \<Rightarrow>
                    bindr (arr_get states c) (\<lambda>sd. run_hook (on_departure sd) (sd_state sd) key w)) (\<lambda>w1.
         bindr (get w1) (\<lambda>m1.
           let w2 = put (m1\<lparr>stm_current := Some nxt\<rparr>) w1 in
           bindr (arr_get states nxt) (\<lambda>sd. run_hook (on_arrival sd) (sd_state sd) key w2))))"

text \<open>
  The three event handlers differ only in the callback they select from the current state.
\<close>

definition stm_event :: "(('k, 'w) state_definition \<Rightarrow> ('k \<Rightarrow> 'w \<Rightarrow> (nat \<times> 'w) res) option) \<Rightarrow>
    ('w \<Rightarrow> state_machine res) \<Rightarrow> (state_machine \<Rightarrow> 'w \<Rightarrow> 'w) \<Rightarrow>
    ('k, 'w) state_definition list \<Rightarrow> 'k \<Rightarrow> 'w \<Rightarrow> (nat \<times> 'w) res" where
  "stm_event ready get put states key w =
     bindr (handle_first get put states key w) (\<lambda>w1.
     bindr (get w1) (\<lambda>m.
     bindr (deref NullDeref (stm_current m)) (\<lambda>c.
     bindr (arr_get states c) (\<lambda>sd.
     bindr (deref Aborted (ready sd)) (\<lambda>f.
     bindr (f key w1) (\<lambda>(ret, w2).
     bindr (jump get put states ret key w2) (\<lambda>w3.
       Inr (ret, w3))))))))"

definition stm_handler_read :: "('w \<Rightarrow> state_machine res) \<Rightarrow> (state_machine \<Rightarrow> 'w \<Rightarrow> 'w) \<Rightarrow>
    ('k, 'w) state_definition list \<Rightarrow> 'k \<Rightarrow> 'w \<Rightarrow> (nat \<times> 'w) res" where
  "stm_handler_read = stm_event on_read_ready"

definition stm_handler_write :: "('w \<Rightarrow> state_machine res) \<Rightarrow> (state_machine \<Rightarrow> 'w \<Rightarrow> 'w) \<Rightarrow>
    ('k, 'w) state_definition list \<Rightarrow> 'k \<Rightarrow> 'w \<Rightarrow> (nat \<times> 'w) res" where
  "stm_handler_write = stm_event on_write_ready"

definition stm_handler_block :: "('w \<Rightarrow> state_machine res) \<Rightarrow> (state_machine \<Rightarrow> 'w \<Rightarrow> 'w) \<Rightarrow>
    ('k, 'w) state_definition list \<Rightarrow> 'k \<Rightarrow> 'w \<Rightarrow> (nat \<times> 'w) res" where
  "stm_handler_block = stm_event on_block_ready"

text \<open>
  Closing only looks at the departure callbacks; they are passed as a list, so that a close handler
  can be defined before the table whose callbacks call it.
\<close>

definition stm_handler_close :: "('w \<Rightarrow> state_machine res) \<Rightarrow>
    (nat \<Rightarrow> 'k \<Rightarrow> 'w \<Rightarrow> 'w res) option list \<Rightarrow> 'k \<Rightarrow> 'w \<Rightarrow> 'w res" where
  "stm_handler_close get departures key w =
     bindr (get w) (\<lambda>m.
       case stm_current m of
         None \<Rightarrow> Inr w
       | Some c \<Rightarrow> bindr (arr_get departures c) (\<lambda>hook. run_hook hook c key w))"

definition stm_state :: "state_machine \<Rightarrow> nat" where
  "stm_state m = (case stm_current m of None \<Rightarrow> stm_initial m | Some c \<Rightarrow> c)"

section \<open>Well-formed tables\<close>

definition table_ok :: "('k, 'w) state_definition list \<Rightarrow> bool" where
  "table_ok states \<longleftrightarrow> (\<forall>i < length states. sd_state (states ! i) = i)"

lemma stm_init_loop_ok:
  "table_ok states \<Longrightarrow> \<forall>i \<in> set is. i < length states \<Longrightarrow> stm_init_loop states is = Inr ()"
  by (induction "is") (simp_all add: table_ok_def)

lemma stm_init_ok:
  assumes "table_ok states" and "stm_max_state m < length states" and "stm_initial m < stm_max_state m"
  shows "stm_init states m = Inr (m\<lparr>stm_current := None\<rparr>)"
proof -
  have "stm_init_loop states [0..<stm_max_state m + 1] = Inr ()"
    using assms by (intro stm_init_loop_ok) auto
  with assms(3) show ?thesis by (simp add: stm_init_def)
qed

section \<open>Access to the machine\<close>

locale stm_access =
  fixes get :: "'w \<Rightarrow> state_machine res"
    and put :: "state_machine \<Rightarrow> 'w \<Rightarrow> 'w"
  assumes get_put: "get w = Inr m \<Longrightarrow> get (put m' w) = Inr m'"
begin

lemma jump_stay:
  "get w = Inr m \<Longrightarrow> stm_current m = Some nxt \<Longrightarrow> nxt \<le> stm_max_state m \<Longrightarrow>
     jump get put states nxt key w = Inr w"
  by (simp add: jump_def)

lemma jump_out_of_range:
  "get w = Inr m \<Longrightarrow> stm_max_state m < nxt \<Longrightarrow> jump get put states nxt key w = Inl Aborted"
  by (simp add: jump_def)

lemma jump_move:
  assumes "get w = Inr m" and "stm_current m = Some c" and "c \<noteq> nxt" and "nxt \<le> stm_max_state m"
    and "table_ok states" and "c < length states" and "nxt < length states"
    and "on_departure (states ! c) = None"
  shows "jump get put states nxt key w =
     run_hook (on_arrival (states ! nxt)) nxt key (put (m\<lparr>stm_current := Some nxt\<rparr>) w)"
  using assms by (simp add: jump_def Let_def table_ok_def)

text \<open>With a departure callback that keeps the machine.\<close>

lemma jump_depart:
  assumes "get w = Inr m" and "stm_current m = Some c" and "c \<noteq> nxt" and "nxt \<le> stm_max_state m"
    and "table_ok states" and "c < length states" and "nxt < length states"
    and "on_departure (states ! c) = Some f" and "f c key w = Inr w1" and "get w1 = Inr m"
  shows "jump get put states nxt key w =
     run_hook (on_arrival (states ! nxt)) nxt key (put (m\<lparr>stm_current := Some nxt\<rparr>) w1)"
  using assms by (simp add: jump_def Let_def table_ok_def)

text \<open>
  An event in a state without the callback for it stops the whole program.
\<close>

lemma event_without_callback:
  assumes "get w = Inr m" and "stm_current m = Some c" and "c < length states"
    and "ready (states ! c) = None"
  shows "stm_event ready get put states key w = Inl Aborted"
  using assms by (simp add: stm_event_def handle_first_def)

lemma event_with_callback:
  assumes "get w = Inr m" and "stm_current m = Some c" and "c < length states"
    and "ready (states ! c) = Some f"
  shows "stm_event ready get put states key w =
     bindr (f key w) (\<lambda>(ret, w2). bindr (jump get put states ret key w2) (\<lambda>w3. Inr (ret, w3)))"
  using assms by (simp add: stm_event_def handle_first_def)

text \<open>The first event of a machine runs the arrival callback of its initial state first.\<close>

lemma first_event:
  assumes "get w = Inr m" and "stm_current m = None" and "stm_initial m < length states"
    and "table_ok states"
  shows "stm_event ready get put states key w =
     bindr (run_hook (on_arrival (states ! stm_initial m)) (stm_initial m) key
              (put (m\<lparr>stm_current := Some (stm_initial m)\<rparr>) w)) (\<lambda>w1.
     bindr (get w1) (\<lambda>m.
     bindr (deref NullDeref (stm_current m)) (\<lambda>c.
     bindr (arr_get states c) (\<lambda>sd.
     bindr (deref Aborted (ready sd)) (\<lambda>f.
     bindr (f key w1) (\<lambda>(ret, w2).
     bindr (jump get put states ret key w2) (\<lambda>w3.
       Inr (ret, w3))))))))"
  using assms by (simp add: stm_event_def handle_first_def Let_def table_ok_def)

end

end
