(* ===== verification/Users.thy ===== *)
theory Users
  imports Prelude
begin

text \<open>
  The in-memory user table of \<^verbatim>\<open>src/src/server/users.c\<close>: an array of at most 50 users, the first
  \<^verbatim>\<open>users_size\<close> of which are in use, in the order they were created. Names and passwords are C
  strings (byte lists without the terminating zero) held in arrays of 256 bytes; copying a longer
  string into them is a fault. The abstract specification is a partial map from names to
  passwords and access levels (locale \<open>user_directory\<close>).
\<close>

section \<open>Data\<close>

datatype user_status =
    USERS_OK
  | USERS_INVALID_ACCESS_LEVEL
  | USERS_WRONG_USERNAME
  | USERS_INVALID_USERNAME
  | USERS_WRONG_PASSWORD
  | USERS_INVALID_PASSWORD
  | USERS_USER_ALREADY_EXISTS
  | USERS_USER_NOT_FOUND
  | USERS_MAX_USERS_REACHED
  | USERS_IO_ERROR
  | USERS_NOMEM_ERROR
  | USERS_UNKOWN_ERROR

text \<open>The enumeration is an integer in C, and values outside it reach \<^verbatim>\<open>user_create\<close>.\<close>

type_synonym access_level = int

definition ADMIN :: access_level where "ADMIN = 0"
definition USER :: access_level where "USER = 1"

definition MAX_USERNAME_LEN :: nat where "MAX_USERNAME_LEN = 255"
definition MAX_PASSWORD_LEN :: nat where "MAX_PASSWORD_LEN = 255"
definition MAX_USERS_REGISTERED :: nat where "MAX_USERS_REGISTERED = 50"
definition MINIMUN_PRINTABLE_ASCII :: int where "MINIMUN_PRINTABLE_ASCII = 32"

record user =
  u_name :: "byte list"
  u_pass :: "byte list"
  u_level :: access_level

type_synonym users = "user list"

section \<open>Operations\<close>

fun find_index :: "byte list \<Rightarrow> users \<Rightarrow> nat \<Rightarrow> nat option" where
  "find_index name [] i = None"
| "find_index name (u # us) i = (if u_name u = name then Some i else find_index name us (i + 1))"

text \<open>\<^verbatim>\<open>-1\<close> is None; a null name is None as well.\<close>

definition get_user_index :: "users \<Rightarrow> byte list option \<Rightarrow> nat option" where
  "get_user_index us username =
     (case username of None \<Rightarrow> None | Some name \<Rightarrow> find_index name us 0)"

text \<open>\<^verbatim>\<open>strcpy\<close> into an array of \<open>size\<close> bytes.\<close>

definition strcpy_into :: "nat \<Rightarrow> byte list \<Rightarrow> byte list res" where
  "strcpy_into n s = bindr (guardr OutOfBounds (length s < n)) (\<lambda>_. Inr s)"

definition user_create :: "users \<Rightarrow> byte list option \<Rightarrow> byte list option \<Rightarrow> access_level \<Rightarrow>
    (user_status \<times> users) res" where
  "user_create us username password access_level =
     (case username of None \<Rightarrow> Inr (USERS_INVALID_USERNAME, us)
      | Some name \<Rightarrow>
     (case password of None \<Rightarrow> Inr (USERS_INVALID_PASSWORD, us)
      | Some pass \<Rightarrow>
     if access_level \<noteq> ADMIN \<and> access_level \<noteq> USER then Inr (USERS_INVALID_ACCESS_LEVEL, us)
     else if length us \<ge> MAX_USERS_REGISTERED then Inr (USERS_MAX_USERS_REACHED, us)
     else if get_user_index us (Some name) \<noteq> None then Inr (USERS_USER_ALREADY_EXISTS, us)
     else
       bindr (strcpy_into (MAX_USERNAME_LEN + 1) name) (\<lambda>n.
       bindr (strcpy_into (MAX_PASSWORD_LEN + 1) pass) (\<lambda>p.
         Inr (USERS_OK, us @ [\<lparr>u_name = n, u_pass = p, u_level = access_level\<rparr>])))))"

text \<open>The access level is stored through the output pointer on success only.\<close>

definition user_login :: "users \<Rightarrow> byte list option \<Rightarrow> byte list \<Rightarrow> user_status \<times> access_level option" where
  "user_login us username password =
     (case get_user_index us username of
        None \<Rightarrow> (USERS_USER_NOT_FOUND, None)
      | Some i \<Rightarrow>
          if u_pass (us ! i) = password then (USERS_OK, Some (u_level (us ! i)))
          else (USERS_WRONG_PASSWORD, None))"

text \<open>
  \<^verbatim>\<open>valid_user\<close> walks each string with a pointer that it compares with null; the only way out of
  the loop is a character below 32 (characters are signed), or the end of the array.
\<close>

fun valid_scan :: "byte list \<Rightarrow> user_status res" where
  "valid_scan [] = Inl OutOfBounds"
| "valid_scan (c # cs) = (if sint c < MINIMUN_PRINTABLE_ASCII then Inr USERS_UNKOWN_ERROR else valid_scan cs)"

definition valid_user :: "byte list option \<Rightarrow> byte list option \<Rightarrow> user_status res" where
  "valid_user username password =
     (case username of
        Some mem \<Rightarrow> valid_scan mem
      | None \<Rightarrow> (case password of Some mem \<Rightarrow> valid_scan mem | None \<Rightarrow> Inr USERS_OK))"

definition user_change_password :: "users \<Rightarrow> byte list option \<Rightarrow> byte list option \<Rightarrow>
    (user_status \<times> users) res" where
  "user_change_password us username password =
     (case username of None \<Rightarrow> Inr (USERS_INVALID_USERNAME, us)
      | Some name \<Rightarrow>
     (case password of None \<Rightarrow> Inr (USERS_INVALID_PASSWORD, us)
      | Some pass \<Rightarrow>
     (case get_user_index us (Some name) of None \<Rightarrow> Inr (USERS_USER_NOT_FOUND, us)
      | Some i \<Rightarrow>
          bindr (strcpy_into (MAX_PASSWORD_LEN + 1) pass) (\<lambda>p.
            Inr (USERS_OK, us[i := (us ! i)\<lparr>u_pass := p\<rparr>])))))"

text \<open>Deleting moves the users behind the deleted one forward by one place.\<close>

definition user_delete :: "users \<Rightarrow> byte list option \<Rightarrow> user_status \<times> users" where
  "user_delete us username =
     (case username of None \<Rightarrow> (USERS_INVALID_USERNAME, us)
      | Some name \<Rightarrow>
     (case get_user_index us (Some name) of None \<Rightarrow> (USERS_INVALID_USERNAME, us)
      | Some i \<Rightarrow>
          let moved = (if i < length us - 1
                       then overwrite us i (take (length us - i - 1) (drop (i + 1) us)) else us)
          in (USERS_OK, take (length us - 1) moved)))"

section \<open>Invariant and abstraction\<close>

definition users_ok :: "users \<Rightarrow> bool" where
  "users_ok us \<longleftrightarrow> distinct (map u_name us) \<and> length us \<le> MAX_USERS_REGISTERED \<and>
     (\<forall>u \<in> set us. length (u_name u) \<le> MAX_USERNAME_LEN \<and> length (u_pass u) \<le> MAX_PASSWORD_LEN \<and>
        (u_level u = ADMIN \<or> u_level u = USER))"

type_synonym directory = "byte list \<Rightarrow> (byte list \<times> access_level) option"

definition directory_of :: "users \<Rightarrow> directory" where
  "directory_of us = map_of (map (\<lambda>u. (u_name u, (u_pass u, u_level u))) us)"

lemma directory_of_Nil [simp]: "directory_of [] = Map.empty"
  by (simp add: directory_of_def)

lemma directory_of_Cons [simp]:
  "directory_of (u # us) = (directory_of us)(u_name u \<mapsto> (u_pass u, u_level u))"
  by (simp add: directory_of_def)

lemma find_index_shift: "find_index name us i = map_option ((+) i) (find_index name us 0)"
proof (induction us arbitrary: i)
  case (Cons u us)
  show ?case using Cons [of "Suc i"] Cons [of "Suc 0"] by (simp add: option.map_comp comp_def)
qed simp

lemma find_index_Some:
  "find_index name us 0 = Some i \<Longrightarrow>
     i < length us \<and> u_name (us ! i) = name \<and> (\<forall>j < i. u_name (us ! j) \<noteq> name)"
proof (induction us arbitrary: i)
  case (Cons u us)
  show ?case
  proof (cases "u_name u = name")
    case False
    with Cons.prems obtain k where k: "find_index name us 0 = Some k" "i = Suc k"
      by (auto simp: find_index_shift [of name us "Suc 0"])
    from Cons.IH [OF k(1)] k(2) False show ?thesis
      by (auto simp: less_Suc_eq_0_disj)
  qed (use Cons.prems in auto)
qed simp

lemma find_index_None: "find_index name us i = None \<longleftrightarrow> name \<notin> u_name ` set us"
  by (induction us arbitrary: i) auto

lemma directory_dom: "dom (directory_of us) = u_name ` set us"
  by (simp add: directory_of_def dom_map_of_conv_image_fst image_image)

lemma directory_None: "directory_of us name = None \<longleftrightarrow> name \<notin> u_name ` set us"
  using directory_dom [of us] by blast

lemma directory_of_append:
  "name \<notin> u_name ` set us \<Longrightarrow>
     directory_of (us @ [\<lparr>u_name = name, u_pass = p, u_level = l\<rparr>]) = (directory_of us)(name \<mapsto> (p, l))"
  by (induction us) (auto simp: fun_upd_twist)

lemma directory_at_index:
  assumes "find_index name us 0 = Some i"
  shows "directory_of us name = Some (u_pass (us ! i), u_level (us ! i))"
  using assms
proof (induction us arbitrary: i)
  case (Cons u us)
  show ?case
  proof (cases "u_name u = name")
    case False
    with Cons.prems obtain k where "find_index name us 0 = Some k" "i = Suc k"
      by (auto simp: find_index_shift [of name us "Suc 0"])
    with Cons.IH False show ?thesis by auto
  qed (use Cons.prems in auto)
qed simp

lemma directory_update:
  assumes "find_index name us 0 = Some i"
  shows "directory_of (us[i := (us ! i)\<lparr>u_pass := p\<rparr>]) =
     (directory_of us)(name \<mapsto> (p, u_level (us ! i)))"
  using assms
proof (induction us arbitrary: i)
  case (Cons u us)
  show ?case
  proof (cases "u_name u = name")
    case False
    with Cons.prems obtain k where "find_index name us 0 = Some k" "i = Suc k"
      by (auto simp: find_index_shift [of name us "Suc 0"])
    with Cons.IH False show ?thesis by (auto simp: fun_upd_twist)
  qed (use Cons.prems in auto)
qed simp

lemma delete_list_eq:
  assumes "i < length us"
  shows "take (length us - 1)
      (if i < length us - 1 then overwrite us i (take (length us - i - 1) (drop (i + 1) us)) else us) =
    take i us @ drop (Suc i) us"
  using assms by (auto simp: overwrite_def not_less take_Cons' intro: nth_equalityI)

lemma directory_delete:
  assumes "distinct (map u_name us)" and "find_index name us 0 = Some i"
  shows "directory_of (take i us @ drop (Suc i) us) = (directory_of us)(name := None)"
  using assms
proof (induction us arbitrary: i)
  case (Cons u us)
  show ?case
  proof (cases "u_name u = name")
    case True
    with Cons.prems show ?thesis by (auto simp: directory_None fun_eq_iff)
  next
    case False
    with Cons.prems obtain k where "find_index name us 0 = Some k" "i = Suc k"
      by (auto simp: find_index_shift [of name us "Suc 0"])
    with Cons.IH Cons.prems(1) False show ?thesis by (auto simp: fun_upd_twist)
  qed
qed simp

lemma distinct_delete: "distinct (map u_name us) \<Longrightarrow> distinct (map u_name (take i us @ drop (Suc i) us))"
proof -
  assume d: "distinct (map u_name us)"
  have "set (map u_name (take i us)) \<inter> set (map u_name (drop (Suc i) us)) = {}"
    using set_take_disj_set_drop_if_distinct [OF d, of i "Suc i"] by (simp add: take_map drop_map)
  with d show ?thesis by (simp add: distinct_take distinct_drop flip: take_map drop_map)
qed

lemma directory_card: "distinct (map u_name us) \<Longrightarrow> card (dom (directory_of us)) = length us"
  by (metis directory_dom distinct_card length_map set_map)

section \<open>The directory interface\<close>

datatype user_op =
    CreateUser "byte list" "byte list" access_level
  | LoginUser "byte list" "byte list"
  | ChangePassword "byte list" "byte list"
  | DeleteUser "byte list"

text \<open>What each operation does to a partial map, and its answer.\<close>

fun directory_spec :: "directory \<Rightarrow> user_op \<Rightarrow> user_status \<times> directory" where
  "directory_spec m (CreateUser name pass level) =
     (if level \<noteq> ADMIN \<and> level \<noteq> USER then (USERS_INVALID_ACCESS_LEVEL, m)
      else if card (dom m) \<ge> MAX_USERS_REGISTERED then (USERS_MAX_USERS_REACHED, m)
      else if m name \<noteq> None then (USERS_USER_ALREADY_EXISTS, m)
      else (USERS_OK, m(name \<mapsto> (pass, level))))"
| "directory_spec m (LoginUser name pass) =
     (case m name of None \<Rightarrow> (USERS_USER_NOT_FOUND, m)
      | Some (p, _) \<Rightarrow> (if p = pass then USERS_OK else USERS_WRONG_PASSWORD, m))"
| "directory_spec m (ChangePassword name pass) =
     (case m name of None \<Rightarrow> (USERS_USER_NOT_FOUND, m)
      | Some (_, l) \<Rightarrow> (USERS_OK, m(name \<mapsto> (pass, l))))"
| "directory_spec m (DeleteUser name) =
     (case m name of None \<Rightarrow> (USERS_INVALID_USERNAME, m) | Some _ \<Rightarrow> (USERS_OK, m(name := None)))"

fun op_fits :: "user_op \<Rightarrow> bool" where
  "op_fits (CreateUser name pass level) \<longleftrightarrow>
     length name \<le> MAX_USERNAME_LEN \<and> length pass \<le> MAX_PASSWORD_LEN"
| "op_fits (LoginUser name pass) \<longleftrightarrow> True"
| "op_fits (ChangePassword name pass) \<longleftrightarrow> length pass \<le> MAX_PASSWORD_LEN"
| "op_fits (DeleteUser name) \<longleftrightarrow> True"

fun directory_run_spec :: "directory \<Rightarrow> user_op list \<Rightarrow> user_status list \<times> directory" where
  "directory_run_spec m [] = ([], m)"
| "directory_run_spec m (op # ops) =
     (let (st, m') = directory_spec m op; (sts, m'') = directory_run_spec m' ops in (st # sts, m''))"

fun user_run :: "('s \<Rightarrow> user_op \<Rightarrow> (user_status \<times> 's) res) \<Rightarrow> 's \<Rightarrow> user_op list \<Rightarrow>
    (user_status list \<times> 's) res" where
  "user_run step s [] = Inr ([], s)"
| "user_run step s (op # ops) =
     bindr (step s op) (\<lambda>(st, s').
     bindr (user_run step s' ops) (\<lambda>(sts, s''). Inr (st # sts, s'')))"

locale user_directory =
  fixes invar :: "'s \<Rightarrow> bool"
    and dir :: "'s \<Rightarrow> directory"
    and step :: "'s \<Rightarrow> user_op \<Rightarrow> (user_status \<times> 's) res"
  assumes step_ok: "invar s \<Longrightarrow> op_fits op \<Longrightarrow>
      \<exists>s'. invar s' \<and> step s op = Inr (fst (directory_spec (dir s) op), s') \<and>
        dir s' = snd (directory_spec (dir s) op)"
begin

lemma run_refines:
  "invar s \<Longrightarrow> \<forall>op \<in> set ops. op_fits op \<Longrightarrow>
     \<exists>s'. invar s' \<and> user_run step s ops = Inr (fst (directory_run_spec (dir s) ops), s') \<and>
       dir s' = snd (directory_run_spec (dir s) ops)"
proof (induction ops arbitrary: s)
  case (Cons op ops)
  from step_ok [OF Cons.prems(1), of op] Cons.prems(2) obtain s1 where s1: "invar s1"
    "step s op = Inr (fst (directory_spec (dir s) op), s1)"
    "dir s1 = snd (directory_spec (dir s) op)" by auto
  from Cons.IH [OF s1(1)] Cons.prems(2) s1 show ?case by (auto simp: split_beta)
qed simp

lemma created_can_login:
  assumes "invar s" and "op_fits (CreateUser name pass level)"
    and "step s (CreateUser name pass level) = Inr (USERS_OK, s')"
  shows "\<exists>s''. step s' (LoginUser name pw) =
      Inr (if pw = pass then USERS_OK else USERS_WRONG_PASSWORD, s'')"
proof -
  from step_ok [OF assms(1,2)] assms(3) have s': "invar s'"
    "dir s' = snd (directory_spec (dir s) (CreateUser name pass level))"
    "fst (directory_spec (dir s) (CreateUser name pass level)) = USERS_OK" by auto
  from s'(2,3) have "dir s' name = Some (pass, level)" by (auto split: if_splits)
  with step_ok [OF s'(1), of "LoginUser name pw"] show ?thesis by auto
qed

lemma deleted_cannot_login:
  assumes "invar s" and "step s (DeleteUser name) = Inr (USERS_OK, s')"
  shows "\<exists>s''. step s' (LoginUser name pw) = Inr (USERS_USER_NOT_FOUND, s'')"
proof -
  from step_ok [OF assms(1), of "DeleteUser name"] assms(2) have s': "invar s'"
    "dir s' = snd (directory_spec (dir s) (DeleteUser name))"
    "fst (directory_spec (dir s) (DeleteUser name)) = USERS_OK" by auto
  from s'(2,3) have "dir s' name = None" by (auto split: option.splits)
  with step_ok [OF s'(1), of "LoginUser name pw"] show ?thesis by auto
qed

end

section \<open>The table implements the directory\<close>

fun users_step :: "users \<Rightarrow> user_op \<Rightarrow> (user_status \<times> users) res" where
  "users_step us (CreateUser name pass level) = user_create us (Some name) (Some pass) level"
| "users_step us (LoginUser name pass) = Inr (fst (user_login us (Some name) pass), us)"
| "users_step us (ChangePassword name pass) = user_change_password us (Some name) (Some pass)"
| "users_step us (DeleteUser name) = Inr (user_delete us (Some name))"

lemma users_step_create:
  assumes ok: "users_ok us" and fits: "op_fits (CreateUser name pass level)"
  shows "\<exists>us'. users_ok us' \<and> user_create us (Some name) (Some pass) level =
       Inr (fst (directory_spec (directory_of us) (CreateUser name pass level)), us') \<and>
     directory_of us' = snd (directory_spec (directory_of us) (CreateUser name pass level))"
proof -
  have card: "card (dom (directory_of us)) = length us"
    using ok by (simp add: users_ok_def directory_card)
  have idx: "get_user_index us (Some name) \<noteq> None \<longleftrightarrow> directory_of us name \<noteq> None"
    by (simp add: get_user_index_def find_index_None directory_None)
  show ?thesis
  proof (cases "(level = ADMIN \<or> level = USER) \<and> length us < MAX_USERS_REGISTERED \<and>
      directory_of us name = None")
    case True
    let ?us = "us @ [\<lparr>u_name = name, u_pass = pass, u_level = level\<rparr>]"
    have "name \<notin> u_name ` set us" using True by (simp add: directory_None)
    then have "users_ok ?us" and "directory_of ?us = (directory_of us)(name \<mapsto> (pass, level))"
      using ok fits True by (auto simp: users_ok_def directory_of_append)
    then show ?thesis
      using True card idx fits by (auto simp: user_create_def strcpy_into_def)
  next
    case False
    then show ?thesis using card idx ok by (auto simp: user_create_def)
  qed
qed

lemma users_step_change:
  assumes ok: "users_ok us" and fits: "op_fits (ChangePassword name pass)"
  shows "\<exists>us'. users_ok us' \<and> user_change_password us (Some name) (Some pass) =
       Inr (fst (directory_spec (directory_of us) (ChangePassword name pass)), us') \<and>
     directory_of us' = snd (directory_spec (directory_of us) (ChangePassword name pass))"
proof (cases "find_index name us 0")
  case None
  then have "directory_of us name = None" by (simp add: find_index_None directory_None)
  with None ok show ?thesis by (simp add: user_change_password_def get_user_index_def)
next
  case (Some i)
  let ?us = "us[i := (us ! i)\<lparr>u_pass := pass\<rparr>]"
  have i: "i < length us" using find_index_Some [OF Some] by simp
  have "map u_name ?us = map u_name us" using i by (simp add: map_update list_update_same_conv)
  moreover have "us ! i \<in> set us" using i by simp
  ultimately have "users_ok ?us"
    using ok fits i by (auto simp: users_ok_def dest!: set_update_subset_insert [THEN subsetD])
  with directory_update [OF Some, of pass] directory_at_index [OF Some] Some fits show ?thesis
    by (auto simp: user_change_password_def get_user_index_def strcpy_into_def)
qed

lemma users_step_delete:
  assumes ok: "users_ok us"
  shows "\<exists>us'. users_ok us' \<and> user_delete us (Some name) =
       (fst (directory_spec (directory_of us) (DeleteUser name)), us') \<and>
     directory_of us' = snd (directory_spec (directory_of us) (DeleteUser name))"
proof (cases "find_index name us 0")
  case None
  then have "directory_of us name = None" by (simp add: find_index_None directory_None)
  with None ok show ?thesis by (simp add: user_delete_def get_user_index_def)
next
  case (Some i)
  let ?us = "take i us @ drop (Suc i) us"
  have i: "i < length us" using find_index_Some [OF Some] by simp
  have d: "distinct (map u_name us)" using ok by (simp add: users_ok_def)
  have "set ?us \<subseteq> set us" by (auto dest: in_set_takeD in_set_dropD)
  then have "users_ok ?us"
    using ok i distinct_delete [OF d, of i] by (auto simp: users_ok_def)
  with directory_delete [OF d Some] directory_at_index [OF Some] Some delete_list_eq [OF i]
  show ?thesis by (auto simp: user_delete_def get_user_index_def Let_def)
qed

lemma users_step_login:
  "users_ok us \<Longrightarrow> fst (user_login us (Some name) pass) =
     fst (directory_spec (directory_of us) (LoginUser name pass)) \<and>
   snd (directory_spec (directory_of us) (LoginUser name pass)) = directory_of us"
proof (cases "find_index name us 0")
  case None
  moreover from None have "directory_of us name = None" by (simp add: find_index_None directory_None)
  ultimately show ?thesis by (simp add: user_login_def get_user_index_def)
next
  case (Some i)
  with directory_at_index [OF Some] show ?thesis by (simp add: user_login_def get_user_index_def)
qed

interpretation users: user_directory users_ok directory_of users_step
proof unfold_locales
  fix us op assume "users_ok us" and "op_fits op"
  then show "\<exists>us'. users_ok us' \<and> users_step us op = Inr (fst (directory_spec (directory_of us) op), us') \<and>
      directory_of us' = snd (directory_spec (directory_of us) op)"
    using users_step_create users_step_change users_step_delete users_step_login
    by (cases op) auto
qed

lemma users_ok_Nil: "users_ok []"
  by (simp add: users_ok_def)

text \<open>A login succeeds exactly with the password the directory holds.\<close>

lemma user_login_OK_iff:
  "users_ok us \<Longrightarrow> fst (user_login us (Some name) pass) = USERS_OK \<longleftrightarrow>
     (\<exists>l. directory_of us name = Some (pass, l))"
  using users_step_login [of us name pass] by (auto split: option.splits if_splits)

text \<open>
  A string in memory always ends in a zero byte, below 32, so the scan never accepts.
\<close>

lemma valid_scan_terminated: "0 \<in> set mem \<Longrightarrow> valid_scan mem = Inr USERS_UNKOWN_ERROR"
  by (induction mem) (auto simp: MINIMUN_PRINTABLE_ASCII_def)

lemma valid_user_never_ok: "0 \<in> set mem \<Longrightarrow> valid_user (Some mem) password = Inr USERS_UNKOWN_ERROR"
  by (simp add: valid_user_def valid_scan_terminated)

section \<open>Properties\<close>

text \<open>
  C20. The user table implements a bounded directory: starting empty, any sequence of creations,
  logins, password changes and deletions with names and passwords of at most 255 bytes runs
  without a fault, gives exactly the statuses of a partial map from names to passwords and access
  levels with at most 50 entries, leaves a table that represents that map, and keeps the names
  distinct.
\<close>

theorem users_refine_directory:
  assumes "\<forall>op \<in> set ops. op_fits op"
  shows "\<exists>us. user_run users_step [] ops = Inr (fst (directory_run_spec Map.empty ops), us) \<and>
     directory_of us = snd (directory_run_spec Map.empty ops) \<and>
     distinct (map u_name us) \<and> length us \<le> MAX_USERS_REGISTERED"
  using users.run_refines [OF users_ok_Nil assms] by (auto simp: users_ok_def)

theorem users_refine_directory_witness:
  "\<exists>us. user_run users_step []
      [CreateUser [97] [120] USER, CreateUser [98] [121] ADMIN, DeleteUser [97], LoginUser [98] [121],
       LoginUser [97] [120]] =
     Inr ([USERS_OK, USERS_OK, USERS_OK, USERS_OK, USERS_USER_NOT_FOUND], us)"
proof -
  let ?ops = "[CreateUser [97] [120] USER, CreateUser [98] [121] ADMIN, DeleteUser [97],
    LoginUser [98] [121], LoginUser [97] [120]]"
  have fits: "\<forall>op \<in> set ?ops. op_fits op"
    by (simp add: MAX_USERNAME_LEN_def MAX_PASSWORD_LEN_def)
  from users_refine_directory [OF fits] show ?thesis
    by (auto simp: Let_def ADMIN_def USER_def MAX_USERS_REGISTERED_def split_beta)
qed

text \<open>
  \<^verbatim>\<open>user_create\<close> checks the capacity and the name but not the lengths: a new name or a
  password of more than 255 bytes (the command line accepts any length) is copied past the end of
  the 256-byte array of the new entry.
\<close>

theorem user_create_overflow:
  assumes "level = ADMIN \<or> level = USER" and "length us < MAX_USERS_REGISTERED"
    and "name \<notin> u_name ` set us" and "length name > 255 \<or> length pass > 255"
  shows "user_create us (Some name) (Some pass) level = Inl OutOfBounds"
proof -
  have "get_user_index us (Some name) = None"
    using assms(3) by (simp add: get_user_index_def find_index_None)
  then show ?thesis
    using assms
    by (cases "length name < 256")
      (auto simp: user_create_def strcpy_into_def MAX_USERNAME_LEN_def MAX_PASSWORD_LEN_def)
qed

theorem user_create_overflow_witness:
  "user_create [] (Some (replicate 256 65)) (Some [120]) USER = Inl OutOfBounds"
  using user_create_overflow [of USER "[]" "replicate 256 65" "[120]"]
  by (simp add: MAX_USERS_REGISTERED_def)

end
