(* ===== verification/Auth_Methods.thy ===== *)
theory Auth_Methods
  imports Prelude
begin

text \<open>
  The table of accepted authentication methods of \<^verbatim>\<open>src/src/server/auth_utils.c\<close>: an array of
  255 signed bytes closed by -1, read by \<open>accepted_method\<close> and rewritten in place by
  \<open>change_auth_methods\<close>. The argument of the latter is the array of pointers the monitor
  parser fills (\<^verbatim>\<open>uint8_t **arguments\<close>), whose cells start uninitialised.
\<close>

section \<open>The table\<close>

definition MAX_BUFFER_SIZE :: nat where "MAX_BUFFER_SIZE = 255"
definition HELLO_AUTH_NO_AUTH :: int where "HELLO_AUTH_NO_AUTH = 0"
definition HELLO_AUTH_USER_PASS :: int where "HELLO_AUTH_USER_PASS = 2"
definition HELLO_AUTH_NO_METHOD_ACCEPTED :: int where "HELLO_AUTH_NO_METHOD_ACCEPTED = 255"
definition DEFAULT_METHOD :: int where "DEFAULT_METHOD = HELLO_AUTH_USER_PASS"

datatype auth_status_t = AUTH_OK | AUTH_ERROR

text \<open>An \<^verbatim>\<open>int8_t\<close> is a byte read by \<open>sint\<close>.\<close>

type_synonym methods = "byte list"

definition accepted_methods_init :: methods where
  "accepted_methods_init = replicate MAX_BUFFER_SIZE 0"

text \<open>A cell of the argument array: never written, null, or a pointer to a malloc'ed string.\<close>

datatype arg_cell = CellUninit | CellNull | CellPtr "byte list"

definition supported_method :: "int \<Rightarrow> bool" where
  "supported_method m \<longleftrightarrow> m = HELLO_AUTH_NO_AUTH \<or> m = HELLO_AUTH_USER_PASS"

text \<open>
  The loop of \<open>change_auth_methods\<close> from index \<open>i\<close> on, with the cells from \<open>i\<close> on. An
  unsupported method returns at once and leaves the entries stored so far in the table.
\<close>

fun change_loop :: "arg_cell list \<Rightarrow> nat \<Rightarrow> methods \<Rightarrow> (auth_status_t \<times> methods) res" where
  "change_loop [] i ms = Inl OutOfBounds"
| "change_loop (CellUninit # cells) i ms = Inl Uninitialised"
| "change_loop (CellNull # cells) i ms = bindr (arr_set ms i (-1)) (\<lambda>ms'. Inr (AUTH_OK, ms'))"
| "change_loop (CellPtr s # cells) i ms =
     bindr (arr_get s 0) (\<lambda>c.
       if \<not> supported_method (sint c) then Inr (AUTH_ERROR, ms)
       else bindr (arr_set ms i c) (\<lambda>ms'. change_loop cells (i + 1) ms'))"

definition change_auth_methods :: "arg_cell list option \<Rightarrow> methods \<Rightarrow> (auth_status_t \<times> methods) res" where
  "change_auth_methods new_methods ms =
     (case new_methods of
        None \<Rightarrow>
          bindr (arr_set ms 0 (word_of_int DEFAULT_METHOD)) (\<lambda>ms'.
          bindr (arr_set ms' 1 (-1)) (\<lambda>ms''. Inr (AUTH_OK, ms'')))
      | Some cells \<Rightarrow> change_loop cells 0 ms)"

text \<open>
  The search. The index is an \<^verbatim>\<open>int8_t\<close>: after entry 127 it wraps to -128, which is outside the
  array, so only the first 128 entries can be read.
\<close>

definition INT8_ENTRIES :: nat where "INT8_ENTRIES = 128"

fun accepted_scan :: "int \<Rightarrow> byte \<Rightarrow> bool \<Rightarrow> byte list \<Rightarrow> bool res" where
  "accepted_scan method current found [] =
     (if sint current \<noteq> -1 \<and> \<not> found then Inl OutOfBounds else Inr found)"
| "accepted_scan method current found (c # rest) =
     (if sint current \<noteq> -1 \<and> \<not> found
      then accepted_scan method c (method = sint current) rest
      else Inr found)"

definition accepted_method :: "methods \<Rightarrow> int \<Rightarrow> bool res" where
  "accepted_method ms method =
     (if method < 0 then Inr False
      else bindr (arr_get ms 0) (\<lambda>current.
             accepted_scan method current False (drop 1 (take INT8_ENTRIES ms))))"

section \<open>What the table means\<close>

definition method_set :: "methods \<Rightarrow> int set" where
  "method_set ms = sint ` set (takeWhile (\<lambda>c. c \<noteq> -1) ms)"

text \<open>The table is closed within the part the search can reach.\<close>

definition methods_ok :: "methods \<Rightarrow> bool" where
  "methods_ok ms \<longleftrightarrow> length ms = MAX_BUFFER_SIZE \<and> -1 \<in> set (take INT8_ENTRIES ms)"

lemma sint_minus_one_iff [simp]: "sint (c :: byte) = -1 \<longleftrightarrow> c = -1"
  by (metis signed_minus_1 sint_sbintrunc' signed_word_eqI)

lemma sint_byte_eqs: "sint (c :: byte) = 0 \<longleftrightarrow> c = 0" "sint (c :: byte) = 2 \<longleftrightarrow> c = 2"
proof -
  have "sint (2 :: byte) = 2" "sint (0 :: byte) = 0" by simp_all
  then show "sint c = 0 \<longleftrightarrow> c = 0" "sint c = 2 \<longleftrightarrow> c = 2" by (metis signed_word_eqI)+
qed

lemma accepted_scan_found [simp]: "accepted_scan m c True rest = Inr True"
  by (cases rest) auto

lemma accepted_scan_correct:
  assumes "-1 \<in> set (c # rest)"
  shows "accepted_scan m c False rest = Inr (m \<in> sint ` set (takeWhile (\<lambda>c. c \<noteq> -1) (c # rest)))"
  using assms
proof (induction rest arbitrary: c)
  case Nil
  then show ?case by simp
next
  case (Cons d rest)
  show ?case
  proof (cases "c = -1 \<or> m = sint c")
    case True
    then show ?thesis by auto
  next
    case False
    with Cons.prems have "-1 \<in> set (d # rest)" by auto
    from Cons.IH [OF this] False show ?thesis by auto
  qed
qed

lemma takeWhile_take:
  "\<exists>x\<in>set (take n xs). \<not> P x \<Longrightarrow> takeWhile P (take n xs) = takeWhile P xs"
  by (metis append_take_drop_id takeWhile_append1)

lemma accepted_method_correct:
  assumes "methods_ok ms" and "0 \<le> m"
  shows "accepted_method ms m = Inr (m \<in> method_set ms)"
proof -
  from assms(1) have len: "length ms = 255" and stop: "-1 \<in> set (take 128 ms)"
    by (simp_all add: methods_ok_def MAX_BUFFER_SIZE_def INT8_ENTRIES_def)
  from len obtain c rest where ms: "take 128 ms = c # rest"
    by (cases "take 128 ms") auto
  from ms have hd: "arr_get ms 0 = Inr c" and tl: "drop 1 (take 128 ms) = rest"
    using len by (auto simp: arr_get_def) (metis nth_Cons_0 nth_take zero_less_numeral)
  have tw: "takeWhile (\<lambda>c. c \<noteq> -1) (c # rest) = takeWhile (\<lambda>c. c \<noteq> -1) ms"
    unfolding ms [symmetric] using stop by (intro takeWhile_take) auto
  from accepted_scan_correct [of c rest m] stop assms(2) show ?thesis
    by (simp add: accepted_method_def hd tl INT8_ENTRIES_def method_set_def ms tw
        del: takeWhile.simps)
qed

lemma accepted_method_negative: "m < 0 \<Longrightarrow> accepted_method ms m = Inr False"
  by (simp add: accepted_method_def)

lemma change_default:
  "length ms = MAX_BUFFER_SIZE \<Longrightarrow> change_auth_methods None ms = Inr (AUTH_OK, ms[0 := 2, 1 := -1])"
  by (simp add: change_auth_methods_def MAX_BUFFER_SIZE_def DEFAULT_METHOD_def
      HELLO_AUTH_USER_PASS_def)

lemma two_cells: "2 \<le> length xs \<Longrightarrow> \<exists>a b rest. xs = a # b # rest"
  by (cases xs; cases "tl xs") auto

lemma default_methods:
  assumes "length ms = MAX_BUFFER_SIZE" and "change_auth_methods None ms = Inr (st, ms')"
  shows "methods_ok ms'" and "method_set ms' = {HELLO_AUTH_USER_PASS}"
proof -
  from assms have ms': "ms' = ms[0 := 2, 1 := -1]" by (simp add: change_default)
  from assms(1) obtain a b rest where ms: "ms = a # b # rest"
    using two_cells [of ms] by (auto simp: MAX_BUFFER_SIZE_def)
  show "methods_ok ms'" using assms(1) by (simp add: ms' ms methods_ok_def INT8_ENTRIES_def)
  show "method_set ms' = {HELLO_AUTH_USER_PASS}"
    by (simp add: ms' ms method_set_def HELLO_AUTH_USER_PASS_def)
qed

text \<open>Installing a list of supported methods, and what a rejected list leaves behind.\<close>

lemma change_loop_accepts:
  assumes "\<forall>s \<in> set strs. s \<noteq> [] \<and> supported_method (sint (hd s))"
    and "i + length strs < length ms"
  shows "change_loop (map CellPtr strs @ CellNull # rest) i ms =
     Inr (AUTH_OK, overwrite ms i (map hd strs @ [-1]))"
  using assms
proof (induction strs arbitrary: i ms)
  case Nil
  then show ?case
    by (simp add: overwrite_def upd_conv_take_nth_drop)
next
  case (Cons s strs)
  then obtain c s' where s: "s = c # s'" by (cases s) auto
  have step: "change_loop (map CellPtr (s # strs) @ CellNull # rest) i ms =
      change_loop (map CellPtr strs @ CellNull # rest) (i + 1) (ms[i := c])"
    using Cons.prems by (simp add: s)
  have "overwrite (ms[i := c]) (i + 1) (map hd strs @ [-1]) = overwrite ms i (c # map hd strs @ [-1])"
    using Cons.prems by (simp add: overwrite_def take_list_update_snoc)
  with Cons.IH [of "i + 1" "ms[i := c]"] Cons.prems show ?case by (simp add: step s)
qed

lemma change_loop_rejects:
  assumes "\<forall>s \<in> set strs. s \<noteq> [] \<and> supported_method (sint (hd s))"
    and "i + length strs < length ms" and "\<not> supported_method (sint bad)"
  shows "change_loop (map CellPtr strs @ CellPtr (bad # s') # rest) i ms =
     Inr (AUTH_ERROR, overwrite ms i (map hd strs))"
  using assms
proof (induction strs arbitrary: i ms)
  case Nil
  then show ?case by (simp add: overwrite_def)
next
  case (Cons s strs)
  then obtain c t where s: "s = c # t" by (cases s) auto
  have "overwrite (ms[i := c]) (i + 1) (map hd strs) = overwrite ms i (c # map hd strs)"
    using Cons.prems by (simp add: overwrite_def take_list_update_snoc)
  with Cons.IH [of "i + 1" "ms[i := c]"] Cons.prems show ?case by (simp add: s)
qed

text \<open>Installing \<open>n\<close> supported methods makes exactly those accepted, from then on.\<close>

theorem change_auth_methods_installs:
  assumes "length ms = MAX_BUFFER_SIZE" and "length strs < INT8_ENTRIES"
    and "\<forall>s \<in> set strs. s \<noteq> [] \<and> supported_method (sint (hd s))"
  shows "\<exists>ms'. change_auth_methods (Some (map CellPtr strs @ CellNull # rest)) ms = Inr (AUTH_OK, ms') \<and>
     (\<forall>m. accepted_method ms' m = Inr (m \<in> sint ` hd ` set strs))"
proof -
  let ?ms = "overwrite ms 0 (map hd strs @ [-1])"
  have len: "length strs < 128" "length ms = 255"
    using assms(1,2) by (simp_all add: MAX_BUFFER_SIZE_def INT8_ENTRIES_def)
  have run: "change_auth_methods (Some (map CellPtr strs @ CellNull # rest)) ms = Inr (AUTH_OK, ?ms)"
    using change_loop_accepts [OF assms(3), of 0 ms rest] len by (simp add: change_auth_methods_def)
  have no_end: "-1 \<notin> set (map hd strs)"
  proof
    assume "-1 \<in> set (map hd strs)"
    then obtain s where s: "s \<in> set strs" and hd: "hd s = -1" by auto
    from assms(3) s have "supported_method (sint (hd s))" by blast
    then have "supported_method (sint (-1 :: byte))" unfolding hd .
    then show False by (simp add: supported_method_def HELLO_AUTH_NO_AUTH_def HELLO_AUTH_USER_PASS_def)
  qed
  have ok: "methods_ok ?ms"
    using len by (simp add: methods_ok_def MAX_BUFFER_SIZE_def INT8_ENTRIES_def overwrite_def take_Cons')
  have "takeWhile (\<lambda>c. c \<noteq> -1) ?ms = map hd strs"
    using no_end takeWhile_append2 [of "map hd strs" "\<lambda>c. c \<noteq> -1" "- 1 # drop (Suc (length strs)) ms"]
    by (auto simp: overwrite_def)
  then have set: "method_set ?ms = sint ` hd ` set strs" by (simp add: method_set_def)
  have "accepted_method ?ms m = Inr (m \<in> sint ` hd ` set strs)" for m
  proof (cases "0 \<le> m")
    case True
    then show ?thesis using accepted_method_correct [OF ok] set by simp
  next
    case False
    with assms(3) have "m \<notin> sint ` hd ` set strs"
      by (auto simp: supported_method_def HELLO_AUTH_NO_AUTH_def HELLO_AUTH_USER_PASS_def)
    with False show ?thesis by (simp add: accepted_method_negative)
  qed
  with run show ?thesis by blast
qed

theorem change_auth_methods_installs_witness:
  "\<exists>ms'. change_auth_methods (Some (map CellPtr [[2, 0], [0, 0]] @ CellNull # [])) accepted_methods_init =
      Inr (AUTH_OK, ms') \<and> (\<forall>m. accepted_method ms' m = Inr (m \<in> sint ` hd ` set [[2 :: byte, 0], [0, 0]]))"
  by (rule change_auth_methods_installs)
    (auto simp: accepted_methods_init_def INT8_ENTRIES_def supported_method_def
      HELLO_AUTH_NO_AUTH_def HELLO_AUTH_USER_PASS_def)

text \<open>
  C29. A rejected list is not without effect: its leading supported methods have replaced the
  first entries, so after \<^verbatim>\<open>[0, 5]\<close> was refused on the default table the server accepts
  clients without authentication.
\<close>

theorem rejected_change_opens_access:
  assumes "length ms = MAX_BUFFER_SIZE" and "change_auth_methods None ms = Inr (AUTH_OK, ms1)"
    and "bad \<noteq> 0" and "bad \<noteq> 2"
  shows "accepted_method ms1 HELLO_AUTH_NO_AUTH = Inr False \<and>
     (\<exists>ms2. change_auth_methods (Some (CellPtr [0, 0] # CellPtr [bad, 0] # rest)) ms1 = Inr (AUTH_ERROR, ms2) \<and>
        accepted_method ms2 HELLO_AUTH_NO_AUTH = Inr True)"
proof -
  note d = default_methods [OF assms(1,2)]
  have ms1: "ms1 = ms[0 := 2, 1 := -1]" using assms(1,2) by (simp add: change_default)
  have before: "accepted_method ms1 HELLO_AUTH_NO_AUTH = Inr False"
    using accepted_method_correct [OF d(1), of HELLO_AUTH_NO_AUTH] d(2)
    by (simp add: HELLO_AUTH_NO_AUTH_def HELLO_AUTH_USER_PASS_def)
  have bad: "\<not> supported_method (sint bad)"
    using assms(3,4) by (simp add: supported_method_def HELLO_AUTH_NO_AUTH_def
        HELLO_AUTH_USER_PASS_def sint_byte_eqs)
  have len: "length ms1 = 255" using assms(1) by (simp add: ms1 MAX_BUFFER_SIZE_def)
  then obtain a b r where ms1': "ms1 = a # b # r"
    using two_cells [of ms1] by auto
  have run: "change_auth_methods (Some (CellPtr [0, 0] # CellPtr [bad, 0] # rest)) ms1 =
      Inr (AUTH_ERROR, 0 # b # r)"
    using bad by (simp add: change_auth_methods_def ms1' supported_method_def HELLO_AUTH_NO_AUTH_def)
  have b: "b = -1" using ms1 ms1' by (cases ms; cases "tl ms") auto
  have "methods_ok (0 # b # r)" using len ms1' b by (simp add: methods_ok_def MAX_BUFFER_SIZE_def INT8_ENTRIES_def)
  from accepted_method_correct [OF this, of HELLO_AUTH_NO_AUTH]
  have "accepted_method (0 # b # r) HELLO_AUTH_NO_AUTH = Inr True"
    by (simp add: method_set_def HELLO_AUTH_NO_AUTH_def)
  with before run show ?thesis by blast
qed

theorem rejected_change_opens_access_witness:
  "\<exists>ms1. accepted_method ms1 HELLO_AUTH_NO_AUTH = Inr False \<and>
     (\<exists>ms2. change_auth_methods (Some (CellPtr [0, 0] # CellPtr [5, 0] # [CellNull])) ms1 = Inr (AUTH_ERROR, ms2) \<and>
        accepted_method ms2 HELLO_AUTH_NO_AUTH = Inr True)"
  using rejected_change_opens_access [OF _ change_default, of accepted_methods_init 5 "[CellNull]"]
  by (auto simp: accepted_methods_init_def)

end
