(* ===== verification/Stats.thy ===== *)
theory Stats
  imports Prelude
begin

text \<open>
  The counters of \<^verbatim>\<open>src/src/server/monitor/stats.c\<close>. They are \<^verbatim>\<open>size_t\<close>, 64 bits wide, and wrap.
\<close>

type_synonym u64 = "64 word"

record stats =
  historic_connections :: u64
  current_connections :: u64
  transferred_bytes :: u64

definition stats_init :: stats where
  "stats_init = \<lparr>historic_connections = 0, current_connections = 0, transferred_bytes = 0\<rparr>"

definition increment_current_connections :: "stats \<Rightarrow> stats" where
  "increment_current_connections st =
     st\<lparr>historic_connections := historic_connections st + 1,
        current_connections := current_connections st + 1\<rparr>"

definition decrement_current_connections :: "stats \<Rightarrow> stats" where
  "decrement_current_connections st = st\<lparr>current_connections := current_connections st - 1\<rparr>"

definition add_transferred_bytes :: "u64 \<Rightarrow> stats \<Rightarrow> stats" where
  "add_transferred_bytes n st = st\<lparr>transferred_bytes := transferred_bytes st + n\<rparr>"

lemma decrement_increment:
  "decrement_current_connections (increment_current_connections st) =
     st\<lparr>historic_connections := historic_connections st + 1\<rparr>"
  by (simp add: decrement_current_connections_def increment_current_connections_def)

end
