(* ===== verification/World.thy ===== *)
theory World
  imports Buffer Parser Selector Stm Users Auth_Methods Stats
begin

text \<open>
  The state of the running server: the objects attached to descriptors
  (\<^verbatim>\<open>client_t\<close> of \<^verbatim>\<open>client_utils.h\<close>, \<^verbatim>\<open>monitor_t\<close> of \<^verbatim>\<open>active_monitor.h\<close>), the selector, the
  global tables, \<^verbatim>\<open>errno\<close>, and a trace of what the server did to its sockets. What the
  operating system answers during one event is the record \<open>env\<close>, an argument of every handler.
  Calls of the logger are left out: they do not touch this state.
\<close>

section \<open>Parsers attached to a client\<close>

record hello_parser_t =
  hp_ver :: byte
  hp_nmethods :: byte
  hp_methods :: "byte list"
  hp_methods_read :: byte
  hp_method_selected :: byte
  hp_p :: "parser option"

record auth_parser_t =
  ap_ver :: byte
  ap_ulen :: byte
  ap_uname :: "byte list"
  ap_uname_read :: byte
  ap_plen :: byte
  ap_passwd :: "byte list"
  ap_passwd_read :: byte
  ap_auth_status :: byte
  ap_auth_done :: bool
  ap_p :: "parser option"

text \<open>An address with its family; \<open>ai_host\<close> holds 4 or 16 bytes.\<close>

record addrinfo =
  ai_family :: int
  ai_host :: "byte list"
  ai_port :: "16 word"

definition AF_INET :: int where "AF_INET = 2"
definition AF_INET6 :: int where "AF_INET6 = 10"

record request_parser_t =
  rp_p :: "parser option"
  rp_atyp :: byte
  rp_cmd :: byte
  rp_addr_len :: byte
  rp_addr_read :: byte
  rp_port_read :: byte
  rp_addr :: "byte list"
  rp_ipv4 :: "byte list"
  rp_ipv6 :: "byte list"
  rp_port :: "16 word"
  rp_reply_status :: byte

datatype parser_state_t = NO_PARSER | HELLO_PARSER | AUTH_PARSER | REQUEST_PARSER

text \<open>
  The union of the parsers: which member was stored last. Reading another member than that one
  is a fault (\<open>Uninitialised\<close>), so every proof that a handler runs shows it does not happen.
\<close>

datatype parser_union =
    P_none
  | P_hello hello_parser_t
  | P_auth auth_parser_t
  | P_request request_parser_t

definition MAX_BUFFER :: nat where "MAX_BUFFER = 16384"

text \<open>A pending name resolution (\<^verbatim>\<open>struct gaicb\<close>).\<close>

record gaicb =
  ar_name :: "byte list option"
  ar_service :: "byte list"

text \<open>
  \<open>c_dest_addr\<close> is the list from the address the pointer \<^verbatim>\<open>dest_addr\<close> points at on; the empty
  list is the null pointer. \<open>c_dest_addr_base\<close> likewise.
\<close>

record client_t =
  c_stm :: state_machine
  c_client_fd :: int
  c_destination_fd :: int
  c_active_parser :: parser_state_t
  c_parser :: parser_union
  c_client_buffer :: buffer
  c_destiny_buffer :: buffer
  c_dest_addr :: "addrinfo list"
  c_dest_addr_base :: "addrinfo list"
  c_dns_req :: "gaicb option"
  c_err :: byte
  c_client_closed :: bool
  c_dest_closed :: bool
  c_dest_addr_from_gai :: bool

section \<open>Parsers attached to a monitor connection\<close>

record monitor_auth_parser_t =
  map_ulen :: byte
  map_plen :: byte
  map_uname_read :: byte
  map_passwd_read :: byte
  map_uname :: "byte list"
  map_passwd :: "byte list"
  map_p :: "parser option"

datatype monitor_req_status_t = MONITOR_REQ_STATUS_OK | MONITOR_REQ_STATUS_ERR

record monitor_req_parser_t =
  mrq_type :: byte
  mrq_arguments_read :: byte
  mrq_current_argument_length :: byte
  mrq_current_argument_read :: byte
  mrq_req_status :: monitor_req_status_t
  mrq_arguments :: "arg_cell list option"
  mrq_access_level :: access_level
  mrq_stats :: stats
  mrq_p :: "parser option"

datatype monitor_parser_state_t = NO_PARSER_MONITOR | AUTH_PARSER_MONITOR | REQ_PARSER

datatype monitor_union = M_none | M_auth monitor_auth_parser_t | M_req monitor_req_parser_t

record monitor_t =
  m_stm :: state_machine
  m_user_access_level :: access_level
  m_error :: byte
  m_active_parser :: monitor_parser_state_t
  m_parser :: monitor_union

section \<open>The world\<close>

datatype fd_handler = MASTER_HANDLER | CLIENT_HANDLER | PASSIVE_MONITOR_HANDLER | ACTIVE_MONITOR_HANDLER

datatype attachment = ClientPtr nat | MonitorPtr nat

text \<open>The key given to a callback: the descriptor and the attached data.\<close>

type_synonym key = "int \<times> attachment option"

datatype action =
    Recv int "byte list"
  | Sent int "byte list"
  | Closed int
  | Shutdown int
  | Connecting int addrinfo

record world =
  w_sel :: "(fd_handler, attachment) fdselector"
  w_clients :: "nat \<Rightarrow> client_t option"
  w_monitors :: "nat \<Rightarrow> monitor_t option"
  w_next :: nat
  w_stats :: stats
  w_users :: users
  w_methods :: methods
  w_errno :: int
  w_trace :: "action list"

section \<open>What the operating system answers\<close>

text \<open>
  The bytes waiting in a socket (none: the peer has closed), or an error; how many bytes \<^verbatim>\<open>send\<close>
  takes at most, or an error; the result of \<^verbatim>\<open>connect\<close>.
\<close>

datatype recv_answer = Avail "byte list" | RecvErr int
datatype send_answer = Takes nat | SendErr int
datatype connect_answer = Connected | ConnectErr int
datatype accept_answer = Accepted int | AcceptErr int

datatype alloc_site =
  A_client | A_monitor | A_parser | A_addrinfo | A_gaicb | A_service | A_name | A_hints | A_arguments | A_argument | A_selector

record env =
  e_recv :: "int \<Rightarrow> recv_answer"
  e_send :: "nat \<Rightarrow> int \<Rightarrow> send_answer"
  e_alloc :: "alloc_site \<Rightarrow> bool"
  e_junk :: "nat \<Rightarrow> byte"
  e_stray :: "nat \<Rightarrow> int"
  e_so_error :: "int option"
  e_socket :: "nat \<Rightarrow> int"
  e_connect :: "nat \<Rightarrow> connect_answer"
  e_sockname :: "addrinfo option"
  e_gai_start :: bool
  e_gai_error :: int
  e_gai_result :: "addrinfo list"
  e_accept_interrupts :: nat
  e_accept :: accept_answer
  e_realloc_junk :: "nat \<Rightarrow> (fd_handler, attachment) item"

definition emit :: "action \<Rightarrow> world \<Rightarrow> world" where
  "emit a w = w\<lparr>w_trace := w_trace w @ [a]\<rparr>"

definition EINPROGRESS :: int where "EINPROGRESS = 115"
definition EALREADY :: int where "EALREADY = 114"

text \<open>\<^verbatim>\<open>EWOULDBLOCK\<close> is \<^verbatim>\<open>EAGAIN\<close> on this platform.\<close>

definition would_block :: "world \<Rightarrow> bool" where
  "would_block w \<longleftrightarrow> w_errno w = EAGAIN"

definition sys_recv :: "env \<Rightarrow> int \<Rightarrow> nat \<Rightarrow> world \<Rightarrow> int \<times> byte list \<times> world" where
  "sys_recv env fd n w =
     (case e_recv env fd of
        Avail bs \<Rightarrow> (int (length (take n bs)), take n bs, emit (Recv fd (take n bs)) w)
      | RecvErr e \<Rightarrow> (-1, [], w\<lparr>w_errno := e\<rparr>))"

definition sys_send :: "env \<Rightarrow> int \<Rightarrow> byte list \<Rightarrow> world \<Rightarrow> int \<times> world" where
  "sys_send env fd bs w =
     (case e_send env (length (w_trace w)) fd of
        Takes k \<Rightarrow> (int (length (take k bs)), emit (Sent fd (take k bs)) w)
      | SendErr e \<Rightarrow> (-1, w\<lparr>w_errno := e\<rparr>))"

definition sys_close :: "int \<Rightarrow> world \<Rightarrow> world" where
  "sys_close fd w = emit (Closed fd) w"

definition sys_shutdown :: "int \<Rightarrow> world \<Rightarrow> world" where
  "sys_shutdown fd w = emit (Shutdown fd) w"

section \<open>Objects\<close>

definition attached_client :: "key \<Rightarrow> nat res" where
  "attached_client key =
     (case snd key of
        None \<Rightarrow> Inl NullDeref
      | Some (ClientPtr a) \<Rightarrow> Inr a
      | Some (MonitorPtr _) \<Rightarrow> Inl Uninitialised)"

definition attached_monitor :: "key \<Rightarrow> nat res" where
  "attached_monitor key =
     (case snd key of
        None \<Rightarrow> Inl NullDeref
      | Some (MonitorPtr a) \<Rightarrow> Inr a
      | Some (ClientPtr _) \<Rightarrow> Inl Uninitialised)"

definition get_client :: "nat \<Rightarrow> world \<Rightarrow> client_t res" where
  "get_client a w = deref UseAfterFree (w_clients w a)"

definition put_client :: "nat \<Rightarrow> client_t \<Rightarrow> world \<Rightarrow> world" where
  "put_client a c w = w\<lparr>w_clients := (w_clients w)(a := Some c)\<rparr>"

definition upd_client :: "nat \<Rightarrow> (client_t \<Rightarrow> client_t) \<Rightarrow> world \<Rightarrow> world res" where
  "upd_client a f w = bindr (get_client a w) (\<lambda>c. Inr (put_client a (f c) w))"

definition free_client :: "nat \<Rightarrow> world \<Rightarrow> world" where
  "free_client a w = w\<lparr>w_clients := (w_clients w)(a := None)\<rparr>"

definition get_monitor :: "nat \<Rightarrow> world \<Rightarrow> monitor_t res" where
  "get_monitor a w = deref UseAfterFree (w_monitors w a)"

definition put_monitor :: "nat \<Rightarrow> monitor_t \<Rightarrow> world \<Rightarrow> world" where
  "put_monitor a m w = w\<lparr>w_monitors := (w_monitors w)(a := Some m)\<rparr>"

definition upd_monitor :: "nat \<Rightarrow> (monitor_t \<Rightarrow> monitor_t) \<Rightarrow> world \<Rightarrow> world res" where
  "upd_monitor a f w = bindr (get_monitor a w) (\<lambda>m. Inr (put_monitor a (f m) w))"

definition free_monitor :: "nat \<Rightarrow> world \<Rightarrow> world" where
  "free_monitor a w = w\<lparr>w_monitors := (w_monitors w)(a := None)\<rparr>"

text \<open>The members of the unions.\<close>

definition hello_of :: "client_t \<Rightarrow> hello_parser_t res" where
  "hello_of c = (case c_parser c of P_hello hp \<Rightarrow> Inr hp | _ \<Rightarrow> Inl Uninitialised)"

definition auth_of :: "client_t \<Rightarrow> auth_parser_t res" where
  "auth_of c = (case c_parser c of P_auth ap \<Rightarrow> Inr ap | _ \<Rightarrow> Inl Uninitialised)"

definition request_of :: "client_t \<Rightarrow> request_parser_t res" where
  "request_of c = (case c_parser c of P_request rp \<Rightarrow> Inr rp | _ \<Rightarrow> Inl Uninitialised)"

definition mauth_of :: "monitor_t \<Rightarrow> monitor_auth_parser_t res" where
  "mauth_of m = (case m_parser m of M_auth p \<Rightarrow> Inr p | _ \<Rightarrow> Inl Uninitialised)"

definition mreq_of :: "monitor_t \<Rightarrow> monitor_req_parser_t res" where
  "mreq_of m = (case m_parser m of M_req p \<Rightarrow> Inr p | _ \<Rightarrow> Inl Uninitialised)"

definition set_parser :: "nat \<Rightarrow> parser_union \<Rightarrow> world \<Rightarrow> world res" where
  "set_parser a u w = upd_client a (\<lambda>c. c\<lparr>c_parser := u\<rparr>) w"

text \<open>The string in a character array, read up to its zero byte.\<close>

definition string_at :: "byte list \<Rightarrow> byte list res" where
  "string_at arr = bindr (guardr OutOfBounds (has_nul arr)) (\<lambda>_. Inr (cstr arr))"

section \<open>Selector calls of the handlers\<close>

text \<open>The handlers ignore the returned status.\<close>

definition set_interest :: "int \<Rightarrow> fd_interest \<Rightarrow> world \<Rightarrow> world res" where
  "set_interest fd i w =
     bindr (selector_set_interest (w_sel w) fd i) (\<lambda>(_, s). Inr (w\<lparr>w_sel := s\<rparr>))"

definition set_interest_key :: "key \<Rightarrow> fd_interest \<Rightarrow> world \<Rightarrow> world res" where
  "set_interest_key key i w =
     bindr (selector_set_interest_key (w_sel w) (fst key) i) (\<lambda>(_, s). Inr (w\<lparr>w_sel := s\<rparr>))"

lemma set_interest_key_eq: "set_interest_key key i w = set_interest (fst key) i w"
  by (simp add: set_interest_key_def set_interest_def selector_set_interest_key_eq)

section \<open>Access to the state machines\<close>

definition client_machine :: "nat \<Rightarrow> world \<Rightarrow> state_machine res" where
  "client_machine a w = bindr (get_client a w) (\<lambda>c. Inr (c_stm c))"

definition set_client_machine :: "nat \<Rightarrow> state_machine \<Rightarrow> world \<Rightarrow> world" where
  "set_client_machine a m w =
     w\<lparr>w_clients := (w_clients w)(a := map_option (\<lambda>c. c\<lparr>c_stm := m\<rparr>) (w_clients w a))\<rparr>"

definition monitor_machine :: "nat \<Rightarrow> world \<Rightarrow> state_machine res" where
  "monitor_machine a w = bindr (get_monitor a w) (\<lambda>m. Inr (m_stm m))"

definition set_monitor_machine :: "nat \<Rightarrow> state_machine \<Rightarrow> world \<Rightarrow> world" where
  "set_monitor_machine a st w =
     w\<lparr>w_monitors := (w_monitors w)(a := map_option (\<lambda>m. m\<lparr>m_stm := st\<rparr>) (w_monitors w a))\<rparr>"

interpretation cstm: stm_access "client_machine a" "set_client_machine a" for a
  by unfold_locales (auto simp: client_machine_def set_client_machine_def get_client_def)

interpretation mstm: stm_access "monitor_machine a" "set_monitor_machine a" for a
  by unfold_locales (auto simp: monitor_machine_def set_monitor_machine_def get_monitor_def)

section \<open>Reading back what was written\<close>

lemma emit_sel [simp]:
  "w_sel (emit x w) = w_sel w" "w_clients (emit x w) = w_clients w"
  "w_monitors (emit x w) = w_monitors w" "w_users (emit x w) = w_users w"
  "w_methods (emit x w) = w_methods w" "w_errno (emit x w) = w_errno w"
  "w_stats (emit x w) = w_stats w" "w_trace (emit x w) = w_trace w @ [x]"
  "w_next (emit x w) = w_next w"
  by (simp_all add: emit_def)

lemma get_client_iff [simp]: "get_client a w = Inr c \<longleftrightarrow> w_clients w a = Some c"
  by (simp add: get_client_def)

lemma get_monitor_iff [simp]: "get_monitor a w = Inr m \<longleftrightarrow> w_monitors w a = Some m"
  by (simp add: get_monitor_def)

lemma get_client_simps [simp, exec_simps]:
  "w_clients w a = Some c \<Longrightarrow> get_client a w = Inr c"
  "w_clients w a = Some c \<Longrightarrow> upd_client a f w = Inr (put_client a (f c) w)"
  by (simp_all add: get_client_def upd_client_def)

lemma get_monitor_simps [simp, exec_simps]:
  "w_monitors w a = Some m \<Longrightarrow> get_monitor a w = Inr m"
  "w_monitors w a = Some m \<Longrightarrow> upd_monitor a g w = Inr (put_monitor a (g m) w)"
  by (simp_all add: get_monitor_def upd_monitor_def)

lemma put_client_sel [simp]:
  "w_sel (put_client a c w) = w_sel w" "w_clients (put_client a c w) = (w_clients w)(a := Some c)"
  "w_monitors (put_client a c w) = w_monitors w" "w_users (put_client a c w) = w_users w"
  "w_methods (put_client a c w) = w_methods w" "w_errno (put_client a c w) = w_errno w"
  "w_stats (put_client a c w) = w_stats w" "w_trace (put_client a c w) = w_trace w"
  "w_next (put_client a c w) = w_next w"
  by (simp_all add: put_client_def)

lemma put_monitor_sel [simp]:
  "w_sel (put_monitor a m w) = w_sel w" "w_monitors (put_monitor a m w) = (w_monitors w)(a := Some m)"
  "w_clients (put_monitor a m w) = w_clients w" "w_users (put_monitor a m w) = w_users w"
  "w_methods (put_monitor a m w) = w_methods w" "w_errno (put_monitor a m w) = w_errno w"
  "w_stats (put_monitor a m w) = w_stats w" "w_trace (put_monitor a m w) = w_trace w"
  "w_next (put_monitor a m w) = w_next w"
  by (simp_all add: put_monitor_def)

text \<open>Normal form: the store of the client outermost, then the trace, then the plain updates.\<close>

lemma put_client_norm [simp]:
  "put_client a c (put_client a c' w) = put_client a c w"
  "(put_client a c w)\<lparr>w_sel := s\<rparr> = put_client a c (w\<lparr>w_sel := s\<rparr>)"
  "(put_client a c w)\<lparr>w_errno := e\<rparr> = put_client a c (w\<lparr>w_errno := e\<rparr>)"
  "(put_client a c w)\<lparr>w_stats := st\<rparr> = put_client a c (w\<lparr>w_stats := st\<rparr>)"
  "emit x (put_client a c w) = put_client a c (emit x w)"
  by (simp_all add: put_client_def emit_def)

lemma put_monitor_norm [simp]:
  "put_monitor a m (put_monitor a m' w) = put_monitor a m w"
  "(put_monitor a m w)\<lparr>w_sel := s\<rparr> = put_monitor a m (w\<lparr>w_sel := s\<rparr>)"
  "(put_monitor a m w)\<lparr>w_errno := e\<rparr> = put_monitor a m (w\<lparr>w_errno := e\<rparr>)"
  "(put_monitor a m w)\<lparr>w_users := us\<rparr> = put_monitor a m (w\<lparr>w_users := us\<rparr>)"
  "emit x (put_monitor a m w) = put_monitor a m (emit x w)"
  by (simp_all add: put_monitor_def emit_def)

lemma emit_norm [simp]:
  "(emit x w)\<lparr>w_sel := s\<rparr> = emit x (w\<lparr>w_sel := s\<rparr>)"
  "(emit x w)\<lparr>w_errno := e\<rparr> = emit x (w\<lparr>w_errno := e\<rparr>)"
  "(emit x w)\<lparr>w_stats := st\<rparr> = emit x (w\<lparr>w_stats := st\<rparr>)"
  by (simp_all add: emit_def)

lemma attached_simps [simp, exec_simps]:
  "attached_client (fd, Some (ClientPtr a)) = Inr a"
  "attached_monitor (fd, Some (MonitorPtr a)) = Inr a"
  by (simp_all add: attached_client_def attached_monitor_def)

lemma union_simps [simp, exec_simps]:
  "c_parser c = P_hello hp \<Longrightarrow> hello_of c = Inr hp"
  "c_parser c = P_auth ap \<Longrightarrow> auth_of c = Inr ap"
  "c_parser c = P_request rp \<Longrightarrow> request_of c = Inr rp"
  "m_parser m = M_auth mp \<Longrightarrow> mauth_of m = Inr mp"
  "m_parser m = M_req mr \<Longrightarrow> mreq_of m = Inr mr"
  by (simp_all add: hello_of_def auth_of_def request_of_def mauth_of_def mreq_of_def)

lemma client_machine_simps [simp, exec_simps]:
  "w_clients w a = Some c \<Longrightarrow> client_machine a w = Inr (c_stm c)"
  "w_clients w a = Some c \<Longrightarrow> set_client_machine a m w = put_client a (c\<lparr>c_stm := m\<rparr>) w"
  by (simp_all add: client_machine_def set_client_machine_def put_client_def)

lemma monitor_machine_simps [simp, exec_simps]:
  "w_monitors w a = Some m \<Longrightarrow> monitor_machine a w = Inr (m_stm m)"
  "w_monitors w a = Some m \<Longrightarrow> set_monitor_machine a st w = put_monitor a (m\<lparr>m_stm := st\<rparr>) w"
  by (simp_all add: monitor_machine_def set_monitor_machine_def put_monitor_def)

lemma string_at_simp [simp]: "has_nul arr \<Longrightarrow> string_at arr = Inr (cstr arr)"
  by (simp add: string_at_def)

text \<open>
  Setting an interest always succeeds on a well formed selector; the resulting selector is
  \<open>upd_interest\<close>, and what it registers is given by \<open>with_interest\<close>.
\<close>

type_synonym registrations = "int \<Rightarrow> (fd_interest \<times> fd_handler option \<times> attachment option) option"

definition upd_interest :: "('h, 'd) fdselector \<Rightarrow> int \<Rightarrow> fd_interest \<Rightarrow> ('h, 'd) fdselector" where
  "upd_interest s fd i = snd (projr (selector_set_interest s fd i))"

definition with_interest :: "(int \<Rightarrow> ('i \<times> 'x) option) \<Rightarrow> int \<Rightarrow> 'i \<Rightarrow> int \<Rightarrow> ('i \<times> 'x) option" where
  "with_interest l fd i = (case l fd of None \<Rightarrow> l | Some (_, x) \<Rightarrow> l(fd \<mapsto> (i, x)))"

lemma with_interest_simps [simp]:
  "l fd = None \<Longrightarrow> with_interest l fd i = l"
  "l fd = Some (j, x) \<Longrightarrow> with_interest l fd i = l(fd \<mapsto> (i, x))"
  by (simp_all add: with_interest_def)

lemma with_interest_apply:
  "with_interest l fd i fd' =
     (if fd' = fd then map_option (\<lambda>(_, x). (i, x)) (l fd) else l fd')"
  by (auto simp: with_interest_def split: option.splits)

lemma set_interest_ok:
  assumes "selector_ok (w_sel w)"
  shows "set_interest fd i w = Inr (w\<lparr>w_sel := upd_interest (w_sel w) fd i\<rparr>)"
    and "selector_ok (upd_interest (w_sel w) fd i)"
    and "sel_lookup (upd_interest (w_sel w) fd i) = with_interest (sel_lookup (w_sel w)) fd i"
proof -
  have "set_interest fd i w = Inr (w\<lparr>w_sel := upd_interest (w_sel w) fd i\<rparr>) \<and>
     selector_ok (upd_interest (w_sel w) fd i) \<and>
     sel_lookup (upd_interest (w_sel w) fd i) = with_interest (sel_lookup (w_sel w)) fd i"
  proof (cases "sel_lookup (w_sel w) fd")
    case None
    with assms selector_set_interest_unused [of "w_sel w" fd i] show ?thesis
      by (simp add: set_interest_def upd_interest_def)
  next
    case (Some x)
    obtain i0 h d where "x = (i0, h, d)" by (cases x)
    with Some assms selector_set_interest_ok [of "w_sel w" fd i0 h d i] show ?thesis
      by (auto simp: set_interest_def upd_interest_def)
  qed
  then show "set_interest fd i w = Inr (w\<lparr>w_sel := upd_interest (w_sel w) fd i\<rparr>)"
    and "selector_ok (upd_interest (w_sel w) fd i)"
    and "sel_lookup (upd_interest (w_sel w) fd i) = with_interest (sel_lookup (w_sel w)) fd i"
    by simp_all
qed

lemmas interest_simps = set_interest_key_eq set_interest_ok

lemma recv_one [simp]:
  "e_recv env fd = Avail (b # bs) \<Longrightarrow> sys_recv env fd (Suc 0) w = (1, [b], emit (Recv fd [b]) w)"
  by (simp add: sys_recv_def)

lemma set_parser_simp [simp, exec_simps]:
  "w_clients w a = Some c \<Longrightarrow> set_parser a u w = Inr (put_client a (c\<lparr>c_parser := u\<rparr>) w)"
  by (simp add: set_parser_def)

text \<open>Setting an interest right after the client was stored.\<close>

lemma set_interest_recv:
  assumes "selector_ok (w_sel w)"
  shows "set_interest fd i (put_client a c (emit x w)) =
     Inr (put_client a c (emit x (w\<lparr>w_sel := upd_interest (w_sel w) fd i\<rparr>)))"
  using set_interest_ok(1) [of "put_client a c (emit x w)" fd i] assms by simp

section \<open>Sample worlds\<close>

text \<open>
  A world with one client object at address 0, used to apply the properties at concrete data; and
  a selector in which descriptors 4 and 5 are registered for it, reading.
\<close>

definition sample_world :: "(fd_handler, attachment) fdselector \<Rightarrow> users \<Rightarrow> client_t \<Rightarrow> world" where
  "sample_world s us c =
     \<lparr>w_sel = s, w_clients = [0 \<mapsto> c], w_monitors = Map.empty, w_next = 1, w_stats = stats_init,
      w_users = us, w_methods = (replicate MAX_BUFFER_SIZE 0)[0 := 2, 1 := -1], w_errno = 0, w_trace = []\<rparr>"

definition sample_env :: "byte list \<Rightarrow> env" where
  "sample_env bs =
     \<lparr>e_recv = \<lambda>_. Avail bs, e_send = \<lambda>_ _. Takes 1000, e_alloc = \<lambda>_. True, e_junk = \<lambda>_. 0,
      e_stray = \<lambda>_. 0, e_so_error = Some 0, e_socket = \<lambda>_. 5, e_connect = \<lambda>_. Connected,
      e_sockname = Some \<lparr>ai_family = AF_INET, ai_host = [127, 0, 0, 1], ai_port = 1080\<rparr>,
      e_gai_start = True, e_gai_error = 0, e_gai_result = [], e_accept_interrupts = 0,
      e_accept = Accepted 4, e_realloc_junk = \<lambda>_. zero_item\<rparr>"

lemma sample_env_sel [simp]:
  "e_recv (sample_env bs) fd = Avail bs" "e_send (sample_env bs) n fd = Takes 1000"
  "e_alloc (sample_env bs) x" "e_so_error (sample_env bs) = Some 0" "e_socket (sample_env bs) n = 5"
  "e_connect (sample_env bs) n = Connected" "e_gai_start (sample_env bs)"
  "e_gai_error (sample_env bs) = 0" "e_gai_result (sample_env bs) = []"
  by (simp_all add: sample_env_def)

definition sample_client :: "nat \<Rightarrow> int \<Rightarrow> parser_state_t \<Rightarrow> parser_union \<Rightarrow> client_t" where
  "sample_client st dest tag u =
     \<lparr>c_stm = \<lparr>stm_initial = 0, stm_max_state = 10, stm_current = Some st\<rparr>,
      c_client_fd = 4, c_destination_fd = dest, c_active_parser = tag, c_parser = u,
      c_client_buffer = buffer_init MAX_BUFFER (replicate MAX_BUFFER 0),
      c_destiny_buffer = buffer_init MAX_BUFFER (replicate MAX_BUFFER 0),
      c_dest_addr = [], c_dest_addr_base = [], c_dns_req = None, c_err = 0,
      c_client_closed = False, c_dest_closed = False, c_dest_addr_from_gai = False\<rparr>"

lemma sample_client_sel [simp]:
  "c_client_fd (sample_client st dest tag u) = 4" "c_destination_fd (sample_client st dest tag u) = dest"
  "c_active_parser (sample_client st dest tag u) = tag" "c_parser (sample_client st dest tag u) = u"
  "c_stm (sample_client st dest tag u) = \<lparr>stm_initial = 0, stm_max_state = 10, stm_current = Some st\<rparr>"
  "c_err (sample_client st dest tag u) = 0"
  "\<not> c_client_closed (sample_client st dest tag u)" "\<not> c_dest_closed (sample_client st dest tag u)"
  "c_client_buffer (sample_client st dest tag u) = buffer_init MAX_BUFFER (replicate MAX_BUFFER 0)"
  "c_destiny_buffer (sample_client st dest tag u) = buffer_init MAX_BUFFER (replicate MAX_BUFFER 0)"
  "c_dest_addr (sample_client st dest tag u) = []" "c_dest_addr_base (sample_client st dest tag u) = []"
  "c_dns_req (sample_client st dest tag u) = None"
  by (simp_all add: sample_client_def)

lemma sample_world_sel [simp]:
  "w_sel (sample_world s us c) = s" "w_clients (sample_world s us c) = [0 \<mapsto> c]"
  "w_users (sample_world s us c) = us" "w_trace (sample_world s us c) = []"
  "w_errno (sample_world s us c) = 0" "w_stats (sample_world s us c) = stats_init"
  "w_methods (sample_world s us c) = (replicate MAX_BUFFER_SIZE 0)[0 := 2, 1 := -1]"
  by (simp_all add: sample_world_def)

lemma sample_selector:
  "\<exists>s :: (fd_handler, attachment) fdselector. selector_ok s \<and>
     sel_lookup s = [4 \<mapsto> (OP_READ, Some CLIENT_HANDLER, Some (ClientPtr 0)),
                     5 \<mapsto> (OP_READ, Some CLIENT_HANDLER, Some (ClientPtr 0))]"
proof -
  obtain s0 :: "(fd_handler, attachment) fdselector" where
    "selector_ok s0" "sel_lookup s0 = (\<lambda>_. None)"
    using selector_new_server [of 1000 "(60, 0)"] by auto
  then obtain s1 where
    "selector_ok s1" "sel_lookup s1 = [4 \<mapsto> (OP_READ, Some CLIENT_HANDLER, Some (ClientPtr 0))]"
    using selector_register_fresh [of s0 4] by (fastforce simp: INVALID_FD_iff)
  then show ?thesis
    using selector_register_fresh [of s1 5] by (fastforce simp: INVALID_FD_iff)
qed

end
