(* ===== verification/Closing.thy ===== *)
theory Closing
  imports World
begin

text \<open>
  Tearing connections down: the close callbacks of the two kinds of connections
  (\<^verbatim>\<open>handle_close_client\<close> of \<^verbatim>\<open>client_utils.c\<close>, \<^verbatim>\<open>handle_close_monitor\<close> of
  \<^verbatim>\<open>active_monitor.c\<close> with the departure callbacks it may run), the release functions of
  \<^verbatim>\<open>client_utils.c\<close>, and \<^verbatim>\<open>end_connection\<close> and \<^verbatim>\<open>error_handler\<close> of \<^verbatim>\<open>closing.c\<close>.
\<close>

section \<open>States of a client\<close>

definition HELLO_READ :: nat where "HELLO_READ = 0"
definition HELLO_WRITE :: nat where "HELLO_WRITE = 1"
definition AUTH_READ :: nat where "AUTH_READ = 2"
definition AUTH_WRITE :: nat where "AUTH_WRITE = 3"
definition REQUEST_READ :: nat where "REQUEST_READ = 4"
definition DNS_LOOKUP :: nat where "DNS_LOOKUP = 5"
definition DEST_CONNECT :: nat where "DEST_CONNECT = 6"
definition REQUEST_WRITE :: nat where "REQUEST_WRITE = 7"
definition FORWARDING :: nat where "FORWARDING = 8"
definition DONE :: nat where "DONE = 9"
definition ERROR :: nat where "ERROR = 10"

lemmas client_state_defs = HELLO_READ_def HELLO_WRITE_def AUTH_READ_def AUTH_WRITE_def
  REQUEST_READ_def DNS_LOOKUP_def DEST_CONNECT_def REQUEST_WRITE_def FORWARDING_def DONE_def ERROR_def

lemma client_state_neq [simp]:
  "HELLO_READ \<noteq> HELLO_WRITE" "HELLO_READ \<noteq> AUTH_READ"
  "HELLO_READ \<noteq> AUTH_WRITE" "HELLO_READ \<noteq> REQUEST_READ"
  "HELLO_READ \<noteq> DNS_LOOKUP" "HELLO_READ \<noteq> DEST_CONNECT"
  "HELLO_READ \<noteq> REQUEST_WRITE" "HELLO_READ \<noteq> FORWARDING" "HELLO_READ \<noteq> DONE"
  "HELLO_READ \<noteq> ERROR" "HELLO_WRITE \<noteq> HELLO_READ" "HELLO_WRITE \<noteq> AUTH_READ"
  "HELLO_WRITE \<noteq> AUTH_WRITE" "HELLO_WRITE \<noteq> REQUEST_READ"
  "HELLO_WRITE \<noteq> DNS_LOOKUP" "HELLO_WRITE \<noteq> DEST_CONNECT"
  "HELLO_WRITE \<noteq> REQUEST_WRITE" "HELLO_WRITE \<noteq> FORWARDING"
  "HELLO_WRITE \<noteq> DONE" "HELLO_WRITE \<noteq> ERROR" "AUTH_READ \<noteq> HELLO_READ"
  "AUTH_READ \<noteq> HELLO_WRITE" "AUTH_READ \<noteq> AUTH_WRITE"
  "AUTH_READ \<noteq> REQUEST_READ" "AUTH_READ \<noteq> DNS_LOOKUP"
  "AUTH_READ \<noteq> DEST_CONNECT" "AUTH_READ \<noteq> REQUEST_WRITE"
  "AUTH_READ \<noteq> FORWARDING" "AUTH_READ \<noteq> DONE" "AUTH_READ \<noteq> ERROR"
  "AUTH_WRITE \<noteq> HELLO_READ" "AUTH_WRITE \<noteq> HELLO_WRITE"
  "AUTH_WRITE \<noteq> AUTH_READ" "AUTH_WRITE \<noteq> REQUEST_READ"
  "AUTH_WRITE \<noteq> DNS_LOOKUP" "AUTH_WRITE \<noteq> DEST_CONNECT"
  "AUTH_WRITE \<noteq> REQUEST_WRITE" "AUTH_WRITE \<noteq> FORWARDING" "AUTH_WRITE \<noteq> DONE"
  "AUTH_WRITE \<noteq> ERROR" "REQUEST_READ \<noteq> HELLO_READ"
  "REQUEST_READ \<noteq> HELLO_WRITE" "REQUEST_READ \<noteq> AUTH_READ"
  "REQUEST_READ \<noteq> AUTH_WRITE" "REQUEST_READ \<noteq> DNS_LOOKUP"
  "REQUEST_READ \<noteq> DEST_CONNECT" "REQUEST_READ \<noteq> REQUEST_WRITE"
  "REQUEST_READ \<noteq> FORWARDING" "REQUEST_READ \<noteq> DONE" "REQUEST_READ \<noteq> ERROR"
  "DNS_LOOKUP \<noteq> HELLO_READ" "DNS_LOOKUP \<noteq> HELLO_WRITE"
  "DNS_LOOKUP \<noteq> AUTH_READ" "DNS_LOOKUP \<noteq> AUTH_WRITE"
  "DNS_LOOKUP \<noteq> REQUEST_READ" "DNS_LOOKUP \<noteq> DEST_CONNECT"
  "DNS_LOOKUP \<noteq> REQUEST_WRITE" "DNS_LOOKUP \<noteq> FORWARDING" "DNS_LOOKUP \<noteq> DONE"
  "DNS_LOOKUP \<noteq> ERROR" "DEST_CONNECT \<noteq> HELLO_READ"
  "DEST_CONNECT \<noteq> HELLO_WRITE" "DEST_CONNECT \<noteq> AUTH_READ"
  "DEST_CONNECT \<noteq> AUTH_WRITE" "DEST_CONNECT \<noteq> REQUEST_READ"
  "DEST_CONNECT \<noteq> DNS_LOOKUP" "DEST_CONNECT \<noteq> REQUEST_WRITE"
  "DEST_CONNECT \<noteq> FORWARDING" "DEST_CONNECT \<noteq> DONE" "DEST_CONNECT \<noteq> ERROR"
  "REQUEST_WRITE \<noteq> HELLO_READ" "REQUEST_WRITE \<noteq> HELLO_WRITE"
  "REQUEST_WRITE \<noteq> AUTH_READ" "REQUEST_WRITE \<noteq> AUTH_WRITE"
  "REQUEST_WRITE \<noteq> REQUEST_READ" "REQUEST_WRITE \<noteq> DNS_LOOKUP"
  "REQUEST_WRITE \<noteq> DEST_CONNECT" "REQUEST_WRITE \<noteq> FORWARDING"
  "REQUEST_WRITE \<noteq> DONE" "REQUEST_WRITE \<noteq> ERROR" "FORWARDING \<noteq> HELLO_READ"
  "FORWARDING \<noteq> HELLO_WRITE" "FORWARDING \<noteq> AUTH_READ"
  "FORWARDING \<noteq> AUTH_WRITE" "FORWARDING \<noteq> REQUEST_READ"
  "FORWARDING \<noteq> DNS_LOOKUP" "FORWARDING \<noteq> DEST_CONNECT"
  "FORWARDING \<noteq> REQUEST_WRITE" "FORWARDING \<noteq> DONE" "FORWARDING \<noteq> ERROR"
  "DONE \<noteq> HELLO_READ" "DONE \<noteq> HELLO_WRITE" "DONE \<noteq> AUTH_READ"
  "DONE \<noteq> AUTH_WRITE" "DONE \<noteq> REQUEST_READ" "DONE \<noteq> DNS_LOOKUP"
  "DONE \<noteq> DEST_CONNECT" "DONE \<noteq> REQUEST_WRITE" "DONE \<noteq> FORWARDING"
  "DONE \<noteq> ERROR" "ERROR \<noteq> HELLO_READ" "ERROR \<noteq> HELLO_WRITE"
  "ERROR \<noteq> AUTH_READ" "ERROR \<noteq> AUTH_WRITE" "ERROR \<noteq> REQUEST_READ"
  "ERROR \<noteq> DNS_LOOKUP" "ERROR \<noteq> DEST_CONNECT" "ERROR \<noteq> REQUEST_WRITE"
  "ERROR \<noteq> FORWARDING" "ERROR \<noteq> DONE"
  by (simp_all add: client_state_defs)

lemma client_state_le [simp]:
  "HELLO_READ \<le> ERROR" "HELLO_WRITE \<le> ERROR" "AUTH_READ \<le> ERROR"
  "AUTH_WRITE \<le> ERROR" "REQUEST_READ \<le> ERROR" "DNS_LOOKUP \<le> ERROR"
  "DEST_CONNECT \<le> ERROR" "REQUEST_WRITE \<le> ERROR" "FORWARDING \<le> ERROR"
  "DONE \<le> ERROR" "HELLO_READ < 11" "HELLO_WRITE < 11" "AUTH_READ < 11" "AUTH_WRITE < 11"
  "REQUEST_READ < 11" "DNS_LOOKUP < 11" "DEST_CONNECT < 11" "REQUEST_WRITE < 11" "FORWARDING < 11"
  "DONE < 11" "ERROR < 11"
  by (simp_all add: client_state_defs)

section \<open>Close callbacks\<close>

text \<open>No client state has a departure callback.\<close>

definition client_departures :: "(nat \<Rightarrow> key \<Rightarrow> world \<Rightarrow> world res) option list" where
  "client_departures = replicate 11 None"

definition handle_close_client :: "key \<Rightarrow> world \<Rightarrow> world res" where
  "handle_close_client key w =
     bindr (attached_client key) (\<lambda>a.
     bindr (stm_handler_close (client_machine a) client_departures key w) (\<lambda>w1.
     bindr (get_client a w1) (\<lambda>c.
       Inr (if fst key = c_client_fd c
            then w1\<lparr>w_stats := decrement_current_connections (w_stats w1)\<rparr>
            else w1))))"

definition monitor_auth_finalize :: "env \<Rightarrow> nat \<Rightarrow> key \<Rightarrow> world \<Rightarrow> world res" where
  "monitor_auth_finalize env state key w =
     bindr (attached_monitor key) (\<lambda>a.
     bindr (get_monitor a w) (\<lambda>m.
       let status = (if m_user_access_level m = ADMIN then 0 else 1);
           (_, w1) = sys_send env (fst key) [status] w
       in bindr (mauth_of m) (\<lambda>mp. Inr (put_monitor a (m\<lparr>m_parser := M_auth (mp\<lparr>map_p := None\<rparr>)\<rparr>) w1))))"

text \<open>The loop that frees the arguments up to the first null cell.\<close>

fun free_arguments :: "arg_cell list \<Rightarrow> unit res" where
  "free_arguments [] = Inl OutOfBounds"
| "free_arguments (CellUninit # cells) = Inl Uninitialised"
| "free_arguments (CellNull # cells) = Inr ()"
| "free_arguments (CellPtr s # cells) = free_arguments cells"

definition monitor_req_finalize :: "nat \<Rightarrow> key \<Rightarrow> world \<Rightarrow> world res" where
  "monitor_req_finalize state key w =
     bindr (attached_monitor key) (\<lambda>a.
     bindr (get_monitor a w) (\<lambda>m.
     bindr (mreq_of m) (\<lambda>mrq.
     bindr (deref NullDeref (mrq_arguments mrq)) (\<lambda>cells.
     bindr (free_arguments cells) (\<lambda>_.
       Inr (put_monitor a (m\<lparr>m_parser := M_req (mrq\<lparr>mrq_arguments := None, mrq_p := None\<rparr>)\<rparr>) w))))))"

definition monitor_departures :: "env \<Rightarrow> (nat \<Rightarrow> key \<Rightarrow> world \<Rightarrow> world res) option list" where
  "monitor_departures env =
     [Some (monitor_auth_finalize env), Some monitor_req_finalize, None, None]"

definition handle_close_monitor :: "env \<Rightarrow> key \<Rightarrow> world \<Rightarrow> world res" where
  "handle_close_monitor env key w =
     bindr (attached_monitor key) (\<lambda>a.
     bindr (stm_handler_close (monitor_machine a) (monitor_departures env) key w) (\<lambda>w1.
       Inr (free_monitor a (sys_close (fst key) w1))))"

definition close_callback :: "env \<Rightarrow> fd_handler \<Rightarrow> (key \<Rightarrow> world \<Rightarrow> world res) option" where
  "close_callback env h =
     (case h of
        CLIENT_HANDLER \<Rightarrow> Some handle_close_client
      | ACTIVE_MONITOR_HANDLER \<Rightarrow> Some (handle_close_monitor env)
      | MASTER_HANDLER \<Rightarrow> None
      | PASSIVE_MONITOR_HANDLER \<Rightarrow> None)"

definition unregister :: "env \<Rightarrow> int \<Rightarrow> world \<Rightarrow> world res" where
  "unregister env fd w =
     bindr (selector_unregister_fd w_sel (\<lambda>s w. w\<lparr>w_sel := s\<rparr>) (close_callback env) fd w)
       (\<lambda>(_, w'). Inr w')"

section \<open>Releasing the resources of a client\<close>

definition destroy_active_parser :: "client_t \<Rightarrow> client_t res" where
  "destroy_active_parser c =
     bindr (case c_active_parser c of
              HELLO_PARSER \<Rightarrow> bindr (hello_of c) (\<lambda>hp. Inr (c\<lparr>c_parser := P_hello (hp\<lparr>hp_p := None\<rparr>)\<rparr>))
            | AUTH_PARSER \<Rightarrow> bindr (auth_of c) (\<lambda>ap. Inr (c\<lparr>c_parser := P_auth (ap\<lparr>ap_p := None\<rparr>)\<rparr>))
            | REQUEST_PARSER \<Rightarrow> bindr (request_of c) (\<lambda>rp. Inr (c\<lparr>c_parser := P_request (rp\<lparr>rp_p := None\<rparr>)\<rparr>))
            | NO_PARSER \<Rightarrow> Inr c) (\<lambda>c'. Inr (c'\<lparr>c_active_parser := NO_PARSER\<rparr>))"

definition free_destination :: "client_t \<Rightarrow> client_t" where
  "free_destination c =
     (if c_dest_addr_base c = [] then c
      else c\<lparr>c_dest_addr := [], c_dest_addr_base := [], c_dest_addr_from_gai := False\<rparr>)"

definition free_dns_request :: "client_t \<Rightarrow> client_t" where
  "free_dns_request c = (if c_dns_req c = None then c else c\<lparr>c_dns_req := None\<rparr>)"

section \<open>Ending a connection\<close>

definition connection_finished :: "client_t \<Rightarrow> bool" where
  "connection_finished c \<longleftrightarrow> c_client_closed c \<and> c_dest_closed c \<and>
     \<not> buffer_can_read (c_client_buffer c) \<and> \<not> buffer_can_read (c_destiny_buffer c)"

text \<open>
  Closing one of the two descriptors of the client, if it is open: the socket is closed first
  and unregistered after, while the client still names it.
\<close>

definition drop_client_fd :: "env \<Rightarrow> nat \<Rightarrow> world \<Rightarrow> world res" where
  "drop_client_fd env a w =
     bindr (get_client a w) (\<lambda>c.
       if c_client_fd c \<noteq> -1 then
         bindr (unregister env (c_client_fd c) (sys_close (c_client_fd c) w)) (\<lambda>w1.
           upd_client a (\<lambda>c. c\<lparr>c_client_fd := -1\<rparr>) w1)
       else Inr w)"

definition drop_destination_fd :: "env \<Rightarrow> nat \<Rightarrow> world \<Rightarrow> world res" where
  "drop_destination_fd env a w =
     bindr (get_client a w) (\<lambda>c.
       if c_destination_fd c \<noteq> -1 then
         bindr (unregister env (c_destination_fd c) (sys_close (c_destination_fd c) w)) (\<lambda>w1.
           upd_client a (\<lambda>c. c\<lparr>c_destination_fd := -1\<rparr>) w1)
       else Inr w)"

definition end_connection :: "env \<Rightarrow> nat \<Rightarrow> key \<Rightarrow> world \<Rightarrow> world res" where
  "end_connection env state key w =
     bindr (attached_client key) (\<lambda>a.
     bindr (get_client a w) (\<lambda>c.
       if c_client_closed c \<and> c_dest_closed c \<and>
          \<not> buffer_can_read (c_client_buffer c) \<and> \<not> buffer_can_read (c_destiny_buffer c)
       then
         bindr (destroy_active_parser c) (\<lambda>c1.
         bindr (drop_client_fd env a (put_client a (free_destination (free_dns_request c1)) w)) (\<lambda>w2.
         bindr (drop_destination_fd env a w2) (\<lambda>w3.
           Inr (free_client a w3))))
       else Inr w))"

definition error_reply :: "byte \<Rightarrow> byte list" where
  "error_reply err = [0x05, err, 0x00, 0x01, 0x00, 0x00, 0x00, 0x00, 0x00, 0x00]"

definition error_handler :: "env \<Rightarrow> nat \<Rightarrow> key \<Rightarrow> world \<Rightarrow> world res" where
  "error_handler env state key w =
     bindr (attached_client key) (\<lambda>a.
     bindr (get_client a w) (\<lambda>c.
       let w1 = (if (state = REQUEST_READ \<or> state = REQUEST_WRITE \<or> state = DNS_LOOKUP \<or>
                     state = DEST_CONNECT) \<and> c_err c \<noteq> 0
                 then snd (sys_send env (fst key) (error_reply (c_err c)) w)
                 else w)
       in
       bindr (destroy_active_parser c) (\<lambda>c1.
         let c2 = free_destination (free_dns_request c1);
             cb = c_client_buffer c2;
             db = c_destiny_buffer c2;
             c3 = c2\<lparr>c_client_closed := True, c_dest_closed := True,
                     c_client_buffer := cb\<lparr>b_read := b_write cb\<rparr>,
                     c_destiny_buffer := db\<lparr>b_read := b_write db\<rparr>\<rparr>
         in end_connection env state key (put_client a c3 w1))))"

section \<open>Well-formed connections\<close>

text \<open>The tag of the active parser names the member the union holds.\<close>

definition parser_tag_ok :: "client_t \<Rightarrow> bool" where
  "parser_tag_ok c \<longleftrightarrow>
     (case c_active_parser c of
        NO_PARSER \<Rightarrow> True
      | HELLO_PARSER \<Rightarrow> (\<exists>hp. c_parser c = P_hello hp)
      | AUTH_PARSER \<Rightarrow> (\<exists>ap. c_parser c = P_auth ap)
      | REQUEST_PARSER \<Rightarrow> (\<exists>rp. c_parser c = P_request rp))"

text \<open>The descriptor is registered for the client.\<close>

definition owned :: "world \<Rightarrow> nat \<Rightarrow> int \<Rightarrow> bool" where
  "owned w a fd \<longleftrightarrow> (\<exists>i. sel_lookup (w_sel w) fd = Some (i, Some CLIENT_HANDLER, Some (ClientPtr a)))"

text \<open>
  A live connection: its object is allocated, its descriptors are registered for it, its state
  is one of the table.
\<close>

definition linked :: "world \<Rightarrow> nat \<Rightarrow> client_t \<Rightarrow> bool" where
  "linked w a c \<longleftrightarrow> selector_ok (w_sel w) \<and> w_clients w a = Some c \<and> owned w a (c_client_fd c) \<and>
     (c_destination_fd c \<noteq> -1 \<longrightarrow> c_destination_fd c \<noteq> c_client_fd c \<and> owned w a (c_destination_fd c)) \<and>
     (\<forall>k. stm_current (c_stm c) = Some k \<longrightarrow> k < 11) \<and> parser_tag_ok c"

lemma linked_fd: "linked w a c \<Longrightarrow> c_client_fd c \<noteq> -1"
  by (auto simp: linked_def owned_def sel_lookup_def split: if_splits)

definition drop_fd :: "('h, 'd) fdselector \<Rightarrow> int \<Rightarrow> ('h, 'd) fdselector" where
  "drop_fd s fd = snd (projr (unregister_finish s fd))"

lemma drop_fd_ok:
  assumes "selector_ok s" and "sel_lookup s fd \<noteq> None"
  shows "unregister_finish s fd = Inr (SELECTOR_SUCCESS, drop_fd s fd)"
    and "selector_ok (drop_fd s fd)" and "sel_lookup (drop_fd s fd) = (sel_lookup s)(fd := None)"
  using unregister_finish_ok [OF assms] by (auto simp: drop_fd_def)

lemma close_client_ok:
  assumes "w_clients w a = Some c" and "\<forall>k. stm_current (c_stm c) = Some k \<longrightarrow> k < 11"
  shows "handle_close_client (fd, Some (ClientPtr a)) w =
     Inr (if fd = c_client_fd c then w\<lparr>w_stats := decrement_current_connections (w_stats w)\<rparr> else w)"
  using assms by (cases "stm_current (c_stm c)")
    (simp_all add: handle_close_client_def stm_handler_close_def client_departures_def)

lemma unregister_owned:
  assumes "selector_ok (w_sel w)" and "w_clients w a = Some c" and "owned w a fd"
    and "\<forall>k. stm_current (c_stm c) = Some k \<longrightarrow> k < 11"
  shows "unregister env fd w =
     Inr (w\<lparr>w_stats := (if fd = c_client_fd c then decrement_current_connections (w_stats w) else w_stats w),
            w_sel := drop_fd (w_sel w) fd\<rparr>)"
proof -
  from assms(3) obtain i where l: "sel_lookup (w_sel w) fd = Some (i, Some CLIENT_HANDLER, Some (ClientPtr a))"
    by (auto simp: owned_def)
  note it = sel_lookup_SomeD [OF l]
  have v: "\<not> INVALID_FD fd" using sel_lookup_valid [OF assms(1)] l by simp
  have fd: "it_fd (s_fds (w_sel w) ! nat fd) = fd"
    using selector_ok_item [OF assms(1) it(2)] it(1,3) by (simp add: item_ok_def)
  from drop_fd_ok(1) [OF assms(1), of fd] l
  have fin: "unregister_finish (w_sel w) fd = Inr (SELECTOR_SUCCESS, drop_fd (w_sel w) fd)" by simp
  show ?thesis
    using v it fd fin close_client_ok [OF assms(2,4), of fd]
    by (cases "fd = c_client_fd c")
      (simp_all add: unregister_def selector_unregister_fd_def close_callback_def)
qed

section \<open>What tearing down does\<close>

definition torn_down :: "nat \<Rightarrow> client_t \<Rightarrow> world \<Rightarrow> world" where
  "torn_down a c w =
     (let s1 = drop_fd (w_sel w) (c_client_fd c);
          dest = c_destination_fd c
      in w\<lparr>w_sel := (if dest \<noteq> -1 then drop_fd s1 dest else s1),
           w_clients := (w_clients w)(a := None),
           w_stats := decrement_current_connections (w_stats w),
           w_trace := w_trace w @ Closed (c_client_fd c) # (if dest \<noteq> -1 then [Closed dest] else [])\<rparr>)"

lemma destroy_active_parser_ok:
  assumes "parser_tag_ok c"
  obtains u where "destroy_active_parser c = Inr (c\<lparr>c_parser := u, c_active_parser := NO_PARSER\<rparr>)"
proof (cases "c_active_parser c")
  case NO_PARSER
  then show ?thesis using that [of "c_parser c"] by (simp add: destroy_active_parser_def)
next
  case HELLO_PARSER
  with assms obtain hp where "c_parser c = P_hello hp" by (auto simp: parser_tag_ok_def)
  with HELLO_PARSER that show ?thesis by (auto simp: destroy_active_parser_def)
next
  case AUTH_PARSER
  with assms obtain ap where "c_parser c = P_auth ap" by (auto simp: parser_tag_ok_def)
  with AUTH_PARSER that show ?thesis by (auto simp: destroy_active_parser_def)
next
  case REQUEST_PARSER
  with assms obtain rp where "c_parser c = P_request rp" by (auto simp: parser_tag_ok_def)
  with REQUEST_PARSER that show ?thesis by (auto simp: destroy_active_parser_def)
qed

lemma release_fields [simp]:
  "c_client_fd (free_destination c) = c_client_fd c" "c_client_fd (free_dns_request c) = c_client_fd c"
  "c_destination_fd (free_destination c) = c_destination_fd c"
  "c_destination_fd (free_dns_request c) = c_destination_fd c"
  "c_stm (free_destination c) = c_stm c" "c_stm (free_dns_request c) = c_stm c"
  "c_client_buffer (free_destination c) = c_client_buffer c"
  "c_client_buffer (free_dns_request c) = c_client_buffer c"
  "c_destiny_buffer (free_destination c) = c_destiny_buffer c"
  "c_destiny_buffer (free_dns_request c) = c_destiny_buffer c"
  "c_active_parser (free_destination c) = c_active_parser c"
  "c_active_parser (free_dns_request c) = c_active_parser c"
  "c_parser (free_destination c) = c_parser c" "c_parser (free_dns_request c) = c_parser c"
  "c_client_closed (free_destination c) = c_client_closed c"
  "c_client_closed (free_dns_request c) = c_client_closed c"
  "c_dest_closed (free_destination c) = c_dest_closed c"
  "c_dest_closed (free_dns_request c) = c_dest_closed c"
  by (simp_all add: free_destination_def free_dns_request_def)

text \<open>Dropping both descriptors of a live connection and freeing it.\<close>

lemma drop_both_fds:
  assumes l: "linked w a c"
  shows "bindr (drop_client_fd env a w) (\<lambda>w2. bindr (drop_destination_fd env a w2) (\<lambda>w3. Inr (free_client a w3))) =
     Inr (torn_down a c w)"
proof -
  let ?c = "c_client_fd c" and ?d = "c_destination_fd c"
  note L = l [unfolded linked_def]
  have own: "owned (sys_close ?c w) a ?c" using L by (simp add: owned_def sys_close_def)
  let ?w1 = "(sys_close ?c w)\<lparr>w_stats := decrement_current_connections (w_stats w),
      w_sel := drop_fd (w_sel w) ?c\<rparr>"
  let ?w2 = "put_client a (c\<lparr>c_client_fd := -1\<rparr>) ?w1"
  have "unregister env ?c (sys_close ?c w) = Inr ?w1"
    using unregister_owned [of "sys_close ?c w" a c ?c env] L own by (simp add: sys_close_def)
  then have one: "drop_client_fd env a w = Inr ?w2"
    using L linked_fd [OF l] by (simp add: drop_client_fd_def sys_close_def)
  from L obtain i where lc: "sel_lookup (w_sel w) ?c = Some (i, Some CLIENT_HANDLER, Some (ClientPtr a))"
    by (auto simp: owned_def)
  note s1 = drop_fd_ok(2,3) [of "w_sel w" ?c]
  show ?thesis
  proof (cases "?d = -1")
    case True
    then have "drop_destination_fd env a ?w2 = Inr ?w2"
      by (simp add: drop_destination_fd_def)
    with one True show ?thesis
      by (simp add: torn_down_def Let_def free_client_def put_client_def sys_close_def emit_def)
  next
    case False
    let ?w3 = "(sys_close ?d ?w2)\<lparr>w_sel := drop_fd (drop_fd (w_sel w) ?c) ?d\<rparr>"
    have own2: "owned (sys_close ?d ?w2) a ?d"
      using L False s1 lc by (auto simp: owned_def sys_close_def)
    have ok2: "selector_ok (w_sel (sys_close ?d ?w2))"
      using L s1(1) lc by (auto simp: sys_close_def)
    have "unregister env ?d (sys_close ?d ?w2) = Inr ?w3"
      using unregister_owned [OF ok2 _ own2, of "c\<lparr>c_client_fd := -1\<rparr>" env] L False
      by (simp add: sys_close_def)
    then have "drop_destination_fd env a ?w2 = Inr (put_client a (c\<lparr>c_client_fd := -1, c_destination_fd := -1\<rparr>) ?w3)"
      using False by (simp add: drop_destination_fd_def sys_close_def)
    with one False show ?thesis
      by (simp add: torn_down_def Let_def free_client_def put_client_def sys_close_def emit_def)
  qed
qed

lemma torn_down_put:
  "torn_down a c' (put_client a c'' w) = torn_down a c w"
  if "c_client_fd c' = c_client_fd c" "c_destination_fd c' = c_destination_fd c"
  using that by (simp add: torn_down_def put_client_def Let_def)

lemma linked_put:
  assumes "linked w a c" "c_client_fd c' = c_client_fd c" "c_destination_fd c' = c_destination_fd c"
    "c_stm c' = c_stm c" "parser_tag_ok c'"
  shows "linked (put_client a c' w) a c'"
  using assms by (simp add: linked_def owned_def)

lemma linked_step:
  assumes "linked w a c" "c_client_fd c' = c_client_fd c" "c_destination_fd c' = c_destination_fd c"
    "c_stm c' = c_stm c" "parser_tag_ok c'" "selector_ok (w_sel w')"
    "sel_lookup (w_sel w') = sel_lookup (w_sel w)"
  shows "linked (put_client a c' w') a c'"
  using assms by (simp add: linked_def owned_def)

lemma owned_interest [simp]:
  "selector_ok (w_sel w) \<Longrightarrow>
     owned (w\<lparr>w_sel := upd_interest (w_sel w) fd i\<rparr>) a fd' = owned w a fd'"
  by (auto simp: owned_def interest_simps with_interest_apply)

lemma end_connection_finished:
  assumes "linked w a c" and "connection_finished c"
  shows "end_connection env state (fd, Some (ClientPtr a)) w = Inr (torn_down a c w)"
proof -
  have w: "w_clients w a = Some c" and tag: "parser_tag_ok c" using assms(1) by (auto simp: linked_def)
  from destroy_active_parser_ok [OF tag] obtain u where
    u: "destroy_active_parser c = Inr (c\<lparr>c_parser := u, c_active_parser := NO_PARSER\<rparr>)" .
  let ?c = "free_destination (free_dns_request (c\<lparr>c_parser := u, c_active_parser := NO_PARSER\<rparr>))"
  have "linked (put_client a ?c w) a ?c"
    by (rule linked_put [OF assms(1)]) (simp_all add: parser_tag_ok_def)
  from drop_both_fds [OF this, of env] torn_down_put [of ?c c a ?c w] show ?thesis
    using w u assms(2) by (simp add: end_connection_def connection_finished_def)
qed

lemma end_connection_unfinished:
  "w_clients w a = Some c \<Longrightarrow> \<not> connection_finished c \<Longrightarrow>
     end_connection env state (fd, Some (ClientPtr a)) w = Inr w"
  by (auto simp: end_connection_def connection_finished_def)

text \<open>
  The error state tears the connection down, and sends nothing: the test in \<open>error_handler\<close> is on
  the state it arrives in, which is \<open>ERROR\<close> itself.
\<close>

lemma error_handler_tears_down:
  assumes l: "linked w a c" and "state \<notin> {REQUEST_READ, REQUEST_WRITE, DNS_LOOKUP, DEST_CONNECT}"
  shows "error_handler env state (fd, Some (ClientPtr a)) w = Inr (torn_down a c w)"
proof -
  have w: "w_clients w a = Some c" and tag: "parser_tag_ok c" using l by (auto simp: linked_def)
  from destroy_active_parser_ok [OF tag] obtain u where
    u: "destroy_active_parser c = Inr (c\<lparr>c_parser := u, c_active_parser := NO_PARSER\<rparr>)" .
  let ?c2 = "free_destination (free_dns_request (c\<lparr>c_parser := u, c_active_parser := NO_PARSER\<rparr>))"
  let ?c3 = "?c2\<lparr>c_client_closed := True, c_dest_closed := True,
       c_client_buffer := (c_client_buffer ?c2)\<lparr>b_read := b_write (c_client_buffer ?c2)\<rparr>,
       c_destiny_buffer := (c_destiny_buffer ?c2)\<lparr>b_read := b_write (c_destiny_buffer ?c2)\<rparr>\<rparr>"
  have "linked (put_client a ?c3 w) a ?c3"
    by (rule linked_put [OF l]) (simp_all add: parser_tag_ok_def)
  moreover have "connection_finished ?c3" by (simp add: connection_finished_def can_read_iff)
  ultimately have "end_connection env state (fd, Some (ClientPtr a)) (put_client a ?c3 w) =
      Inr (torn_down a ?c3 (put_client a ?c3 w))" by (rule end_connection_finished)
  also have "torn_down a ?c3 (put_client a ?c3 w) = torn_down a c w"
    by (rule torn_down_put) simp_all
  finally show ?thesis using w u assms(2) by (simp add: error_handler_def Let_def)
qed

text \<open>What is left after a connection was torn down.\<close>

lemma torn_down_world:
  assumes l: "linked w a c"
  shows "selector_ok (w_sel (torn_down a c w))"
    and "w_clients (torn_down a c w) a = None"
    and "sel_lookup (w_sel (torn_down a c w)) = (sel_lookup (w_sel w))(c_client_fd c := None, c_destination_fd c := None)"
proof -
  let ?s1 = "drop_fd (w_sel w) (c_client_fd c)"
  note L = l [unfolded linked_def owned_def]
  from L have s1: "selector_ok ?s1" "sel_lookup ?s1 = (sel_lookup (w_sel w))(c_client_fd c := None)"
    using drop_fd_ok(2,3) [of "w_sel w" "c_client_fd c"] by auto
  have neg: "sel_lookup (w_sel w) (-1) = None" by (simp add: sel_lookup_def)
  have "selector_ok (w_sel (torn_down a c w)) \<and> sel_lookup (w_sel (torn_down a c w)) =
      (sel_lookup (w_sel w))(c_client_fd c := None, c_destination_fd c := None)"
  proof (cases "c_destination_fd c = -1")
    case True
    then show ?thesis using s1 neg by (auto simp: torn_down_def Let_def)
  next
    case False
    with L s1 drop_fd_ok(2,3) [OF s1(1), of "c_destination_fd c"] show ?thesis
      by (auto simp: torn_down_def Let_def)
  qed
  then show "selector_ok (w_sel (torn_down a c w))"
    and "sel_lookup (w_sel (torn_down a c w)) = (sel_lookup (w_sel w))(c_client_fd c := None, c_destination_fd c := None)"
    by simp_all
  show "w_clients (torn_down a c w) a = None" by (simp add: torn_down_def Let_def)
qed

text \<open>
  C26. When both directions of a live connection are closed and drained, \<open>end_connection\<close> closes
  each of its sockets once, unregisters them, frees the object and takes the connection out of the
  count, and leaves every other registration and object as it was.
\<close>

theorem end_connection_releases:
  assumes "linked w a c" and "connection_finished c"
  shows "\<exists>w'. end_connection env state (fd, Some (ClientPtr a)) w = Inr w' \<and>
     w_clients w' = (w_clients w)(a := None) \<and> w_monitors w' = w_monitors w \<and>
     sel_lookup (w_sel w') = (sel_lookup (w_sel w))(c_client_fd c := None, c_destination_fd c := None) \<and>
     w_stats w' = decrement_current_connections (w_stats w) \<and>
     w_trace w' = w_trace w @ Closed (c_client_fd c) #
       (if c_destination_fd c \<noteq> -1 then [Closed (c_destination_fd c)] else [])"
  using end_connection_finished [OF assms, of env state fd] torn_down_world(3) [OF assms(1)]
  by (auto simp: torn_down_def Let_def)

lemma sample_linked:
  assumes "st < 11" and "dest = -1 \<or> dest = 5" and "parser_tag_ok (sample_client st dest tag u)"
  obtains s where "linked (sample_world s us (sample_client st dest tag u)) 0 (sample_client st dest tag u)"
    and "selector_ok s"
    and "sel_lookup s = [4 \<mapsto> (OP_READ, Some CLIENT_HANDLER, Some (ClientPtr 0)),
                         5 \<mapsto> (OP_READ, Some CLIENT_HANDLER, Some (ClientPtr 0))]"
proof -
  from sample_selector obtain s :: "(fd_handler, attachment) fdselector" where
    s: "selector_ok s" "sel_lookup s = [4 \<mapsto> (OP_READ, Some CLIENT_HANDLER, Some (ClientPtr 0)),
                         5 \<mapsto> (OP_READ, Some CLIENT_HANDLER, Some (ClientPtr 0))]" by blast
  moreover from this assms have
    "linked (sample_world s us (sample_client st dest tag u)) 0 (sample_client st dest tag u)"
    by (auto simp: linked_def owned_def)
  ultimately show ?thesis using that by blast
qed

theorem end_connection_releases_witness:
  "\<exists>w c w'. end_connection (sample_env []) 9 (4, Some (ClientPtr 0)) w = Inr w' \<and> w_clients w 0 = Some c \<and>
     w_clients w' 0 = None \<and> w_trace w' = [Closed 4, Closed 5]"
proof -
  let ?c = "(sample_client 8 5 NO_PARSER P_none)\<lparr>c_client_closed := True, c_dest_closed := True\<rparr>"
  obtain s where l: "linked (sample_world s [] (sample_client 8 5 NO_PARSER P_none)) 0 (sample_client 8 5 NO_PARSER P_none)"
    using sample_linked [of 8 5 NO_PARSER P_none] by (auto simp: parser_tag_ok_def)
  let ?w = "put_client 0 ?c (sample_world s [] (sample_client 8 5 NO_PARSER P_none))"
  have "linked ?w 0 ?c" by (rule linked_put [OF l]) (simp_all add: parser_tag_ok_def)
  moreover have "connection_finished ?c"
    by (simp add: connection_finished_def can_read_iff buffer_init_def buffer_reset_def Let_def)
  ultimately obtain w' where w': "end_connection (sample_env []) 9 (4, Some (ClientPtr 0)) ?w = Inr w'"
    "w_clients w' = (w_clients ?w)(0 := None)" "w_trace w' = [Closed 4, Closed 5]"
    using end_connection_releases [of ?w 0 ?c "sample_env []" 9 4] by auto
  moreover have "w_clients ?w 0 = Some ?c" by simp
  ultimately show ?thesis by (metis fun_upd_same)
qed

end
