(* ===== verification/Hello.thy ===== *)
theory Hello
  imports Closing
begin

text \<open>
  The greeting of \<^verbatim>\<open>src/src/server/hello.c\<close>: the parser table, the callbacks of the states
  \<^verbatim>\<open>HELLO_READ\<close> and \<^verbatim>\<open>HELLO_WRITE\<close>, and what a whole greeting negotiates.
\<close>

section \<open>The parser\<close>

definition HELLO_STATE_VER :: nat where "HELLO_STATE_VER = 0"
definition HELLO_STATE_NMETHODS :: nat where "HELLO_STATE_NMETHODS = 1"
definition HELLO_STATE_METHODS :: nat where "HELLO_STATE_METHODS = 2"
definition HELLO_STATE_FIN :: nat where "HELLO_STATE_FIN = 3"
definition HELLO_STATE_ERROR :: nat where "HELLO_STATE_ERROR = 4"

definition HELLO_EVENT_VER :: nat where "HELLO_EVENT_VER = 0"
definition HELLO_EVENT_NMETHODS :: nat where "HELLO_EVENT_NMETHODS = 1"
definition HELLO_EVENT_METHOD :: nat where "HELLO_EVENT_METHOD = 2"
definition HELLO_EVENT_DONE :: nat where "HELLO_EVENT_DONE = 3"
definition HELLO_EVENT_UNEXPECTED :: nat where "HELLO_EVENT_UNEXPECTED = 4"

lemmas hello_consts = HELLO_STATE_VER_def HELLO_STATE_NMETHODS_def HELLO_STATE_METHODS_def
  HELLO_STATE_FIN_def HELLO_STATE_ERROR_def HELLO_EVENT_VER_def HELLO_EVENT_NMETHODS_def
  HELLO_EVENT_METHOD_def HELLO_EVENT_DONE_def HELLO_EVENT_UNEXPECTED_def

definition HELLO_PROTOCOL_VERSION :: byte where "HELLO_PROTOCOL_VERSION = 5"
definition HELLO_NO_ACCEPTABLE_METHODS :: byte where "HELLO_NO_ACCEPTABLE_METHODS = 0xFF"
definition HELLO_MAX_METHODS :: nat where "HELLO_MAX_METHODS = 255"

definition act_ver_hello :: parser_action where "act_ver_hello = put_byte HELLO_EVENT_VER"
definition act_nmethods_hello :: parser_action where "act_nmethods_hello = put_byte HELLO_EVENT_NMETHODS"
definition act_method_hello :: parser_action where "act_method_hello = put_byte HELLO_EVENT_METHOD"
definition act_done_hello :: parser_action where "act_done_hello = put_none HELLO_EVENT_DONE"

definition hello_parser_def :: parser_definition where
  "hello_parser_def =
     \<lparr>def_states_count = 5,
      def_states =
        [[on_any HELLO_STATE_NMETHODS act_ver_hello],
         [on_any HELLO_STATE_METHODS act_nmethods_hello],
         [on_any HELLO_STATE_METHODS act_method_hello],
         [on_any HELLO_STATE_FIN act_done_hello],
         [on_any HELLO_STATE_ERROR act_done_hello]],
      def_states_n = [1, 1, 1, 1, 1],
      def_start_state = HELLO_STATE_VER\<rparr>"

lemmas hello_table_defs = hello_parser_def_def act_ver_hello_def act_nmethods_hello_def
  act_method_hello_def act_done_hello_def hello_consts

interpretation hello_table: total_table hello_parser_def
proof unfold_locales
  fix st assume "st < def_states_count hello_parser_def"
  then have "st \<in> {0, 1, 2, 3, 4}" by (auto simp: hello_parser_def_def)
  then show "def_states_n hello_parser_def ! st \<le> length (def_states hello_parser_def ! st) \<and>
      (\<forall>t \<in> set (take (def_states_n hello_parser_def ! st) (def_states hello_parser_def ! st)).
         plain_transition (def_states_count hello_parser_def) t) \<and>
      (\<exists>t \<in> set (take (def_states_n hello_parser_def ! st) (def_states hello_parser_def ! st)). tr_when t = ANY)"
    by (auto simp: hello_table_defs)
qed (simp_all add: hello_table_defs)

datatype hello_status_t = HELLO_OK | HELLO_VER_ERROR | HELLO_NMETHODS_ERROR
  | HELLO_METHOD_NOT_ACCEPTED_ERROR | HELLO_UNKNOWN_ERROR

definition zero_hello :: hello_parser_t where
  "zero_hello = \<lparr>hp_ver = 0, hp_nmethods = 0, hp_methods = replicate HELLO_MAX_METHODS 0,
     hp_methods_read = 0, hp_method_selected = 0, hp_p = None\<rparr>"

definition hello_parser_init :: "env \<Rightarrow> hello_status_t \<times> hello_parser_t" where
  "hello_parser_init env =
     (let hp = zero_hello\<lparr>hp_p := parser_init (e_alloc env A_parser) (parser_no_classes (e_stray env)) hello_parser_def\<rparr>
      in (if hp_p hp = None then HELLO_UNKNOWN_ERROR else HELLO_OK, hp))"

section \<open>The callbacks\<close>

definition hello_read_init :: "env \<Rightarrow> nat \<Rightarrow> key \<Rightarrow> world \<Rightarrow> world res" where
  "hello_read_init env state key w =
     bindr (attached_client key) (\<lambda>a.
       let (status, hp) = hello_parser_init env in
       bindr (upd_client a (\<lambda>c. c\<lparr>c_parser := P_hello hp, c_active_parser := HELLO_PARSER\<rparr>) w) (\<lambda>w1.
         if status \<noteq> HELLO_OK then error_handler env state key w1 else Inr w1))"

text \<open>
  The loop that picks a method among those offered: \<open>selected\<close> is an unsigned byte, the offered
  methods are signed.
\<close>

fun select_loop :: "methods \<Rightarrow> byte list \<Rightarrow> byte \<Rightarrow> bool \<Rightarrow> (byte \<times> bool) res" where
  "select_loop ms [] selected found = Inr (selected, found)"
| "select_loop ms (m # offered) selected found =
     bindr (accepted_method ms (sint m)) (\<lambda>acc.
       if acc then
         select_loop ms offered
           (if uint selected = HELLO_AUTH_NO_METHOD_ACCEPTED \<or> uint selected < sint m then m else selected)
           True
       else select_loop ms offered selected found)"

definition select_method :: "methods \<Rightarrow> hello_parser_t \<Rightarrow> byte res" where
  "select_method ms hp =
     bindr (guardr OutOfBounds (unat (hp_nmethods hp) \<le> length (hp_methods hp))) (\<lambda>_.
     bindr (select_loop ms (take (unat (hp_nmethods hp)) (hp_methods hp))
              (word_of_int HELLO_AUTH_NO_METHOD_ACCEPTED) False) (\<lambda>(selected, found).
       Inr (if \<not> found then HELLO_NO_ACCEPTABLE_METHODS else selected)))"

text \<open>
  One event of the parser. The result is the state to return, or None when the switch is left by
  \<^verbatim>\<open>break\<close> and the loop over the events goes on.
\<close>

definition hello_event :: "key \<Rightarrow> nat \<Rightarrow> parser_event \<Rightarrow> world \<Rightarrow> (nat option \<times> world) res" where
  "hello_event key a ev w =
     bindr (get_client a w) (\<lambda>c.
     bindr (hello_of c) (\<lambda>hp.
     if ev_type ev = HELLO_EVENT_VER then
       bindr (arr_get (ev_data ev) 0) (\<lambda>d.
       bindr (set_parser a (P_hello (hp\<lparr>hp_ver := d\<rparr>)) w) (\<lambda>w1.
         Inr (if d \<noteq> HELLO_PROTOCOL_VERSION then Some ERROR else None, w1)))
     else if ev_type ev = HELLO_EVENT_NMETHODS then
       bindr (arr_get (ev_data ev) 0) (\<lambda>d.
         if d = 0 then Inr (Some ERROR, w)
         else
           bindr (set_parser a (P_hello (hp\<lparr>hp_nmethods := d, hp_methods_read := 0\<rparr>)) w) (\<lambda>w1.
             Inr (None, w1)))
     else if ev_type ev = HELLO_EVENT_METHOD then
       bindr (if hp_methods_read hp < hp_nmethods hp then
                bindr (arr_get (ev_data ev) 0) (\<lambda>d.
                bindr (arr_set (hp_methods hp) (unat (hp_methods_read hp)) d) (\<lambda>ms.
                  Inr (hp\<lparr>hp_methods := ms, hp_methods_read := hp_methods_read hp + 1\<rparr>)))
              else Inr hp) (\<lambda>hp1.
       if hp_methods_read hp1 = hp_nmethods hp1 then
         bindr (select_method (w_methods w) hp1) (\<lambda>selected.
         bindr (deref NullDeref (hp_p hp1)) (\<lambda>p.
         bindr (set_parser a (P_hello (hp1\<lparr>hp_method_selected := selected, hp_p := Some (parser_reset p)\<rparr>)) w) (\<lambda>w1.
         bindr (set_interest_key key OP_WRITE w1) (\<lambda>w2.
           Inr (Some HELLO_WRITE, w2)))))
       else
         bindr (set_parser a (P_hello hp1) w) (\<lambda>w1. Inr (None, w1)))
     else if ev_type ev = HELLO_EVENT_UNEXPECTED then Inr (Some ERROR, w)
     else if ev_type ev = HELLO_EVENT_DONE then Inr (None, w)
     else Inr (Some ERROR, w)))"

fun hello_events :: "key \<Rightarrow> nat \<Rightarrow> parser_event list \<Rightarrow> world \<Rightarrow> (nat \<times> world) res" where
  "hello_events key a [] w = Inr (HELLO_READ, w)"
| "hello_events key a (ev # evs) w =
     bindr (hello_event key a ev w) (\<lambda>(ret, w1).
       case ret of Some st \<Rightarrow> Inr (st, w1) | None \<Rightarrow> hello_events key a evs w1)"

definition hello_read :: "env \<Rightarrow> key \<Rightarrow> world \<Rightarrow> (nat \<times> world) res" where
  "hello_read env key w =
     bindr (attached_client key) (\<lambda>a.
     bindr (get_client a w) (\<lambda>c.
       let (n, bs, w1) = sys_recv env (fst key) 1 w in
       if n \<le> 0 then
         if would_block w1 then Inr (HELLO_READ, w1)
         else bindr (set_interest (c_client_fd c) OP_WRITE w1) (\<lambda>w2. Inr (ERROR, w2))
       else
         bindr (hello_of c) (\<lambda>hp.
         bindr (deref NullDeref (hp_p hp)) (\<lambda>p.
         bindr (parser_feed p (hd bs)) (\<lambda>p'.
         bindr (set_parser a (P_hello (hp\<lparr>hp_p := Some p'\<rparr>)) w1) (\<lambda>w2.
           hello_events key a (parser_events p') w2))))))"

definition hello_write :: "env \<Rightarrow> key \<Rightarrow> world \<Rightarrow> (nat \<times> world) res" where
  "hello_write env key w =
     bindr (attached_client key) (\<lambda>a.
     bindr (get_client a w) (\<lambda>c.
     bindr (hello_of c) (\<lambda>hp.
       let (n, w1) = sys_send env (fst key) [HELLO_PROTOCOL_VERSION, hp_method_selected hp] w in
       if n \<noteq> 2 then Inr (ERROR, w1)
       else
         bindr (set_interest_key key OP_READ w1) (\<lambda>w2.
           Inr (if uint (hp_method_selected hp) = HELLO_AUTH_NO_AUTH then REQUEST_READ else AUTH_READ, w2)))))"

section \<open>Which method is selected\<close>

text \<open>
  Among the offered methods that are accepted, the numerically largest; none if no offered method
  is accepted.
\<close>

definition chosen_method :: "methods \<Rightarrow> byte list \<Rightarrow> byte" where
  "chosen_method ms offered =
     (let acc = {m \<in> set offered. 0 \<le> sint m \<and> sint m \<in> method_set ms}
      in if acc = {} then 0xFF else Max acc)"

lemma uint_sint_nonneg: "0 \<le> sint (m :: byte) \<Longrightarrow> uint m = sint m"
  using uint_sint [of m] sint_lt [of m] by (simp add: take_bit_int_eq_self)

lemma Max_insert_le:
  assumes "finite A" and "x \<le> (m :: 'a :: linorder)"
  shows "Max (insert x (insert m A)) = Max (insert m A)"
proof -
  have "m \<le> Max (insert m A)" using assms(1) by simp
  with assms(2) have "x \<le> Max (insert m A)" by (rule order_trans)
  then show ?thesis using assms(1) by (simp add: max_absorb2 del: Max_insert add: Max_insert [of "insert m A" x])
qed

lemma accepted_sint:
  assumes "methods_ok ms"
  shows "accepted_method ms (sint m) = Inr (0 \<le> sint m \<and> sint m \<in> method_set ms)"
  using assms accepted_method_correct accepted_method_negative by (cases "0 \<le> sint m") auto

lemma select_loop_found:
  assumes "methods_ok ms" and "0 \<le> sint selected"
  shows "select_loop ms offered selected True =
     Inr (Max (insert selected {m \<in> set offered. 0 \<le> sint m \<and> sint m \<in> method_set ms}), True)"
  using assms(2)
proof (induction offered arbitrary: selected)
  case (Cons m offered)
  let ?A = "{m \<in> set offered. 0 \<le> sint m \<and> sint m \<in> method_set ms}"
  let ?acc = "0 \<le> sint m \<and> sint m \<in> method_set ms"
  have lt: "uint selected = sint selected" using Cons.prems by (rule uint_sint_nonneg)
  have "uint selected \<noteq> 255"
    using lt sint_lt [of selected] by simp
  with accepted_sint [OF assms(1), of m] have run: "select_loop ms (m # offered) selected True =
      select_loop ms offered (if ?acc \<and> uint selected < sint m then m else selected) True"
    by (simp add: HELLO_AUTH_NO_METHOD_ACCEPTED_def)
  show ?case
  proof (cases ?acc)
    case False
    then have "{x \<in> set (m # offered). 0 \<le> sint x \<and> sint x \<in> method_set ms} = ?A" by auto
    then show ?thesis using run False Cons.IH [OF Cons.prems] by simp
  next
    case True
    then have um: "uint m = sint m" using uint_sint_nonneg by blast
    have set: "{x \<in> set (m # offered). 0 \<le> sint x \<and> sint x \<in> method_set ms} = insert m ?A"
      using True by auto
    have less: "uint selected < sint m \<longleftrightarrow> selected < m" using um by (simp add: word_less_def)
    show ?thesis
    proof (cases "selected < m")
      case True
      then have "Max (insert selected (insert m ?A)) = Max (insert m ?A)"
        by (intro Max_insert_le) auto
      then show ?thesis using run True \<open>?acc\<close> Cons.IH [of m] less set by simp
    next
      case False
      then have "Max (insert m (insert selected ?A)) = Max (insert selected ?A)"
        by (intro Max_insert_le) auto
      then have "Max (insert selected (insert m ?A)) = Max (insert selected ?A)"
        by (simp only: insert_commute)
      then show ?thesis using run False \<open>?acc\<close> Cons.IH [OF Cons.prems] less set by simp
    qed
  qed
qed simp

lemma select_loop_none:
  assumes "methods_ok ms"
  shows "select_loop ms offered (-1) False =
     (let acc = {m \<in> set offered. 0 \<le> sint m \<and> sint m \<in> method_set ms}
      in Inr (if acc = {} then -1 else Max acc, acc \<noteq> {}))"
proof (induction offered)
  case (Cons m offered)
  let ?acc = "0 \<le> sint m \<and> sint m \<in> method_set ms"
  show ?case
  proof (cases ?acc)
    case False
    then have "{x \<in> set (m # offered). 0 \<le> sint x \<and> sint x \<in> method_set ms} =
        {m \<in> set offered. 0 \<le> sint m \<and> sint m \<in> method_set ms}" by auto
    then show ?thesis using False Cons.IH accepted_sint [OF assms, of m] unfolding Let_def
      by (simp only: select_loop.simps bindr_simps if_False)
  next
    case True
    then have set: "{x \<in> set (m # offered). 0 \<le> sint x \<and> sint x \<in> method_set ms} =
        insert m {m \<in> set offered. 0 \<le> sint m \<and> sint m \<in> method_set ms}" by auto
    have u: "uint (-1 :: byte) = HELLO_AUTH_NO_METHOD_ACCEPTED"
      by (simp add: HELLO_AUTH_NO_METHOD_ACCEPTED_def unsigned_minus_1_eq_mask mask_eq_exp_minus_1)
    have acc: "accepted_method ms (sint m) = Inr True" using True accepted_sint [OF assms, of m] by simp
    have "select_loop ms (m # offered) (-1) False = select_loop ms offered m True"
      using u by (simp add: acc)
    with True select_loop_found [OF assms, of m offered] show ?thesis unfolding Let_def set by simp
  qed
qed simp

lemma select_method_chosen:
  assumes "methods_ok ms" and "unat (hp_nmethods hp) \<le> length (hp_methods hp)"
  shows "select_method ms hp = Inr (chosen_method ms (take (unat (hp_nmethods hp)) (hp_methods hp)))"
proof -
  have "(word_of_int HELLO_AUTH_NO_METHOD_ACCEPTED :: byte) = -1"
    by (simp add: HELLO_AUTH_NO_METHOD_ACCEPTED_def)
  with assms(2) select_loop_none [OF assms(1)] show ?thesis
    by (auto simp: select_method_def chosen_method_def Let_def HELLO_NO_ACCEPTABLE_METHODS_def)
qed

lemma chosen_method_accepted:
  assumes "chosen_method ms offered \<noteq> 0xFF"
  shows "chosen_method ms offered \<in> set offered" and "0 \<le> sint (chosen_method ms offered)"
    and "sint (chosen_method ms offered) \<in> method_set ms"
proof -
  let ?A = "{m \<in> set offered. 0 \<le> sint m \<and> sint m \<in> method_set ms}"
  have "?A \<noteq> {}" using assms by (auto simp: chosen_method_def Let_def split: if_splits)
  moreover have "finite ?A" by simp
  ultimately have "Max ?A \<in> ?A" by (rule Max_in [rotated])
  moreover have "chosen_method ms offered = Max ?A"
    using \<open>?A \<noteq> {}\<close> unfolding chosen_method_def Let_def by (simp only: if_False)
  ultimately show "chosen_method ms offered \<in> set offered" and "0 \<le> sint (chosen_method ms offered)"
    and "sint (chosen_method ms offered) \<in> method_set ms" by simp_all
qed

section \<open>One byte of the greeting\<close>

definition greeting :: "world \<Rightarrow> nat \<Rightarrow> client_t \<Rightarrow> hello_parser_t \<Rightarrow> parser \<Rightarrow> bool" where
  "greeting w a c hp p \<longleftrightarrow> linked w a c \<and> c_parser c = P_hello hp \<and> hp_p hp = Some p \<and>
     parser_ok hello_parser_def p \<and> length (hp_methods hp) = HELLO_MAX_METHODS"

lemma hello_feed:
  assumes "parser_ok hello_parser_def p"
  shows "p_state p = HELLO_STATE_VER \<Longrightarrow>
      parser_feed p b = Inr (stepped p b HELLO_EVENT_VER HELLO_STATE_NMETHODS)"
    and "p_state p = HELLO_STATE_NMETHODS \<Longrightarrow>
      parser_feed p b = Inr (stepped p b HELLO_EVENT_NMETHODS HELLO_STATE_METHODS)"
    and "p_state p = HELLO_STATE_METHODS \<Longrightarrow>
      parser_feed p b = Inr (stepped p b HELLO_EVENT_METHOD HELLO_STATE_METHODS)"
  by (rule feed_row [OF assms]; simp add: hello_table_defs)+

lemma hello_read_ver:
  assumes "greeting w a c hp p" and "p_state p = HELLO_STATE_VER" and "e_recv env fd = Avail (b # bs)"
  shows "hello_read env (fd, Some (ClientPtr a)) w =
     Inr (if b = 5 then HELLO_READ else ERROR,
       put_client a (c\<lparr>c_parser := P_hello (hp\<lparr>hp_p := Some (stepped p b HELLO_EVENT_VER HELLO_STATE_NMETHODS),
         hp_ver := b\<rparr>)\<rparr>) (emit (Recv fd [b]) w))"
  using assms hello_feed(1) [of p b]
  by (auto simp: greeting_def linked_def hello_read_def hello_event_def HELLO_PROTOCOL_VERSION_def)

lemma hello_read_nmethods:
  assumes "greeting w a c hp p" and "p_state p = HELLO_STATE_NMETHODS"
    and "e_recv env fd = Avail (b # bs)" and "b \<noteq> 0"
  shows "hello_read env (fd, Some (ClientPtr a)) w =
     Inr (HELLO_READ,
       put_client a (c\<lparr>c_parser := P_hello (hp\<lparr>hp_p := Some (stepped p b HELLO_EVENT_NMETHODS HELLO_STATE_METHODS),
         hp_nmethods := b, hp_methods_read := 0\<rparr>)\<rparr>) (emit (Recv fd [b]) w))"
  using assms hello_feed(2) [of p b]
  by (auto simp: greeting_def linked_def hello_read_def hello_event_def hello_consts)

lemma hello_read_method:
  assumes g: "greeting w a c hp p" and "p_state p = HELLO_STATE_METHODS"
    and "e_recv env fd = Avail (b # bs)" and lt: "hp_methods_read hp < hp_nmethods hp"
  defines "p' \<equiv> stepped p b HELLO_EVENT_METHOD HELLO_STATE_METHODS"
  defines "hp' \<equiv> hp\<lparr>hp_p := Some p', hp_methods := (hp_methods hp)[unat (hp_methods_read hp) := b],
      hp_methods_read := hp_methods_read hp + 1\<rparr>"
  shows "hello_read env (fd, Some (ClientPtr a)) w =
     (if hp_methods_read hp + 1 \<noteq> hp_nmethods hp
      then Inr (HELLO_READ, put_client a (c\<lparr>c_parser := P_hello hp'\<rparr>) (emit (Recv fd [b]) w))
      else bindr (select_method (w_methods w) hp') (\<lambda>selected.
        Inr (HELLO_WRITE, put_client a (c\<lparr>c_parser := P_hello (hp'\<lparr>hp_method_selected := selected,
            hp_p := Some (parser_reset p')\<rparr>)\<rparr>)
          (emit (Recv fd [b]) (w\<lparr>w_sel := upd_interest (w_sel w) fd OP_WRITE\<rparr>)))))"
proof -
  have idx: "unat (hp_methods_read hp) < length (hp_methods hp)"
  proof -
    have "unat (hp_methods_read hp) < unat (hp_nmethods hp)" using lt by (simp add: word_less_nat_alt)
    also have "\<dots> \<le> 255" using unsigned_less [where ?'a = nat, of "hp_nmethods hp"] by simp
    finally show ?thesis using g by (simp add: greeting_def HELLO_MAX_METHODS_def)
  qed
  have feed: "parser_feed p b = Inr p'" using assms(2) g hello_feed(3) [of p b]
    by (simp add: p'_def greeting_def)
  have ev: "parser_events p' = [p_e1 p']" "ev_type (p_e1 p') = HELLO_EVENT_METHOD"
      "arr_get (ev_data (p_e1 p')) 0 = Inr b"
    using g by (auto simp: p'_def greeting_def)
  have w: "w_clients w a = Some c" "c_parser c = P_hello hp" "hp_p hp = Some p" "selector_ok (w_sel w)"
    using g by (auto simp: greeting_def linked_def)
  show ?thesis
    using w feed ev idx lt assms(3)
    by (auto simp: hello_read_def hello_event_def hello_consts hp'_def set_interest_key_eq set_interest_recv)
qed

end
