(* ===== verification/Auth.thy ===== *)
theory Auth
  imports Closing
begin

text \<open>
  Username and password authentication of \<^verbatim>\<open>src/src/server/auth.c\<close>: the parser table, the
  callbacks of the states \<^verbatim>\<open>AUTH_READ\<close> and \<^verbatim>\<open>AUTH_WRITE\<close>, and one lemma per byte of the
  sub-negotiation.
\<close>

section \<open>The parser\<close>

definition AUTH_STATE_VER :: nat where "AUTH_STATE_VER = 0"
definition AUTH_STATE_ULEN :: nat where "AUTH_STATE_ULEN = 1"
definition AUTH_STATE_UNAME :: nat where "AUTH_STATE_UNAME = 2"
definition AUTH_STATE_PLEN :: nat where "AUTH_STATE_PLEN = 3"
definition AUTH_STATE_PASSWD :: nat where "AUTH_STATE_PASSWD = 4"
definition AUTH_STATE_FIN :: nat where "AUTH_STATE_FIN = 5"
definition AUTH_STATE_ERROR :: nat where "AUTH_STATE_ERROR = 6"

definition AUTH_EVENT_VER :: nat where "AUTH_EVENT_VER = 0"
definition AUTH_EVENT_ULEN :: nat where "AUTH_EVENT_ULEN = 1"
definition AUTH_EVENT_UNAME :: nat where "AUTH_EVENT_UNAME = 2"
definition AUTH_EVENT_PLEN :: nat where "AUTH_EVENT_PLEN = 3"
definition AUTH_EVENT_PASSWD :: nat where "AUTH_EVENT_PASSWD = 4"
definition AUTH_EVENT_DONE :: nat where "AUTH_EVENT_DONE = 5"

lemmas auth_consts = AUTH_STATE_VER_def AUTH_STATE_ULEN_def AUTH_STATE_UNAME_def AUTH_STATE_PLEN_def
  AUTH_STATE_PASSWD_def AUTH_STATE_FIN_def AUTH_STATE_ERROR_def AUTH_EVENT_VER_def
  AUTH_EVENT_ULEN_def AUTH_EVENT_UNAME_def AUTH_EVENT_PLEN_def AUTH_EVENT_PASSWD_def
  AUTH_EVENT_DONE_def

definition AUTH_VERSION :: byte where "AUTH_VERSION = 1"
definition AUTH_REPLY_SIZE :: nat where "AUTH_REPLY_SIZE = 2"
definition AUTH_SUCCESS :: byte where "AUTH_SUCCESS = 0"
definition AUTH_FAILURE :: byte where "AUTH_FAILURE = 1"

definition act_auth_ver :: parser_action where "act_auth_ver = put_byte AUTH_EVENT_VER"
definition act_auth_ulen :: parser_action where "act_auth_ulen = put_byte AUTH_EVENT_ULEN"
definition act_auth_uname :: parser_action where "act_auth_uname = put_byte AUTH_EVENT_UNAME"
definition act_auth_plen :: parser_action where "act_auth_plen = put_byte AUTH_EVENT_PLEN"
definition act_auth_passwd :: parser_action where "act_auth_passwd = put_byte AUTH_EVENT_PASSWD"
definition act_auth_done :: parser_action where "act_auth_done = put_none AUTH_EVENT_DONE"

definition auth_parser_def :: parser_definition where
  "auth_parser_def =
     \<lparr>def_states_count = 7,
      def_states =
        [[on_any AUTH_STATE_ULEN act_auth_ver],
         [on_any AUTH_STATE_UNAME act_auth_ulen],
         [on_any AUTH_STATE_UNAME act_auth_uname],
         [on_any AUTH_STATE_PASSWD act_auth_plen],
         [on_any AUTH_STATE_PASSWD act_auth_passwd],
         [on_any AUTH_STATE_FIN act_auth_done],
         [on_any AUTH_STATE_FIN act_auth_done]],
      def_states_n = [1, 1, 1, 1, 1, 1, 1],
      def_start_state = AUTH_STATE_VER\<rparr>"

lemmas auth_table_defs = auth_parser_def_def act_auth_ver_def act_auth_ulen_def act_auth_uname_def
  act_auth_plen_def act_auth_passwd_def act_auth_done_def auth_consts

interpretation auth_table: total_table auth_parser_def
proof unfold_locales
  fix st assume "st < def_states_count auth_parser_def"
  then have "st \<in> {0, 1, 2, 3, 4, 5, 6}" by (auto simp: auth_parser_def_def)
  then show "def_states_n auth_parser_def ! st \<le> length (def_states auth_parser_def ! st) \<and>
      (\<forall>t \<in> set (take (def_states_n auth_parser_def ! st) (def_states auth_parser_def ! st)).
         plain_transition (def_states_count auth_parser_def) t) \<and>
      (\<exists>t \<in> set (take (def_states_n auth_parser_def ! st) (def_states auth_parser_def ! st)). tr_when t = ANY)"
    by (auto simp: auth_table_defs)
qed (simp_all add: auth_table_defs)

definition zero_auth :: auth_parser_t where
  "zero_auth = \<lparr>ap_ver = 0, ap_ulen = 0, ap_uname = replicate MAX_BUFFER_SIZE 0, ap_uname_read = 0,
     ap_plen = 0, ap_passwd = replicate MAX_BUFFER_SIZE 0, ap_passwd_read = 0,
     ap_auth_status = 0, ap_auth_done = False, ap_p = None\<rparr>"

definition auth_parser_init :: "env \<Rightarrow> auth_status_t \<times> auth_parser_t" where
  "auth_parser_init env =
     (let ap = zero_auth\<lparr>ap_p := parser_init (e_alloc env A_parser) (parser_no_classes (e_stray env)) auth_parser_def\<rparr>
      in (if ap_p ap = None then AUTH_ERROR else AUTH_OK, ap))"

section \<open>The callbacks\<close>

definition auth_read_init :: "env \<Rightarrow> nat \<Rightarrow> key \<Rightarrow> world \<Rightarrow> world res" where
  "auth_read_init env state key w =
     bindr (attached_client key) (\<lambda>a.
     bindr (get_client a w) (\<lambda>c.
     bindr (destroy_active_parser c) (\<lambda>c1.
       let (status, ap) = auth_parser_init env;
           w1 = put_client a (c1\<lparr>c_parser := P_auth ap, c_active_parser := AUTH_PARSER\<rparr>) w
       in if status \<noteq> AUTH_OK then error_handler env state key w1 else Inr w1)))"

text \<open>Storing a byte of a name and the terminator behind it.\<close>

definition store_char :: "byte list \<Rightarrow> byte \<Rightarrow> byte \<Rightarrow> (byte list \<times> byte) res" where
  "store_char arr pos d =
     bindr (arr_set arr (unat pos) d) (\<lambda>arr1.
     bindr (arr_set arr1 (unat (pos + 1)) 0) (\<lambda>arr2. Inr (arr2, pos + 1)))"

definition auth_event :: "key \<Rightarrow> nat \<Rightarrow> parser_event \<Rightarrow> world \<Rightarrow> (nat option \<times> world) res" where
  "auth_event key a ev w =
     bindr (get_client a w) (\<lambda>c.
     bindr (auth_of c) (\<lambda>ap.
     if ev_type ev = AUTH_EVENT_VER then
       bindr (arr_get (ev_data ev) 0) (\<lambda>d.
       bindr (set_parser a (P_auth (ap\<lparr>ap_ver := d\<rparr>)) w) (\<lambda>w1.
         Inr (if d \<noteq> AUTH_VERSION then Some ERROR else None, w1)))
     else if ev_type ev = AUTH_EVENT_ULEN then
       bindr (arr_get (ev_data ev) 0) (\<lambda>d.
       bindr (set_parser a (P_auth (ap\<lparr>ap_ulen := d, ap_uname_read := 0\<rparr>)) w) (\<lambda>w1. Inr (None, w1)))
     else if ev_type ev = AUTH_EVENT_UNAME then
       bindr (if ap_uname_read ap < ap_ulen ap then
                bindr (arr_get (ev_data ev) 0) (\<lambda>d.
                bindr (store_char (ap_uname ap) (ap_uname_read ap) d) (\<lambda>(arr, r).
                  Inr (ap\<lparr>ap_uname := arr, ap_uname_read := r\<rparr>)))
              else Inr ap) (\<lambda>ap1.
       bindr (if ap_uname_read ap1 = ap_ulen ap1 then
                bindr (deref NullDeref (ap_p ap1)) (\<lambda>p.
                  Inr (ap1\<lparr>ap_p := Some (parser_set_state p AUTH_STATE_PLEN)\<rparr>))
              else Inr ap1) (\<lambda>ap2.
       bindr (set_parser a (P_auth ap2) w) (\<lambda>w1. Inr (None, w1))))
     else if ev_type ev = AUTH_EVENT_PLEN then
       bindr (arr_get (ev_data ev) 0) (\<lambda>d.
       bindr (set_parser a (P_auth (ap\<lparr>ap_plen := d, ap_passwd_read := 0\<rparr>)) w) (\<lambda>w1. Inr (None, w1)))
     else if ev_type ev = AUTH_EVENT_PASSWD then
       bindr (if ap_passwd_read ap < ap_plen ap then
                bindr (arr_get (ev_data ev) 0) (\<lambda>d.
                bindr (store_char (ap_passwd ap) (ap_passwd_read ap) d) (\<lambda>(arr, r).
                  Inr (ap\<lparr>ap_passwd := arr, ap_passwd_read := r\<rparr>)))
              else Inr ap) (\<lambda>ap1.
       if ap_passwd_read ap1 = ap_plen ap1 \<and> \<not> ap_auth_done ap1 then
         bindr (string_at (ap_uname ap1)) (\<lambda>uname.
         bindr (string_at (ap_passwd ap1)) (\<lambda>passwd.
           let status = (if fst (user_login (w_users w) (Some uname) passwd) = USERS_OK
                         then AUTH_SUCCESS else AUTH_FAILURE)
           in
           bindr (set_parser a (P_auth (ap1\<lparr>ap_auth_status := status, ap_auth_done := True\<rparr>)) w) (\<lambda>w1.
           bindr (set_interest_key key OP_WRITE w1) (\<lambda>w2. Inr (Some AUTH_WRITE, w2)))))
       else bindr (set_parser a (P_auth ap1) w) (\<lambda>w1. Inr (None, w1)))
     else Inr (Some ERROR, w)))"

fun auth_events :: "key \<Rightarrow> nat \<Rightarrow> parser_event list \<Rightarrow> world \<Rightarrow> (nat \<times> world) res" where
  "auth_events key a [] w = Inr (AUTH_READ, w)"
| "auth_events key a (ev # evs) w =
     bindr (auth_event key a ev w) (\<lambda>(ret, w1).
       case ret of Some st \<Rightarrow> Inr (st, w1) | None \<Rightarrow> auth_events key a evs w1)"

definition auth_read :: "env \<Rightarrow> key \<Rightarrow> world \<Rightarrow> (nat \<times> world) res" where
  "auth_read env key w =
     bindr (attached_client key) (\<lambda>a.
     bindr (get_client a w) (\<lambda>c.
       let (n, bs, w1) = sys_recv env (fst key) 1 w in
       if n \<le> 0 then Inr (if would_block w1 then AUTH_READ else ERROR, w1)
       else
         bindr (auth_of c) (\<lambda>ap.
         bindr (deref NullDeref (ap_p ap)) (\<lambda>p.
         bindr (parser_feed p (hd bs)) (\<lambda>p'.
         bindr (set_parser a (P_auth (ap\<lparr>ap_p := Some p'\<rparr>)) w1) (\<lambda>w2.
           auth_events key a (parser_events p') w2))))))"

definition auth_write :: "env \<Rightarrow> key \<Rightarrow> world \<Rightarrow> (nat \<times> world) res" where
  "auth_write env key w =
     bindr (attached_client key) (\<lambda>a.
     bindr (get_client a w) (\<lambda>c.
     bindr (auth_of c) (\<lambda>ap.
       let (n, w1) = sys_send env (fst key) [AUTH_VERSION, ap_auth_status ap] w in
       if n \<noteq> int AUTH_REPLY_SIZE \<or> ap_auth_status ap = AUTH_FAILURE then
         bindr (set_interest_key key OP_NOOP w1) (\<lambda>w2. Inr (ERROR, w2))
       else if ap_auth_status ap = AUTH_SUCCESS then
         bindr (set_interest_key key OP_READ w1) (\<lambda>w2. Inr (REQUEST_READ, w2))
       else Inr (ERROR, w1))))"

section \<open>One byte of the sub-negotiation\<close>

definition authenticating :: "world \<Rightarrow> nat \<Rightarrow> client_t \<Rightarrow> auth_parser_t \<Rightarrow> parser \<Rightarrow> bool" where
  "authenticating w a c ap p \<longleftrightarrow> linked w a c \<and> c_parser c = P_auth ap \<and> ap_p ap = Some p \<and>
     parser_ok auth_parser_def p"

lemma auth_feed:
  assumes "parser_ok auth_parser_def p"
  shows "p_state p = AUTH_STATE_VER \<Longrightarrow> parser_feed p b = Inr (stepped p b AUTH_EVENT_VER AUTH_STATE_ULEN)"
    and "p_state p = AUTH_STATE_ULEN \<Longrightarrow> parser_feed p b = Inr (stepped p b AUTH_EVENT_ULEN AUTH_STATE_UNAME)"
    and "p_state p = AUTH_STATE_UNAME \<Longrightarrow> parser_feed p b = Inr (stepped p b AUTH_EVENT_UNAME AUTH_STATE_UNAME)"
    and "p_state p = AUTH_STATE_PLEN \<Longrightarrow> parser_feed p b = Inr (stepped p b AUTH_EVENT_PLEN AUTH_STATE_PASSWD)"
    and "p_state p = AUTH_STATE_PASSWD \<Longrightarrow> parser_feed p b = Inr (stepped p b AUTH_EVENT_PASSWD AUTH_STATE_PASSWD)"
  by (rule feed_row [OF assms]; simp add: auth_table_defs)+

lemma store_char_filled:
  assumes "length xs + 1 < n" and "n \<le> 256" and "unat pos = length xs"
  shows "store_char (filled xs n) pos d = Inr (filled (xs @ [d]) n, pos + 1)"
proof -
  have "unat (pos + 1) = Suc (length xs)"
    using assms unat_byte_Suc [of pos 255] by simp
  then show ?thesis
    using assms filled_store [of xs n d] filled_terminate [of "xs @ [d]" n]
    by (simp add: store_char_def)
qed

text \<open>
  A name of 255 bytes does not fit: its last byte is stored, and the terminator is written one
  place past the array.
\<close>

lemma store_char_overflow:
  assumes "length arr = MAX_BUFFER_SIZE" and "pos = 254"
  shows "store_char arr pos d = Inl OutOfBounds"
  using assms by (simp add: store_char_def MAX_BUFFER_SIZE_def)

lemma auth_read_ver:
  assumes "authenticating w a c ap p" and "p_state p = AUTH_STATE_VER" and "e_recv env fd = Avail (b # bs)"
  shows "auth_read env (fd, Some (ClientPtr a)) w =
     Inr (if b = AUTH_VERSION then AUTH_READ else ERROR,
       put_client a (c\<lparr>c_parser := P_auth (ap\<lparr>ap_p := Some (stepped p b AUTH_EVENT_VER AUTH_STATE_ULEN),
         ap_ver := b\<rparr>)\<rparr>) (emit (Recv fd [b]) w))"
  using assms auth_feed(1) [of p b]
  by (auto simp: authenticating_def linked_def auth_read_def auth_event_def AUTH_VERSION_def)

lemma auth_read_ulen:
  assumes "authenticating w a c ap p" and "p_state p = AUTH_STATE_ULEN" and "e_recv env fd = Avail (b # bs)"
  shows "auth_read env (fd, Some (ClientPtr a)) w =
     Inr (AUTH_READ,
       put_client a (c\<lparr>c_parser := P_auth (ap\<lparr>ap_p := Some (stepped p b AUTH_EVENT_ULEN AUTH_STATE_UNAME),
         ap_ulen := b, ap_uname_read := 0\<rparr>)\<rparr>) (emit (Recv fd [b]) w))"
  using assms auth_feed(2) [of p b]
  by (auto simp: authenticating_def linked_def auth_read_def auth_event_def auth_consts)

lemma set_p_first:
  "ap\<lparr>ap_uname := x, ap_uname_read := r, ap_p := q\<rparr> = ap\<lparr>ap_p := q, ap_uname := x, ap_uname_read := r\<rparr>"
  by (cases ap) simp

lemma auth_read_uname:
  assumes "authenticating w a c ap p" and "p_state p = AUTH_STATE_UNAME"
    and "e_recv env fd = Avail (b # bs)"
    and "ap_uname ap = filled xs MAX_BUFFER_SIZE" and "unat (ap_uname_read ap) = length xs"
    and "length xs < unat (ap_ulen ap)" and "unat (ap_ulen ap) < MAX_BUFFER_SIZE"
  defines "p' \<equiv> stepped p b AUTH_EVENT_UNAME AUTH_STATE_UNAME"
  shows "auth_read env (fd, Some (ClientPtr a)) w =
     Inr (AUTH_READ,
       put_client a (c\<lparr>c_parser := P_auth (ap\<lparr>
         ap_p := Some (if length xs + 1 = unat (ap_ulen ap) then parser_set_state p' AUTH_STATE_PLEN else p'),
         ap_uname := filled (xs @ [b]) MAX_BUFFER_SIZE, ap_uname_read := ap_uname_read ap + 1\<rparr>)\<rparr>)
       (emit (Recv fd [b]) w))"
proof -
  have st: "store_char (ap_uname ap) (ap_uname_read ap) b =
      Inr (filled (xs @ [b]) MAX_BUFFER_SIZE, ap_uname_read ap + 1)"
    using assms(4-7) store_char_filled [of xs MAX_BUFFER_SIZE] by (simp add: MAX_BUFFER_SIZE_def)
  have lt: "ap_uname_read ap < ap_ulen ap" using assms(5,6) by (simp add: word_less_nat_alt)
  then have "unat (ap_uname_read ap + 1) = length xs + 1"
    using assms(5) unat_byte_Suc by (simp add: word_less_nat_alt)
  then have last: "ap_uname_read ap + 1 = ap_ulen ap \<longleftrightarrow> length xs + 1 = unat (ap_ulen ap)"
    by (simp add: byte_eq_iff_unat)
  show ?thesis
    using assms(1-3) auth_feed(3) [of p b] st lt last
    by (auto simp: p'_def authenticating_def linked_def auth_read_def auth_event_def auth_consts set_p_first)
qed

lemma auth_read_plen:
  assumes "authenticating w a c ap p" and "p_state p = AUTH_STATE_PLEN" and "e_recv env fd = Avail (b # bs)"
  shows "auth_read env (fd, Some (ClientPtr a)) w =
     Inr (AUTH_READ,
       put_client a (c\<lparr>c_parser := P_auth (ap\<lparr>ap_p := Some (stepped p b AUTH_EVENT_PLEN AUTH_STATE_PASSWD),
         ap_plen := b, ap_passwd_read := 0\<rparr>)\<rparr>) (emit (Recv fd [b]) w))"
  using assms auth_feed(4) [of p b]
  by (auto simp: authenticating_def linked_def auth_read_def auth_event_def auth_consts)

lemma auth_read_passwd:
  assumes "authenticating w a c ap p" and "p_state p = AUTH_STATE_PASSWD"
    and "e_recv env fd = Avail (b # bs)"
    and "ap_passwd ap = filled xs MAX_BUFFER_SIZE" and "unat (ap_passwd_read ap) = length xs"
    and "length xs + 1 < unat (ap_plen ap)" and "unat (ap_plen ap) < MAX_BUFFER_SIZE"
  shows "auth_read env (fd, Some (ClientPtr a)) w =
     Inr (AUTH_READ,
       put_client a (c\<lparr>c_parser := P_auth (ap\<lparr>
         ap_p := Some (stepped p b AUTH_EVENT_PASSWD AUTH_STATE_PASSWD),
         ap_passwd := filled (xs @ [b]) MAX_BUFFER_SIZE, ap_passwd_read := ap_passwd_read ap + 1\<rparr>)\<rparr>)
       (emit (Recv fd [b]) w))"
proof -
  have st: "store_char (ap_passwd ap) (ap_passwd_read ap) b =
      Inr (filled (xs @ [b]) MAX_BUFFER_SIZE, ap_passwd_read ap + 1)"
    using assms(4-7) store_char_filled [of xs MAX_BUFFER_SIZE] by (simp add: MAX_BUFFER_SIZE_def)
  have lt: "ap_passwd_read ap < ap_plen ap" using assms(5,6) by (simp add: word_less_nat_alt)
  then have "unat (ap_passwd_read ap + 1) = length xs + 1"
    using assms(5) unat_byte_Suc by (simp add: word_less_nat_alt)
  then have last: "ap_passwd_read ap + 1 \<noteq> ap_plen ap" using assms(6) by (auto simp: byte_eq_iff_unat)
  show ?thesis
    using assms(1-3) auth_feed(5) [of p b] st lt last
    by (auto simp: authenticating_def linked_def auth_read_def auth_event_def auth_consts)
qed

text \<open>The last byte of the password runs the login and moves to \<^verbatim>\<open>AUTH_WRITE\<close>.\<close>

lemma auth_read_last:
  assumes "authenticating w a c ap p" and "p_state p = AUTH_STATE_PASSWD"
    and "e_recv env fd = Avail (b # bs)"
    and "ap_passwd ap = filled xs MAX_BUFFER_SIZE" and "unat (ap_passwd_read ap) = length xs"
    and "length xs + 1 = unat (ap_plen ap)" and "unat (ap_plen ap) < MAX_BUFFER_SIZE"
    and "ap_uname ap = filled name MAX_BUFFER_SIZE" and "length name < MAX_BUFFER_SIZE"
    and "\<not> ap_auth_done ap"
  shows "auth_read env (fd, Some (ClientPtr a)) w =
     Inr (AUTH_WRITE,
       put_client a (c\<lparr>c_parser := P_auth (ap\<lparr>
         ap_p := Some (stepped p b AUTH_EVENT_PASSWD AUTH_STATE_PASSWD),
         ap_passwd := filled (xs @ [b]) MAX_BUFFER_SIZE, ap_passwd_read := ap_passwd_read ap + 1,
         ap_auth_status := (if fst (user_login (w_users w) (Some (cstr name)) (cstr (xs @ [b]))) = USERS_OK
                            then AUTH_SUCCESS else AUTH_FAILURE),
         ap_auth_done := True\<rparr>)\<rparr>)
       (emit (Recv fd [b]) (w\<lparr>w_sel := upd_interest (w_sel w) fd OP_WRITE\<rparr>)))"
proof -
  have st: "store_char (ap_passwd ap) (ap_passwd_read ap) b =
      Inr (filled (xs @ [b]) MAX_BUFFER_SIZE, ap_passwd_read ap + 1)"
    using assms(4-7) store_char_filled [of xs MAX_BUFFER_SIZE] by (simp add: MAX_BUFFER_SIZE_def)
  have lt: "ap_passwd_read ap < ap_plen ap" using assms(5,6) by (simp add: word_less_nat_alt)
  then have "unat (ap_passwd_read ap + 1) = length xs + 1"
    using assms(5) unat_byte_Suc by (simp add: word_less_nat_alt)
  then have last: "ap_passwd_read ap + 1 = ap_plen ap" using assms(6) by (simp add: byte_eq_iff_unat)
  have sz: "Suc (length xs) < MAX_BUFFER_SIZE" using assms(6,7) by simp
  have names: "string_at (filled name MAX_BUFFER_SIZE) = Inr (cstr name)"
    "string_at (filled (xs @ [b]) MAX_BUFFER_SIZE) = Inr (cstr (xs @ [b]))"
    using assms(9) sz cstr_filled by simp_all
  let ?p' = "stepped p b AUTH_EVENT_PASSWD AUTH_STATE_PASSWD"
  have w: "w_clients w a = Some c" "c_parser c = P_auth ap" "ap_p ap = Some p" "selector_ok (w_sel w)"
    and p: "parser_ok auth_parser_def p"
    using assms(1) by (auto simp: authenticating_def linked_def)
  have feed: "parser_feed p b = Inr ?p'" using p assms(2) by (simp add: auth_feed(5))
  have ev: "arr_get (ev_data (p_e1 ?p')) 0 = Inr b" using p by simp
  have other: "AUTH_EVENT_PASSWD \<noteq> AUTH_EVENT_VER" "AUTH_EVENT_PASSWD \<noteq> AUTH_EVENT_ULEN"
    "AUTH_EVENT_PASSWD \<noteq> AUTH_EVENT_UNAME" "AUTH_EVENT_PASSWD \<noteq> AUTH_EVENT_PLEN"
    by (simp_all add: auth_consts)
  show ?thesis
    using w feed ev other assms(3,8,10) st lt last names
    by (simp add: auth_read_def auth_event_def set_interest_key_eq set_interest_recv)
qed

end
