(* ===== verification/Request.thy ===== *)
theory Request
  imports Closing
begin

text \<open>
  The request phase of \<^verbatim>\<open>src/src/server/request.c\<close>: the parser table, the callbacks of
  \<^verbatim>\<open>REQUEST_READ\<close>, \<^verbatim>\<open>DNS_LOOKUP\<close>, \<^verbatim>\<open>DEST_CONNECT\<close> and \<^verbatim>\<open>REQUEST_WRITE\<close>, with name
  resolution and the loop over the addresses to connect to.
\<close>

section \<open>The parser\<close>

definition REQUEST_STATE_VER :: nat where "REQUEST_STATE_VER = 0"
definition REQUEST_STATE_CMD :: nat where "REQUEST_STATE_CMD = 1"
definition REQUEST_STATE_RSV :: nat where "REQUEST_STATE_RSV = 2"
definition REQUEST_STATE_ATYP :: nat where "REQUEST_STATE_ATYP = 3"
definition REQUEST_STATE_DSTADDR_IPV4 :: nat where "REQUEST_STATE_DSTADDR_IPV4 = 4"
definition REQUEST_STATE_DSTADDR_IPV6 :: nat where "REQUEST_STATE_DSTADDR_IPV6 = 5"
definition REQUEST_STATE_DSTADDR_DOMAINNAME :: nat where "REQUEST_STATE_DSTADDR_DOMAINNAME = 6"
definition REQUEST_STATE_DSTPORT :: nat where "REQUEST_STATE_DSTPORT = 7"
definition REQUEST_STATE_FIN :: nat where "REQUEST_STATE_FIN = 8"
definition REQUEST_STATE_ERROR :: nat where "REQUEST_STATE_ERROR = 9"

text \<open>A value of another enumeration, used as the target state of an unknown address type.\<close>

definition REQUEST_ATYP_ERROR :: nat where "REQUEST_ATYP_ERROR = 2"

lemmas request_consts = REQUEST_STATE_VER_def REQUEST_STATE_CMD_def REQUEST_STATE_RSV_def
  REQUEST_STATE_ATYP_def REQUEST_STATE_DSTADDR_IPV4_def REQUEST_STATE_DSTADDR_IPV6_def
  REQUEST_STATE_DSTADDR_DOMAINNAME_def REQUEST_STATE_DSTPORT_def REQUEST_STATE_FIN_def
  REQUEST_STATE_ERROR_def REQUEST_ATYP_ERROR_def

definition SOCKS_VERSION_5 :: byte where "SOCKS_VERSION_5 = 0x05"
definition SOCKS_ATYP_IPV4 :: byte where "SOCKS_ATYP_IPV4 = 0x01"
definition SOCKS_ATYP_DOMAINNAME :: byte where "SOCKS_ATYP_DOMAINNAME = 0x03"
definition SOCKS_ATYP_IPV6 :: byte where "SOCKS_ATYP_IPV6 = 0x04"
definition CMD_CONNECT :: byte where "CMD_CONNECT = 0x01"
definition SOCKS_REPLY_SUCCESS :: byte where "SOCKS_REPLY_SUCCESS = 0x00"
definition SOCKS_REPLY_GENERAL_FAILURE :: byte where "SOCKS_REPLY_GENERAL_FAILURE = 0x01"
definition SOCKS_REPLY_NETWORK_UNREACHABLE :: byte where "SOCKS_REPLY_NETWORK_UNREACHABLE = 0x03"
definition SOCKS_REPLY_HOST_UNREACHABLE :: byte where "SOCKS_REPLY_HOST_UNREACHABLE = 0x04"
definition SOCKS_REPLY_CMD_NOT_SUPPORTED :: byte where "SOCKS_REPLY_CMD_NOT_SUPPORTED = 0x07"
definition SOCKS_REPLY_ATYP_NOT_SUPPORTED :: byte where "SOCKS_REPLY_ATYP_NOT_SUPPORTED = 0x08"

lemmas socks_consts = SOCKS_VERSION_5_def SOCKS_ATYP_IPV4_def SOCKS_ATYP_DOMAINNAME_def
  SOCKS_ATYP_IPV6_def CMD_CONNECT_def SOCKS_REPLY_SUCCESS_def SOCKS_REPLY_GENERAL_FAILURE_def
  SOCKS_REPLY_NETWORK_UNREACHABLE_def SOCKS_REPLY_HOST_UNREACHABLE_def
  SOCKS_REPLY_CMD_NOT_SUPPORTED_def SOCKS_REPLY_ATYP_NOT_SUPPORTED_def

definition MAX_ADDR_SIZE :: nat where "MAX_ADDR_SIZE = 255"
definition IPV4_LEN :: nat where "IPV4_LEN = 4"
definition IPV6_LEN :: nat where "IPV6_LEN = 16"

definition act_ver_req :: parser_action where "act_ver_req = put_byte REQUEST_STATE_VER"
definition act_cmd_req :: parser_action where "act_cmd_req = put_byte REQUEST_STATE_CMD"
definition act_rsv_req :: parser_action where "act_rsv_req = put_byte REQUEST_STATE_RSV"
definition act_atyp_req :: parser_action where "act_atyp_req = put_byte REQUEST_STATE_ATYP"
definition act_dstaddripv4_req :: parser_action where "act_dstaddripv4_req = put_byte REQUEST_STATE_DSTADDR_IPV4"
definition act_dstaddripv6_req :: parser_action where "act_dstaddripv6_req = put_byte REQUEST_STATE_DSTADDR_IPV6"
definition act_dstaddr_domainname_req :: parser_action where
  "act_dstaddr_domainname_req = put_byte REQUEST_STATE_DSTADDR_DOMAINNAME"
definition act_dstport_req :: parser_action where "act_dstport_req = put_byte REQUEST_STATE_DSTPORT"
definition act_fin_req :: parser_action where "act_fin_req = put_none REQUEST_STATE_FIN"
definition act_error_req :: parser_action where "act_error_req = put_none REQUEST_STATE_ERROR"

definition request_parser_def :: parser_definition where
  "request_parser_def =
     \<lparr>def_states_count = 10,
      def_states =
        [[on_any REQUEST_STATE_CMD act_ver_req],
         [on_any REQUEST_STATE_RSV act_cmd_req],
         [on_any REQUEST_STATE_ATYP act_rsv_req],
         [on_byte (uint SOCKS_ATYP_IPV4) REQUEST_STATE_DSTADDR_IPV4 act_atyp_req,
          on_byte (uint SOCKS_ATYP_IPV6) REQUEST_STATE_DSTADDR_IPV6 act_atyp_req,
          on_byte (uint SOCKS_ATYP_DOMAINNAME) REQUEST_STATE_DSTADDR_DOMAINNAME act_atyp_req,
          on_any REQUEST_ATYP_ERROR act_error_req],
         [on_any REQUEST_STATE_DSTADDR_IPV4 act_dstaddripv4_req],
         [on_any REQUEST_STATE_DSTADDR_IPV6 act_dstaddripv6_req],
         [on_any REQUEST_STATE_DSTADDR_DOMAINNAME act_dstaddr_domainname_req],
         [on_any REQUEST_STATE_DSTPORT act_dstport_req],
         [on_any REQUEST_STATE_FIN act_fin_req],
         [on_any REQUEST_STATE_ERROR act_error_req]],
      def_states_n = [1, 1, 1, 4, 1, 1, 1, 1, 1, 1],
      def_start_state = REQUEST_STATE_VER\<rparr>"

lemmas request_table_defs = request_parser_def_def act_ver_req_def act_cmd_req_def act_rsv_req_def
  act_atyp_req_def act_dstaddripv4_req_def act_dstaddripv6_req_def act_dstaddr_domainname_req_def
  act_dstport_req_def act_fin_req_def act_error_req_def request_consts

interpretation request_table: total_table request_parser_def
proof unfold_locales
  fix st assume "st < def_states_count request_parser_def"
  then have "st \<in> {0, 1, 2, 3, 4, 5, 6, 7, 8, 9}" by (auto simp: request_parser_def_def)
  then show "def_states_n request_parser_def ! st \<le> length (def_states request_parser_def ! st) \<and>
      (\<forall>t \<in> set (take (def_states_n request_parser_def ! st) (def_states request_parser_def ! st)).
         plain_transition (def_states_count request_parser_def) t) \<and>
      (\<exists>t \<in> set (take (def_states_n request_parser_def ! st) (def_states request_parser_def ! st)). tr_when t = ANY)"
    by (auto simp: request_table_defs socks_consts)
qed (simp_all add: request_table_defs)

datatype request_status_t = REQUEST_OK | REQUEST_UNKNOWN_ERROR

definition zero_request :: request_parser_t where
  "zero_request = \<lparr>rp_p = None, rp_atyp = 0, rp_cmd = 0, rp_addr_len = 0, rp_addr_read = 0, rp_port_read = 0,
     rp_addr = replicate MAX_ADDR_SIZE 0, rp_ipv4 = replicate IPV4_LEN 0, rp_ipv6 = replicate IPV6_LEN 0,
     rp_port = 0, rp_reply_status = 0\<rparr>"

definition request_parser_init :: "env \<Rightarrow> request_status_t \<times> request_parser_t" where
  "request_parser_init env =
     (let rp = zero_request\<lparr>rp_p := parser_init (e_alloc env A_parser) (parser_no_classes (e_stray env)) request_parser_def\<rparr>
      in (if rp_p rp = None then REQUEST_UNKNOWN_ERROR else REQUEST_OK, rp))"

section \<open>Storing into the client\<close>

definition upd_request :: "nat \<Rightarrow> (request_parser_t \<Rightarrow> request_parser_t) \<Rightarrow> world \<Rightarrow> world res" where
  "upd_request a f w =
     bindr (get_client a w) (\<lambda>c. bindr (request_of c) (\<lambda>rp. set_parser a (P_request (f rp)) w))"

definition set_err :: "nat \<Rightarrow> byte \<Rightarrow> world \<Rightarrow> world res" where
  "set_err a e w = upd_client a (\<lambda>c. c\<lparr>c_err := e\<rparr>) w"

definition request_read_init :: "env \<Rightarrow> nat \<Rightarrow> key \<Rightarrow> world \<Rightarrow> world res" where
  "request_read_init env state key w =
     bindr (attached_client key) (\<lambda>a.
     bindr (get_client a w) (\<lambda>c.
     bindr (destroy_active_parser c) (\<lambda>c1.
       let (status, rp) = request_parser_init env;
           w1 = put_client a (c1\<lparr>c_parser := P_request rp, c_active_parser := REQUEST_PARSER\<rparr>) w
       in
       bindr (if status \<noteq> REQUEST_OK then error_handler env state key w1 else Inr w1) (\<lambda>w2.
         upd_request a (\<lambda>rp. rp\<lparr>rp_addr_read := 0, rp_port_read := 0\<rparr>) w2))))"

section \<open>Starting a name resolution\<close>

text \<open>\<^verbatim>\<open>"%u"\<close> of a port: its decimal digits.\<close>

fun decimal :: "nat \<Rightarrow> byte list" where
  "decimal n = (if n < 10 then [of_nat (48 + n)] else decimal (n div 10) @ [of_nat (48 + n mod 10)])"

declare decimal.simps [simp del]

definition setup_lookup :: "env \<Rightarrow> key \<Rightarrow> byte list \<Rightarrow> 16 word \<Rightarrow> world \<Rightarrow> (nat \<times> world) res" where
  "setup_lookup env key addrname port w =
     bindr (attached_client key) (\<lambda>a.
     bindr (guardr NullDeref (e_alloc env A_service)) (\<lambda>_.
     bindr (string_at addrname) (\<lambda>name.
     bindr (guardr NullDeref (e_alloc env A_gaicb)) (\<lambda>_.
     bindr (guardr NullDeref (e_alloc env A_hints)) (\<lambda>_.
       let req = \<lparr>ar_name = (if e_alloc env A_name then Some name else None),
                  ar_service = decimal (unat port)\<rparr>
       in
       bindr (upd_client a (\<lambda>c. c\<lparr>c_dns_req := Some req\<rparr>) w) (\<lambda>w1.
         if \<not> e_gai_start env then
           bindr (upd_client a (\<lambda>c. c\<lparr>c_dns_req := None\<rparr>) w1) (\<lambda>w2.
           bindr (set_interest_key key OP_WRITE w2) (\<lambda>w3.
           bindr (upd_request a (\<lambda>rp. rp\<lparr>rp_reply_status := SOCKS_REPLY_HOST_UNREACHABLE\<rparr>) w3) (\<lambda>w4.
             Inr (REQUEST_WRITE, w4))))
         else Inr (DNS_LOOKUP, w1)))))))"

section \<open>A complete request\<close>

definition start_connect :: "env \<Rightarrow> key \<Rightarrow> nat \<Rightarrow> addrinfo \<Rightarrow> world \<Rightarrow> (nat \<times> world) res" where
  "start_connect env key a addr w =
     bindr (guardr NullDeref (e_alloc env A_addrinfo)) (\<lambda>_.
     bindr (upd_client a (\<lambda>c. c\<lparr>c_dest_addr := [addr], c_dest_addr_base := [addr],
                                 c_dest_addr_from_gai := False\<rparr>) w) (\<lambda>w1.
     bindr (set_interest_key key OP_WRITE w1) (\<lambda>w2. Inr (DEST_CONNECT, w2))))"

definition handle_request_fin :: "env \<Rightarrow> key \<Rightarrow> request_parser_t \<Rightarrow> world \<Rightarrow> (nat \<times> world) res" where
  "handle_request_fin env key rp w =
     bindr (attached_client key) (\<lambda>a.
     if rp_atyp rp = SOCKS_ATYP_DOMAINNAME then
       bindr (set_interest_key key OP_WRITE w) (\<lambda>w1. setup_lookup env key (rp_addr rp) (rp_port rp) w1)
     else if rp_atyp rp = SOCKS_ATYP_IPV4 then
       start_connect env key a \<lparr>ai_family = AF_INET, ai_host = rp_ipv4 rp, ai_port = rp_port rp\<rparr> w
     else if rp_atyp rp = SOCKS_ATYP_IPV6 then
       start_connect env key a \<lparr>ai_family = AF_INET6, ai_host = rp_ipv6 rp, ai_port = rp_port rp\<rparr> w
     else
       bindr (set_interest_key key OP_WRITE w) (\<lambda>w1.
       bindr (set_err a 0x08 w1) (\<lambda>w2. Inr (ERROR, w2))))"

section \<open>Reading the request\<close>

text \<open>The replies and errors a request can be answered with while it is read.\<close>

definition refuse :: "key \<Rightarrow> nat \<Rightarrow> byte \<Rightarrow> world \<Rightarrow> (nat option \<times> world) res" where
  "refuse key a status w =
     bindr (set_interest_key key OP_WRITE w) (\<lambda>w1.
     bindr (upd_request a (\<lambda>rp. rp\<lparr>rp_reply_status := status\<rparr>) w1) (\<lambda>w2.
       Inr (Some REQUEST_WRITE, w2)))"

definition fail_request :: "key \<Rightarrow> nat \<Rightarrow> fd_interest \<Rightarrow> world \<Rightarrow> (nat option \<times> world) res" where
  "fail_request key a i w =
     bindr (set_interest_key key i w) (\<lambda>w1.
     bindr (set_err a 0x01 w1) (\<lambda>w2. Inr (Some ERROR, w2)))"

definition store_addr :: "request_parser_t \<Rightarrow> byte \<Rightarrow> request_parser_t res" where
  "store_addr rp d =
     bindr (arr_set (rp_addr rp) (unat (rp_addr_read rp)) d) (\<lambda>arr.
       Inr (rp\<lparr>rp_addr := arr, rp_addr_read := rp_addr_read rp + 1\<rparr>))"

definition rp_goto :: "request_parser_t \<Rightarrow> nat \<Rightarrow> request_parser_t res" where
  "rp_goto rp st = bindr (deref NullDeref (rp_p rp)) (\<lambda>p. Inr (rp\<lparr>rp_p := Some (parser_set_state p st)\<rparr>))"

fun fin_events :: "env \<Rightarrow> key \<Rightarrow> nat \<Rightarrow> parser_event list \<Rightarrow> world \<Rightarrow> (nat option \<times> world) res" where
  "fin_events env key a [] w = Inr (None, w)"
| "fin_events env key a (ev # evs) w =
     (if ev_type ev = REQUEST_STATE_FIN then
        bindr (get_client a w) (\<lambda>c. bindr (request_of c) (\<lambda>rp.
        bindr (handle_request_fin env key rp w) (\<lambda>(st, w1). Inr (Some st, w1))))
      else if ev_type ev = REQUEST_STATE_ERROR then fail_request key a OP_WRITE w
      else fin_events env key a evs w)"

text \<open>
  The switch on the event of one byte: the state to return, or None to go on with the next byte.
\<close>

definition request_event :: "env \<Rightarrow> key \<Rightarrow> nat \<Rightarrow> parser_event \<Rightarrow> world \<Rightarrow> (nat option \<times> world) res" where
  "request_event env key a e w =
     bindr (get_client a w) (\<lambda>c.
     bindr (request_of c) (\<lambda>rp.
     bindr (arr_get (ev_data e) 0) (\<lambda>d.
     if ev_type e = REQUEST_STATE_FIN then
       bindr (handle_request_fin env key rp w) (\<lambda>(st, w1). Inr (Some st, w1))
     else if ev_type e = REQUEST_STATE_ERROR then fail_request key a OP_WRITE w
     else if ev_type e = REQUEST_STATE_CMD then
       bindr (set_parser a (P_request (rp\<lparr>rp_cmd := d\<rparr>)) w) (\<lambda>w1.
         if d \<noteq> CMD_CONNECT then refuse key a SOCKS_REPLY_CMD_NOT_SUPPORTED w1 else Inr (None, w1))
     else if ev_type e = REQUEST_STATE_ATYP then
       if d \<noteq> SOCKS_ATYP_IPV4 \<and> d \<noteq> SOCKS_ATYP_IPV6 \<and> d \<noteq> SOCKS_ATYP_DOMAINNAME then
         refuse key a SOCKS_REPLY_ATYP_NOT_SUPPORTED w
       else bindr (set_parser a (P_request (rp\<lparr>rp_atyp := d\<rparr>)) w) (\<lambda>w1. Inr (None, w1))
     else if ev_type e = REQUEST_STATE_DSTADDR_IPV4 then
       bindr (if unat (rp_addr_read rp) < IPV4_LEN then store_addr rp d else Inr rp) (\<lambda>rp1.
       bindr (if unat (rp_addr_read rp1) = IPV4_LEN then
                bindr (arr_set (rp_addr rp1) (unat (rp_addr_read rp1)) 0) (\<lambda>arr.
                  rp_goto (rp1\<lparr>rp_ipv4 := take IPV4_LEN (rp_addr rp1), rp_addr := arr\<rparr>) REQUEST_STATE_DSTPORT)
              else Inr rp1) (\<lambda>rp2.
       bindr (set_parser a (P_request rp2) w) (\<lambda>w1. Inr (None, w1))))
     else if ev_type e = REQUEST_STATE_DSTADDR_IPV6 then
       bindr (if unat (rp_addr_read rp) < IPV6_LEN then store_addr rp d else Inr rp) (\<lambda>rp1.
       bindr (if unat (rp_addr_read rp1) = IPV6_LEN then
                rp_goto (rp1\<lparr>rp_ipv6 := take IPV6_LEN (rp_addr rp1)\<rparr>) REQUEST_STATE_DSTPORT
              else Inr rp1) (\<lambda>rp2.
       bindr (set_parser a (P_request rp2) w) (\<lambda>w1. Inr (None, w1))))
     else if ev_type e = REQUEST_STATE_DSTADDR_DOMAINNAME then
       if rp_addr_len rp = 0 then
         bindr (set_parser a (P_request (rp\<lparr>rp_addr_len := d\<rparr>)) w) (\<lambda>w1. Inr (None, w1))
       else
         bindr (if rp_addr_read rp < rp_addr_len rp then store_addr rp d else Inr rp) (\<lambda>rp1.
         bindr (if rp_addr_len rp1 = rp_addr_read rp1 then
                  bindr (arr_set (rp_addr rp1) (unat (rp_addr_read rp1)) 0) (\<lambda>arr.
                    rp_goto (rp1\<lparr>rp_addr := arr\<rparr>) REQUEST_STATE_DSTPORT)
                else Inr rp1) (\<lambda>rp2.
         bindr (set_parser a (P_request rp2) w) (\<lambda>w1. Inr (None, w1))))
     else if ev_type e = REQUEST_STATE_DSTPORT then
       if rp_port_read rp = 0 then
         bindr (set_parser a (P_request (rp\<lparr>rp_port := push_bit 8 (ucast d), rp_port_read := 1\<rparr>)) w)
           (\<lambda>w1. Inr (None, w1))
       else
         bindr (rp_goto (rp\<lparr>rp_port := rp_port rp OR ucast d, rp_port_read := 2\<rparr>) REQUEST_STATE_FIN) (\<lambda>rp1.
         bindr (deref NullDeref (rp_p rp1)) (\<lambda>p.
         bindr (parser_feed p 0) (\<lambda>p'.
         bindr (set_parser a (P_request (rp1\<lparr>rp_p := Some p'\<rparr>)) w) (\<lambda>w1.
           fin_events env key a (parser_events p') w1))))
     else if ev_type e = REQUEST_STATE_VER then
       if d \<noteq> SOCKS_VERSION_5 then refuse key a SOCKS_REPLY_GENERAL_FAILURE w else Inr (None, w)
     else if ev_type e = REQUEST_STATE_RSV then Inr (None, w)
     else fail_request key a OP_NOOP w)))"

fun request_bytes :: "env \<Rightarrow> key \<Rightarrow> nat \<Rightarrow> byte list \<Rightarrow> world \<Rightarrow> (nat \<times> world) res" where
  "request_bytes env key a [] w = Inr (REQUEST_READ, w)"
| "request_bytes env key a (b # bs) w =
     bindr (get_client a w) (\<lambda>c.
     bindr (request_of c) (\<lambda>rp.
     bindr (deref NullDeref (rp_p rp)) (\<lambda>p.
     bindr (parser_feed p b) (\<lambda>p'.
     bindr (set_parser a (P_request (rp\<lparr>rp_p := Some p'\<rparr>)) w) (\<lambda>w1.
     bindr (request_event env key a (p_e1 p') w1) (\<lambda>(ret, w2).
       case ret of Some st \<Rightarrow> Inr (st, w2) | None \<Rightarrow> request_bytes env key a bs w2))))))"

definition REQUEST_CHUNK :: nat where "REQUEST_CHUNK = 1024"

definition request_read :: "env \<Rightarrow> key \<Rightarrow> world \<Rightarrow> (nat \<times> world) res" where
  "request_read env key w =
     bindr (attached_client key) (\<lambda>a.
     bindr (get_client a w) (\<lambda>c.
       let (n, bs, w1) = sys_recv env (fst key) REQUEST_CHUNK w in
       if n < 0 then
         if would_block w1 \<or> w_errno w1 = EINPROGRESS then Inr (REQUEST_READ, w1)
         else
           bindr (set_interest_key key OP_WRITE w1) (\<lambda>w2.
           bindr (set_err a 0x01 w2) (\<lambda>w3. Inr (ERROR, w3)))
       else if n = 0 then
         bindr (set_interest_key key OP_WRITE w1) (\<lambda>w2.
         bindr (set_err a 0x01 w2) (\<lambda>w3. Inr (ERROR, w3)))
       else request_bytes env key a bs w1))"

section \<open>Looking the name up\<close>

definition EAI_INPROGRESS :: int where "EAI_INPROGRESS = -100"
definition EAI_NONAME :: int where "EAI_NONAME = -2"
definition EAI_AGAIN :: int where "EAI_AGAIN = -3"
definition EAI_FAIL :: int where "EAI_FAIL = -4"
definition EAI_SYSTEM :: int where "EAI_SYSTEM = -11"

definition dns_reply_status :: "int \<Rightarrow> byte" where
  "dns_reply_status status =
     (if status = EAI_NONAME \<or> status = EAI_FAIL then SOCKS_REPLY_NETWORK_UNREACHABLE
      else if status = EAI_AGAIN \<or> status = EAI_SYSTEM then SOCKS_REPLY_HOST_UNREACHABLE
      else SOCKS_REPLY_GENERAL_FAILURE)"

definition dns_lookup :: "env \<Rightarrow> key \<Rightarrow> world \<Rightarrow> (nat \<times> world) res" where
  "dns_lookup env key w =
     bindr (attached_client key) (\<lambda>a.
     bindr (get_client a w) (\<lambda>c.
       if c_dns_req c = None then
         bindr (set_interest_key key OP_WRITE w) (\<lambda>w1.
         bindr (set_err a 0x04 w1) (\<lambda>w2. Inr (ERROR, w2)))
       else
         let status = e_gai_error env in
         if status = EAI_INPROGRESS then
           bindr (set_interest_key key OP_WRITE w) (\<lambda>w1. Inr (DNS_LOOKUP, w1))
         else if status \<noteq> 0 then
           bindr (upd_request a (\<lambda>rp. rp\<lparr>rp_reply_status := dns_reply_status status\<rparr>) w) (\<lambda>w1.
           bindr (set_interest_key key OP_NOOP w1) (\<lambda>w2.
           bindr (upd_client a (\<lambda>c. c\<lparr>c_dns_req := None\<rparr>) w2) (\<lambda>w3.
           bindr (set_interest_key key OP_WRITE w3) (\<lambda>w4.
           bindr (set_err a 0x04 w4) (\<lambda>w5. Inr (ERROR, w5))))))
         else
           bindr (upd_client a (\<lambda>c. c\<lparr>c_dest_addr := e_gai_result env, c_dest_addr_base := e_gai_result env,
                                       c_dest_addr_from_gai := True, c_dns_req := None\<rparr>) w) (\<lambda>w1.
           bindr (set_interest_key key OP_WRITE w1) (\<lambda>w2. Inr (DEST_CONNECT, w2)))))"

section \<open>Connecting\<close>

text \<open>
  The loop over the addresses still to be tried. The answers for an address are indexed by the
  number of addresses left. None: no address is left.
\<close>

fun connect_loop :: "env \<Rightarrow> key \<Rightarrow> nat \<Rightarrow> addrinfo list \<Rightarrow> world \<Rightarrow> (nat option \<times> world) res" where
  "connect_loop env key a [] w = Inr (None, w)"
| "connect_loop env key a (addr # rest) w =
     (let n = length (addr # rest); fd = e_socket env n in
      if fd < 0 then connect_loop env key a rest w
      else
        let err = (case e_connect env n of Connected \<Rightarrow> 0 | ConnectErr e \<Rightarrow> e);
            connected = (e_connect env n = Connected);
            w1 = emit (Connecting fd addr) (w\<lparr>w_errno := err\<rparr>)
        in
        if connected \<or> err = EINPROGRESS then
          bindr (upd_client a (\<lambda>c. c\<lparr>c_destination_fd := fd, c_dest_addr := addr # rest\<rparr>) w1) (\<lambda>w2.
          bindr (selector_register (e_alloc env A_selector) (e_realloc_junk env) (w_sel w2) fd
                   (Some CLIENT_HANDLER) OP_WRITE (snd key)) (\<lambda>(st, sel).
          let w3 = w2\<lparr>w_sel := sel\<rparr> in
          if st \<noteq> SELECTOR_SUCCESS then
            bindr (upd_client a (\<lambda>c. c\<lparr>c_destination_fd := -1\<rparr>) (sys_close fd w3)) (\<lambda>w4.
              connect_loop env key a rest w4)
          else if connected then
            bindr (get_client a w3) (\<lambda>c.
            bindr (set_interest (c_client_fd c) OP_WRITE w3) (\<lambda>w4.
            bindr (upd_request a (\<lambda>rp. rp\<lparr>rp_reply_status := SOCKS_REPLY_SUCCESS\<rparr>) w4) (\<lambda>w5.
              Inr (Some REQUEST_WRITE, w5))))
          else Inr (Some DEST_CONNECT, w3)))
        else connect_loop env key a rest (sys_close fd w1))"

definition connect_next :: "env \<Rightarrow> key \<Rightarrow> nat \<Rightarrow> addrinfo list \<Rightarrow> world \<Rightarrow> (nat \<times> world) res" where
  "connect_next env key a addrs w =
     bindr (connect_loop env key a addrs w) (\<lambda>(ret, w1).
       case ret of
         Some st \<Rightarrow> Inr (st, w1)
       | None \<Rightarrow>
           bindr (set_interest_key key OP_WRITE w1) (\<lambda>w2.
           bindr (set_err a 0x03 w2) (\<lambda>w3. Inr (ERROR, w3))))"

definition try_connect :: "env \<Rightarrow> key \<Rightarrow> world \<Rightarrow> (nat \<times> world) res" where
  "try_connect env key w =
     bindr (attached_client key) (\<lambda>a.
     bindr (get_client a w) (\<lambda>c.
       if c_destination_fd c \<noteq> -1 then
         (case e_so_error env of
            None \<Rightarrow> bindr (set_interest_key key OP_NOOP w) (\<lambda>w1. Inr (ERROR, w1))
          | Some so_error \<Rightarrow>
              if so_error = 0 then
                bindr (set_interest (c_client_fd c) OP_WRITE w) (\<lambda>w1.
                bindr (upd_request a (\<lambda>rp. rp\<lparr>rp_reply_status := SOCKS_REPLY_SUCCESS\<rparr>) w1) (\<lambda>w2.
                  Inr (REQUEST_WRITE, w2)))
              else if so_error = EINPROGRESS \<or> so_error = EALREADY then Inr (DEST_CONNECT, w)
              else
                let w1 = sys_close (c_destination_fd c) w in
                bindr (upd_client a (\<lambda>c. c\<lparr>c_destination_fd := -1, c_dest_addr := tl (c_dest_addr c)\<rparr>) w1)
                  (connect_next env key a (tl (c_dest_addr c))))
       else connect_next env key a (c_dest_addr c) w))"

section \<open>Answering the request\<close>

definition port_bytes :: "16 word \<Rightarrow> byte list" where
  "port_bytes p = [ucast (drop_bit 8 p), ucast p]"

definition REPLY_CAPACITY :: nat where "REPLY_CAPACITY = 22"

definition request_reply :: "byte \<Rightarrow> addrinfo option \<Rightarrow> byte list" where
  "request_reply status bound =
     (let ai = (case bound of Some ai \<Rightarrow> ai | None \<Rightarrow> \<lparr>ai_family = AF_INET, ai_host = [0, 0, 0, 0], ai_port = 0\<rparr>)
      in [SOCKS_VERSION_5, status, 0x00] @
         (if ai_family ai = AF_INET then [SOCKS_ATYP_IPV4] @ ai_host ai @ port_bytes (ai_port ai)
          else if ai_family ai = AF_INET6 then [SOCKS_ATYP_IPV6] @ ai_host ai @ port_bytes (ai_port ai)
          else []))"

definition request_write :: "env \<Rightarrow> key \<Rightarrow> world \<Rightarrow> (nat \<times> world) res" where
  "request_write env key w =
     bindr (attached_client key) (\<lambda>a.
     bindr (get_client a w) (\<lambda>c.
     bindr (request_of c) (\<lambda>rp.
       let reply = request_reply (rp_reply_status rp)
                     (if c_destination_fd c \<noteq> -1 then e_sockname env else None)
       in
       bindr (guardr OutOfBounds (length reply \<le> REPLY_CAPACITY)) (\<lambda>_.
       let (n, w1) = sys_send env (c_client_fd c) reply w in
       if n \<noteq> int (length reply) then
         bindr (set_interest_key key OP_WRITE w1) (\<lambda>w2.
         bindr (set_err a 0x01 w2) (\<lambda>w3. Inr (ERROR, w3)))
       else
         bindr (destroy_active_parser c) (\<lambda>c1.
           let c2 = free_destination c1 in
           if rp_reply_status rp \<noteq> SOCKS_REPLY_SUCCESS \<or> c_destination_fd c2 = -1 then
             bindr (set_interest_key key OP_NOOP
                      (put_client a (c2\<lparr>c_client_closed := True, c_dest_closed := True\<rparr>) w1)) (\<lambda>w2.
               Inr (DONE, w2))
           else
             bindr (set_interest (c_client_fd c2) OP_READ (put_client a c2 w1)) (\<lambda>w2.
             bindr (set_interest (c_destination_fd c2) OP_READ w2) (\<lambda>w3.
               Inr (FORWARDING, w3))))))))"

end
