(* ===== verification/Forwarding.thy ===== *)
theory Forwarding
  imports Closing
begin

text \<open>
  The relay of \<^verbatim>\<open>src/src/server/forwarding.c\<close>: bytes read from one of the two sockets are put
  into the buffer of that direction, and sent from it to the other socket.
\<close>

section \<open>The callbacks\<close>

text \<open>
  The buffer a descriptor is read into, and the one it is written from: \<open>from_client\<close> says
  whether the event is on the client's own descriptor.
\<close>

definition source_buffer :: "bool \<Rightarrow> client_t \<Rightarrow> buffer" where
  "source_buffer from_client c = (if from_client then c_client_buffer c else c_destiny_buffer c)"

definition set_source_buffer :: "bool \<Rightarrow> buffer \<Rightarrow> client_t \<Rightarrow> client_t" where
  "set_source_buffer from_client b c =
     (if from_client then c\<lparr>c_client_buffer := b\<rparr> else c\<lparr>c_destiny_buffer := b\<rparr>)"

definition forward_write :: "env \<Rightarrow> key \<Rightarrow> world \<Rightarrow> (nat \<times> world) res" where
  "forward_write env key w =
     bindr (attached_client key) (\<lambda>a.
     bindr (get_client a w) (\<lambda>c.
       let fd = fst key;
           to_client = (fd = c_client_fd c);
           b = source_buffer (\<not> to_client) c;
           source_closed = (if to_client then c_dest_closed c else c_client_closed c)
       in
       if \<not> buffer_can_read b then
         if connection_finished c then Inr (DONE, w)
         else
           let w1 = (if source_closed then sys_shutdown fd w else w) in
           bindr (set_interest fd OP_READ w1) (\<lambda>w2. Inr (FORWARDING, w2))
       else
         bindr (buffer_read_ptr b) (\<lambda>(ptr, readable).
         let (n, w1) = sys_send env fd (take readable (drop ptr (b_data b))) w in
         if n \<le> 0 then
           if would_block w1 then Inr (FORWARDING, w1\<lparr>w_errno := 0\<rparr>)
           else bindr (set_interest_key key OP_NOOP w1) (\<lambda>w2. Inr (ERROR, w2))
         else
           bindr (buffer_read_adv b n) (\<lambda>b'.
           let c1 = set_source_buffer (\<not> to_client) b' c;
               w2 = put_client a c1 (w1\<lparr>w_stats := add_transferred_bytes (word_of_int n) (w_stats w1)\<rparr>);
               interest = (if buffer_can_read b' then OP_READ OR OP_WRITE else OP_READ);
               w3 = (if \<not> buffer_can_read b' \<and> source_closed then sys_shutdown fd w2 else w2)
           in
           bindr (set_interest fd interest w3) (\<lambda>w4.
             Inr (if connection_finished c1 then DONE else FORWARDING, w4))))))"

definition forward_read :: "env \<Rightarrow> key \<Rightarrow> world \<Rightarrow> (nat \<times> world) res" where
  "forward_read env key w =
     bindr (attached_client key) (\<lambda>a.
     bindr (get_client a w) (\<lambda>c.
       let fd = fst key;
           from_client = (fd = c_client_fd c);
           b = source_buffer from_client c
       in
       if \<not> buffer_can_write b then
         bindr (set_interest fd (OP_READ OR OP_WRITE) w) (\<lambda>w1. Inr (FORWARDING, w1))
       else
         bindr (buffer_write_ptr b) (\<lambda>(ptr, nbytes).
         let (n, bs, w1) = sys_recv env fd nbytes (w\<lparr>w_errno := 0\<rparr>) in
         if n = 0 then
           let c1 = (if from_client then c\<lparr>c_client_closed := True\<rparr> else c\<lparr>c_dest_closed := True\<rparr>);
               w2 = put_client a c1 w1
           in
           if (if from_client then c_dest_closed c1 else c_client_closed c1) then Inr (DONE, w2)
           else
             let other_fd = (if from_client then c_destination_fd c1 else c_client_fd c1) in
             bindr (if other_fd \<ge> 0 then set_interest other_fd OP_WRITE w2 else Inr w2) (\<lambda>w3.
             bindr (set_interest_key key OP_NOOP w3) (\<lambda>w4. Inr (FORWARDING, w4)))
         else if n < 0 then
           if would_block w1 then Inr (FORWARDING, w1\<lparr>w_errno := 0\<rparr>)
           else bindr (set_interest_key key OP_NOOP w1) (\<lambda>w2. Inr (ERROR, w2))
         else
           bindr (arr_blit (b_data b) ptr bs) (\<lambda>data.
           bindr (buffer_write_adv (b\<lparr>b_data := data\<rparr>) n) (\<lambda>b'.
           let c1 = set_source_buffer from_client b' c;
               w2 = put_client a c1 w1;
               other_fd = (if from_client then c_destination_fd c1 else c_client_fd c1)
           in
           bindr (if other_fd \<ge> 0 then set_interest other_fd (OP_READ OR OP_WRITE) w2 else Inr w2) (\<lambda>w3.
             Inr (FORWARDING, w3)))))))"

definition forward_setup :: "nat \<Rightarrow> key \<Rightarrow> world \<Rightarrow> world res" where
  "forward_setup state key w =
     bindr (attached_client key) (\<lambda>a.
     bindr (get_client a w) (\<lambda>c.
     bindr (set_interest (c_client_fd c) OP_READ w) (\<lambda>w1.
       set_interest (c_destination_fd c) OP_READ w1)))"

definition forward_close :: "nat \<Rightarrow> key \<Rightarrow> world \<Rightarrow> world res" where
  "forward_close state key w = Inr w"

end
