(* ===== verification/Client_Machine.thy ===== *)
theory Client_Machine
  imports Hello Auth Request Forwarding
begin

text \<open>
  The state table of a client (\<^verbatim>\<open>client_states\<close> of \<^verbatim>\<open>client_utils.h\<close>), its descriptor
  handlers, and the accepting handler of the listening socket (\<^verbatim>\<open>master_utils.c\<close>).
\<close>

definition client_states :: "env \<Rightarrow> (key, world) state_definition list" where
  "client_states env =
     [\<lparr>sd_state = HELLO_READ, on_arrival = Some (hello_read_init env), on_departure = None,
       on_read_ready = Some (hello_read env), on_write_ready = None, on_block_ready = None\<rparr>,
      \<lparr>sd_state = HELLO_WRITE, on_arrival = None, on_departure = None,
       on_read_ready = None, on_write_ready = Some (hello_write env), on_block_ready = None\<rparr>,
      \<lparr>sd_state = AUTH_READ, on_arrival = Some (auth_read_init env), on_departure = None,
       on_read_ready = Some (auth_read env), on_write_ready = None, on_block_ready = None\<rparr>,
      \<lparr>sd_state = AUTH_WRITE, on_arrival = None, on_departure = None,
       on_read_ready = None, on_write_ready = Some (auth_write env), on_block_ready = None\<rparr>,
      \<lparr>sd_state = REQUEST_READ, on_arrival = Some (request_read_init env), on_departure = None,
       on_read_ready = Some (request_read env), on_write_ready = None, on_block_ready = None\<rparr>,
      \<lparr>sd_state = DNS_LOOKUP, on_arrival = None, on_departure = None,
       on_read_ready = None, on_write_ready = Some (dns_lookup env), on_block_ready = None\<rparr>,
      \<lparr>sd_state = DEST_CONNECT, on_arrival = None, on_departure = None,
       on_read_ready = None, on_write_ready = Some (try_connect env), on_block_ready = None\<rparr>,
      \<lparr>sd_state = REQUEST_WRITE, on_arrival = None, on_departure = None,
       on_read_ready = None, on_write_ready = Some (request_write env), on_block_ready = None\<rparr>,
      \<lparr>sd_state = FORWARDING, on_arrival = Some forward_setup, on_departure = None,
       on_read_ready = Some (forward_read env), on_write_ready = Some (forward_write env),
       on_block_ready = None\<rparr>,
      \<lparr>sd_state = DONE, on_arrival = Some (end_connection env), on_departure = None,
       on_read_ready = None, on_write_ready = None, on_block_ready = None\<rparr>,
      \<lparr>sd_state = ERROR, on_arrival = Some (error_handler env), on_departure = None,
       on_read_ready = None, on_write_ready = None, on_block_ready = None\<rparr>]"

definition handle_read_client :: "env \<Rightarrow> key \<Rightarrow> world \<Rightarrow> world res" where
  "handle_read_client env key w =
     bindr (attached_client key) (\<lambda>a.
     bindr (stm_handler_read (client_machine a) (set_client_machine a) (client_states env) key w)
       (\<lambda>(_, w'). Inr w'))"

definition handle_write_client :: "env \<Rightarrow> key \<Rightarrow> world \<Rightarrow> world res" where
  "handle_write_client env key w =
     bindr (attached_client key) (\<lambda>a.
     bindr (stm_handler_write (client_machine a) (set_client_machine a) (client_states env) key w)
       (\<lambda>(_, w'). Inr w'))"

definition INITIAL_CLIENT_INTERESTS :: fd_interest where "INITIAL_CLIENT_INTERESTS = OP_READ"

section \<open>Accepting a client\<close>

text \<open>
  \<^verbatim>\<open>accept\<close> is repeated while it is interrupted; \<open>e_accept_interrupts\<close> counts the
  interruptions before \<open>e_accept\<close>, the first answer other than \<^verbatim>\<open>EINTR\<close>. None: no connection was pending. Any other error stops the
  program.
\<close>

fun accept_loop :: "nat \<Rightarrow> accept_answer \<Rightarrow> world \<Rightarrow> (int option \<times> world) res" where
  "accept_loop (Suc k) answer w = accept_loop k answer (w\<lparr>w_errno := EINTR\<rparr>)"
| "accept_loop 0 (Accepted fd) w = Inr (Some fd, w)"
| "accept_loop 0 (AcceptErr e) w =
     (if e = EAGAIN then Inr (None, w\<lparr>w_errno := e\<rparr>) else Inl Exited)"

definition new_client :: "int \<Rightarrow> client_t" where
  "new_client fd =
     \<lparr>c_stm = \<lparr>stm_initial = HELLO_READ, stm_max_state = ERROR, stm_current = None\<rparr>,
      c_client_fd = fd, c_destination_fd = -1, c_active_parser = NO_PARSER, c_parser = P_none,
      c_client_buffer = buffer_init MAX_BUFFER (replicate MAX_BUFFER 0),
      c_destiny_buffer = buffer_init MAX_BUFFER (replicate MAX_BUFFER 0),
      c_dest_addr = [], c_dest_addr_base = [], c_dns_req = None, c_err = 0,
      c_client_closed = False, c_dest_closed = False, c_dest_addr_from_gai = False\<rparr>"

definition handle_read_master :: "env \<Rightarrow> key \<Rightarrow> world \<Rightarrow> world res" where
  "handle_read_master env key w =
     bindr (accept_loop (e_accept_interrupts env) (e_accept env) w) (\<lambda>(sock, w1).
       case sock of
         None \<Rightarrow> Inr w1
       | Some fd \<Rightarrow>
           if \<not> e_alloc env A_client then Inr (sys_close fd w1)
           else
             let a = w_next w1; c = new_client fd in
             bindr (stm_init (client_states env) (c_stm c)) (\<lambda>m.
             let w2 = put_client a (c\<lparr>c_stm := m\<rparr>) (w1\<lparr>w_next := a + 1\<rparr>) in
             bindr (selector_register (e_alloc env A_selector) (e_realloc_junk env) (w_sel w2) fd
                      (Some CLIENT_HANDLER) INITIAL_CLIENT_INTERESTS (Some (ClientPtr a))) (\<lambda>(status, s).
             let w3 = w2\<lparr>w_sel := s\<rparr> in
             if status \<noteq> SELECTOR_SUCCESS then Inr (free_client a (sys_close fd w3))
             else Inr (w3\<lparr>w_stats := increment_current_connections (w_stats w3)\<rparr>))))"

section \<open>The table\<close>

lemma client_states_length [simp]: "length (client_states env) = 11"
  by (simp add: client_states_def)

lemma client_states_nth [simp]:
  "client_states env ! HELLO_READ = \<lparr>sd_state = HELLO_READ, on_arrival = Some (hello_read_init env),
     on_departure = None, on_read_ready = Some (hello_read env), on_write_ready = None, on_block_ready = None\<rparr>"
  "client_states env ! HELLO_WRITE = \<lparr>sd_state = HELLO_WRITE, on_arrival = None, on_departure = None,
     on_read_ready = None, on_write_ready = Some (hello_write env), on_block_ready = None\<rparr>"
  "client_states env ! AUTH_READ = \<lparr>sd_state = AUTH_READ, on_arrival = Some (auth_read_init env),
     on_departure = None, on_read_ready = Some (auth_read env), on_write_ready = None, on_block_ready = None\<rparr>"
  "client_states env ! AUTH_WRITE = \<lparr>sd_state = AUTH_WRITE, on_arrival = None, on_departure = None,
     on_read_ready = None, on_write_ready = Some (auth_write env), on_block_ready = None\<rparr>"
  "client_states env ! REQUEST_READ = \<lparr>sd_state = REQUEST_READ, on_arrival = Some (request_read_init env),
     on_departure = None, on_read_ready = Some (request_read env), on_write_ready = None, on_block_ready = None\<rparr>"
  "client_states env ! DNS_LOOKUP = \<lparr>sd_state = DNS_LOOKUP, on_arrival = None, on_departure = None,
     on_read_ready = None, on_write_ready = Some (dns_lookup env), on_block_ready = None\<rparr>"
  "client_states env ! DEST_CONNECT = \<lparr>sd_state = DEST_CONNECT, on_arrival = None, on_departure = None,
     on_read_ready = None, on_write_ready = Some (try_connect env), on_block_ready = None\<rparr>"
  "client_states env ! REQUEST_WRITE = \<lparr>sd_state = REQUEST_WRITE, on_arrival = None, on_departure = None,
     on_read_ready = None, on_write_ready = Some (request_write env), on_block_ready = None\<rparr>"
  "client_states env ! FORWARDING = \<lparr>sd_state = FORWARDING, on_arrival = Some forward_setup,
     on_departure = None, on_read_ready = Some (forward_read env), on_write_ready = Some (forward_write env),
     on_block_ready = None\<rparr>"
  "client_states env ! DONE = \<lparr>sd_state = DONE, on_arrival = Some (end_connection env), on_departure = None,
     on_read_ready = None, on_write_ready = None, on_block_ready = None\<rparr>"
  "client_states env ! ERROR = \<lparr>sd_state = ERROR, on_arrival = Some (error_handler env), on_departure = None,
     on_read_ready = None, on_write_ready = None, on_block_ready = None\<rparr>"
  by (simp_all add: client_states_def client_state_defs)

lemma less_11: "(i :: nat) < 11 \<longleftrightarrow> i \<in> {0, 1, 2, 3, 4, 5, 6, 7, 8, 9, 10}"
  unfolding insert_iff empty_iff by arith

lemma client_table_ok [simp]: "table_ok (client_states env)"
  unfolding table_ok_def client_states_length less_11
  by (auto simp: client_states_def client_state_defs)

lemma client_departures_table: "map on_departure (client_states env) = client_departures"
  by (simp add: client_states_def client_departures_def eval_nat_numeral)

lemma no_departure: "i < 11 \<Longrightarrow> on_departure (client_states env ! i) = None"
  unfolding less_11 by (auto simp: client_states_def)

lemma client_stm_init:
  "stm_init (client_states env) \<lparr>stm_initial = HELLO_READ, stm_max_state = ERROR, stm_current = None\<rparr> =
     Inr \<lparr>stm_initial = HELLO_READ, stm_max_state = ERROR, stm_current = None\<rparr>"
  using stm_init_ok [of "client_states env" "\<lparr>stm_initial = HELLO_READ, stm_max_state = ERROR, stm_current = None\<rparr>"]
  by (simp add: client_state_defs)

section \<open>Events on a client\<close>

text \<open>The client is in state \<open>k\<close> of its table.\<close>

definition in_state :: "client_t \<Rightarrow> nat \<Rightarrow> bool" where
  "in_state c k \<longleftrightarrow> stm_current (c_stm c) = Some k \<and> stm_max_state (c_stm c) = ERROR \<and> k \<le> ERROR"

definition moved :: "client_t \<Rightarrow> nat \<Rightarrow> client_t" where
  "moved c k = c\<lparr>c_stm := (c_stm c)\<lparr>stm_current := Some k\<rparr>\<rparr>"

lemma moved_sel [simp]:
  "c_client_fd (moved c k) = c_client_fd c" "c_destination_fd (moved c k) = c_destination_fd c"
  "c_parser (moved c k) = c_parser c" "c_active_parser (moved c k) = c_active_parser c"
  "c_client_buffer (moved c k) = c_client_buffer c" "c_destiny_buffer (moved c k) = c_destiny_buffer c"
  "c_client_closed (moved c k) = c_client_closed c" "c_dest_closed (moved c k) = c_dest_closed c"
  "c_dest_addr (moved c k) = c_dest_addr c" "c_dns_req (moved c k) = c_dns_req c"
  "c_err (moved c k) = c_err c" "stm_current (c_stm (moved c k)) = Some k"
  "stm_max_state (c_stm (moved c k)) = stm_max_state (c_stm c)"
  by (simp_all add: moved_def)

lemma moved_update [simp]:
  "(moved c k)\<lparr>c_parser := u\<rparr> = moved (c\<lparr>c_parser := u\<rparr>) k"
  "(moved c k)\<lparr>c_active_parser := t\<rparr> = moved (c\<lparr>c_active_parser := t\<rparr>) k"
  "moved (moved c j) k = moved c k"
  by (simp_all add: moved_def)

lemma in_state_moved [simp]:
  "stm_max_state (c_stm c) = ERROR \<Longrightarrow> k \<le> ERROR \<Longrightarrow> in_state (moved c k) k"
  by (simp add: in_state_def)

lemma in_state_fun:
  "in_state c j \<Longrightarrow> in_state c k \<longleftrightarrow> j = k"
  by (auto simp: in_state_def)

lemma parser_tag_moved [simp]: "parser_tag_ok (moved c k) = parser_tag_ok c"
  unfolding parser_tag_ok_def moved_sel ..

lemma linked_moved:
  "linked w a c \<Longrightarrow> k \<le> ERROR \<Longrightarrow> linked (put_client a (moved c k) w) a (moved c k)"
  by (auto simp: linked_def owned_def ERROR_def)

lemma linked_client: "linked w a c \<Longrightarrow> w_clients w a = Some c"
  by (simp add: linked_def)

text \<open>
  An event whose callback returns \<open>ret\<close>: the machine stays, or moves and runs the arrival
  callback of the new state.
\<close>

definition after_event :: "env \<Rightarrow> nat \<Rightarrow> nat \<Rightarrow> key \<Rightarrow> nat \<Rightarrow> client_t \<Rightarrow> world \<Rightarrow> world res" where
  "after_event env k ret key a c w =
     (if ret = k then Inr w
      else run_hook (on_arrival (client_states env ! ret)) ret key (put_client a (moved c ret) w))"

lemma client_event:
  assumes w: "w_clients w a = Some c" and st: "in_state c k"
    and ready: "ready (client_states env ! k) = Some f"
    and run: "f key w = Inr (ret, w2)" and ret: "ret \<le> ERROR"
    and w2: "w_clients w2 a = Some c2" and same: "c_stm c2 = c_stm c"
  shows "bindr (stm_event ready (client_machine a) (set_client_machine a) (client_states env) key w)
      (\<lambda>(_, w'). Inr w') = after_event env k ret key a c2 w2"
proof -
  from st have k: "k < length (client_states env)" and ret': "ret < length (client_states env)"
    using ret by (simp_all add: in_state_def ERROR_def)
  have m: "client_machine a w = Inr (c_stm c)" "client_machine a w2 = Inr (c_stm c)"
    using w w2 same by simp_all
  have cur: "stm_current (c_stm c) = Some k" "ret \<le> stm_max_state (c_stm c)"
    using st ret by (simp_all add: in_state_def)
  show ?thesis
  proof (cases "ret = k")
    case True
    then show ?thesis
      using cstm.event_with_callback [OF m(1) cur(1) k, of ready f] ready run
        cstm.jump_stay [OF m(2), of ret "client_states env" key] cur
      by (simp add: after_event_def)
  next
    case False
    have "jump (client_machine a) (set_client_machine a) (client_states env) ret key w2 =
        run_hook (on_arrival (client_states env ! ret)) ret key (put_client a (moved c2 ret) w2)"
      using cstm.jump_move [OF m(2) cur(1) False [symmetric] cur(2) client_table_ok k ret'] w2 same
        no_departure [of k env] k
      by (simp add: moved_def)
    then show ?thesis
      using cstm.event_with_callback [OF m(1) cur(1) k, of ready f] ready run False
      by (simp add: after_event_def bindr_def split: sum.splits)
  qed
qed

lemma client_event_fault:
  assumes "w_clients w a = Some c" and "in_state c k"
    and "ready (client_states env ! k) = Some f" and "f key w = Inl e"
  shows "bindr (stm_event ready (client_machine a) (set_client_machine a) (client_states env) key w)
      (\<lambda>(_, w'). Inr w') = Inl e"
  using assms cstm.event_with_callback [of a w "c_stm c" k "client_states env" ready f]
  by (simp add: in_state_def ERROR_def)

lemma client_event_abort:
  assumes "w_clients w a = Some c" and "in_state c k" and "ready (client_states env ! k) = None"
  shows "bindr (stm_event ready (client_machine a) (set_client_machine a) (client_states env) key w)
      (\<lambda>(_, w'). Inr w') = Inl Aborted"
  using assms cstm.event_without_callback [of a w "c_stm c" k "client_states env" ready]
  by (simp add: in_state_def ERROR_def)

lemma handle_read_event:
  "handle_read_client env (fd, Some (ClientPtr a)) w =
     bindr (stm_event on_read_ready (client_machine a) (set_client_machine a) (client_states env)
              (fd, Some (ClientPtr a)) w) (\<lambda>(_, w'). Inr w')"
  by (simp add: handle_read_client_def stm_handler_read_def)

lemma handle_write_event:
  "handle_write_client env (fd, Some (ClientPtr a)) w =
     bindr (stm_event on_write_ready (client_machine a) (set_client_machine a) (client_states env)
              (fd, Some (ClientPtr a)) w) (\<lambda>(_, w'). Inr w')"
  by (simp add: handle_write_client_def stm_handler_write_def)

lemma read_event:
  assumes "w_clients w a = Some c" and "in_state c k" and "on_read_ready (client_states env ! k) = Some f"
    and "f (fd, Some (ClientPtr a)) w = Inr (ret, w2)" and "ret \<le> ERROR"
    and "w_clients w2 a = Some c2" and "c_stm c2 = c_stm c"
  shows "handle_read_client env (fd, Some (ClientPtr a)) w = after_event env k ret (fd, Some (ClientPtr a)) a c2 w2"
  unfolding handle_read_event by (rule client_event [where ready = on_read_ready and f = f]) (use assms in auto)

lemma write_event:
  assumes "w_clients w a = Some c" and "in_state c k" and "on_write_ready (client_states env ! k) = Some f"
    and "f (fd, Some (ClientPtr a)) w = Inr (ret, w2)" and "ret \<le> ERROR"
    and "w_clients w2 a = Some c2" and "c_stm c2 = c_stm c"
  shows "handle_write_client env (fd, Some (ClientPtr a)) w = after_event env k ret (fd, Some (ClientPtr a)) a c2 w2"
  unfolding handle_write_event by (rule client_event [where ready = on_write_ready and f = f]) (use assms in auto)

text \<open>The arrival callbacks of the table, state by state.\<close>

lemma after_event_simps:
  "after_event env k k key a c w = Inr w"
  "k \<noteq> HELLO_WRITE \<Longrightarrow> after_event env k HELLO_WRITE key a c w = Inr (put_client a (moved c HELLO_WRITE) w)"
  "k \<noteq> AUTH_WRITE \<Longrightarrow> after_event env k AUTH_WRITE key a c w = Inr (put_client a (moved c AUTH_WRITE) w)"
  "k \<noteq> DNS_LOOKUP \<Longrightarrow> after_event env k DNS_LOOKUP key a c w = Inr (put_client a (moved c DNS_LOOKUP) w)"
  "k \<noteq> DEST_CONNECT \<Longrightarrow> after_event env k DEST_CONNECT key a c w = Inr (put_client a (moved c DEST_CONNECT) w)"
  "k \<noteq> REQUEST_WRITE \<Longrightarrow> after_event env k REQUEST_WRITE key a c w = Inr (put_client a (moved c REQUEST_WRITE) w)"
  "k \<noteq> AUTH_READ \<Longrightarrow> after_event env k AUTH_READ key a c w = auth_read_init env AUTH_READ key (put_client a (moved c AUTH_READ) w)"
  "k \<noteq> REQUEST_READ \<Longrightarrow> after_event env k REQUEST_READ key a c w = request_read_init env REQUEST_READ key (put_client a (moved c REQUEST_READ) w)"
  "k \<noteq> FORWARDING \<Longrightarrow> after_event env k FORWARDING key a c w = forward_setup FORWARDING key (put_client a (moved c FORWARDING) w)"
  "k \<noteq> DONE \<Longrightarrow> after_event env k DONE key a c w = end_connection env DONE key (put_client a (moved c DONE) w)"
  "k \<noteq> ERROR \<Longrightarrow> after_event env k ERROR key a c w = error_handler env ERROR key (put_client a (moved c ERROR) w)"
  by (simp_all add: after_event_def)

text \<open>
  Reaching \<^verbatim>\<open>ERROR\<close> tears the connection down without a word to the client.
\<close>

lemma after_error:
  assumes "linked w a c" and "k \<noteq> ERROR"
  shows "after_event env k ERROR (fd, Some (ClientPtr a)) a c w = Inr (torn_down a c w)"
proof -
  have "error_handler env ERROR (fd, Some (ClientPtr a)) (put_client a (moved c ERROR) w) =
      Inr (torn_down a (moved c ERROR) (put_client a (moved c ERROR) w))"
    using linked_moved [OF assms(1), of ERROR]
    by (intro error_handler_tears_down) (simp_all add: client_state_defs)
  also have "torn_down a (moved c ERROR) (put_client a (moved c ERROR) w) = torn_down a c w"
    by (rule torn_down_put) simp_all
  finally show ?thesis using assms(2) by (simp add: after_event_simps)
qed

end
