(* ===== verification/Negotiation.thy ===== *)
theory Negotiation
  imports Client_Machine
begin

text \<open>
  Whole runs of the first two phases of a connection: what the greeting negotiates, what the
  authentication decides, and through which steps the request phase can be reached.
\<close>

section \<open>Reading a stream byte by byte\<close>

text \<open>
  The events of a client whose peer has sent \<open>bytes\<close>: the socket is readable until they are all
  consumed, and \<^verbatim>\<open>hello_read\<close> and \<^verbatim>\<open>auth_read\<close> take one byte per event.
\<close>

definition with_input :: "env \<Rightarrow> int \<Rightarrow> byte list \<Rightarrow> env" where
  "with_input env fd bytes = env\<lparr>e_recv := (e_recv env)(fd := Avail bytes)\<rparr>"

fun client_reads :: "env \<Rightarrow> key \<Rightarrow> byte list \<Rightarrow> world \<Rightarrow> world res" where
  "client_reads env key [] w = Inr w"
| "client_reads env key (b # bs) w =
     bindr (handle_read_client (with_input env (fst key) (b # bs)) key w) (client_reads env key bs)"

definition received :: "int \<Rightarrow> byte list \<Rightarrow> world \<Rightarrow> world" where
  "received fd bs w = w\<lparr>w_trace := w_trace w @ map (\<lambda>b. Recv fd [b]) bs\<rparr>"

lemma with_input_sel [simp]:
  "e_recv (with_input env fd bs) fd = Avail bs" "e_alloc (with_input env fd bs) = e_alloc env"
  "e_stray (with_input env fd bs) = e_stray env" "e_send (with_input env fd bs) = e_send env"
  by (simp_all add: with_input_def)

lemma received_norm [simp]:
  "received fd [] w = w"
  "received fd ys (received fd xs w) = received fd (xs @ ys) w"
  "received fd ys (put_client a c w) = put_client a c (received fd ys w)"
  "emit (Recv fd [b]) w = received fd [b] w"
  "(received fd ys w)\<lparr>w_sel := s\<rparr> = received fd ys (w\<lparr>w_sel := s\<rparr>)"
  "w_sel (received fd ys w) = w_sel w" "w_clients (received fd ys w) = w_clients w"
  "w_methods (received fd ys w) = w_methods w" "w_users (received fd ys w) = w_users w"
  "w_stats (received fd ys w) = w_stats w"
  "w_trace (received fd ys w) = w_trace w @ map (\<lambda>b. Recv fd [b]) ys"
  by (simp_all add: received_def put_client_def emit_def)

section \<open>The first event\<close>

text \<open>What \<^verbatim>\<open>hello_read_init\<close> makes of a new client.\<close>

definition fresh_parser :: "env \<Rightarrow> parser_definition \<Rightarrow> parser" where
  "fresh_parser env def =
     \<lparr>p_classes = parser_no_classes (e_stray env), p_def = def, p_state = def_start_state def,
      p_e1 = zero_event, p_e2 = zero_event\<rparr>"

lemma parser_ok_fresh: "def_start_state def < def_states_count def \<Longrightarrow> parser_ok def (fresh_parser env def)"
  by (simp add: fresh_parser_def parser_ok_def zero_event_def)

definition greeted :: "env \<Rightarrow> client_t \<Rightarrow> client_t" where
  "greeted env c = moved (c\<lparr>c_parser := P_hello (zero_hello\<lparr>hp_p := Some (fresh_parser env hello_parser_def)\<rparr>),
     c_active_parser := HELLO_PARSER\<rparr>) HELLO_READ"

lemma first_read_event:
  assumes "w_clients w a = Some c" and "stm_current (c_stm c) = None" and "stm_initial (c_stm c) = HELLO_READ"
    and "e_alloc env A_parser"
  shows "handle_read_client env (fd, Some (ClientPtr a)) w =
     handle_read_client env (fd, Some (ClientPtr a)) (put_client a (greeted env c) w)"
proof -
  let ?k = "(fd, Some (ClientPtr a))"
  have init: "hello_read_init env HELLO_READ ?k (put_client a (moved c HELLO_READ) w) =
      Inr (put_client a (greeted env c) w)"
    using assms(4)
    by (simp add: hello_read_init_def hello_parser_init_def parser_init_def greeted_def
        fresh_parser_def zero_hello_def Let_def)
  have cur: "stm_current (c_stm (greeted env c)) = Some HELLO_READ" by (simp add: greeted_def)
  have put: "set_client_machine a ((c_stm c)\<lparr>stm_current := Some HELLO_READ\<rparr>) w = put_client a (moved c HELLO_READ) w"
    using assms(1) by (simp add: moved_def)
  have "stm_event on_read_ready (client_machine a) (set_client_machine a) (client_states env) ?k w =
      stm_event on_read_ready (client_machine a) (set_client_machine a) (client_states env) ?k
        (put_client a (greeted env c) w)"
    using cstm.first_event [of a w "c_stm c" "client_states env" on_read_ready ?k, OF _ assms(2)]
      assms(1,3) init cur put
    by (simp add: stm_event_def handle_first_def)
  then show ?thesis by (simp add: handle_read_event)
qed

section \<open>The greeting\<close>

text \<open>The client has offered \<open>done\<close>, and \<open>n\<close> methods were announced.\<close>

definition offering :: "world \<Rightarrow> nat \<Rightarrow> client_t \<Rightarrow> nat \<Rightarrow> byte list \<Rightarrow> bool" where
  "offering w a c n done \<longleftrightarrow> in_state c HELLO_READ \<and> length done < n \<and>
     (\<exists>hp p. greeting w a c hp p \<and> p_state p = HELLO_STATE_METHODS \<and> unat (hp_nmethods hp) = n \<and>
        unat (hp_methods_read hp) = length done \<and> take (length done) (hp_methods hp) = done)"

lemma linked_received:
  "linked w a c \<Longrightarrow> c_client_fd c' = c_client_fd c \<Longrightarrow> c_destination_fd c' = c_destination_fd c \<Longrightarrow>
     c_stm c' = c_stm c \<Longrightarrow> parser_tag_ok c' \<Longrightarrow>
     linked (put_client a c' (received fd bs w)) a c'"
  by (rule linked_step) (auto simp: linked_def)

lemma hello_tag: "c_active_parser c \<in> {NO_PARSER, HELLO_PARSER} \<Longrightarrow> parser_tag_ok (c\<lparr>c_parser := P_hello hp\<rparr>)"
  by (auto simp: parser_tag_ok_def)

lemma greeting_tag: "greeting w a c hp p \<Longrightarrow> parser_tag_ok (c\<lparr>c_parser := P_hello hp'\<rparr>)"
  by (auto simp: greeting_def linked_def parser_tag_ok_def split: parser_state_t.splits)

lemma hello_stays:
  assumes "w_clients w a = Some c" and "in_state c HELLO_READ"
    and "hello_read env (fd, Some (ClientPtr a)) w = Inr (HELLO_READ, put_client a (c\<lparr>c_parser := u\<rparr>) w1)"
  shows "handle_read_client env (fd, Some (ClientPtr a)) w = Inr (put_client a (c\<lparr>c_parser := u\<rparr>) w1)"
  using read_event [OF assms(1,2), of env "hello_read env" fd HELLO_READ, OF _ assms(3)]
  by (simp add: after_event_simps)

lemma hello_moves:
  assumes "w_clients w a = Some c" and "in_state c HELLO_READ"
    and "hello_read env (fd, Some (ClientPtr a)) w = Inr (HELLO_WRITE, put_client a (c\<lparr>c_parser := u\<rparr>) w1)"
  shows "handle_read_client env (fd, Some (ClientPtr a)) w =
     Inr (put_client a (moved (c\<lparr>c_parser := u\<rparr>) HELLO_WRITE) w1)"
  using read_event [OF assms(1,2), of env "hello_read env" fd HELLO_WRITE, OF _ assms(3)]
  by (simp add: after_event_simps)

text \<open>One more offered method; the last one makes the choice.\<close>

lemma offering_more:
  assumes "offering w a c n done" and "Suc (length done) < n" and "e_recv env fd = Avail (b # bs)"
  obtains hp' where "handle_read_client env (fd, Some (ClientPtr a)) w =
      Inr (put_client a (c\<lparr>c_parser := P_hello hp'\<rparr>) (received fd [b] w))"
    and "offering (put_client a (c\<lparr>c_parser := P_hello hp'\<rparr>) (received fd [b] w)) a
           (c\<lparr>c_parser := P_hello hp'\<rparr>) n (done @ [b])"
proof -
  from assms(1) obtain hp p where st: "in_state c HELLO_READ" and g: "greeting w a c hp p"
    and p: "p_state p = HELLO_STATE_METHODS" and n: "unat (hp_nmethods hp) = n"
    and r: "unat (hp_methods_read hp) = length done" and d: "take (length done) (hp_methods hp) = done"
    by (auto simp: offering_def)
  let ?p = "stepped p b HELLO_EVENT_METHOD HELLO_STATE_METHODS"
  define hp' where "hp' = hp\<lparr>hp_p := Some ?p, hp_methods := (hp_methods hp)[unat (hp_methods_read hp) := b],
      hp_methods_read := hp_methods_read hp + 1\<rparr>"
  let ?c = "c\<lparr>c_parser := P_hello hp'\<rparr>"
  have lt: "hp_methods_read hp < hp_nmethods hp" using n r assms(2) by (simp add: word_less_nat_alt)
  have r1: "unat (hp_methods_read hp + 1) = Suc (length done)"
    using lt r unat_byte_Suc by (simp add: word_less_nat_alt)
  with assms(2) n have not_last: "hp_methods_read hp + 1 \<noteq> hp_nmethods hp" by (auto simp: byte_eq_iff_unat)
  have len: "length (hp_methods hp) = 255" using g by (simp add: greeting_def HELLO_MAX_METHODS_def)
  have small: "length done < 255" using assms(2) n unat_byte_le [of "hp_nmethods hp"] by simp
  have c: "w_clients w a = Some c" using g by (simp add: greeting_def linked_def)
  have "hello_read env (fd, Some (ClientPtr a)) w = Inr (HELLO_READ, put_client a ?c (received fd [b] w))"
    using hello_read_method [OF g p assms(3) lt] not_last by (simp add: hp'_def)
  then have "handle_read_client env (fd, Some (ClientPtr a)) w = Inr (put_client a ?c (received fd [b] w))"
    by (rule hello_stays [OF c st])
  moreover have "greeting (put_client a ?c (received fd [b] w)) a ?c hp' ?p"
    using g linked_received [of w a c ?c fd "[b]"] greeting_tag [OF g]
    by (auto simp: greeting_def hp'_def hello_table_defs intro!: parser_ok_stepped)
  then have "offering (put_client a ?c (received fd [b] w)) a ?c n (done @ [b])"
    using st assms(2) n r r1 d len small
    by (auto simp: offering_def in_state_def hp'_def take_list_update_snoc intro!: exI [of _ hp'] exI [of _ ?p])
  ultimately show ?thesis using that by blast
qed

lemma offering_last:
  assumes "offering w a c n done" and "Suc (length done) = n" and "e_recv env fd = Avail (b # bs)"
    and ms: "methods_ok (w_methods w)"
  obtains hp' where "handle_read_client env (fd, Some (ClientPtr a)) w =
      Inr (put_client a (moved (c\<lparr>c_parser := P_hello hp'\<rparr>) HELLO_WRITE)
        (received fd [b] (w\<lparr>w_sel := upd_interest (w_sel w) fd OP_WRITE\<rparr>)))"
    and "hp_method_selected hp' = chosen_method (w_methods w) (done @ [b])"
proof -
  from assms(1) obtain hp p where st: "in_state c HELLO_READ" and g: "greeting w a c hp p"
    and p: "p_state p = HELLO_STATE_METHODS" and n: "unat (hp_nmethods hp) = n"
    and r: "unat (hp_methods_read hp) = length done" and d: "take (length done) (hp_methods hp) = done"
    by (auto simp: offering_def)
  let ?p = "stepped p b HELLO_EVENT_METHOD HELLO_STATE_METHODS"
  define hp1 where "hp1 = hp\<lparr>hp_p := Some ?p, hp_methods := (hp_methods hp)[unat (hp_methods_read hp) := b],
      hp_methods_read := hp_methods_read hp + 1\<rparr>"
  define sel where "sel = chosen_method (w_methods w) (done @ [b])"
  define hp' where "hp' = hp1\<lparr>hp_method_selected := sel, hp_p := Some (parser_reset ?p)\<rparr>"
  have lt: "hp_methods_read hp < hp_nmethods hp" using n r assms(2) by (simp add: word_less_nat_alt)
  have r1: "unat (hp_methods_read hp + 1) = Suc (length done)"
    using lt r unat_byte_Suc by (simp add: word_less_nat_alt)
  with assms(2) n have is_last: "hp_methods_read hp + 1 = hp_nmethods hp" by (simp add: byte_eq_iff_unat)
  have len: "length (hp_methods hp) = 255" using g by (simp add: greeting_def HELLO_MAX_METHODS_def)
  have small: "length done < 255" using assms(2) n unat_byte_le [of "hp_nmethods hp"] by simp
  have c: "w_clients w a = Some c" using g by (simp add: greeting_def linked_def)
  have prefix: "take n (hp_methods hp1) = done @ [b]"
    using assms(2) r d len small by (auto simp: hp1_def take_list_update_snoc)
  have "select_method (w_methods w) hp1 = Inr sel"
    using select_method_chosen [OF ms, of hp1] n len prefix assms(2) small
    by (simp add: sel_def) (simp add: hp1_def)
  then have "hello_read env (fd, Some (ClientPtr a)) w = Inr (HELLO_WRITE,
      put_client a (c\<lparr>c_parser := P_hello hp'\<rparr>) (received fd [b] (w\<lparr>w_sel := upd_interest (w_sel w) fd OP_WRITE\<rparr>)))"
    using hello_read_method [OF g p assms(3) lt] is_last by (simp add: hp'_def hp1_def)
  then have "handle_read_client env (fd, Some (ClientPtr a)) w =
      Inr (put_client a (moved (c\<lparr>c_parser := P_hello hp'\<rparr>) HELLO_WRITE)
        (received fd [b] (w\<lparr>w_sel := upd_interest (w_sel w) fd OP_WRITE\<rparr>)))"
    by (rule hello_moves [OF c st])
  moreover have "hp_method_selected hp' = sel" by (simp add: hp'_def)
  ultimately show ?thesis using that by (simp add: sel_def)
qed

lemma offering_run:
  assumes "offering w a c n done" and "length done + length rest = n" and "rest \<noteq> []"
    and "methods_ok (w_methods w)"
  shows "\<exists>hp'. client_reads env (fd, Some (ClientPtr a)) rest w =
      Inr (put_client a (moved (c\<lparr>c_parser := P_hello hp'\<rparr>) HELLO_WRITE)
        (received fd rest (w\<lparr>w_sel := upd_interest (w_sel w) fd OP_WRITE\<rparr>))) \<and>
      hp_method_selected hp' = chosen_method (w_methods w) (done @ rest)"
  using assms
proof (induction rest arbitrary: "done" w c)
  case (Cons b rest)
  let ?env = "with_input env fd (b # rest)"
  show ?case
  proof (cases "rest = []")
    case True
    have last: "Suc (length done) = n" using Cons.prems(2) True by simp
    obtain hp' where "handle_read_client ?env (fd, Some (ClientPtr a)) w =
        Inr (put_client a (moved (c\<lparr>c_parser := P_hello hp'\<rparr>) HELLO_WRITE)
          (received fd [b] (w\<lparr>w_sel := upd_interest (w_sel w) fd OP_WRITE\<rparr>)))"
      "hp_method_selected hp' = chosen_method (w_methods w) (done @ [b])"
      by (rule offering_last [OF Cons.prems(1) last _ Cons.prems(4), of ?env fd b rest]) simp_all
    then show ?thesis using True by (intro exI [of _ hp']) simp
  next
    case False
    then have "Suc (length done) < n" using Cons.prems(2) by (cases rest) auto
    from offering_more [OF Cons.prems(1) this, of ?env fd b rest] obtain hp1 where
      step: "handle_read_client ?env (fd, Some (ClientPtr a)) w =
        Inr (put_client a (c\<lparr>c_parser := P_hello hp1\<rparr>) (received fd [b] w))" and
      o: "offering (put_client a (c\<lparr>c_parser := P_hello hp1\<rparr>) (received fd [b] w)) a
        (c\<lparr>c_parser := P_hello hp1\<rparr>) n (done @ [b])" by auto
    have len: "length (done @ [b]) + length rest = n" using Cons.prems(2) by simp
    have ms: "methods_ok (w_methods (put_client a (c\<lparr>c_parser := P_hello hp1\<rparr>) (received fd [b] w)))"
      using Cons.prems(4) by simp
    from Cons.IH [OF o len False ms] show ?thesis by (simp add: step)
  qed
qed simp

text \<open>The version and the number of methods.\<close>

lemma greeting_received:
  "greeting w a c hp p \<Longrightarrow> hp_p hp' = Some p' \<Longrightarrow> parser_ok hello_parser_def p' \<Longrightarrow>
     length (hp_methods hp') = HELLO_MAX_METHODS \<Longrightarrow>
     greeting (put_client a (c\<lparr>c_parser := P_hello hp'\<rparr>) (received fd bs w)) a (c\<lparr>c_parser := P_hello hp'\<rparr>) hp' p'"
  using linked_received [of w a c "c\<lparr>c_parser := P_hello hp'\<rparr>" fd bs] greeting_tag [of w a c hp p hp']
  by (simp add: greeting_def)

lemma greeting_start:
  assumes g: "greeting w a c hp p" and st: "in_state c HELLO_READ" and p: "p_state p = HELLO_STATE_VER"
    and n: "n \<noteq> 0"
  obtains hp1 where "client_reads env (fd, Some (ClientPtr a)) (5 # n # rest) w =
      client_reads env (fd, Some (ClientPtr a)) rest (put_client a (c\<lparr>c_parser := P_hello hp1\<rparr>) (received fd [5, n] w))"
    and "offering (put_client a (c\<lparr>c_parser := P_hello hp1\<rparr>) (received fd [5, n] w)) a (c\<lparr>c_parser := P_hello hp1\<rparr>) (unat n) []"
proof -
  let ?k = "(fd, Some (ClientPtr a))"
  let ?p1 = "stepped p 5 HELLO_EVENT_VER HELLO_STATE_NMETHODS"
  define hp0 where "hp0 = hp\<lparr>hp_p := Some ?p1, hp_ver := 5\<rparr>"
  let ?c0 = "c\<lparr>c_parser := P_hello hp0\<rparr>" and ?w0 = "put_client a (c\<lparr>c_parser := P_hello hp0\<rparr>) (received fd [5] w)"
  let ?p2 = "stepped ?p1 n HELLO_EVENT_NMETHODS HELLO_STATE_METHODS"
  define hp1 where "hp1 = hp0\<lparr>hp_p := Some ?p2, hp_nmethods := n, hp_methods_read := 0\<rparr>"
  let ?c1 = "c\<lparr>c_parser := P_hello hp1\<rparr>" and ?w1 = "put_client a (c\<lparr>c_parser := P_hello hp1\<rparr>) (received fd [5, n] w)"
  have c: "w_clients w a = Some c" using g by (simp add: greeting_def linked_def)
  have pok: "parser_ok hello_parser_def p" "length (hp_methods hp) = HELLO_MAX_METHODS"
    using g by (auto simp: greeting_def)
  have pok1: "parser_ok hello_parser_def ?p1" "parser_ok hello_parser_def ?p2"
    using pok by (auto simp: hello_table_defs intro!: parser_ok_stepped)
  have one: "handle_read_client (with_input env fd (5 # n # rest)) ?k w = Inr ?w0"
    using hello_read_ver [OF g p, of "with_input env fd (5 # n # rest)" fd 5] c st
    by (intro hello_stays) (simp_all add: hp0_def)
  have g0: "greeting ?w0 a ?c0 hp0 ?p1"
    using greeting_received [OF g, of hp0 ?p1] pok pok1 by (simp add: hp0_def)
  have two: "handle_read_client (with_input env fd (n # rest)) ?k ?w0 = Inr ?w1"
    using hello_read_nmethods [OF g0, of "with_input env fd (n # rest)" fd n] n st
      hello_stays [of ?w0 a ?c0 "with_input env fd (n # rest)" fd "P_hello hp1" "received fd [n] ?w0"]
    by (simp add: hp1_def in_state_def)
  have "greeting ?w1 a ?c1 hp1 ?p2"
    using greeting_received [OF g, of hp1 ?p2] pok pok1 by (simp add: hp1_def hp0_def)
  then have "offering ?w1 a ?c1 (unat n) []"
    using st n by (auto simp: offering_def in_state_def hp1_def unat_gt_0 intro!: exI [of _ hp1] exI [of _ ?p2])
  with one two that show ?thesis by simp
qed


lemma sample_methods: "methods_ok ((replicate MAX_BUFFER_SIZE 0)[0 := 2, 1 := -1])"
    "method_set ((replicate MAX_BUFFER_SIZE 0)[0 := 2, 1 := -1]) = {HELLO_AUTH_USER_PASS}"
  using default_methods [OF _ change_default, of "replicate MAX_BUFFER_SIZE 0"] by simp_all

lemma sample_new_client:
  obtains s where "linked (sample_world s us (new_client 4)) 0 (new_client 4)"
proof -
  from sample_selector obtain s :: "(fd_handler, attachment) fdselector" where
    "selector_ok s" "sel_lookup s = [4 \<mapsto> (OP_READ, Some CLIENT_HANDLER, Some (ClientPtr 0)),
                         5 \<mapsto> (OP_READ, Some CLIENT_HANDLER, Some (ClientPtr 0))]" by blast
  then have "linked (sample_world s us (new_client 4)) 0 (new_client 4)"
    by (simp add: linked_def owned_def new_client_def parser_tag_ok_def)
  then show ?thesis using that by blast
qed


section \<open>The authentication\<close>

definition auth_at :: "world \<Rightarrow> nat \<Rightarrow> client_t \<Rightarrow> nat \<Rightarrow> auth_parser_t \<Rightarrow> bool" where
  "auth_at w a c st ap \<longleftrightarrow> in_state c AUTH_READ \<and> \<not> ap_auth_done ap \<and>
     (\<exists>p. authenticating w a c ap p \<and> p_state p = st)"

lemma auth_tag: "authenticating w a c ap p \<Longrightarrow> parser_tag_ok (c\<lparr>c_parser := P_auth ap'\<rparr>)"
  by (auto simp: authenticating_def linked_def parser_tag_ok_def split: parser_state_t.splits)

lemma auth_stays:
  assumes a: "auth_at w a c st ap"
    and run: "auth_read env (fd, Some (ClientPtr a)) w =
      Inr (AUTH_READ, put_client a (c\<lparr>c_parser := P_auth ap'\<rparr>) (emit (Recv fd [b]) w))"
    and p': "ap_p ap' = Some p'" "parser_ok auth_parser_def p'" "ap_auth_done ap' = ap_auth_done ap"
  shows "handle_read_client env (fd, Some (ClientPtr a)) w = Inr (put_client a (c\<lparr>c_parser := P_auth ap'\<rparr>) (received fd [b] w))"
    and "auth_at (put_client a (c\<lparr>c_parser := P_auth ap'\<rparr>) (received fd bs w)) a (c\<lparr>c_parser := P_auth ap'\<rparr>) (p_state p') ap'"
proof -
  from a obtain p where st: "in_state c AUTH_READ" and au: "authenticating w a c ap p"
    by (auto simp: auth_at_def)
  then have c: "w_clients w a = Some c" by (simp add: authenticating_def linked_def)
  show "handle_read_client env (fd, Some (ClientPtr a)) w = Inr (put_client a (c\<lparr>c_parser := P_auth ap'\<rparr>) (received fd [b] w))"
    using read_event [OF c st, of env "auth_read env" fd AUTH_READ, OF _ run] by (simp add: after_event_simps)
  show "auth_at (put_client a (c\<lparr>c_parser := P_auth ap'\<rparr>) (received fd bs w)) a (c\<lparr>c_parser := P_auth ap'\<rparr>) (p_state p') ap'"
    using a st au p' linked_received [of w a c "c\<lparr>c_parser := P_auth ap'\<rparr>" fd bs] auth_tag [OF au, of ap']
    by (simp add: auth_at_def authenticating_def in_state_def)
qed

lemma auth_atE:
  assumes "auth_at w a c st ap"
  obtains p where "authenticating w a c ap p" "p_state p = st" "parser_ok auth_parser_def p"
    "in_state c AUTH_READ" "\<not> ap_auth_done ap" "w_clients w a = Some c"
  using assms by (auto simp: auth_at_def authenticating_def linked_def)

text \<open>The name, from its first byte to its last.\<close>

lemma auth_name_run:
  assumes "auth_at w a c AUTH_STATE_UNAME ap" and "ap_uname ap = filled xs MAX_BUFFER_SIZE"
    and "unat (ap_uname_read ap) = length xs" and "length xs + length name = unat (ap_ulen ap)"
    and "name \<noteq> []" and "unat (ap_ulen ap) < MAX_BUFFER_SIZE"
  shows "\<exists>ap'. client_reads env (fd, Some (ClientPtr a)) (name @ rest) w =
      client_reads env (fd, Some (ClientPtr a)) rest (put_client a (c\<lparr>c_parser := P_auth ap'\<rparr>) (received fd name w)) \<and>
    auth_at (put_client a (c\<lparr>c_parser := P_auth ap'\<rparr>) (received fd name w)) a (c\<lparr>c_parser := P_auth ap'\<rparr>) AUTH_STATE_PLEN ap' \<and>
    ap_uname ap' = filled (xs @ name) MAX_BUFFER_SIZE \<and> ap_passwd ap' = ap_passwd ap"
  using assms
proof (induction name arbitrary: xs w c ap)
  case (Cons b name)
  let ?k = "(fd, Some (ClientPtr a))" and ?env = "with_input env fd (b # name @ rest)"
  obtain p where au: "authenticating w a c ap p" "p_state p = AUTH_STATE_UNAME" and pok: "parser_ok auth_parser_def p"
    and nd: "\<not> ap_auth_done ap" using Cons.prems(1) by (rule auth_atE)
  let ?p = "stepped p b AUTH_EVENT_UNAME AUTH_STATE_UNAME"
  define p' where "p' = (if length xs + 1 = unat (ap_ulen ap) then parser_set_state ?p AUTH_STATE_PLEN else ?p)"
  define ap1 where "ap1 = ap\<lparr>ap_p := Some p', ap_uname := filled (xs @ [b]) MAX_BUFFER_SIZE,
      ap_uname_read := ap_uname_read ap + 1\<rparr>"
  have lt: "length xs < unat (ap_ulen ap)" using Cons.prems(4) by simp
  have run: "auth_read ?env ?k w = Inr (AUTH_READ, put_client a (c\<lparr>c_parser := P_auth ap1\<rparr>) (emit (Recv fd [b]) w))"
    unfolding ap1_def p'_def
    by (rule auth_read_uname [OF au _ Cons.prems(2,3) lt Cons.prems(6)]) simp
  have p': "ap_p ap1 = Some p'" "parser_ok auth_parser_def p'" "ap_auth_done ap1 = ap_auth_done ap"
    using pok by (auto simp: ap1_def p'_def auth_table_defs intro!: parser_ok_stepped parser_ok_set_state)
  note step = auth_stays [OF Cons.prems(1) run p']
  have r: "unat (ap_uname_read ap + 1) = length (xs @ [b])"
    using lt Cons.prems(3) unat_byte_Suc [of "ap_uname_read ap" "ap_ulen ap"] by simp
  show ?case
  proof (cases "name = []")
    case True
    then have "p_state p' = AUTH_STATE_PLEN" using Cons.prems(4) by (simp add: p'_def)
    then show ?thesis using step(1) step(2) [of "[b]"] True by (intro exI [of _ ap1]) (simp add: ap1_def)
  next
    case False
    then have "p_state p' = AUTH_STATE_UNAME" using Cons.prems(4) by (cases name) (simp_all add: p'_def)
    with step(2) [of "[b]"] have at1: "auth_at (put_client a (c\<lparr>c_parser := P_auth ap1\<rparr>) (received fd [b] w)) a
        (c\<lparr>c_parser := P_auth ap1\<rparr>) AUTH_STATE_UNAME ap1" by simp
    have "ap_uname ap1 = filled (xs @ [b]) MAX_BUFFER_SIZE" "unat (ap_uname_read ap1) = length (xs @ [b])"
      "length (xs @ [b]) + length name = unat (ap_ulen ap1)" "unat (ap_ulen ap1) < MAX_BUFFER_SIZE"
      "ap_passwd ap1 = ap_passwd ap"
      using r Cons.prems(4,6) by (simp_all add: ap1_def)
    with Cons.IH [OF at1 this(1-3) False this(4)] show ?thesis by (simp add: step(1))
  qed
qed simp

text \<open>The password up to its last byte, which runs the login.\<close>

lemma auth_password_run:
  assumes "auth_at w a c AUTH_STATE_PASSWD ap" and "ap_passwd ap = filled xs MAX_BUFFER_SIZE"
    and "unat (ap_passwd_read ap) = length xs" and "length xs + length pass = unat (ap_plen ap)"
    and "pass \<noteq> []" and "unat (ap_plen ap) < MAX_BUFFER_SIZE"
    and "ap_uname ap = filled name MAX_BUFFER_SIZE" and "length name < MAX_BUFFER_SIZE"
  shows "\<exists>ap'. client_reads env (fd, Some (ClientPtr a)) pass w =
      Inr (put_client a (moved (c\<lparr>c_parser := P_auth ap'\<rparr>) AUTH_WRITE)
        (received fd pass (w\<lparr>w_sel := upd_interest (w_sel w) fd OP_WRITE\<rparr>))) \<and>
    ap_auth_status ap' = (if fst (user_login (w_users w) (Some (cstr name)) (cstr (xs @ pass))) = USERS_OK
      then AUTH_SUCCESS else AUTH_FAILURE)"
  using assms
proof (induction pass arbitrary: xs w c ap)
  case (Cons b pass)
  let ?k = "(fd, Some (ClientPtr a))" and ?env = "with_input env fd (b # pass)"
  obtain p where au: "authenticating w a c ap p" "p_state p = AUTH_STATE_PASSWD" and pok: "parser_ok auth_parser_def p"
    and nd: "\<not> ap_auth_done ap" and st: "in_state c AUTH_READ" and cl: "w_clients w a = Some c"
    using Cons.prems(1) by (rule auth_atE)
  let ?p = "stepped p b AUTH_EVENT_PASSWD AUTH_STATE_PASSWD"
  have lt: "length xs < unat (ap_plen ap)" using Cons.prems(4) by simp
  have inp: "e_recv ?env fd = Avail (b # pass)" by simp
  show ?case
  proof (cases "pass = []")
    case True
    define ap1 where "ap1 = ap\<lparr>ap_p := Some ?p, ap_passwd := filled (xs @ [b]) MAX_BUFFER_SIZE,
      ap_passwd_read := ap_passwd_read ap + 1,
      ap_auth_status := (if fst (user_login (w_users w) (Some (cstr name)) (cstr (xs @ [b]))) = USERS_OK
                            then AUTH_SUCCESS else AUTH_FAILURE), ap_auth_done := True\<rparr>"
    let ?w1 = "put_client a (c\<lparr>c_parser := P_auth ap1\<rparr>) (emit (Recv fd [b]) (w\<lparr>w_sel := upd_interest (w_sel w) fd OP_WRITE\<rparr>))"
    have last: "length xs + 1 = unat (ap_plen ap)" using Cons.prems(4) True by simp
    have run: "auth_read ?env ?k w = Inr (AUTH_WRITE, ?w1)"
      unfolding ap1_def by (rule auth_read_last [OF au inp Cons.prems(2,3) last Cons.prems(6-8) nd])
    have "handle_read_client ?env ?k w = Inr (put_client a (moved (c\<lparr>c_parser := P_auth ap1\<rparr>) AUTH_WRITE) ?w1)"
      using read_event [OF cl st, of ?env "auth_read ?env" fd AUTH_WRITE, OF _ run] by (simp add: after_event_simps)
    then show ?thesis using True by (intro exI [of _ ap1]) (simp add: ap1_def)
  next
    case False
    define ap1 where "ap1 = ap\<lparr>ap_p := Some ?p, ap_passwd := filled (xs @ [b]) MAX_BUFFER_SIZE,
        ap_passwd_read := ap_passwd_read ap + 1\<rparr>"
    have more: "length xs + 1 < unat (ap_plen ap)" using Cons.prems(4) False by (cases pass) simp_all
    have run: "auth_read ?env ?k w = Inr (AUTH_READ, put_client a (c\<lparr>c_parser := P_auth ap1\<rparr>) (emit (Recv fd [b]) w))"
      unfolding ap1_def by (rule auth_read_passwd [OF au inp Cons.prems(2,3) more Cons.prems(6)])
    have p': "ap_p ap1 = Some ?p" "parser_ok auth_parser_def ?p" "ap_auth_done ap1 = ap_auth_done ap"
      using pok by (auto simp: ap1_def auth_table_defs intro!: parser_ok_stepped)
    note step = auth_stays [OF Cons.prems(1) run p']
    have at1: "auth_at (put_client a (c\<lparr>c_parser := P_auth ap1\<rparr>) (received fd [b] w)) a
        (c\<lparr>c_parser := P_auth ap1\<rparr>) AUTH_STATE_PASSWD ap1" using step(2) [of "[b]"] by simp
    have "ap_passwd ap1 = filled (xs @ [b]) MAX_BUFFER_SIZE" "unat (ap_passwd_read ap1) = length (xs @ [b])"
      "length (xs @ [b]) + length pass = unat (ap_plen ap1)" "unat (ap_plen ap1) < MAX_BUFFER_SIZE"
      "ap_uname ap1 = filled name MAX_BUFFER_SIZE"
      using lt Cons.prems(3,4,6,7) unat_byte_Suc [of "ap_passwd_read ap" "ap_plen ap"] by (simp_all add: ap1_def)
    with Cons.IH [OF at1 this(1-3) False this(4,5) Cons.prems(8)] show ?thesis by (simp add: step(1))
  qed
qed simp

text \<open>A connection that just entered \<^verbatim>\<open>AUTH_READ\<close>.\<close>

definition auth_entered :: "world \<Rightarrow> nat \<Rightarrow> client_t \<Rightarrow> bool" where
  "auth_entered w a c \<longleftrightarrow> linked w a c \<and> in_state c AUTH_READ \<and>
     (\<exists>p. c_parser c = P_auth (zero_auth\<lparr>ap_p := Some p\<rparr>) \<and> parser_ok auth_parser_def p \<and> p_state p = AUTH_STATE_VER)"

lemma auth_entered_at:
  "auth_entered w a c \<Longrightarrow> \<exists>p. auth_at w a c AUTH_STATE_VER (zero_auth\<lparr>ap_p := Some p\<rparr>)"
  by (auto simp: auth_entered_def auth_at_def authenticating_def zero_auth_def)

text \<open>Version and lengths.\<close>

lemma auth_byte_ver:
  assumes "auth_at w a c AUTH_STATE_VER ap"
  shows "\<exists>ap'. client_reads env (fd, Some (ClientPtr a)) (1 # rest) w =
      client_reads env (fd, Some (ClientPtr a)) rest (put_client a (c\<lparr>c_parser := P_auth ap'\<rparr>) (received fd [1] w)) \<and>
    auth_at (put_client a (c\<lparr>c_parser := P_auth ap'\<rparr>) (received fd [1] w)) a (c\<lparr>c_parser := P_auth ap'\<rparr>) AUTH_STATE_ULEN ap' \<and>
    ap_uname ap' = ap_uname ap \<and> ap_passwd ap' = ap_passwd ap"
proof -
  obtain p where au: "authenticating w a c ap p" "p_state p = AUTH_STATE_VER" and pok: "parser_ok auth_parser_def p"
    using assms by (rule auth_atE)
  let ?p = "stepped p 1 AUTH_EVENT_VER AUTH_STATE_ULEN" and ?env = "with_input env fd (1 # rest)"
  define ap1 where "ap1 = ap\<lparr>ap_p := Some ?p, ap_ver := 1\<rparr>"
  have run: "auth_read ?env (fd, Some (ClientPtr a)) w =
      Inr (AUTH_READ, put_client a (c\<lparr>c_parser := P_auth ap1\<rparr>) (emit (Recv fd [1]) w))"
    using auth_read_ver [OF au, of ?env fd 1 rest] by (simp add: ap1_def AUTH_VERSION_def)
  have p': "ap_p ap1 = Some ?p" "parser_ok auth_parser_def ?p" "ap_auth_done ap1 = ap_auth_done ap"
    using pok by (auto simp: ap1_def auth_table_defs intro!: parser_ok_stepped)
  note step = auth_stays [OF assms run p']
  show ?thesis using step(2) [of "[1]"] by (intro exI [of _ ap1]) (simp add: step(1), simp add: ap1_def)
qed

lemma auth_byte_ulen:
  assumes "auth_at w a c AUTH_STATE_ULEN ap"
  shows "\<exists>ap'. client_reads env (fd, Some (ClientPtr a)) (n # rest) w =
      client_reads env (fd, Some (ClientPtr a)) rest (put_client a (c\<lparr>c_parser := P_auth ap'\<rparr>) (received fd [n] w)) \<and>
    auth_at (put_client a (c\<lparr>c_parser := P_auth ap'\<rparr>) (received fd [n] w)) a (c\<lparr>c_parser := P_auth ap'\<rparr>) AUTH_STATE_UNAME ap' \<and>
    ap_uname ap' = ap_uname ap \<and> ap_passwd ap' = ap_passwd ap \<and> ap_ulen ap' = n \<and> ap_uname_read ap' = 0"
proof -
  obtain p where au: "authenticating w a c ap p" "p_state p = AUTH_STATE_ULEN" and pok: "parser_ok auth_parser_def p"
    using assms by (rule auth_atE)
  let ?p = "stepped p n AUTH_EVENT_ULEN AUTH_STATE_UNAME" and ?env = "with_input env fd (n # rest)"
  define ap1 where "ap1 = ap\<lparr>ap_p := Some ?p, ap_ulen := n, ap_uname_read := 0\<rparr>"
  have run: "auth_read ?env (fd, Some (ClientPtr a)) w =
      Inr (AUTH_READ, put_client a (c\<lparr>c_parser := P_auth ap1\<rparr>) (emit (Recv fd [n]) w))"
    using auth_read_ulen [OF au, of ?env fd n rest] by (simp add: ap1_def)
  have p': "ap_p ap1 = Some ?p" "parser_ok auth_parser_def ?p" "ap_auth_done ap1 = ap_auth_done ap"
    using pok by (auto simp: ap1_def auth_table_defs intro!: parser_ok_stepped)
  note step = auth_stays [OF assms run p']
  show ?thesis using step(2) [of "[n]"] by (intro exI [of _ ap1]) (simp add: step(1), simp add: ap1_def)
qed

lemma auth_byte_plen:
  assumes "auth_at w a c AUTH_STATE_PLEN ap"
  shows "\<exists>ap'. client_reads env (fd, Some (ClientPtr a)) (n # rest) w =
      client_reads env (fd, Some (ClientPtr a)) rest (put_client a (c\<lparr>c_parser := P_auth ap'\<rparr>) (received fd [n] w)) \<and>
    auth_at (put_client a (c\<lparr>c_parser := P_auth ap'\<rparr>) (received fd [n] w)) a (c\<lparr>c_parser := P_auth ap'\<rparr>) AUTH_STATE_PASSWD ap' \<and>
    ap_uname ap' = ap_uname ap \<and> ap_passwd ap' = ap_passwd ap \<and> ap_plen ap' = n \<and> ap_passwd_read ap' = 0"
proof -
  obtain p where au: "authenticating w a c ap p" "p_state p = AUTH_STATE_PLEN" and pok: "parser_ok auth_parser_def p"
    using assms by (rule auth_atE)
  let ?p = "stepped p n AUTH_EVENT_PLEN AUTH_STATE_PASSWD" and ?env = "with_input env fd (n # rest)"
  define ap1 where "ap1 = ap\<lparr>ap_p := Some ?p, ap_plen := n, ap_passwd_read := 0\<rparr>"
  have run: "auth_read ?env (fd, Some (ClientPtr a)) w =
      Inr (AUTH_READ, put_client a (c\<lparr>c_parser := P_auth ap1\<rparr>) (emit (Recv fd [n]) w))"
    using auth_read_plen [OF au, of ?env fd n rest] by (simp add: ap1_def)
  have p': "ap_p ap1 = Some ?p" "parser_ok auth_parser_def ?p" "ap_auth_done ap1 = ap_auth_done ap"
    using pok by (auto simp: ap1_def auth_table_defs intro!: parser_ok_stepped)
  note step = auth_stays [OF assms run p']
  show ?thesis using step(2) [of "[n]"] by (intro exI [of _ ap1]) (simp add: step(1), simp add: ap1_def)
qed

lemma authentication_run:
  assumes e: "auth_entered w a c"
    and name: "name \<noteq> []" "length name < MAX_BUFFER_SIZE" and pass: "pass \<noteq> []" "length pass < MAX_BUFFER_SIZE"
  shows "\<exists>ap'. client_reads env (fd, Some (ClientPtr a))
        (1 # of_nat (length name) # name @ of_nat (length pass) # pass) w =
      Inr (put_client a (moved (c\<lparr>c_parser := P_auth ap'\<rparr>) AUTH_WRITE)
        (received fd (1 # of_nat (length name) # name @ of_nat (length pass) # pass)
          (w\<lparr>w_sel := upd_interest (w_sel w) fd OP_WRITE\<rparr>))) \<and>
    ap_auth_status ap' = (if fst (user_login (w_users w) (Some (cstr name)) (cstr pass)) = USERS_OK
      then AUTH_SUCCESS else AUTH_FAILURE)"
proof -
  let ?k = "(fd, Some (ClientPtr a))" and ?n = "of_nat (length name) :: byte" and ?m = "of_nat (length pass) :: byte"
  have n: "unat ?n = length name" "unat ?m = length pass"
    using name pass byte_of_nat_unat by (simp_all add: MAX_BUFFER_SIZE_def)
  obtain p where a0: "auth_at w a c AUTH_STATE_VER (zero_auth\<lparr>ap_p := Some p\<rparr>)"
    using auth_entered_at [OF e] by blast
  from auth_byte_ver [OF this, of env fd "?n # name @ ?m # pass"] obtain ap1 where
    s1: "client_reads env ?k (1 # ?n # name @ ?m # pass) w = client_reads env ?k (?n # name @ ?m # pass)
        (put_client a (c\<lparr>c_parser := P_auth ap1\<rparr>) (received fd [1] w))" and
    a1: "auth_at (put_client a (c\<lparr>c_parser := P_auth ap1\<rparr>) (received fd [1] w)) a (c\<lparr>c_parser := P_auth ap1\<rparr>) AUTH_STATE_ULEN ap1" and
    f1: "ap_uname ap1 = replicate MAX_BUFFER_SIZE 0" "ap_passwd ap1 = replicate MAX_BUFFER_SIZE 0"
    by (auto simp: zero_auth_def)
  from auth_byte_ulen [OF a1, of env fd ?n "name @ ?m # pass"] f1 obtain ap2 where
    s2: "client_reads env ?k (?n # name @ ?m # pass) (put_client a (c\<lparr>c_parser := P_auth ap1\<rparr>) (received fd [1] w)) =
        client_reads env ?k (name @ ?m # pass) (put_client a (c\<lparr>c_parser := P_auth ap2\<rparr>) (received fd [1, ?n] w))" and
    a2: "auth_at (put_client a (c\<lparr>c_parser := P_auth ap2\<rparr>) (received fd [1, ?n] w)) a (c\<lparr>c_parser := P_auth ap2\<rparr>) AUTH_STATE_UNAME ap2" and
    f2: "ap_uname ap2 = filled [] MAX_BUFFER_SIZE" "ap_passwd ap2 = replicate MAX_BUFFER_SIZE 0"
      "ap_ulen ap2 = ?n" "ap_uname_read ap2 = 0"
    by (auto simp: filled_Nil)
  from auth_name_run [OF a2 f2(1), of name env fd "?m # pass"] f2 n name obtain ap3 where
    s3: "client_reads env ?k (name @ ?m # pass) (put_client a (c\<lparr>c_parser := P_auth ap2\<rparr>) (received fd [1, ?n] w)) =
        client_reads env ?k (?m # pass) (put_client a (c\<lparr>c_parser := P_auth ap3\<rparr>) (received fd (1 # ?n # name) w))" and
    a3: "auth_at (put_client a (c\<lparr>c_parser := P_auth ap3\<rparr>) (received fd (1 # ?n # name) w)) a (c\<lparr>c_parser := P_auth ap3\<rparr>) AUTH_STATE_PLEN ap3" and
    f3: "ap_uname ap3 = filled name MAX_BUFFER_SIZE" "ap_passwd ap3 = replicate MAX_BUFFER_SIZE 0"
    by auto
  from auth_byte_plen [OF a3, of env fd ?m pass] f3 obtain ap4 where
    s4: "client_reads env ?k (?m # pass) (put_client a (c\<lparr>c_parser := P_auth ap3\<rparr>) (received fd (1 # ?n # name) w)) =
        client_reads env ?k pass (put_client a (c\<lparr>c_parser := P_auth ap4\<rparr>) (received fd (1 # ?n # name @ [?m]) w))" and
    a4: "auth_at (put_client a (c\<lparr>c_parser := P_auth ap4\<rparr>) (received fd (1 # ?n # name @ [?m]) w)) a (c\<lparr>c_parser := P_auth ap4\<rparr>) AUTH_STATE_PASSWD ap4" and
    f4: "ap_passwd ap4 = filled [] MAX_BUFFER_SIZE" "ap_uname ap4 = filled name MAX_BUFFER_SIZE"
      "ap_plen ap4 = ?m" "ap_passwd_read ap4 = 0"
    by (auto simp: filled_Nil)
  have "unat (ap_passwd_read ap4) = length []" "length [] + length pass = unat (ap_plen ap4)"
    "unat (ap_plen ap4) < MAX_BUFFER_SIZE" using f4 n pass by simp_all
  from auth_password_run [OF a4 f4(1) this(1,2) pass(1) this(3) f4(2) name(2), of env fd]
  show ?thesis unfolding s1 s2 s3 s4 by simp
qed

text \<open>The request phase is entered with a fresh parser.\<close>

definition request_entered :: "world \<Rightarrow> nat \<Rightarrow> client_t \<Rightarrow> bool" where
  "request_entered w a c \<longleftrightarrow> linked w a c \<and> in_state c REQUEST_READ \<and> c_active_parser c = REQUEST_PARSER \<and>
     (\<exists>p. c_parser c = P_request (zero_request\<lparr>rp_p := Some p\<rparr>) \<and> parser_ok request_parser_def p \<and>
        p_state p = REQUEST_STATE_VER)"

lemma enter_request:
  assumes l: "linked w a c" and m: "stm_max_state (c_stm c) = ERROR" and alloc: "e_alloc env A_parser"
    and k: "k \<noteq> REQUEST_READ"
  shows "\<exists>c'. after_event env k REQUEST_READ (fd, Some (ClientPtr a)) a c w = Inr (put_client a c' w) \<and>
     request_entered (put_client a c' w) a c' \<and> c_client_fd c' = c_client_fd c \<and>
     c_destination_fd c' = c_destination_fd c"
proof -
  have tag: "parser_tag_ok (moved c REQUEST_READ)" using l by (simp add: linked_def)
  obtain u where u: "destroy_active_parser (moved c REQUEST_READ) =
      Inr ((moved c REQUEST_READ)\<lparr>c_parser := u, c_active_parser := NO_PARSER\<rparr>)"
    using destroy_active_parser_ok [OF tag] .
  let ?rp = "zero_request\<lparr>rp_p := Some (fresh_parser env request_parser_def)\<rparr>"
  let ?c = "moved (c\<lparr>c_active_parser := REQUEST_PARSER, c_parser := P_request ?rp\<rparr>) REQUEST_READ"
  have rp0: "?rp\<lparr>rp_addr_read := 0, rp_port_read := 0\<rparr> = ?rp" by (simp add: zero_request_def)
  have "request_read_init env REQUEST_READ (fd, Some (ClientPtr a)) (put_client a (moved c REQUEST_READ) w) =
      Inr (put_client a ?c w)"
    using u alloc rp0
    by (simp add: request_read_init_def request_parser_init_def parser_init_def fresh_parser_def upd_request_def)
  moreover have "linked (put_client a ?c w) a ?c"
    using l by (auto simp: linked_def owned_def parser_tag_ok_def client_state_defs)
  moreover have "parser_ok request_parser_def (fresh_parser env request_parser_def)"
    "p_state (fresh_parser env request_parser_def) = REQUEST_STATE_VER"
    using request_table.start by (simp_all add: parser_ok_fresh)
      (simp add: fresh_parser_def request_table_defs)
  ultimately show ?thesis using k m
    by (intro exI [of _ ?c]) (auto simp: after_event_simps request_entered_def)
qed

lemma send_all_of:
  "e_send env n fd = Takes k \<Longrightarrow> length bs \<le> k \<Longrightarrow> n = length (w_trace w) \<Longrightarrow>
     sys_send env fd bs w = (int (length bs), emit (Sent fd bs) w)"
  by (simp add: sys_send_def)

lemma linked_interest:
  assumes "linked w a c"
  shows "linked (emit x (w\<lparr>w_sel := upd_interest (w_sel w) fd i\<rparr>)) a c"
  using assms by (auto simp: linked_def owned_def interest_simps with_interest_apply)

lemma linked_emit [simp]: "linked (emit x w) a c = linked w a c"
  by (simp add: linked_def owned_def)

text \<open>The reply of the authentication, when the socket takes both of its bytes.\<close>

lemma auth_reply:
  assumes l: "linked w a c" and st: "in_state c AUTH_WRITE" and ap: "c_parser c = P_auth ap"
    and send: "e_send env (length (w_trace w)) fd = Takes k" "2 \<le> k" and alloc: "e_alloc env A_parser"
  shows "ap_auth_status ap = AUTH_SUCCESS \<Longrightarrow>
      \<exists>c' w'. handle_write_client env (fd, Some (ClientPtr a)) w = Inr (put_client a c' w') \<and>
        request_entered (put_client a c' w') a c' \<and> c_client_fd c' = c_client_fd c \<and>
        w' = emit (Sent fd [1, 0]) (w\<lparr>w_sel := upd_interest (w_sel w) fd OP_READ\<rparr>)"
    and "ap_auth_status ap = AUTH_FAILURE \<Longrightarrow>
      handle_write_client env (fd, Some (ClientPtr a)) w =
        Inr (torn_down a c (emit (Sent fd [1, 1]) (w\<lparr>w_sel := upd_interest (w_sel w) fd OP_NOOP\<rparr>)))"
proof -
  let ?k = "(fd, Some (ClientPtr a))"
  have c: "w_clients w a = Some c" and ok: "selector_ok (w_sel w)" and mx: "stm_max_state (c_stm c) = ERROR"
    using l st by (simp_all add: linked_def in_state_def)
  note send2 = send_all_of [OF send(1) _ refl, of "[x, y]" for x y]
  have int: "set_interest fd i (emit x w) = Inr (emit x (w\<lparr>w_sel := upd_interest (w_sel w) fd i\<rparr>))" for i x
    using set_interest_ok(1) [of "emit x w" fd i] ok by simp
  {
    assume s: "ap_auth_status ap = AUTH_SUCCESS"
    let ?w = "emit (Sent fd [1, 0]) (w\<lparr>w_sel := upd_interest (w_sel w) fd OP_READ\<rparr>)"
    have run: "auth_write env ?k w = Inr (REQUEST_READ, ?w)"
      using c ap s send(2) send2
      by (simp add: auth_write_def set_interest_key_eq int AUTH_REPLY_SIZE_def AUTH_SUCCESS_def
          AUTH_FAILURE_def AUTH_VERSION_def)
    have "handle_write_client env ?k w = after_event env AUTH_WRITE REQUEST_READ ?k a c ?w"
      using write_event [OF c st, of env "auth_write env" fd REQUEST_READ, OF _ run, of c] c by simp
    moreover have "linked ?w a c" using linked_interest [OF l] .
    ultimately show "\<exists>c' w'. handle_write_client env ?k w = Inr (put_client a c' w') \<and>
        request_entered (put_client a c' w') a c' \<and> c_client_fd c' = c_client_fd c \<and>
        w' = emit (Sent fd [1, 0]) (w\<lparr>w_sel := upd_interest (w_sel w) fd OP_READ\<rparr>)"
      using enter_request [of ?w a c env AUTH_WRITE fd] mx alloc by fastforce
  next
    assume s: "ap_auth_status ap = AUTH_FAILURE"
    let ?w = "emit (Sent fd [1, 1]) (w\<lparr>w_sel := upd_interest (w_sel w) fd OP_NOOP\<rparr>)"
    have run: "auth_write env ?k w = Inr (ERROR, ?w)"
      using c ap s send(2) send2
      by (simp add: auth_write_def set_interest_key_eq int AUTH_FAILURE_def AUTH_VERSION_def)
    have "handle_write_client env ?k w = after_event env AUTH_WRITE ERROR ?k a c ?w"
      using write_event [OF c st, of env "auth_write env" fd ERROR, OF _ run, of c] c by simp
    moreover have "linked ?w a c" using linked_interest [OF l] .
    ultimately show "handle_write_client env ?k w = Inr (torn_down a c ?w)"
      using after_error [of ?w a c AUTH_WRITE env fd] by simp
  }
qed

text \<open>
  C8. The username and password phase, end to end. A client that sends a version 1 message with a
  name and a password of 1 to 254 bytes gets, at its next writable event, either \<^verbatim>\<open>01 00\<close> and the
  request phase with a fresh parser, exactly when the user directory holds that password for that
  name (both cut at a zero byte), or \<^verbatim>\<open>01 01\<close>, after which its socket is closed and its object
  freed.
\<close>

theorem login_opens_requests:
  assumes us: "users_ok (w_users w)" and e: "auth_entered w a c" and fd: "c_client_fd c = fd"
    and dest: "c_destination_fd c = -1"
    and name: "name \<noteq> []" "length name < MAX_BUFFER_SIZE" and pass: "pass \<noteq> []" "length pass < MAX_BUFFER_SIZE"
    and send: "\<forall>n. e_send env n fd = Takes 2" and alloc: "e_alloc env A_parser"
  defines "bytes \<equiv> 1 # of_nat (length name) # name @ of_nat (length pass) # pass"
  shows "\<exists>w1 w2. client_reads env (fd, Some (ClientPtr a)) bytes w = Inr w1 \<and>
     handle_write_client env (fd, Some (ClientPtr a)) w1 = Inr w2 \<and>
     (if \<exists>l. directory_of (w_users w) (cstr name) = Some (cstr pass, l)
      then \<exists>c2. request_entered w2 a c2 \<and> c_client_fd c2 = fd \<and>
             w_trace w2 = w_trace w @ map (\<lambda>b. Recv fd [b]) bytes @ [Sent fd [1, 0]]
      else w_clients w2 a = None \<and> sel_lookup (w_sel w2) fd = None \<and>
             w_trace w2 = w_trace w @ map (\<lambda>b. Recv fd [b]) bytes @ [Sent fd [1, 1], Closed fd])"
proof -
  let ?k = "(fd, Some (ClientPtr a))"
  from authentication_run [OF e name pass, of env fd] obtain ap where
    run: "client_reads env ?k bytes w = Inr (put_client a (moved (c\<lparr>c_parser := P_auth ap\<rparr>) AUTH_WRITE)
        (received fd bytes (w\<lparr>w_sel := upd_interest (w_sel w) fd OP_WRITE\<rparr>)))" and
    status: "ap_auth_status ap = (if fst (user_login (w_users w) (Some (cstr name)) (cstr pass)) = USERS_OK
      then AUTH_SUCCESS else AUTH_FAILURE)"
    unfolding bytes_def by blast
  let ?c1 = "moved (c\<lparr>c_parser := P_auth ap\<rparr>) AUTH_WRITE"
  let ?w1 = "put_client a ?c1 (received fd bytes (w\<lparr>w_sel := upd_interest (w_sel w) fd OP_WRITE\<rparr>))"
  have l0: "linked w a c" and st0: "in_state c AUTH_READ" using e by (auto simp: auth_entered_def)
  have tag: "parser_tag_ok (c\<lparr>c_parser := P_auth ap\<rparr>)"
    using e auth_entered_at [OF e] auth_tag by (auto simp: auth_at_def)
  have l1: "linked ?w1 a ?c1"
    using l0 tag by (auto simp: linked_def owned_def interest_simps with_interest_apply)
  have st1: "in_state ?c1 AUTH_WRITE" using st0 by (simp add: in_state_def)
  have send1: "e_send env (length (w_trace ?w1)) fd = Takes 2" using send by simp
  have ap1: "c_parser ?c1 = P_auth ap" by simp
  note reply = auth_reply [OF l1 st1 ap1 send1 order_refl alloc]
  show ?thesis
  proof (cases "\<exists>l. directory_of (w_users w) (cstr name) = Some (cstr pass, l)")
    case True
    then have "ap_auth_status ap = AUTH_SUCCESS" using status user_login_OK_iff [OF us] by simp
    from reply(1) [OF this] obtain c2 w' where w': "handle_write_client env ?k ?w1 = Inr (put_client a c2 w')"
      "request_entered (put_client a c2 w') a c2" "c_client_fd c2 = c_client_fd ?c1"
      "w_trace w' = w_trace ?w1 @ [Sent fd [1, 0]]" by auto
    then show ?thesis using run True fd by (intro exI [of _ ?w1] exI [of _ "put_client a c2 w'"]) auto
  next
    case False
    then have "ap_auth_status ap = AUTH_FAILURE" using status user_login_OK_iff [OF us] by simp
    from reply(2) [OF this] have w': "handle_write_client env ?k ?w1 = Inr (torn_down a ?c1
        (emit (Sent fd [1, 1]) (?w1\<lparr>w_sel := upd_interest (w_sel ?w1) fd OP_NOOP\<rparr>)))" (is "_ = Inr (torn_down a _ ?w2)") .
    have "linked ?w2 a ?c1" using linked_interest [OF l1] .
    from torn_down_world(2,3) [OF this] have "w_clients (torn_down a ?c1 ?w2) a = None"
      "sel_lookup (w_sel (torn_down a ?c1 ?w2)) fd = None"
      using fd by simp_all
    moreover have "w_trace (torn_down a ?c1 ?w2) = w_trace w @ map (\<lambda>b. Recv fd [b]) bytes @ [Sent fd [1, 1], Closed fd]"
      using fd dest by (simp add: torn_down_def Let_def)
    ultimately show ?thesis using run w' False
      by (intro exI [of _ ?w1] exI [of _ "torn_down a ?c1 ?w2"]) simp
  qed
qed

definition sample_auth_client :: client_t where
  "sample_auth_client = sample_client AUTH_READ (-1) AUTH_PARSER
     (P_auth (zero_auth\<lparr>ap_p := Some (fresh_parser (sample_env []) auth_parser_def)\<rparr>))"

lemma sample_auth_entered:
  obtains s where "auth_entered (sample_world s us sample_auth_client) 0 sample_auth_client"
proof -
  have tag: "parser_tag_ok sample_auth_client" by (simp add: sample_auth_client_def parser_tag_ok_def)
  obtain s where "linked (sample_world s us sample_auth_client) 0 sample_auth_client"
    unfolding sample_auth_client_def
    by (rule sample_linked [of AUTH_READ "-1" AUTH_PARSER _ us]) (use tag in \<open>simp_all add: sample_auth_client_def\<close>)
  moreover have "parser_ok auth_parser_def (fresh_parser (sample_env []) auth_parser_def)"
    using auth_table.start by (rule parser_ok_fresh)
  moreover have "p_state (fresh_parser (sample_env []) auth_parser_def) = AUTH_STATE_VER"
    by (simp add: fresh_parser_def auth_table_defs)
  ultimately have "auth_entered (sample_world s us sample_auth_client) 0 sample_auth_client"
    by (auto simp: auth_entered_def sample_auth_client_def in_state_def client_state_defs)
  then show ?thesis using that by blast
qed

theorem login_opens_requests_witness:
  "\<exists>w w1 w2 c2. client_reads ((sample_env [])\<lparr>e_send := \<lambda>_ _. Takes 2\<rparr>) (4, Some (ClientPtr 0)) [1, 1, 97, 1, 98] w = Inr w1 \<and>
     handle_write_client ((sample_env [])\<lparr>e_send := \<lambda>_ _. Takes 2\<rparr>) (4, Some (ClientPtr 0)) w1 = Inr w2 \<and>
     request_entered w2 0 c2"
proof -
  let ?us = "[\<lparr>u_name = [97], u_pass = [98], u_level = USER\<rparr>]" and ?env = "(sample_env [])\<lparr>e_send := \<lambda>_ _. Takes 2\<rparr>"
  obtain s where e: "auth_entered (sample_world s ?us sample_auth_client) 0 sample_auth_client"
    by (rule sample_auth_entered)
  have us: "users_ok (w_users (sample_world s ?us sample_auth_client))"
    by (simp add: users_ok_def MAX_USERS_REGISTERED_def MAX_USERNAME_LEN_def MAX_PASSWORD_LEN_def)
  have "directory_of ?us [97] = Some ([98], USER)" by (simp add: directory_of_def)
  then have dir: "\<exists>l. directory_of (w_users (sample_world s ?us sample_auth_client)) (cstr [97]) = Some (cstr [98], l)"
    by (simp add: cstr_ident)
  have fd: "c_client_fd sample_auth_client = 4" "c_destination_fd sample_auth_client = -1"
    by (simp_all add: sample_auth_client_def)
  have "\<exists>w1 w2. client_reads ?env (4, Some (ClientPtr 0)) [1, 1, 97, 1, 98] (sample_world s ?us sample_auth_client) = Inr w1 \<and>
      handle_write_client ?env (4, Some (ClientPtr 0)) w1 = Inr w2 \<and> (\<exists>c2. request_entered w2 0 c2)"
    using login_opens_requests [OF us e fd, of "[97]" "[98]" ?env] dir
    by (simp add: MAX_BUFFER_SIZE_def del: client_reads.simps) blast
  then show ?thesis by blast
qed

end
