(* ===== verification/Gate.thy ===== *)
theory Gate
  imports Negotiation
begin

text \<open>
  How a client can get from one state to another: the states each callback can return, for any
  world and any answers of the operating system, and from that the only two ways into the request
  phase.
\<close>

section \<open>What a callback keeps\<close>

text \<open>
  The client's object survives and its machine is not touched (the engine moves it afterwards).
\<close>

definition keeps :: "nat \<Rightarrow> world \<Rightarrow> world \<Rightarrow> bool" where
  "keeps a w w' \<longleftrightarrow> (\<forall>c. w_clients w a = Some c \<longrightarrow> (\<exists>c'. w_clients w' a = Some c' \<and> c_stm c' = c_stm c))"

lemma keeps_refl [simp]: "keeps a w w"
  by (simp add: keeps_def)

lemma keeps_trans: "keeps a w w1 \<Longrightarrow> keeps a w1 w2 \<Longrightarrow> keeps a w w2"
  by (fastforce simp: keeps_def)

lemma keeps_simps [simp]:
  "keeps a w (put_client a c' w1) \<longleftrightarrow> (\<forall>c. w_clients w a = Some c \<longrightarrow> c_stm c' = c_stm c)"
  "keeps a w (w1\<lparr>w_sel := s\<rparr>) = keeps a w w1" "keeps a w (w1\<lparr>w_errno := e\<rparr>) = keeps a w w1"
  "keeps a w (emit x w1) = keeps a w w1" "keeps a w (w1\<lparr>w_stats := st\<rparr>) = keeps a w w1"
  "keeps a (w1\<lparr>w_sel := s\<rparr>) w = keeps a w1 w" "keeps a (w1\<lparr>w_errno := e\<rparr>) w = keeps a w1 w"
  "keeps a (emit x w1) w = keeps a w1 w" "keeps a (w1\<lparr>w_stats := st\<rparr>) w = keeps a w1 w"
  by (auto simp: keeps_def)

text \<open>The primitives, read backwards: what the world is after each of them.\<close>

lemma set_interestD [dest!]: "set_interest fd i w = Inr w' \<Longrightarrow> \<exists>s. w' = w\<lparr>w_sel := s\<rparr>"
  by (auto simp: set_interest_def)

lemma set_interest_keyD [dest!]: "set_interest_key key i w = Inr w' \<Longrightarrow> \<exists>s. w' = w\<lparr>w_sel := s\<rparr>"
  by (auto simp: set_interest_key_eq)

lemma upd_client_Inr [simp]:
  "upd_client a f w = Inr w' \<longleftrightarrow> (\<exists>c. w_clients w a = Some c \<and> w' = put_client a (f c) w)"
  by (auto simp: upd_client_def bindr_Inr_iff)

lemma set_parser_Inr [simp]:
  "set_parser a u w = Inr w' \<longleftrightarrow> (\<exists>c. w_clients w a = Some c \<and> w' = put_client a (c\<lparr>c_parser := u\<rparr>) w)"
  by (simp add: set_parser_def)

lemma sys_send_cases:
  "sys_send env fd bs w = (n, w') \<Longrightarrow> (\<exists>x. w' = emit x w) \<or> (\<exists>e. w' = w\<lparr>w_errno := e\<rparr>)"
  by (auto simp: sys_send_def split: send_answer.splits)

lemma sys_recv_cases:
  "sys_recv env fd k w = (n, bs, w') \<Longrightarrow> (\<exists>x. w' = emit x w) \<or> (\<exists>e. w' = w\<lparr>w_errno := e\<rparr>)"
  by (auto simp: sys_recv_def split: recv_answer.splits)

section \<open>The states a callback returns\<close>

definition returns :: "nat \<Rightarrow> nat set \<Rightarrow> world \<Rightarrow> (nat \<times> world) res \<Rightarrow> bool" where
  "returns a R w r \<longleftrightarrow> (\<forall>ret w'. r = Inr (ret, w') \<longrightarrow> ret \<in> R \<and> keeps a w w')"

text \<open>The same for a callback's step that may return nothing yet.\<close>

definition may_return :: "nat \<Rightarrow> nat set \<Rightarrow> world \<Rightarrow> (nat option \<times> world) res \<Rightarrow> bool" where
  "may_return a R w r \<longleftrightarrow> (\<forall>ret w'. r = Inr (ret, w') \<longrightarrow> (\<forall>st. ret = Some st \<longrightarrow> st \<in> R) \<and> keeps a w w')"

lemma returns_fault [simp]: "returns a R w (Inl e)" "may_return a R w (Inl e)"
  by (simp_all add: returns_def may_return_def)

lemma returns_Inr: "returns a R w (Inr (st, w')) \<longleftrightarrow> st \<in> R \<and> keeps a w w'"
  "may_return a R w (Inr (ret, w')) \<longleftrightarrow> (\<forall>st. ret = Some st \<longrightarrow> st \<in> R) \<and> keeps a w w'"
  by (auto simp: returns_def may_return_def)

lemma hello_event_returns: "may_return a {HELLO_WRITE, ERROR} w (hello_event key a ev w)"
  unfolding hello_event_def may_return_def
  by (auto split: if_splits)

lemma returnsD: "returns a R w r \<Longrightarrow> r = Inr (ret, w') \<Longrightarrow> ret \<in> R \<and> keeps a w w'"
  by (simp add: returns_def)

lemma may_returnD: "may_return a R w r \<Longrightarrow> r = Inr (ret, w') \<Longrightarrow> (\<forall>st. ret = Some st \<longrightarrow> st \<in> R) \<and> keeps a w w'"
  by (simp add: may_return_def)

lemma hello_events_returns: "returns a {HELLO_READ, HELLO_WRITE, ERROR} w (hello_events key a evs w)"
proof (induction evs arbitrary: w)
  case (Cons ev evs)
  show ?case
    unfolding returns_def
    by (auto split: option.splits dest!: may_returnD [OF hello_event_returns] returnsD [OF Cons.IH] intro: keeps_trans)
qed (simp add: returns_Inr)

lemma hello_read_returns: "returns a {HELLO_READ, HELLO_WRITE, ERROR} w (hello_read env (fd, Some (ClientPtr a)) w)"
  unfolding hello_read_def returns_def
  by (auto simp: Let_def split: if_splits prod.splits dest!: sys_recv_cases returnsD [OF hello_events_returns]; simp add: keeps_def)

lemma hello_write_returns:
  "returns a {REQUEST_READ, AUTH_READ, ERROR} w (hello_write env (fd, Some (ClientPtr a)) w)"
  unfolding hello_write_def returns_def
  by (auto simp: Let_def split: if_splits prod.splits dest!: sys_send_cases)

lemma hello_write_open:
  "hello_write env (fd, Some (ClientPtr a)) w = Inr (REQUEST_READ, w') \<Longrightarrow>
     \<exists>c hp. w_clients w a = Some c \<and> c_parser c = P_hello hp \<and> hp_method_selected hp = 0"
  unfolding hello_write_def
  by (auto simp: Let_def hello_of_def HELLO_AUTH_NO_AUTH_def uint_0_iff split: if_splits prod.splits parser_union.splits)

lemma auth_event_returns: "may_return a {AUTH_WRITE, ERROR} w (auth_event key a ev w)"
  unfolding auth_event_def may_return_def
  by (auto simp: Let_def split: if_splits)

lemma auth_events_returns: "returns a {AUTH_READ, AUTH_WRITE, ERROR} w (auth_events key a evs w)"
proof (induction evs arbitrary: w)
  case (Cons ev evs)
  show ?case
    unfolding returns_def
    by (auto split: option.splits dest!: may_returnD [OF auth_event_returns] returnsD [OF Cons.IH] intro: keeps_trans)
qed (simp add: returns_Inr)

lemma auth_read_returns: "returns a {AUTH_READ, AUTH_WRITE, ERROR} w (auth_read env (fd, Some (ClientPtr a)) w)"
  unfolding auth_read_def returns_def
  by (auto simp: Let_def split: if_splits prod.splits dest!: sys_recv_cases returnsD [OF auth_events_returns]; simp add: keeps_def)

lemma auth_write_returns:
  "returns a {REQUEST_READ, ERROR} w (auth_write env (fd, Some (ClientPtr a)) w)"
  unfolding auth_write_def returns_def
  by (auto simp: Let_def split: if_splits prod.splits dest!: sys_send_cases)

lemma auth_write_open:
  "auth_write env (fd, Some (ClientPtr a)) w = Inr (REQUEST_READ, w') \<Longrightarrow>
     \<exists>c ap. w_clients w a = Some c \<and> c_parser c = P_auth ap \<and> ap_auth_status ap = AUTH_SUCCESS"
  unfolding auth_write_def
  by (auto simp: Let_def auth_of_def split: if_splits prod.splits parser_union.splits)

lemma upd_request_Inr [simp]:
  "upd_request a f w = Inr w' \<longleftrightarrow>
     (\<exists>c rp. w_clients w a = Some c \<and> request_of c = Inr rp \<and> w' = put_client a (c\<lparr>c_parser := P_request (f rp)\<rparr>) w)"
  by (auto simp: upd_request_def bindr_Inr_iff)

lemma set_err_Inr [simp]:
  "set_err a e w = Inr w' \<longleftrightarrow> (\<exists>c. w_clients w a = Some c \<and> w' = put_client a (c\<lparr>c_err := e\<rparr>) w)"
  by (simp add: set_err_def)

lemma setup_lookup_returns:
  "returns a {REQUEST_WRITE, DNS_LOOKUP} w (setup_lookup env (fd, Some (ClientPtr a)) name port w)"
  unfolding setup_lookup_def returns_def
  by (auto simp: Let_def split: if_splits)

lemma handle_request_fin_returns:
  "returns a {REQUEST_WRITE, DNS_LOOKUP, DEST_CONNECT, ERROR} w (handle_request_fin env (fd, Some (ClientPtr a)) rp w)"
  unfolding handle_request_fin_def start_connect_def returns_def
  by (auto split: if_splits dest!: returnsD [OF setup_lookup_returns] intro: keeps_trans)

lemma fin_events_returns:
  "may_return a {REQUEST_WRITE, DNS_LOOKUP, DEST_CONNECT, ERROR} w (fin_events env (fd, Some (ClientPtr a)) a evs w)"
proof (induction evs)
  case (Cons ev evs)
  then show ?case
    by (auto simp: may_return_def fail_request_def split: if_splits dest!: returnsD [OF handle_request_fin_returns])
qed (simp add: may_return_def)

lemma request_event_returns:
  "may_return a {REQUEST_WRITE, DNS_LOOKUP, DEST_CONNECT, ERROR} w (request_event env (fd, Some (ClientPtr a)) a ev w)"
  unfolding request_event_def may_return_def
  by (auto simp: refuse_def fail_request_def split: if_splits
      dest!: returnsD [OF handle_request_fin_returns] may_returnD [OF fin_events_returns];
      simp add: keeps_def)

lemma request_bytes_returns:
  "returns a {REQUEST_READ, REQUEST_WRITE, DNS_LOOKUP, DEST_CONNECT, ERROR} w
     (request_bytes env (fd, Some (ClientPtr a)) a bs w)"
proof (induction bs arbitrary: w)
  case (Cons b bs)
  show ?case
    unfolding returns_def
    by (auto split: option.splits dest!: may_returnD [OF request_event_returns] returnsD [OF Cons.IH];
        fastforce simp: keeps_def)
qed (simp add: returns_Inr)

lemma request_read_returns:
  "returns a {REQUEST_READ, REQUEST_WRITE, DNS_LOOKUP, DEST_CONNECT, ERROR} w
     (request_read env (fd, Some (ClientPtr a)) w)"
  unfolding request_read_def returns_def
  by (auto simp: Let_def split: if_splits prod.splits dest!: sys_recv_cases returnsD [OF request_bytes_returns])

lemma dns_lookup_returns:
  "returns a {DNS_LOOKUP, DEST_CONNECT, ERROR} w (dns_lookup env (fd, Some (ClientPtr a)) w)"
  unfolding dns_lookup_def returns_def
  by (auto simp: Let_def split: if_splits)

lemma connect_loop_returns:
  "may_return a {REQUEST_WRITE, DEST_CONNECT} w (connect_loop env key a addrs w)"
proof (induction addrs arbitrary: w)
  case (Cons addr rest)
  show ?case
    unfolding may_return_def
    by (auto simp: Let_def sys_close_def split: if_splits connect_answer.splits dest!: may_returnD [OF Cons.IH];
        simp add: keeps_def)
qed (simp add: returns_Inr)

lemma connect_next_returns:
  "returns a {REQUEST_WRITE, DEST_CONNECT, ERROR} w (connect_next env (fd, Some (ClientPtr a)) a addrs w)"
  unfolding connect_next_def returns_def
  by (auto split: option.splits dest!: may_returnD [OF connect_loop_returns]; fastforce simp: keeps_def)

lemma try_connect_returns:
  "returns a {REQUEST_WRITE, DEST_CONNECT, ERROR} w (try_connect env (fd, Some (ClientPtr a)) w)"
  unfolding try_connect_def returns_def
  by (auto simp: Let_def sys_close_def split: if_splits option.splits dest!: returnsD [OF connect_next_returns];
      simp add: keeps_def)

lemma destroy_keeps: "destroy_active_parser c = Inr c' \<Longrightarrow> c_stm c' = c_stm c"
  by (auto simp: destroy_active_parser_def split: parser_state_t.splits)

lemma request_write_returns:
  "returns a {DONE, FORWARDING, ERROR} w (request_write env (fd, Some (ClientPtr a)) w)"
  unfolding request_write_def returns_def
  by (auto simp: Let_def split: if_splits prod.splits dest!: sys_send_cases destroy_keeps)

lemma source_keeps [simp]: "c_stm (set_source_buffer d b c) = c_stm c"
  by (simp add: set_source_buffer_def)

lemma forward_write_returns:
  "returns a {FORWARDING, DONE, ERROR} w (forward_write env (fd, Some (ClientPtr a)) w)"
  unfolding forward_write_def returns_def
  by (auto simp: Let_def sys_shutdown_def split: if_splits prod.splits dest!: sys_send_cases)

lemma forward_read_returns:
  "returns a {FORWARDING, DONE, ERROR} w (forward_read env (fd, Some (ClientPtr a)) w)"
  unfolding forward_read_def returns_def
  by (auto simp: Let_def split: if_splits prod.splits dest!: sys_recv_cases)

section \<open>Arriving in a state\<close>

lemma end_connection_result:
  "end_connection env st (fd, Some (ClientPtr a)) w = Inr w' \<Longrightarrow> w_clients w' a = None \<or> w' = w"
  by (auto simp: end_connection_def free_client_def split: if_splits)

lemma error_handler_frees:
  assumes "error_handler env st (fd, Some (ClientPtr a)) w = Inr w'"
  shows "w_clients w' a = None"
  using assms
  by (auto simp: error_handler_def end_connection_def free_client_def Let_def can_read_iff split: if_splits)

lemma arrival_result:
  assumes run: "after_event env k ret (fd, Some (ClientPtr a)) a c w = Inr w'"
    and "w_clients w a = Some c" and st: "in_state c k" and "ret \<le> ERROR" and "w_clients w' a = Some c'"
  shows "in_state c' ret \<and> (ret \<noteq> k \<longrightarrow> ret \<noteq> ERROR)"
proof (cases "ret = k")
  case True
  then show ?thesis using assms by (simp add: after_event_def)
next
  case False
  let ?w = "put_client a (moved c ret) w" and ?k = "(fd, Some (ClientPtr a))"
  have m: "in_state (moved c ret) ret" using st assms(4) by (simp add: in_state_def)
  have "ret \<in> {HELLO_READ, HELLO_WRITE, AUTH_READ, AUTH_WRITE, REQUEST_READ, DNS_LOOKUP, DEST_CONNECT,
      REQUEST_WRITE, FORWARDING, DONE, ERROR}"
    using assms(4) unfolding client_state_defs insert_iff empty_iff by arith
  then consider (plain) "on_arrival (client_states env ! ret) = None" | (hello) "ret = HELLO_READ"
    | (auth) "ret = AUTH_READ" | (request) "ret = REQUEST_READ" | (forward) "ret = FORWARDING"
    | (finish) "ret = DONE" | (error) "ret = ERROR"
    by auto
  then show ?thesis
  proof cases
    case plain
    with run False have "w' = ?w" by (simp add: after_event_def)
    moreover from plain have "ret \<noteq> ERROR" by auto
    ultimately show ?thesis using m assms(5) by simp
  next
    case hello
    with run False have "hello_read_init env HELLO_READ ?k ?w = Inr w'" by (simp add: after_event_def)
    then show ?thesis using m assms(5) hello
      by (auto simp: hello_read_init_def in_state_def split: if_splits prod.splits dest!: error_handler_frees)
  next
    case auth
    with run False have "auth_read_init env AUTH_READ ?k ?w = Inr w'" by (simp add: after_event_simps)
    then show ?thesis using m assms(5) auth
      by (auto simp: auth_read_init_def in_state_def Let_def split: if_splits prod.splits
          dest!: error_handler_frees destroy_keeps)
  next
    case request
    with run False have "request_read_init env REQUEST_READ ?k ?w = Inr w'" by (simp add: after_event_simps)
    then show ?thesis using m assms(5) request
      by (auto simp: request_read_init_def in_state_def Let_def split: if_splits prod.splits
          dest!: error_handler_frees destroy_keeps)
  next
    case forward
    with run False have "forward_setup FORWARDING ?k ?w = Inr w'" by (simp add: after_event_simps)
    then have "w_clients w' a = Some (moved c ret)" by (auto simp: forward_setup_def)
    then show ?thesis using m assms(5) forward by simp
  next
    case finish
    with run False have "end_connection env DONE ?k ?w = Inr w'" by (simp add: after_event_simps)
    from end_connection_result [OF this] show ?thesis using m assms(5) finish by auto
  next
    case error
    with run False have "error_handler env ERROR ?k ?w = Inr w'" by (simp add: after_event_simps)
    from error_handler_frees [OF this] assms(5) show ?thesis by simp
  qed
qed

section \<open>The transitions of a client\<close>

text \<open>An event on a client's descriptor.\<close>

definition client_step :: "env \<Rightarrow> int \<Rightarrow> nat \<Rightarrow> world \<Rightarrow> world \<Rightarrow> bool" where
  "client_step env fd a w w' \<longleftrightarrow>
     handle_read_client env (fd, Some (ClientPtr a)) w = Inr w' \<or>
     handle_write_client env (fd, Some (ClientPtr a)) w = Inr w'"

lemma client_step_ready:
  assumes "client_step env fd a w w'" and w: "w_clients w a = Some c" and st: "in_state c k"
    and w': "w_clients w' a = Some c'"
  shows "\<exists>f ret w2.
    (on_read_ready (client_states env ! k) = Some f \<or> on_write_ready (client_states env ! k) = Some f) \<and>
    f (fd, Some (ClientPtr a)) w = Inr (ret, w2) \<and>
    (\<forall>R. returns a R w (f (fd, Some (ClientPtr a)) w) \<longrightarrow> R \<subseteq> {..ERROR} \<longrightarrow>
           ret \<in> R \<and> in_state c' ret \<and> (ret \<noteq> k \<longrightarrow> ret \<noteq> ERROR))"
    (is "?goal")
proof -
  let ?k = "(fd, Some (ClientPtr a))"
  have main: ?goal if ready: "ready = on_read_ready \<or> ready = on_write_ready"
    and run: "bindr (stm_event ready (client_machine a) (set_client_machine a) (client_states env) ?k w)
      (\<lambda>(_, w'). Inr w') = Inr w'" for ready
  proof -
    obtain f where f: "ready (client_states env ! k) = Some f"
      using client_event_abort [OF w st, of ready env ?k] run by (cases "ready (client_states env ! k)") auto
    obtain ret w2 where r: "f ?k w = Inr (ret, w2)"
      using client_event_fault [where ready = ready and f = f and key = ?k, OF w st f] run by (cases "f ?k w") auto
    have "ret \<in> R \<and> in_state c' ret \<and> (ret \<noteq> k \<longrightarrow> ret \<noteq> ERROR)"
      if R: "returns a R w (f ?k w)" "R \<subseteq> {..ERROR}" for R
    proof -
      from R(1) r have ret: "ret \<in> R" and keep: "keeps a w w2" by (auto simp: returns_def)
      from keep w obtain c2 where c2: "w_clients w2 a = Some c2" "c_stm c2 = c_stm c" by (auto simp: keeps_def)
      have le: "ret \<le> ERROR" using ret R(2) by auto
      have "after_event env k ret ?k a c2 w2 = Inr w'"
        using client_event [where ready = ready and f = f and key = ?k, OF w st f r le c2] run by simp
      moreover have "in_state c2 k" using st c2 by (simp add: in_state_def)
      ultimately show ?thesis using arrival_result c2(1) le w' ret by blast
    qed
    then show ?goal using f r ready by blast
  qed
  from assms(1) consider (rd) "handle_read_client env ?k w = Inr w'" | (wr) "handle_write_client env ?k w = Inr w'"
    unfolding client_step_def by blast
  then show ?goal
  proof cases
    case rd
    from main [of on_read_ready, OF _ rd [unfolded handle_read_event]] show ?thesis by simp
  next
    case wr
    from main [of on_write_ready, OF _ wr [unfolded handle_write_event]] show ?thesis by simp
  qed
qed

fun successors :: "nat \<Rightarrow> nat set" where
  "successors k =
     (if k = HELLO_READ then {HELLO_WRITE}
      else if k = HELLO_WRITE then {AUTH_READ, REQUEST_READ}
      else if k = AUTH_READ then {AUTH_WRITE}
      else if k = AUTH_WRITE then {REQUEST_READ}
      else if k = REQUEST_READ then {DNS_LOOKUP, DEST_CONNECT, REQUEST_WRITE}
      else if k = DNS_LOOKUP then {DEST_CONNECT}
      else if k = DEST_CONNECT then {REQUEST_WRITE}
      else if k = REQUEST_WRITE then {FORWARDING, DONE}
      else if k = FORWARDING then {DONE}
      else {})"

text \<open>
  C11. Whatever the operating system answers, an event leaves a client where it is, moves it along
  the protocol (greeting, authentication, request, name resolution, connection, reply, relay,
  end), or frees it: a client object never comes to rest in \<^verbatim>\<open>ERROR\<close>, and never goes back.
\<close>

theorem client_follows_protocol:
  assumes "client_step env fd a w w'" and "w_clients w a = Some c" and "in_state c k"
    and "w_clients w' a = Some c'"
  shows "\<exists>k'. in_state c' k' \<and> (k' = k \<or> k' \<in> successors k)"
proof -
  obtain f ret w2 where f: "on_read_ready (client_states env ! k) = Some f \<or> on_write_ready (client_states env ! k) = Some f"
    and res: "\<forall>R. returns a R w (f (fd, Some (ClientPtr a)) w) \<longrightarrow> R \<subseteq> {..ERROR} \<longrightarrow>
        ret \<in> R \<and> in_state c' ret \<and> (ret \<noteq> k \<longrightarrow> ret \<noteq> ERROR)"
    using client_step_ready [OF assms] by blast
  have "k \<le> ERROR" using assms(3) by (simp add: in_state_def)
  then have "k \<in> {HELLO_READ, HELLO_WRITE, AUTH_READ, AUTH_WRITE, REQUEST_READ, DNS_LOOKUP, DEST_CONNECT,
      REQUEST_WRITE, FORWARDING, DONE, ERROR}"
    unfolding client_state_defs insert_iff empty_iff by arith
  then show ?thesis
    using f res hello_read_returns hello_write_returns auth_read_returns auth_write_returns
      request_read_returns dns_lookup_returns try_connect_returns request_write_returns
      forward_read_returns forward_write_returns
    by (elim insertE emptyE) (fastforce)+
qed


definition sample_logged_in :: client_t where
  "sample_logged_in = sample_client AUTH_WRITE (-1) AUTH_PARSER (P_auth (zero_auth\<lparr>ap_auth_status := AUTH_SUCCESS\<rparr>))"

lemma sample_step_opens:
  obtains w w' c' where "client_step ((sample_env [])\<lparr>e_send := \<lambda>_ _. Takes 2\<rparr>) 4 0 w w'"
    and "w_clients w 0 = Some sample_logged_in" and "in_state sample_logged_in AUTH_WRITE"
    and "w_clients w' 0 = Some c'" and "in_state c' REQUEST_READ"
proof -
  let ?env = "(sample_env [])\<lparr>e_send := \<lambda>_ _. Takes 2\<rparr>"
  have "parser_tag_ok sample_logged_in" by (simp add: sample_logged_in_def parser_tag_ok_def)
  then obtain s where l: "linked (sample_world s [] sample_logged_in) 0 sample_logged_in"
    using sample_linked [of AUTH_WRITE "-1" AUTH_PARSER "P_auth (zero_auth\<lparr>ap_auth_status := AUTH_SUCCESS\<rparr>)" "[]"]
    by (auto simp: sample_logged_in_def AUTH_WRITE_def)
  have st: "in_state sample_logged_in AUTH_WRITE"
    by (simp add: sample_logged_in_def in_state_def client_state_defs)
  obtain c' w' where "handle_write_client ?env (4, Some (ClientPtr 0)) (sample_world s [] sample_logged_in) =
      Inr (put_client 0 c' w')" "request_entered (put_client 0 c' w') 0 c'"
    using auth_reply(1) [OF l st, of "zero_auth\<lparr>ap_auth_status := AUTH_SUCCESS\<rparr>" ?env 4 2]
    by (auto simp: sample_logged_in_def)
  then show ?thesis
    using that [of "sample_world s [] sample_logged_in" "put_client 0 c' w'" c'] st
    by (simp add: client_step_def request_entered_def)
qed

theorem client_follows_protocol_witness:
  "\<exists>env w w' c' k'. client_step env 4 0 w w' \<and> w_clients w' 0 = Some c' \<and> in_state c' k' \<and>
     (k' = AUTH_WRITE \<or> k' \<in> successors AUTH_WRITE)"
proof -
  obtain w w' c' where "client_step ((sample_env [])\<lparr>e_send := \<lambda>_ _. Takes 2\<rparr>) 4 0 w w'"
    "w_clients w 0 = Some sample_logged_in" "in_state sample_logged_in AUTH_WRITE" "w_clients w' 0 = Some c'"
    by (rule sample_step_opens)
  from this client_follows_protocol [OF this] show ?thesis by blast
qed


end
