(* ===== verification/Request_Parsing.thy ===== *)
theory Request_Parsing
  imports Gate
begin

text \<open>
  What \<^verbatim>\<open>request_read\<close> makes of a request: a reference parser for the request of RFC 1928 as this
  server reads it, and the proof that the table, the event switch and the fields of the parser
  struct compute it, for every input and however it is cut into segments.
\<close>

section \<open>The reference parser\<close>

datatype request_reading =
    MoreNeeded
  | Refused byte
  | BadType
  | ConnectTo addrinfo
  | Resolve "byte list" "16 word"
  | Overruns

definition port_of :: "byte \<Rightarrow> byte \<Rightarrow> 16 word" where
  "port_of hi lo = push_bit 8 (ucast hi) OR ucast lo"

text \<open>An address of \<open>n\<close> bytes and a port; what follows them is not looked at.\<close>

definition address_port :: "nat \<Rightarrow> (byte list \<Rightarrow> 16 word \<Rightarrow> request_reading) \<Rightarrow> byte list \<Rightarrow> request_reading" where
  "address_port n mk bs =
     (if length bs < n + 2 then MoreNeeded else mk (take n bs) (port_of (bs ! n) (bs ! (n + 1))))"

text \<open>
  A domain name. A length of zero is not a length to the server: it takes the next byte. A name of
  255 bytes is one too long for its array.
\<close>

definition domain_port :: "byte list \<Rightarrow> request_reading" where
  "domain_port bs =
     (case dropWhile (\<lambda>b. b = 0) bs of
        [] \<Rightarrow> MoreNeeded
      | n # rest \<Rightarrow>
          if n = 255 then (if length rest < 255 then MoreNeeded else Overruns)
          else address_port (unat n) (\<lambda>name port. Resolve (cstr name) port) rest)"

fun request_verdict :: "byte list \<Rightarrow> request_reading" where
  "request_verdict [] = MoreNeeded"
| "request_verdict [v] = (if v \<noteq> 5 then Refused 1 else MoreNeeded)"
| "request_verdict [v, cmd] = (if v \<noteq> 5 then Refused 1 else if cmd \<noteq> 1 then Refused 7 else MoreNeeded)"
| "request_verdict [v, cmd, rsv] = (if v \<noteq> 5 then Refused 1 else if cmd \<noteq> 1 then Refused 7 else MoreNeeded)"
| "request_verdict (v # cmd # rsv # atyp # bs) =
     (if v \<noteq> 5 then Refused 1
      else if cmd \<noteq> 1 then Refused 7
      else if atyp = 1 then
        address_port 4 (\<lambda>host port. ConnectTo \<lparr>ai_family = AF_INET, ai_host = host, ai_port = port\<rparr>) bs
      else if atyp = 4 then
        address_port 16 (\<lambda>host port. ConnectTo \<lparr>ai_family = AF_INET6, ai_host = host, ai_port = port\<rparr>) bs
      else if atyp = 3 then domain_port bs
      else BadType)"

text \<open>The outcome of reading \<open>bs\<close>, for each verdict on them.\<close>

definition request_outcome :: "env \<Rightarrow> int \<Rightarrow> nat \<Rightarrow> client_t \<Rightarrow> world \<Rightarrow> request_reading \<Rightarrow> (nat \<times> world) res \<Rightarrow> bool" where
  "request_outcome env fd a c w v r \<longleftrightarrow>
     (let s1 = upd_interest (w_sel w) fd OP_WRITE; w1 = w\<lparr>w_sel := s1\<rparr> in
      case v of
        MoreNeeded \<Rightarrow> (\<exists>rp. r = Inr (REQUEST_READ, put_client a (c\<lparr>c_parser := P_request rp\<rparr>) w))
      | Refused s \<Rightarrow> (\<exists>rp. rp_reply_status rp = s \<and>
          r = Inr (REQUEST_WRITE, put_client a (c\<lparr>c_parser := P_request rp\<rparr>) w1))
      | BadType \<Rightarrow> (\<exists>rp. r = Inr (ERROR, put_client a (c\<lparr>c_parser := P_request rp, c_err := 1\<rparr>) w1))
      | ConnectTo ai \<Rightarrow> (\<exists>rp. r = Inr (DEST_CONNECT, put_client a (c\<lparr>c_parser := P_request rp,
          c_dest_addr := [ai], c_dest_addr_base := [ai], c_dest_addr_from_gai := False\<rparr>) w1))
      | Resolve name port \<Rightarrow>
          (\<exists>rp. if e_gai_start env then
             r = Inr (DNS_LOOKUP, put_client a (c\<lparr>c_parser := P_request rp,
               c_dns_req := Some \<lparr>ar_name = Some name, ar_service = decimal (unat port)\<rparr>\<rparr>) w1)
           else rp_reply_status rp = SOCKS_REPLY_HOST_UNREACHABLE \<and>
             r = Inr (REQUEST_WRITE, put_client a (c\<lparr>c_dns_req := None, c_parser := P_request rp\<rparr>)
               (w\<lparr>w_sel := upd_interest s1 fd OP_WRITE\<rparr>)))
      | Overruns \<Rightarrow> r = Inl OutOfBounds)"

section \<open>One byte\<close>

text \<open>
  The world while the request is read differs from the world \<open>w\<close> of the event in the parser of the
  client only.
\<close>

definition holding :: "nat \<Rightarrow> client_t \<Rightarrow> world \<Rightarrow> request_parser_t \<Rightarrow> world" where
  "holding a c w rp = put_client a (c\<lparr>c_parser := P_request rp\<rparr>) w"

lemma holding_simps [simp]:
  "w_clients (holding a c w rp) a = Some (c\<lparr>c_parser := P_request rp\<rparr>)" "w_sel (holding a c w rp) = w_sel w"
  "put_client a (c\<lparr>c_parser := P_request rp'\<rparr>) (holding a c w rp) = holding a c w rp'"
  "put_client a (c\<lparr>c_parser := P_request rp', c_err := e\<rparr>) (holding a c w rp) =
     put_client a (c\<lparr>c_parser := P_request rp', c_err := e\<rparr>) w"
  by (simp_all add: holding_def)

lemma holding_same: "w_clients w a = Some c \<Longrightarrow> c_parser c = P_request rp \<Longrightarrow> holding a c w rp = w"
  by (simp add: holding_def put_client_def fun_upd_idem)

definition rp_at :: "request_parser_t \<Rightarrow> nat \<Rightarrow> bool" where
  "rp_at rp st \<longleftrightarrow> (\<exists>p. rp_p rp = Some p \<and> parser_ok request_parser_def p \<and> p_state p = st)"

text \<open>Nothing of the address or the port was stored yet.\<close>

definition blank :: "request_parser_t \<Rightarrow> bool" where
  "blank rp \<longleftrightarrow> rp_addr rp = filled [] MAX_ADDR_SIZE \<and> rp_addr_read rp = 0 \<and> rp_addr_len rp = 0 \<and> rp_port_read rp = 0"

text \<open>Reading \<open>xs\<close> changes the parser struct from \<open>rp\<close> to \<open>rp'\<close> and asks for more.\<close>

definition advances :: "env \<Rightarrow> int \<Rightarrow> nat \<Rightarrow> client_t \<Rightarrow> world \<Rightarrow> request_parser_t \<Rightarrow> byte list \<Rightarrow> request_parser_t \<Rightarrow> bool" where
  "advances env fd a c w rp xs rp' \<longleftrightarrow>
     (\<forall>bs. request_bytes env (fd, Some (ClientPtr a)) a (xs @ bs) (holding a c w rp) =
           request_bytes env (fd, Some (ClientPtr a)) a bs (holding a c w rp'))"

lemma advances_refl [simp]: "advances env fd a c w rp [] rp"
  by (simp add: advances_def)

lemma advances_trans: "advances env fd a c w rp xs rp1 \<Longrightarrow> advances env fd a c w rp1 ys rp2 \<Longrightarrow>
    advances env fd a c w rp (xs @ ys) rp2"
  by (simp add: advances_def)

lemma advances_Cons: "advances env fd a c w rp [x] rp1 \<Longrightarrow> advances env fd a c w rp1 ys rp2 \<Longrightarrow>
    advances env fd a c w rp (x # ys) rp2"
  using advances_trans [of env fd a c w rp "[x]" rp1 ys rp2] by simp

lemma advancesD: "advances env fd a c w rp xs rp' \<Longrightarrow>
    request_bytes env (fd, Some (ClientPtr a)) a (xs @ bs) (holding a c w rp) =
    request_bytes env (fd, Some (ClientPtr a)) a bs (holding a c w rp')"
  by (simp add: advances_def)

lemma request_feed:
  assumes "parser_ok request_parser_def p"
  shows "p_state p = REQUEST_STATE_VER \<Longrightarrow> parser_feed p b = Inr (stepped p b REQUEST_STATE_VER REQUEST_STATE_CMD)"
    and "p_state p = REQUEST_STATE_CMD \<Longrightarrow> parser_feed p b = Inr (stepped p b REQUEST_STATE_CMD REQUEST_STATE_RSV)"
    and "p_state p = REQUEST_STATE_RSV \<Longrightarrow> parser_feed p b = Inr (stepped p b REQUEST_STATE_RSV REQUEST_STATE_ATYP)"
    and "p_state p = REQUEST_STATE_DSTADDR_IPV4 \<Longrightarrow>
      parser_feed p b = Inr (stepped p b REQUEST_STATE_DSTADDR_IPV4 REQUEST_STATE_DSTADDR_IPV4)"
    and "p_state p = REQUEST_STATE_DSTADDR_IPV6 \<Longrightarrow>
      parser_feed p b = Inr (stepped p b REQUEST_STATE_DSTADDR_IPV6 REQUEST_STATE_DSTADDR_IPV6)"
    and "p_state p = REQUEST_STATE_DSTADDR_DOMAINNAME \<Longrightarrow>
      parser_feed p b = Inr (stepped p b REQUEST_STATE_DSTADDR_DOMAINNAME REQUEST_STATE_DSTADDR_DOMAINNAME)"
    and "p_state p = REQUEST_STATE_DSTPORT \<Longrightarrow> parser_feed p b = Inr (stepped p b REQUEST_STATE_DSTPORT REQUEST_STATE_DSTPORT)"
  by (rule feed_row [OF assms]; simp add: request_table_defs)+

lemma stepped_ok:
  assumes "parser_ok request_parser_def p" and "st < 10"
  shows "parser_ok request_parser_def (stepped p b ty st)"
  using parser_ok_stepped [of request_parser_def p st b ty] assms by (simp add: request_parser_def_def)

text \<open>The loop body: feed one byte, then run the switch on its event.\<close>

lemma request_bytes_step:
  assumes "rp_p rp = Some p" and "parser_feed p b = Inr p'"
  shows "request_bytes env key a (b # bs) (holding a c w rp) =
    bindr (request_event env key a (p_e1 p') (holding a c w (rp\<lparr>rp_p := Some p'\<rparr>))) (\<lambda>(ret, w2).
      case ret of Some st \<Rightarrow> Inr (st, w2) | None \<Rightarrow> request_bytes env key a bs w2)"
  using assms by simp

lemma refused_outcome:
  assumes "r = Inr (REQUEST_WRITE, put_client a (c\<lparr>c_parser := P_request (rp\<lparr>rp_reply_status := s\<rparr>)\<rparr>)
      (w\<lparr>w_sel := upd_interest (w_sel w) fd OP_WRITE\<rparr>))"
  shows "request_outcome env fd a c w (Refused s) r"
  unfolding request_outcome_def Let_def request_reading.case
  using assms by (intro exI [of _ "rp\<lparr>rp_reply_status := s\<rparr>"]) simp

lemma refuse_run:
  assumes "selector_ok (w_sel w)"
  shows "refuse (fd, Some (ClientPtr a)) a s (holding a c w rp) =
    Inr (Some REQUEST_WRITE, put_client a (c\<lparr>c_parser := P_request (rp\<lparr>rp_reply_status := s\<rparr>)\<rparr>)
      (w\<lparr>w_sel := upd_interest (w_sel w) fd OP_WRITE\<rparr>))"
  using assms by (simp add: refuse_def holding_def interest_simps upd_request_def)

text \<open>An event that lets the loop go on, and one that ends it.\<close>

lemma advances_byte:
  assumes "rp_p rp = Some p" and "parser_feed p b = Inr p'"
    and "request_event env (fd, Some (ClientPtr a)) a (p_e1 p') (holding a c w (rp\<lparr>rp_p := Some p'\<rparr>)) = Inr (None, holding a c w rp')"
  shows "advances env fd a c w rp [b] rp'"
  unfolding advances_def append.simps request_bytes_step [OF assms(1,2)] assms(3) by simp

lemma ends_byte:
  assumes "rp_p rp = Some p" and "parser_feed p b = Inr p'"
    and "request_event env (fd, Some (ClientPtr a)) a (p_e1 p') (holding a c w (rp\<lparr>rp_p := Some p'\<rparr>)) = Inr (Some st, w')"
  shows "request_bytes env (fd, Some (ClientPtr a)) a (b # bs) (holding a c w rp) = Inr (st, w')"
  unfolding request_bytes_step [OF assms(1,2)] assms(3) by simp

lemma step_ver:
  assumes ok: "selector_ok (w_sel w)" and at: "rp_at rp REQUEST_STATE_VER"
  shows "b = 5 \<Longrightarrow> \<exists>rp'. advances env fd a c w rp [b] rp' \<and> rp_at rp' REQUEST_STATE_CMD \<and> blank rp' = blank rp"
    and "b \<noteq> 5 \<Longrightarrow> request_outcome env fd a c w (Refused 1)
      (request_bytes env (fd, Some (ClientPtr a)) a (b # bs) (holding a c w rp))"
proof -
  from at obtain p where p: "rp_p rp = Some p" "parser_ok request_parser_def p" "p_state p = REQUEST_STATE_VER"
    by (auto simp: rp_at_def)
  let ?p = "stepped p b REQUEST_STATE_VER REQUEST_STATE_CMD"
  note feed = request_feed(1) [OF p(2,3), of b] and ev = request_event_def stepped_data [OF p(2)] request_consts socks_consts
  show "\<exists>rp'. advances env fd a c w rp [b] rp' \<and> rp_at rp' REQUEST_STATE_CMD \<and> blank rp' = blank rp" if "b = 5"
  proof (intro exI conjI)
    show "advances env fd a c w rp [b] (rp\<lparr>rp_p := Some ?p\<rparr>)"
      using that by (intro advances_byte [OF p(1) feed]) (simp add: ev)
  qed (use stepped_ok [OF p(2)] in \<open>simp_all add: rp_at_def blank_def request_consts\<close>)
  show "request_outcome env fd a c w (Refused 1)
      (request_bytes env (fd, Some (ClientPtr a)) a (b # bs) (holding a c w rp))" if "b \<noteq> 5"
    using that refuse_run [OF ok] by (intro refused_outcome ends_byte [OF p(1) feed]) (simp add: ev)
qed

lemma step_cmd:
  assumes ok: "selector_ok (w_sel w)" and at: "rp_at rp REQUEST_STATE_CMD"
  shows "b = 1 \<Longrightarrow> \<exists>rp'. advances env fd a c w rp [b] rp' \<and> rp_at rp' REQUEST_STATE_RSV \<and> blank rp' = blank rp"
    and "b \<noteq> 1 \<Longrightarrow> request_outcome env fd a c w (Refused 7)
      (request_bytes env (fd, Some (ClientPtr a)) a (b # bs) (holding a c w rp))"
proof -
  from at obtain p where p: "rp_p rp = Some p" "parser_ok request_parser_def p" "p_state p = REQUEST_STATE_CMD"
    by (auto simp: rp_at_def)
  let ?p = "stepped p b REQUEST_STATE_CMD REQUEST_STATE_RSV"
  note feed = request_feed(2) [OF p(2,3), of b] and ev = request_event_def stepped_data [OF p(2)] request_consts socks_consts
  show "\<exists>rp'. advances env fd a c w rp [b] rp' \<and> rp_at rp' REQUEST_STATE_RSV \<and> blank rp' = blank rp" if "b = 1"
  proof (intro exI conjI)
    show "advances env fd a c w rp [b] (rp\<lparr>rp_p := Some ?p, rp_cmd := b\<rparr>)"
      using that by (intro advances_byte [OF p(1) feed]) (simp add: ev)
  qed (use stepped_ok [OF p(2)] in \<open>simp_all add: rp_at_def blank_def request_consts\<close>)
  show "request_outcome env fd a c w (Refused 7)
      (request_bytes env (fd, Some (ClientPtr a)) a (b # bs) (holding a c w rp))" if "b \<noteq> 1"
    using that refuse_run [OF ok] by (intro refused_outcome ends_byte [OF p(1) feed]) (simp add: ev)
qed

lemma step_rsv:
  assumes at: "rp_at rp REQUEST_STATE_RSV"
  shows "\<exists>rp'. advances env fd a c w rp [b] rp' \<and> rp_at rp' REQUEST_STATE_ATYP \<and> blank rp' = blank rp"
proof -
  from at obtain p where p: "rp_p rp = Some p" "parser_ok request_parser_def p" "p_state p = REQUEST_STATE_RSV"
    by (auto simp: rp_at_def)
  let ?p = "stepped p b REQUEST_STATE_RSV REQUEST_STATE_ATYP"
  note feed = request_feed(3) [OF p(2,3), of b] and ev = request_event_def stepped_data [OF p(2)] request_consts socks_consts
  show ?thesis
  proof (intro exI conjI)
    show "advances env fd a c w rp [b] (rp\<lparr>rp_p := Some ?p\<rparr>)"
      by (intro advances_byte [OF p(1) feed]) (simp add: ev)
  qed (use stepped_ok [OF p(2)] in \<open>simp_all add: rp_at_def blank_def request_consts\<close>)
qed

text \<open>The only row with a choice.\<close>

lemma feed_atyp:
  assumes "parser_ok request_parser_def p" and "p_state p = REQUEST_STATE_ATYP"
  shows "b \<in> {1, 3, 4} \<Longrightarrow> \<exists>p'. parser_feed p b = Inr p' \<and> parser_ok request_parser_def p' \<and>
      p_state p' = (if b = 1 then REQUEST_STATE_DSTADDR_IPV4 else if b = 4 then REQUEST_STATE_DSTADDR_IPV6
        else REQUEST_STATE_DSTADDR_DOMAINNAME) \<and>
      ev_type (p_e1 p') = REQUEST_STATE_ATYP \<and> arr_get (ev_data (p_e1 p')) 0 = Inr b"
    and "b \<notin> {1, 3, 4} \<Longrightarrow> \<exists>p' d. parser_feed p b = Inr p' \<and> ev_type (p_e1 p') = REQUEST_STATE_ERROR \<and>
      arr_get (ev_data (p_e1 p')) 0 = Inr d"
proof -
  obtain t act p' where t: "next_transition request_parser_def (p_state p) b = Some t" "tr_act1 t = Some act"
    and p': "parser_feed p b = Inr p'" "parser_ok request_parser_def p'" "p_state p' = tr_dest t"
      "p_e1 p' = act ((p_e1 p)\<lparr>ev_next := False\<rparr>) b"
    using request_table.feed_total [OF assms(1), of b] by blast
  have len: "length (ev_data (p_e1 p)) = 3" using assms(1) by (simp add: parser_ok_def)
  have uint: "uint b = 1 \<longleftrightarrow> b = 1" "uint b = 3 \<longleftrightarrow> b = 3" "uint b = 4 \<longleftrightarrow> b = 4"
    by (simp_all add: word_uint_eq_iff)
  note row = next_transition_def transition_matches_def ANY_def request_table_defs socks_consts uint
  show "\<exists>p'. parser_feed p b = Inr p' \<and> parser_ok request_parser_def p' \<and>
      p_state p' = (if b = 1 then REQUEST_STATE_DSTADDR_IPV4 else if b = 4 then REQUEST_STATE_DSTADDR_IPV6
        else REQUEST_STATE_DSTADDR_DOMAINNAME) \<and>
      ev_type (p_e1 p') = REQUEST_STATE_ATYP \<and> arr_get (ev_data (p_e1 p')) 0 = Inr b" if "b \<in> {1, 3, 4}"
    using that t p' assms(2) len by (intro exI [of _ p']) (auto simp: row split: if_splits)
  show "\<exists>p' d. parser_feed p b = Inr p' \<and> ev_type (p_e1 p') = REQUEST_STATE_ERROR \<and>
      arr_get (ev_data (p_e1 p')) 0 = Inr d" if "b \<notin> {1, 3, 4}"
    using that t p' assms(2) len by (intro exI [of _ p'] exI [of _ "ev_data (p_e1 p) ! 0"]) (auto simp: row split: if_splits)
qed

lemma step_atyp:
  assumes ok: "selector_ok (w_sel w)" and at: "rp_at rp REQUEST_STATE_ATYP"
  shows "b \<in> {1, 3, 4} \<Longrightarrow> \<exists>rp'. advances env fd a c w rp [b] rp' \<and> blank rp' = blank rp \<and> rp_atyp rp' = b \<and>
      rp_at rp' (if b = 1 then REQUEST_STATE_DSTADDR_IPV4 else if b = 4 then REQUEST_STATE_DSTADDR_IPV6
        else REQUEST_STATE_DSTADDR_DOMAINNAME)"
    and "b \<notin> {1, 3, 4} \<Longrightarrow> request_outcome env fd a c w BadType
      (request_bytes env (fd, Some (ClientPtr a)) a (b # bs) (holding a c w rp))"
proof -
  from at obtain p where p: "rp_p rp = Some p" "parser_ok request_parser_def p" "p_state p = REQUEST_STATE_ATYP"
    by (auto simp: rp_at_def)
  note ev = request_event_def request_consts socks_consts
  show "\<exists>rp'. advances env fd a c w rp [b] rp' \<and> blank rp' = blank rp \<and> rp_atyp rp' = b \<and>
      rp_at rp' (if b = 1 then REQUEST_STATE_DSTADDR_IPV4 else if b = 4 then REQUEST_STATE_DSTADDR_IPV6
        else REQUEST_STATE_DSTADDR_DOMAINNAME)" if b: "b \<in> {1, 3, 4}"
  proof -
    obtain p' where p': "parser_feed p b = Inr p'" "parser_ok request_parser_def p'"
      "p_state p' = (if b = 1 then REQUEST_STATE_DSTADDR_IPV4 else if b = 4 then REQUEST_STATE_DSTADDR_IPV6
        else REQUEST_STATE_DSTADDR_DOMAINNAME)"
      "ev_type (p_e1 p') = REQUEST_STATE_ATYP" "arr_get (ev_data (p_e1 p')) 0 = Inr b"
      using feed_atyp(1) [OF p(2,3) b] by auto
    have "advances env fd a c w rp [b] (rp\<lparr>rp_p := Some p', rp_atyp := b\<rparr>)"
      using b p'(4,5) by (intro advances_byte [OF p(1) p'(1)]) (auto simp: ev)
    then show ?thesis
      using p'(2,3) by (intro exI [of _ "rp\<lparr>rp_p := Some p', rp_atyp := b\<rparr>"]) (simp add: rp_at_def blank_def)
  qed
  show "request_outcome env fd a c w BadType
      (request_bytes env (fd, Some (ClientPtr a)) a (b # bs) (holding a c w rp))" if b: "b \<notin> {1, 3, 4}"
  proof -
    obtain p' d where p': "parser_feed p b = Inr p'" "ev_type (p_e1 p') = REQUEST_STATE_ERROR" "arr_get (ev_data (p_e1 p')) 0 = Inr d"
      using feed_atyp(2) [OF p(2,3) b] by auto
    have "request_bytes env (fd, Some (ClientPtr a)) a (b # bs) (holding a c w rp) =
        Inr (ERROR, put_client a (c\<lparr>c_parser := P_request (rp\<lparr>rp_p := Some p'\<rparr>), c_err := 1\<rparr>)
          (w\<lparr>w_sel := upd_interest (w_sel w) fd OP_WRITE\<rparr>))"
      using p'(2,3) ok by (intro ends_byte [OF p(1) p'(1)]) (simp add: ev fail_request_def interest_simps holding_def set_err_def)
    then show ?thesis by (auto simp: request_outcome_def Let_def)
  qed
qed

section \<open>The address\<close>

text \<open>
  \<open>xs\<close> of the \<open>n\<close> bytes of the address are stored; \<open>keep\<close> is what the loop over them leaves alone.
\<close>

definition address_read :: "request_parser_t \<Rightarrow> byte list \<Rightarrow> byte \<Rightarrow> byte \<Rightarrow> bool" where
  "address_read rp xs atyp len \<longleftrightarrow> rp_addr rp = filled xs MAX_ADDR_SIZE \<and> unat (rp_addr_read rp) = length xs \<and>
     rp_port_read rp = 0 \<and> rp_atyp rp = atyp \<and> rp_addr_len rp = len"

text \<open>What one byte does for each of the three address types is what the run over them needs.\<close>

lemma address_run:
  assumes step: "\<And>rp xs b. rp_at rp st \<Longrightarrow> address_read rp xs atyp len \<Longrightarrow> length xs < m \<Longrightarrow>
      \<exists>rp'. advances env fd a c w rp [b] rp' \<and> address_read rp' (xs @ [b]) atyp len \<and>
        rp_at rp' (if length xs + 1 = n then REQUEST_STATE_DSTPORT else st) \<and>
        (length xs + 1 = n \<longrightarrow> R (xs @ [b]) rp')"
    and "rp_at rp st" and "address_read rp xs atyp len" and "length xs + length ys \<le> m" and "length xs < n" and "m \<le> n"
  shows "\<exists>rp'. advances env fd a c w rp ys rp' \<and> address_read rp' (xs @ ys) atyp len \<and>
      rp_at rp' (if length xs + length ys = n then REQUEST_STATE_DSTPORT else st) \<and>
      (length xs + length ys = n \<longrightarrow> R (xs @ ys) rp')"
  using assms(2-5)
proof (induction ys arbitrary: rp xs)
  case Nil
  then show ?case by (intro exI [of _ rp]) simp
next
  case (Cons b ys)
  obtain rp1 where rp1: "advances env fd a c w rp [b] rp1" "address_read rp1 (xs @ [b]) atyp len"
      "rp_at rp1 (if length xs + 1 = n then REQUEST_STATE_DSTPORT else st)" "length xs + 1 = n \<longrightarrow> R (xs @ [b]) rp1"
    using step [OF Cons.prems(1,2)] Cons.prems(3) by fastforce
  show ?case
  proof (cases "length xs + 1 = n")
    case True
    then have "ys = []" using Cons.prems(3) assms(6) by (cases ys) simp_all
    then show ?thesis using rp1 True by (intro exI [of _ rp1]) simp
  next
    case False
    obtain rp' where "advances env fd a c w rp1 ys rp' \<and> address_read rp' ((xs @ [b]) @ ys) atyp len \<and>
        rp_at rp' (if length (xs @ [b]) + length ys = n then REQUEST_STATE_DSTPORT else st) \<and>
        (length (xs @ [b]) + length ys = n \<longrightarrow> R ((xs @ [b]) @ ys) rp')"
      using Cons.IH [of rp1 "xs @ [b]"] False rp1 Cons.prems(3,4) by auto
    then show ?thesis using advances_Cons [OF rp1(1), of ys rp'] by (intro exI [of _ rp']) simp
  qed
qed

lemma store_addr_filled:
  assumes "rp_addr rp = filled xs MAX_ADDR_SIZE" and "unat (rp_addr_read rp) = length xs" and "length xs < 255"
  shows "store_addr rp b = Inr (rp\<lparr>rp_addr := filled (xs @ [b]) MAX_ADDR_SIZE, rp_addr_read := rp_addr_read rp + 1\<rparr>)"
    and "unat (rp_addr_read rp + 1) = length xs + 1"
proof -
  show "store_addr rp b = Inr (rp\<lparr>rp_addr := filled (xs @ [b]) MAX_ADDR_SIZE, rp_addr_read := rp_addr_read rp + 1\<rparr>)"
    using assms filled_store [of xs MAX_ADDR_SIZE b] by (simp add: store_addr_def MAX_ADDR_SIZE_def)
  show "unat (rp_addr_read rp + 1) = length xs + 1"
    using assms(2,3) unat_byte_Suc [of "rp_addr_read rp" 255] by simp
qed

lemma filled_nul:
  "length xs = n \<Longrightarrow> n < MAX_ADDR_SIZE \<Longrightarrow> arr_set (filled xs MAX_ADDR_SIZE) n 0 = Inr (filled xs MAX_ADDR_SIZE)"
  using filled_terminate [of xs MAX_ADDR_SIZE] by auto

lemma take_filled [simp]: "length xs = n \<Longrightarrow> take n (filled xs m) = xs"
  by (simp add: filled_def)

lemma rp_at_goto:
  assumes "parser_ok request_parser_def p" and "st < 10" and "st' < 10"
    and "rp_p rp = Some (if full then parser_set_state (stepped p b ty st) st' else stepped p b ty st)"
  shows "rp_at rp (if full then st' else st)"
  using assms stepped_ok [OF assms(1,2), of b ty] parser_ok_set_state [of request_parser_def "stepped p b ty st" st']
  by (auto simp: rp_at_def request_parser_def_def)

lemma step_ipv4:
  assumes at: "rp_at rp REQUEST_STATE_DSTADDR_IPV4" and st: "address_read rp xs atyp len" and lt: "length xs < 4"
  shows "\<exists>rp'. advances env fd a c w rp [b] rp' \<and> address_read rp' (xs @ [b]) atyp len \<and>
    rp_at rp' (if length xs + 1 = 4 then REQUEST_STATE_DSTPORT else REQUEST_STATE_DSTADDR_IPV4) \<and>
    (length xs + 1 = 4 \<longrightarrow> rp_ipv4 rp' = xs @ [b])"
proof -
  from at obtain p where p: "rp_p rp = Some p" "parser_ok request_parser_def p" "p_state p = REQUEST_STATE_DSTADDR_IPV4"
    by (auto simp: rp_at_def)
  let ?p = "stepped p b REQUEST_STATE_DSTADDR_IPV4 REQUEST_STATE_DSTADDR_IPV4"
  let ?rp = "rp\<lparr>rp_p := Some ?p\<rparr>"
  define rp1 where "rp1 = ?rp\<lparr>rp_addr := filled (xs @ [b]) MAX_ADDR_SIZE, rp_addr_read := rp_addr_read rp + 1\<rparr>"
  define rp' where "rp' = (if length xs + 1 = 4
      then rp1\<lparr>rp_ipv4 := xs @ [b], rp_addr := filled (xs @ [b]) MAX_ADDR_SIZE, rp_p := Some (parser_set_state ?p REQUEST_STATE_DSTPORT)\<rparr>
      else rp1)"
  have s: "store_addr ?rp b = Inr rp1" "unat (rp_addr_read rp1) = length xs + 1" "rp_addr rp1 = filled (xs @ [b]) MAX_ADDR_SIZE"
    "rp_p rp1 = Some ?p"
    using store_addr_filled(1) [of ?rp xs b] store_addr_filled(2) [of ?rp xs] st lt by (simp_all add: address_read_def rp1_def)
  have "advances env fd a c w rp [b] rp'"
  proof (rule advances_byte [OF p(1) request_feed(4) [OF p(2,3)]])
    show "request_event env (fd, Some (ClientPtr a)) a (p_e1 ?p) (holding a c w ?rp) = Inr (None, holding a c w rp')"
      using s st lt filled_nul [of "xs @ [b]" 4]
      by (simp add: request_event_def stepped_data [OF p(2)] request_consts IPV4_LEN_def MAX_ADDR_SIZE_def address_read_def rp'_def rp_goto_def)
  qed
  moreover have "rp_at rp' (if length xs + 1 = 4 then REQUEST_STATE_DSTPORT else REQUEST_STATE_DSTADDR_IPV4)"
    using s by (intro rp_at_goto [where b = b and ty = REQUEST_STATE_DSTADDR_IPV4, OF p(2)]) (simp_all add: rp'_def request_consts)
  moreover have "address_read rp' (xs @ [b]) atyp len" using st s by (simp add: address_read_def rp'_def rp1_def)
  ultimately show ?thesis by (intro exI [of _ rp']) (simp add: rp'_def)
qed

lemma step_ipv6:
  assumes at: "rp_at rp REQUEST_STATE_DSTADDR_IPV6" and st: "address_read rp xs atyp len" and lt: "length xs < 16"
  shows "\<exists>rp'. advances env fd a c w rp [b] rp' \<and> address_read rp' (xs @ [b]) atyp len \<and>
    rp_at rp' (if length xs + 1 = 16 then REQUEST_STATE_DSTPORT else REQUEST_STATE_DSTADDR_IPV6) \<and>
    (length xs + 1 = 16 \<longrightarrow> rp_ipv6 rp' = xs @ [b])"
proof -
  from at obtain p where p: "rp_p rp = Some p" "parser_ok request_parser_def p" "p_state p = REQUEST_STATE_DSTADDR_IPV6"
    by (auto simp: rp_at_def)
  let ?p = "stepped p b REQUEST_STATE_DSTADDR_IPV6 REQUEST_STATE_DSTADDR_IPV6"
  let ?rp = "rp\<lparr>rp_p := Some ?p\<rparr>"
  define rp1 where "rp1 = ?rp\<lparr>rp_addr := filled (xs @ [b]) MAX_ADDR_SIZE, rp_addr_read := rp_addr_read rp + 1\<rparr>"
  define rp' where "rp' = (if length xs + 1 = 16
      then rp1\<lparr>rp_ipv6 := xs @ [b], rp_p := Some (parser_set_state ?p REQUEST_STATE_DSTPORT)\<rparr> else rp1)"
  have s: "store_addr ?rp b = Inr rp1" "unat (rp_addr_read rp1) = length xs + 1" "rp_addr rp1 = filled (xs @ [b]) MAX_ADDR_SIZE"
    "rp_p rp1 = Some ?p"
    using store_addr_filled(1) [of ?rp xs b] store_addr_filled(2) [of ?rp xs] st lt by (simp_all add: address_read_def rp1_def)
  have "advances env fd a c w rp [b] rp'"
  proof (rule advances_byte [OF p(1) request_feed(5) [OF p(2,3)]])
    show "request_event env (fd, Some (ClientPtr a)) a (p_e1 ?p) (holding a c w ?rp) = Inr (None, holding a c w rp')"
      using s st lt
      by (simp add: request_event_def stepped_data [OF p(2)] request_consts IPV6_LEN_def address_read_def rp'_def rp_goto_def)
  qed
  moreover have "rp_at rp' (if length xs + 1 = 16 then REQUEST_STATE_DSTPORT else REQUEST_STATE_DSTADDR_IPV6)"
    using s by (intro rp_at_goto [where b = b and ty = REQUEST_STATE_DSTADDR_IPV6, OF p(2)]) (simp_all add: rp'_def request_consts)
  moreover have "address_read rp' (xs @ [b]) atyp len" using st s by (simp add: address_read_def rp'_def rp1_def)
  ultimately show ?thesis by (intro exI [of _ rp']) (simp add: rp'_def)
qed

lemma step_domain:
  assumes at: "rp_at rp REQUEST_STATE_DSTADDR_DOMAINNAME" and st: "address_read rp xs atyp len"
    and lt: "length xs < unat len"
  shows "length xs + 1 < MAX_ADDR_SIZE \<Longrightarrow> \<exists>rp'. advances env fd a c w rp [b] rp' \<and> address_read rp' (xs @ [b]) atyp len \<and>
    rp_at rp' (if length xs + 1 = unat len then REQUEST_STATE_DSTPORT else REQUEST_STATE_DSTADDR_DOMAINNAME)"
    and "length xs = 254 \<Longrightarrow> request_bytes env (fd, Some (ClientPtr a)) a (b # bs) (holding a c w rp) = Inl OutOfBounds"
proof -
  from at obtain p where p: "rp_p rp = Some p" "parser_ok request_parser_def p" "p_state p = REQUEST_STATE_DSTADDR_DOMAINNAME"
    by (auto simp: rp_at_def)
  let ?p = "stepped p b REQUEST_STATE_DSTADDR_DOMAINNAME REQUEST_STATE_DSTADDR_DOMAINNAME"
  let ?rp = "rp\<lparr>rp_p := Some ?p\<rparr>"
  define rp1 where "rp1 = ?rp\<lparr>rp_addr := filled (xs @ [b]) MAX_ADDR_SIZE, rp_addr_read := rp_addr_read rp + 1\<rparr>"
  note feed = request_feed(6) [OF p(2,3)]
  have len: "len \<noteq> 0" "rp_addr_len ?rp = len" "rp_addr_read ?rp < len" "length xs < 255"
    using st lt unat_byte_le [of len] by (auto simp: address_read_def word_less_nat_alt)
  have s: "store_addr ?rp b = Inr rp1" "unat (rp_addr_read rp1) = length xs + 1" "rp_addr rp1 = filled (xs @ [b]) MAX_ADDR_SIZE"
    "rp_p rp1 = Some ?p" "rp_addr_len rp1 = len"
    using store_addr_filled(1) [of ?rp xs b] store_addr_filled(2) [of ?rp xs] st len
    by (simp_all add: address_read_def rp1_def)
  have full: "len = rp_addr_read rp1 \<longleftrightarrow> length xs + 1 = unat len" using s(2) by (auto simp: byte_eq_iff_unat)
  have ev: "request_event env (fd, Some (ClientPtr a)) a (p_e1 ?p) (holding a c w ?rp) =
      bindr (if length xs + 1 = unat len then
               bindr (arr_set (filled (xs @ [b]) MAX_ADDR_SIZE) (length xs + 1) 0) (\<lambda>arr.
                 rp_goto (rp1\<lparr>rp_addr := arr\<rparr>) REQUEST_STATE_DSTPORT)
             else Inr rp1) (\<lambda>rp2. Inr (None, holding a c w rp2))"
    using s len full by (simp add: request_event_def stepped_data [OF p(2)] request_consts bindr_def split: sum.splits)
  show "\<exists>rp'. advances env fd a c w rp [b] rp' \<and> address_read rp' (xs @ [b]) atyp len \<and>
    rp_at rp' (if length xs + 1 = unat len then REQUEST_STATE_DSTPORT else REQUEST_STATE_DSTADDR_DOMAINNAME)"
    if fits: "length xs + 1 < MAX_ADDR_SIZE"
  proof -
    define rp' where "rp' = (if length xs + 1 = unat len
        then rp1\<lparr>rp_addr := filled (xs @ [b]) MAX_ADDR_SIZE, rp_p := Some (parser_set_state ?p REQUEST_STATE_DSTPORT)\<rparr> else rp1)"
    have "advances env fd a c w rp [b] rp'"
      using s fits filled_nul [of "xs @ [b]" "unat len"]
      by (intro advances_byte [OF p(1) feed]) (cases "length xs + 1 = unat len"; simp add: ev rp'_def rp_goto_def)
    moreover have "rp_at rp' (if length xs + 1 = unat len then REQUEST_STATE_DSTPORT else REQUEST_STATE_DSTADDR_DOMAINNAME)"
      using s by (intro rp_at_goto [where b = b and ty = REQUEST_STATE_DSTADDR_DOMAINNAME, OF p(2)]) (simp_all add: rp'_def request_consts)
    moreover have "address_read rp' (xs @ [b]) atyp len" using st s by (simp add: address_read_def rp'_def rp1_def)
    ultimately show ?thesis by (intro exI [of _ rp']) simp
  qed
  show "request_bytes env (fd, Some (ClientPtr a)) a (b # bs) (holding a c w rp) = Inl OutOfBounds" if "length xs = 254"
  proof -
    have "unat len = 255" using that lt unat_byte_le [of len] by simp
    then show ?thesis
      using that unfolding request_bytes_step [OF p(1) feed] ev by (simp add: MAX_ADDR_SIZE_def)
  qed
qed

section \<open>The port\<close>

text \<open>The last byte of a request: the parser is moved to its final state and fed a zero.\<close>

lemma feed_fin:
  assumes "parser_ok request_parser_def p" and "p_state p = REQUEST_STATE_FIN"
  shows "\<exists>p'. parser_feed p b = Inr p' \<and> parser_events p' = [p_e1 p'] \<and> ev_type (p_e1 p') = REQUEST_STATE_FIN"
proof -
  obtain t act p' where t: "next_transition request_parser_def (p_state p) b = Some t" "tr_act1 t = Some act"
    and p': "parser_feed p b = Inr p'" "parser_events p' = [p_e1 p']" "p_e1 p' = act ((p_e1 p)\<lparr>ev_next := False\<rparr>) b"
    using request_table.feed_total [OF assms(1), of b] by blast
  then show ?thesis
    using assms(2) by (intro exI [of _ p'])
      (auto simp: next_transition_def transition_matches_def ANY_def request_table_defs split: if_splits)
qed

lemma port_run:
  assumes at: "rp_at rp REQUEST_STATE_DSTPORT" and st: "address_read rp xs atyp len"
  shows "\<exists>rp'. request_bytes env (fd, Some (ClientPtr a)) a [hi] (holding a c w rp) = Inr (REQUEST_READ, holding a c w rp')"
    and "\<exists>rp'. request_bytes env (fd, Some (ClientPtr a)) a (hi # lo # rest) (holding a c w rp) =
        handle_request_fin env (fd, Some (ClientPtr a)) rp' (holding a c w rp') \<and>
      rp_port rp' = port_of hi lo \<and> rp_atyp rp' = atyp \<and> rp_addr rp' = filled xs MAX_ADDR_SIZE \<and>
      rp_ipv4 rp' = rp_ipv4 rp \<and> rp_ipv6 rp' = rp_ipv6 rp"
proof -
  from at obtain p where p: "rp_p rp = Some p" "parser_ok request_parser_def p" "p_state p = REQUEST_STATE_DSTPORT"
    by (auto simp: rp_at_def)
  let ?p1 = "stepped p hi REQUEST_STATE_DSTPORT REQUEST_STATE_DSTPORT"
  let ?p2 = "stepped ?p1 lo REQUEST_STATE_DSTPORT REQUEST_STATE_DSTPORT"
  have p1: "parser_ok request_parser_def ?p1" "p_state ?p1 = REQUEST_STATE_DSTPORT"
    using stepped_ok [OF p(2), of REQUEST_STATE_DSTPORT] by (simp_all add: request_consts)
  have p2: "parser_ok request_parser_def (parser_set_state ?p2 REQUEST_STATE_FIN)"
    using stepped_ok [OF p1(1), of REQUEST_STATE_DSTPORT] by (intro parser_ok_set_state) (simp_all add: request_consts request_parser_def_def)
  define rp1 where "rp1 = rp\<lparr>rp_p := Some ?p1, rp_port := push_bit 8 (ucast hi), rp_port_read := 1\<rparr>"
  have one: "advances env fd a c w rp [hi] rp1"
    using st by (intro advances_byte [OF p(1) request_feed(7) [OF p(2,3)]])
      (simp add: request_event_def stepped_data [OF p(2)] request_consts address_read_def rp1_def)
  then show "\<exists>rp'. request_bytes env (fd, Some (ClientPtr a)) a [hi] (holding a c w rp) = Inr (REQUEST_READ, holding a c w rp')"
    using advancesD [OF one, of "[]"] by auto
  obtain p3 where p3: "parser_feed (parser_set_state ?p2 REQUEST_STATE_FIN) 0 = Inr p3"
    "parser_events p3 = [p_e1 p3]" "ev_type (p_e1 p3) = REQUEST_STATE_FIN"
    using feed_fin [OF p2] by auto
  define rp2 where "rp2 = rp1\<lparr>rp_port := port_of hi lo, rp_port_read := 2, rp_p := Some p3\<rparr>"
  have "request_event env (fd, Some (ClientPtr a)) a (p_e1 ?p2) (holding a c w (rp1\<lparr>rp_p := Some ?p2\<rparr>)) =
      bindr (handle_request_fin env (fd, Some (ClientPtr a)) rp2 (holding a c w rp2)) (\<lambda>(st, w1). Inr (Some st, w1))"
    using p3 by (simp add: request_event_def stepped_data [OF p1(1) [unfolded request_consts]] request_consts rp1_def rp_goto_def rp2_def port_of_def)
  moreover have "rp_p rp1 = Some ?p1" by (simp add: rp1_def)
  ultimately have "request_bytes env (fd, Some (ClientPtr a)) a (lo # rest) (holding a c w rp1) =
      handle_request_fin env (fd, Some (ClientPtr a)) rp2 (holding a c w rp2)"
    using request_bytes_step [OF _ request_feed(7) [OF p1], of rp1] by (simp add: bindr_def split: sum.splits prod.splits)
  then show "\<exists>rp'. request_bytes env (fd, Some (ClientPtr a)) a (hi # lo # rest) (holding a c w rp) =
        handle_request_fin env (fd, Some (ClientPtr a)) rp' (holding a c w rp') \<and>
      rp_port rp' = port_of hi lo \<and> rp_atyp rp' = atyp \<and> rp_addr rp' = filled xs MAX_ADDR_SIZE \<and>
      rp_ipv4 rp' = rp_ipv4 rp \<and> rp_ipv6 rp' = rp_ipv6 rp"
    using advancesD [OF one, of "lo # rest"] st
    by (intro exI [of _ rp2]) (simp add: rp2_def rp1_def address_read_def)
qed

section \<open>The whole request\<close>

lemma more_outcome:
  "r = Inr (REQUEST_READ, holding a c w rp) \<Longrightarrow> request_outcome env fd a c w MoreNeeded r"
  by (auto simp: request_outcome_def holding_def)

lemma split_port:
  assumes "n + 2 \<le> length bs"
  shows "bs = take n bs @ bs ! n # bs ! (n + 1) # drop (n + 2) bs"
  using assms by (simp add: id_take_nth_drop [symmetric] Cons_nth_drop_Suc)

lemma address_port_outcome:
  assumes step: "\<And>rp xs b. rp_at rp st \<Longrightarrow> address_read rp xs atyp len \<Longrightarrow> length xs < n \<Longrightarrow>
      \<exists>rp'. advances env fd a c w rp [b] rp' \<and> address_read rp' (xs @ [b]) atyp len \<and>
        rp_at rp' (if length xs + 1 = n then REQUEST_STATE_DSTPORT else st) \<and>
        (length xs + 1 = n \<longrightarrow> R (xs @ [b]) rp')"
    and at: "rp_at rp st" "address_read rp [] atyp len" "0 < n"
    and stable: "\<And>xs rp rp'. rp_ipv4 rp' = rp_ipv4 rp \<Longrightarrow> rp_ipv6 rp' = rp_ipv6 rp \<Longrightarrow> R xs rp \<Longrightarrow> R xs rp'"
    and fin: "\<And>rp xs. length xs = n \<Longrightarrow> rp_atyp rp = atyp \<Longrightarrow> rp_addr rp = filled xs MAX_ADDR_SIZE \<Longrightarrow> R xs rp \<Longrightarrow>
      request_outcome env fd a c w (mk xs (rp_port rp)) (handle_request_fin env (fd, Some (ClientPtr a)) rp (holding a c w rp))"
  shows "request_outcome env fd a c w (address_port n mk bs)
    (request_bytes env (fd, Some (ClientPtr a)) a bs (holding a c w rp))"
proof -
  have "length (take n bs) \<le> n" by simp
  with address_run [of st atyp len n env fd a c w n R, OF step at(1,2), of "take n bs"] at(3)
  obtain rp1 where rp1: "advances env fd a c w rp (take n bs) rp1" "address_read rp1 (take n bs) atyp len"
    and full: "n \<le> length bs \<Longrightarrow> rp_at rp1 REQUEST_STATE_DSTPORT" "n \<le> length bs \<Longrightarrow> R (take n bs) rp1"
    by (auto split: if_splits simp: min_def)
  consider "length bs \<le> n" | "length bs = n + 1" | "n + 2 \<le> length bs" by linarith
  then show ?thesis
  proof cases
    case 1
    then show ?thesis
      using advancesD [OF rp1(1), of "[]"] by (simp add: address_port_def) (rule more_outcome, simp)
  next
    case 2
    then have bs: "bs = take n bs @ [bs ! n]" by (metis Suc_eq_plus1 lessI take_Suc_conv_app_nth take_all_iff le_refl)
    have "n \<le> length bs" using 2 by simp
    from port_run(1) [OF full(1) [OF this] rp1(2)] obtain rp2 where
      "request_bytes env (fd, Some (ClientPtr a)) a [bs ! n] (holding a c w rp1) = Inr (REQUEST_READ, holding a c w rp2)"
      by blast
    then have "request_bytes env (fd, Some (ClientPtr a)) a bs (holding a c w rp) = Inr (REQUEST_READ, holding a c w rp2)"
      using advancesD [OF rp1(1), of "[bs ! n]"] bs by (simp del: request_bytes.simps)
    then show ?thesis using 2 by (simp add: address_port_def del: request_bytes.simps) (rule more_outcome, simp)
  next
    case 3
    then have n: "n \<le> length bs" by simp
    obtain rp2 where rp2: "request_bytes env (fd, Some (ClientPtr a)) a (bs ! n # bs ! (n + 1) # drop (n + 2) bs) (holding a c w rp1) =
        handle_request_fin env (fd, Some (ClientPtr a)) rp2 (holding a c w rp2)"
      "rp_port rp2 = port_of (bs ! n) (bs ! (n + 1))" "rp_atyp rp2 = atyp" "rp_addr rp2 = filled (take n bs) MAX_ADDR_SIZE"
      "rp_ipv4 rp2 = rp_ipv4 rp1" "rp_ipv6 rp2 = rp_ipv6 rp1"
      using port_run(2) [OF full(1) [OF n] rp1(2)] by blast
    have "request_outcome env fd a c w (mk (take n bs) (rp_port rp2))
        (handle_request_fin env (fd, Some (ClientPtr a)) rp2 (holding a c w rp2))"
      using n by (intro fin stable [OF rp2(5,6)] rp2(3,4) full(2)) simp_all
    moreover have "request_bytes env (fd, Some (ClientPtr a)) a bs (holding a c w rp) =
        handle_request_fin env (fd, Some (ClientPtr a)) rp2 (holding a c w rp2)"
      using advancesD [OF rp1(1), of "bs ! n # bs ! (n + 1) # drop (n + 2) bs"] rp2(1) split_port [OF 3, symmetric]
      by (simp del: request_bytes.simps)
    ultimately show ?thesis using 3 rp2(2) by (simp add: address_port_def del: request_bytes.simps)
  qed
qed

definition no_alloc_fails :: "env \<Rightarrow> bool" where
  "no_alloc_fails env \<longleftrightarrow> (\<forall>s. e_alloc env s)"

lemma connect_outcome:
  assumes "no_alloc_fails env" and "selector_ok (w_sel w)" and "c_dns_req c = None"
  shows "rp_atyp rp = 1 \<Longrightarrow> rp_ipv4 rp = xs \<Longrightarrow>
      request_outcome env fd a c w (ConnectTo \<lparr>ai_family = AF_INET, ai_host = xs, ai_port = rp_port rp\<rparr>)
        (handle_request_fin env (fd, Some (ClientPtr a)) rp (holding a c w rp))"
    and "rp_atyp rp = 4 \<Longrightarrow> rp_ipv6 rp = xs \<Longrightarrow>
      request_outcome env fd a c w (ConnectTo \<lparr>ai_family = AF_INET6, ai_host = xs, ai_port = rp_port rp\<rparr>)
        (handle_request_fin env (fd, Some (ClientPtr a)) rp (holding a c w rp))"
  using assms
  by (auto simp: handle_request_fin_def start_connect_def socks_consts no_alloc_fails_def interest_simps holding_def
      request_outcome_def Let_def)

lemma resolve_outcome:
  assumes "no_alloc_fails env" and "selector_ok (w_sel w)"
    and "rp_atyp rp = 3" and "rp_addr rp = filled name MAX_ADDR_SIZE" and "length name < MAX_ADDR_SIZE"
  shows "request_outcome env fd a c w (Resolve (cstr name) (rp_port rp))
    (handle_request_fin env (fd, Some (ClientPtr a)) rp (holding a c w rp))"
proof -
  let ?w1 = "w\<lparr>w_sel := upd_interest (w_sel w) fd OP_WRITE\<rparr>"
  have sel: "selector_ok (upd_interest (w_sel w) fd OP_WRITE)" using set_interest_ok(2) [OF assms(2)] .
  note run = handle_request_fin_def setup_lookup_def socks_consts no_alloc_fails_def interest_simps holding_def
      request_outcome_def Let_def upd_request_def
  have alloc: "e_alloc env s" for s using assms(1) by (simp add: no_alloc_fails_def)
  show ?thesis
  proof (cases "e_gai_start env")
    case True
    then show ?thesis using alloc assms(2-) sel cstr_filled [OF assms(5)]
      by (simp add: run) blast
  next
    case False
    then show ?thesis using alloc assms(2-) sel cstr_filled [OF assms(5)]
      by (simp add: run) (rule exI [of _ "rp\<lparr>rp_reply_status := 4\<rparr>"], simp)
  qed
qed

lemma address_read_blank: "blank rp \<Longrightarrow> address_read rp [] (rp_atyp rp) 0"
  by (simp add: blank_def address_read_def)

text \<open>Zero bytes where the length of the name is expected are skipped.\<close>

lemma step_length:
  assumes at: "rp_at rp REQUEST_STATE_DSTADDR_DOMAINNAME" and st: "address_read rp [] atyp 0"
  shows "\<exists>rp'. advances env fd a c w rp [b] rp' \<and> address_read rp' [] atyp b \<and> rp_at rp' REQUEST_STATE_DSTADDR_DOMAINNAME"
proof -
  from at obtain p where p: "rp_p rp = Some p" "parser_ok request_parser_def p" "p_state p = REQUEST_STATE_DSTADDR_DOMAINNAME"
    by (auto simp: rp_at_def)
  let ?p = "stepped p b REQUEST_STATE_DSTADDR_DOMAINNAME REQUEST_STATE_DSTADDR_DOMAINNAME"
  let ?rp = "rp\<lparr>rp_p := Some ?p, rp_addr_len := b\<rparr>"
  have "advances env fd a c w rp [b] ?rp"
    using st by (intro advances_byte [OF p(1) request_feed(6) [OF p(2,3)]])
      (simp add: request_event_def stepped_data [OF p(2)] request_consts address_read_def)
  moreover have "rp_at ?rp REQUEST_STATE_DSTADDR_DOMAINNAME"
    using stepped_ok [OF p(2)] by (simp add: rp_at_def request_consts)
  ultimately show ?thesis using st by (intro exI [of _ ?rp]) (simp add: address_read_def)
qed

lemma overrun_outcome:
  assumes at: "rp_at rp REQUEST_STATE_DSTADDR_DOMAINNAME" and st: "address_read rp [] atyp 255"
  shows "request_outcome env fd a c w (if length bs < 255 then MoreNeeded else Overruns)
    (request_bytes env (fd, Some (ClientPtr a)) a bs (holding a c w rp))"
proof -
  have "min (length bs) 254 \<noteq> 255" by simp
  then obtain rp1 where rp1: "advances env fd a c w rp (take 254 bs) rp1" "address_read rp1 (take 254 bs) atyp 255"
    "rp_at rp1 REQUEST_STATE_DSTADDR_DOMAINNAME"
    using address_run [where env = env and fd = fd and a = a and c = c and w = w and R = "\<lambda>_ _. True" and n = 255 and m = 254 and st = REQUEST_STATE_DSTADDR_DOMAINNAME and ys = "take 254 bs", OF _ at st]
      step_domain(1) [where len = 255] by (auto simp: MAX_ADDR_SIZE_def)
  show ?thesis
  proof (cases "length bs < 255")
    case True
    then show ?thesis using advancesD [OF rp1(1), of "[]"] by simp (rule more_outcome, simp)
  next
    case False
    then have bs: "bs = take 254 bs @ bs ! 254 # drop 255 bs" using id_take_nth_drop [of 254 bs] by simp
    have "request_bytes env (fd, Some (ClientPtr a)) a (bs ! 254 # drop 255 bs) (holding a c w rp1) = Inl OutOfBounds"
      using False by (intro step_domain(2) [OF rp1(3,2)]) simp_all
    then show ?thesis
      using False advancesD [OF rp1(1), of "bs ! 254 # drop 255 bs"] bs
      by (simp add: request_outcome_def del: request_bytes.simps)
  qed
qed

lemma domain_outcome:
  assumes ok: "no_alloc_fails env" "selector_ok (w_sel w)"
  shows "rp_at rp REQUEST_STATE_DSTADDR_DOMAINNAME \<Longrightarrow> address_read rp [] 3 0 \<Longrightarrow>
    request_outcome env fd a c w (domain_port bs) (request_bytes env (fd, Some (ClientPtr a)) a bs (holding a c w rp))"
proof (induction bs arbitrary: rp)
  case Nil
  show ?case by (simp add: domain_port_def) (rule more_outcome, simp)
next
  case (Cons b bs)
  obtain rp1 where rp1: "advances env fd a c w rp [b] rp1" "address_read rp1 [] 3 b" "rp_at rp1 REQUEST_STATE_DSTADDR_DOMAINNAME"
    using step_length [OF Cons.prems] by blast
  have run: "request_bytes env (fd, Some (ClientPtr a)) a (b # bs) (holding a c w rp) =
      request_bytes env (fd, Some (ClientPtr a)) a bs (holding a c w rp1)"
    using advancesD [OF rp1(1), of bs] by simp
  consider "b = 0" | "b = 255" | "b \<noteq> 0" "unat b < 255"
    using unat_byte_le [of b] byte_eq_iff_unat [of b 255] by fastforce
  then show ?case
  proof cases
    case 1
    then show ?thesis using Cons.IH [of rp1] rp1 unfolding run by (simp add: domain_port_def)
  next
    case 2
    have "request_outcome env fd a c w (if length bs < 255 then MoreNeeded else Overruns)
        (request_bytes env (fd, Some (ClientPtr a)) a bs (holding a c w rp1))"
      using rp1 2 by (intro overrun_outcome) simp_all
    then show ?thesis using 2 unfolding run by (simp add: domain_port_def)
  next
    case 3
    have "request_outcome env fd a c w (address_port (unat b) (\<lambda>name port. Resolve (cstr name) port) bs)
        (request_bytes env (fd, Some (ClientPtr a)) a bs (holding a c w rp1))"
    proof (rule address_port_outcome [where R = "\<lambda>_ _. True" and atyp = 3 and len = b, OF _ rp1(3,2)])
      show "0 < unat b" using 3(1) by (simp add: unat_gt_0)
    next
      fix rp xs b' assume "rp_at rp REQUEST_STATE_DSTADDR_DOMAINNAME" "address_read rp xs 3 b" "length xs < unat b"
      then show "\<exists>rp'. advances env fd a c w rp [b'] rp' \<and> address_read rp' (xs @ [b']) 3 b \<and>
          rp_at rp' (if length xs + 1 = unat b then REQUEST_STATE_DSTPORT else REQUEST_STATE_DSTADDR_DOMAINNAME) \<and>
          (length xs + 1 = unat b \<longrightarrow> True)"
        using step_domain(1) [of rp xs 3 b env fd a c w b'] 3(2) by (simp add: MAX_ADDR_SIZE_def)
    next
      fix rp :: request_parser_t and xs assume "length xs = unat b" "rp_atyp rp = 3" "rp_addr rp = filled xs MAX_ADDR_SIZE"
      then show "request_outcome env fd a c w (Resolve (cstr xs) (rp_port rp))
          (handle_request_fin env (fd, Some (ClientPtr a)) rp (holding a c w rp))"
        using resolve_outcome [OF ok] 3(2) by (simp add: MAX_ADDR_SIZE_def)
    qed simp
    then show ?thesis using 3 byte_eq_iff_unat [of b 255] unfolding run by (auto simp: domain_port_def)
  qed
qed

lemma ip_outcome:
  assumes ok: "no_alloc_fails env" "selector_ok (w_sel w)" "c_dns_req c = None"
  shows "rp_at rp REQUEST_STATE_DSTADDR_IPV4 \<Longrightarrow> address_read rp [] 1 0 \<Longrightarrow> request_outcome env fd a c w
      (address_port 4 (\<lambda>host port. ConnectTo \<lparr>ai_family = AF_INET, ai_host = host, ai_port = port\<rparr>) bs)
      (request_bytes env (fd, Some (ClientPtr a)) a bs (holding a c w rp))"
    and "rp_at rp REQUEST_STATE_DSTADDR_IPV6 \<Longrightarrow> address_read rp [] 4 0 \<Longrightarrow> request_outcome env fd a c w
      (address_port 16 (\<lambda>host port. ConnectTo \<lparr>ai_family = AF_INET6, ai_host = host, ai_port = port\<rparr>) bs)
      (request_bytes env (fd, Some (ClientPtr a)) a bs (holding a c w rp))"
proof -
  show "request_outcome env fd a c w
      (address_port 4 (\<lambda>host port. ConnectTo \<lparr>ai_family = AF_INET, ai_host = host, ai_port = port\<rparr>) bs)
      (request_bytes env (fd, Some (ClientPtr a)) a bs (holding a c w rp))"
    if at: "rp_at rp REQUEST_STATE_DSTADDR_IPV4" "address_read rp [] 1 0"
    by (rule address_port_outcome [where R = "\<lambda>xs rp. rp_ipv4 rp = xs", OF step_ipv4 at])
      (use connect_outcome(1) [OF ok] in auto)
  show "request_outcome env fd a c w
      (address_port 16 (\<lambda>host port. ConnectTo \<lparr>ai_family = AF_INET6, ai_host = host, ai_port = port\<rparr>) bs)
      (request_bytes env (fd, Some (ClientPtr a)) a bs (holding a c w rp))"
    if at: "rp_at rp REQUEST_STATE_DSTADDR_IPV6" "address_read rp [] 4 0"
    by (rule address_port_outcome [where R = "\<lambda>xs rp. rp_ipv6 rp = xs", OF step_ipv6 at])
      (use connect_outcome(2) [OF ok] in auto)
qed

lemma after_atyp:
  assumes ok: "no_alloc_fails env" "selector_ok (w_sel w)" "c_dns_req c = None"
    and at: "rp_at rp REQUEST_STATE_ATYP" "blank rp"
  shows "request_outcome env fd a c w (request_verdict (5 # 1 # rsv # atyp # bs))
    (request_bytes env (fd, Some (ClientPtr a)) a (atyp # bs) (holding a c w rp))"
proof (cases "atyp \<in> {1, 3, 4}")
  case True
  obtain rp1 where rp1: "advances env fd a c w rp [atyp] rp1" "blank rp1" "rp_atyp rp1 = atyp"
    "rp_at rp1 (if atyp = 1 then REQUEST_STATE_DSTADDR_IPV4 else if atyp = 4 then REQUEST_STATE_DSTADDR_IPV6
        else REQUEST_STATE_DSTADDR_DOMAINNAME)"
    using step_atyp(1) [where env = env and fd = fd and a = a and c = c, OF ok(2) at(1) True] at(2) by auto
  have run: "request_bytes env (fd, Some (ClientPtr a)) a (atyp # bs) (holding a c w rp) =
      request_bytes env (fd, Some (ClientPtr a)) a bs (holding a c w rp1)"
    using advancesD [OF rp1(1), of bs] by simp
  have st: "address_read rp1 [] atyp 0" using address_read_blank [OF rp1(2)] rp1(3) by simp
  show ?thesis
    using True rp1(4) st ip_outcome [OF ok] domain_outcome [OF ok(1,2)] unfolding run by auto
next
  case False
  then show ?thesis using step_atyp(2) [OF ok(2) at(1) False] by simp
qed

lemma verdict_refused:
  "v \<noteq> 5 \<Longrightarrow> request_verdict (v # bs) = Refused 1"
  "cmd \<noteq> 1 \<Longrightarrow> request_verdict (5 # cmd # bs) = Refused 7"
  by (cases "v # bs" rule: request_verdict.cases, auto) (cases "5 # cmd # bs" rule: request_verdict.cases, auto)

lemma after_rsv:
  assumes ok: "no_alloc_fails env" "selector_ok (w_sel w)" "c_dns_req c = None"
    and at: "rp_at rp REQUEST_STATE_RSV" "blank rp"
  shows "request_outcome env fd a c w (request_verdict (5 # 1 # bs))
    (request_bytes env (fd, Some (ClientPtr a)) a bs (holding a c w rp))"
proof (cases bs)
  case Nil
  then show ?thesis by simp (rule more_outcome, simp)
next
  case (Cons rsv bs1)
  obtain rp1 where rp1: "advances env fd a c w rp [rsv] rp1" "rp_at rp1 REQUEST_STATE_ATYP" "blank rp1"
    using step_rsv [where env = env and fd = fd and a = a and c = c and w = w, OF at(1)] at(2) by blast
  have run: "request_bytes env (fd, Some (ClientPtr a)) a bs (holding a c w rp) =
      request_bytes env (fd, Some (ClientPtr a)) a bs1 (holding a c w rp1)"
    using advancesD [OF rp1(1), of bs1] Cons by simp
  show ?thesis
  proof (cases bs1)
    case Nil
    then show ?thesis unfolding run using Cons by simp (rule more_outcome, simp)
  next
    case (Cons atyp bs2)
    then show ?thesis unfolding run using after_atyp [OF ok rp1(2,3)] \<open>bs = rsv # bs1\<close>
      by (simp del: request_bytes.simps request_verdict.simps)
  qed
qed

lemma after_ver:
  assumes ok: "no_alloc_fails env" "selector_ok (w_sel w)" "c_dns_req c = None"
    and at: "rp_at rp REQUEST_STATE_CMD" "blank rp"
  shows "request_outcome env fd a c w (request_verdict (5 # bs))
    (request_bytes env (fd, Some (ClientPtr a)) a bs (holding a c w rp))"
proof (cases bs)
  case Nil
  then show ?thesis by simp (rule more_outcome, simp)
next
  case (Cons cmd bs1)
  show ?thesis
  proof (cases "cmd = 1")
    case True
    obtain rp1 where rp1: "advances env fd a c w rp [cmd] rp1" "rp_at rp1 REQUEST_STATE_RSV" "blank rp1"
      using step_cmd(1) [where env = env and fd = fd and a = a and c = c, OF ok(2) at(1) True] at(2) by blast
    have "request_bytes env (fd, Some (ClientPtr a)) a bs (holding a c w rp) =
        request_bytes env (fd, Some (ClientPtr a)) a bs1 (holding a c w rp1)"
      using advancesD [OF rp1(1), of bs1] Cons by simp
    then show ?thesis using after_rsv [OF ok rp1(2,3)] Cons True by (simp del: request_bytes.simps request_verdict.simps)
  next
    case False
    then show ?thesis using step_cmd(2) [OF ok(2) at(1) False] verdict_refused(2) Cons
      by (simp del: request_bytes.simps request_verdict.simps)
  qed
qed

lemma request_bytes_outcome:
  assumes ok: "no_alloc_fails env" "selector_ok (w_sel w)" "c_dns_req c = None"
    and at: "rp_at rp REQUEST_STATE_VER" "blank rp"
  shows "request_outcome env fd a c w (request_verdict bs)
    (request_bytes env (fd, Some (ClientPtr a)) a bs (holding a c w rp))"
proof (cases bs)
  case Nil
  then show ?thesis by simp (rule more_outcome, simp)
next
  case (Cons v bs1)
  show ?thesis
  proof (cases "v = 5")
    case True
    obtain rp1 where rp1: "advances env fd a c w rp [v] rp1" "rp_at rp1 REQUEST_STATE_CMD" "blank rp1"
      using step_ver(1) [where env = env and fd = fd and a = a and c = c, OF ok(2) at(1) True] at(2) by blast
    have "request_bytes env (fd, Some (ClientPtr a)) a bs (holding a c w rp) =
        request_bytes env (fd, Some (ClientPtr a)) a bs1 (holding a c w rp1)"
      using advancesD [OF rp1(1), of bs1] Cons by simp
    then show ?thesis using after_ver [OF ok rp1(2,3)] Cons True by (simp del: request_bytes.simps request_verdict.simps)
  next
    case False
    then show ?thesis using step_ver(2) [OF ok(2) at(1) False] verdict_refused(1) Cons
      by (simp del: request_bytes.simps request_verdict.simps)
  qed
qed

section \<open>The event\<close>

text \<open>The event leaves the client in state \<open>st\<close> with the property \<open>P\<close>.\<close>

definition reaches :: "world res \<Rightarrow> nat \<Rightarrow> nat \<Rightarrow> (client_t \<Rightarrow> bool) \<Rightarrow> bool" where
  "reaches r a st P \<longleftrightarrow> (\<exists>w' c'. r = Inr w' \<and> w_clients w' a = Some c' \<and> in_state c' st \<and> P c')"

definition answered_with :: "byte \<Rightarrow> client_t \<Rightarrow> bool" where
  "answered_with s c \<longleftrightarrow> (\<exists>rp. c_parser c = P_request rp \<and> rp_reply_status rp = s)"

text \<open>What the reading of the whole request comes to, for the client.\<close>

definition request_decision :: "env \<Rightarrow> int \<Rightarrow> nat \<Rightarrow> client_t \<Rightarrow> world \<Rightarrow> byte list \<Rightarrow> world res \<Rightarrow> bool" where
  "request_decision env fd a c w bs r =
     (case request_verdict bs of
        MoreNeeded \<Rightarrow> reaches r a REQUEST_READ (\<lambda>c'. c_dest_addr c' = c_dest_addr c)
      | Refused s \<Rightarrow> reaches r a REQUEST_WRITE (answered_with s)
      | BadType \<Rightarrow> (\<exists>w'. r = Inr w' \<and> w_clients w' a = None \<and>
          w_trace w' = w_trace w @ Recv fd bs # Closed (c_client_fd c) #
            (if c_destination_fd c \<noteq> -1 then [Closed (c_destination_fd c)] else []))
      | ConnectTo ai \<Rightarrow> reaches r a DEST_CONNECT (\<lambda>c'. c_dest_addr c' = [ai])
      | Resolve name port \<Rightarrow>
          (if e_gai_start env
           then reaches r a DNS_LOOKUP (\<lambda>c'. c_dns_req c' = Some \<lparr>ar_name = Some name, ar_service = decimal (unat port)\<rparr>)
           else reaches r a REQUEST_WRITE (answered_with SOCKS_REPLY_HOST_UNREACHABLE))
      | Overruns \<Rightarrow> r = Inl OutOfBounds)"

lemma request_read_runs:
  assumes "linked w a c" and "c_parser c = P_request rp" and "e_recv env fd = Avail bs" and "bs \<noteq> []"
  shows "request_read env (fd, Some (ClientPtr a)) w = request_bytes env (fd, Some (ClientPtr a)) a (take REQUEST_CHUNK bs)
    (holding a c (emit (Recv fd (take REQUEST_CHUNK bs)) w) rp)"
proof -
  have "w_clients w a = Some c" using assms(1) by (simp add: linked_def)
  then have "holding a c (emit (Recv fd (take REQUEST_CHUNK bs)) w) rp = emit (Recv fd (take REQUEST_CHUNK bs)) w"
    using assms(2) by (intro holding_same) simp_all
  then show ?thesis using assms \<open>w_clients w a = Some c\<close>
    by (simp add: request_read_def sys_recv_def REQUEST_CHUNK_def min_def)
qed

lemma request_entered_blank:
  assumes "request_entered w a c"
  obtains rp where "c_parser c = P_request rp" and "rp_at rp REQUEST_STATE_VER" and "blank rp"
  using assms by (auto simp: request_entered_def rp_at_def blank_def zero_request_def filled_Nil)

lemma reached:
  assumes "in_state c k" and "st \<le> ERROR" and "st \<noteq> k" and "c_stm c' = c_stm c"
    and "on_arrival (client_states env ! st) = None" and "P (moved c' st)"
  shows "reaches (after_event env k st key a c' w) a st P"
  using assms by (auto simp: reaches_def after_event_def in_state_def)

text \<open>
  C7. The first segment of a request decides: the event on the client reads at most 1024 bytes, and
  whatever they are the outcome is the one the reference parser gives for them. A complete request
  for an address moves the client to connecting to exactly that address, one for a name to the
  resolution of that name; a wrong version and an unsupported command are answered with their codes;
  an unknown address type closes the connection without an answer; a name of 255 bytes writes
  outside its array; anything else waits for more. What follows a complete request is dropped.
\<close>

theorem request_read_decides:
  assumes entered: "request_entered w a c" and alloc: "no_alloc_fails env" and dns: "c_dns_req c = None"
    and input: "e_recv env fd = Avail bs" "bs \<noteq> []"
  shows "request_decision env fd a c w (take REQUEST_CHUNK bs) (handle_read_client env (fd, Some (ClientPtr a)) w)"
proof -
  let ?k = "(fd, Some (ClientPtr a))" and ?bs = "take REQUEST_CHUNK bs"
  let ?w1 = "emit (Recv fd ?bs) w"
  obtain rp where rp: "c_parser c = P_request rp" "rp_at rp REQUEST_STATE_VER" "blank rp"
    using entered by (rule request_entered_blank)
  have l: "linked w a c" and st: "in_state c REQUEST_READ" using entered by (simp_all add: request_entered_def)
  then have c: "w_clients w a = Some c" and ok: "selector_ok (w_sel ?w1)" and tag: "c_active_parser c = REQUEST_PARSER"
    using entered by (simp_all add: linked_def request_entered_def)
  have out: "request_outcome env fd a c ?w1 (request_verdict ?bs) (request_read env ?k w)"
    unfolding request_read_runs [OF l rp(1) input] by (rule request_bytes_outcome [OF alloc ok dns rp(2,3)])
  have ev: "handle_read_client env ?k w = after_event env REQUEST_READ ret ?k a c2 w2"
    if "request_read env ?k w = Inr (ret, w2)" "ret \<le> ERROR" "w_clients w2 a = Some c2" "c_stm c2 = c_stm c" for ret w2 c2
    by (rule read_event [where f = "request_read env", OF c st _ that]) simp
  note go = reached [OF st, of _ _ env]
  show ?thesis
  proof (cases "request_verdict ?bs")
    case MoreNeeded
    with out obtain rp' where "request_read env ?k w = Inr (REQUEST_READ, put_client a (c\<lparr>c_parser := P_request rp'\<rparr>) ?w1)"
      by (auto simp: request_outcome_def)
    from ev [OF this] MoreNeeded st show ?thesis
      by (simp add: request_decision_def after_event_simps reaches_def in_state_def)
  next
    case (Refused s)
    with out obtain rp' where rp': "rp_reply_status rp' = s" and run: "request_read env ?k w =
        Inr (REQUEST_WRITE, put_client a (c\<lparr>c_parser := P_request rp'\<rparr>) (?w1\<lparr>w_sel := upd_interest (w_sel w) fd OP_WRITE\<rparr>))"
      by (auto simp: request_outcome_def Let_def)
    from ev [OF run] Refused rp' show ?thesis
      by (auto simp: request_decision_def answered_with_def client_state_le intro!: go)
  next
    case BadType
    let ?w2 = "?w1\<lparr>w_sel := upd_interest (w_sel w) fd OP_WRITE\<rparr>"
    from BadType out obtain rp' where run: "request_read env ?k w =
        Inr (ERROR, put_client a (c\<lparr>c_parser := P_request rp', c_err := 1\<rparr>) ?w2)"
      by (auto simp: request_outcome_def Let_def)
    let ?c = "c\<lparr>c_parser := P_request rp', c_err := 1\<rparr>"
    have l2: "linked (put_client a ?c ?w2) a ?c"
      using l tag by (auto simp: linked_def owned_def parser_tag_ok_def interest_simps with_interest_apply)
    have "handle_read_client env ?k w = Inr (torn_down a ?c (put_client a ?c ?w2))"
      using ev [OF run] after_error [OF l2] by (simp add: client_state_neq)
    then show ?thesis
      using BadType torn_down_world(2) [OF l2] by (simp add: request_decision_def) (simp add: torn_down_def Let_def)
  next
    case (ConnectTo ai)
    with out obtain rp' where run: "request_read env ?k w = Inr (DEST_CONNECT, put_client a (c\<lparr>c_parser := P_request rp',
          c_dest_addr := [ai], c_dest_addr_base := [ai], c_dest_addr_from_gai := False\<rparr>)
          (?w1\<lparr>w_sel := upd_interest (w_sel w) fd OP_WRITE\<rparr>))"
      by (auto simp: request_outcome_def Let_def)
    from ev [OF run] ConnectTo show ?thesis
      by (auto simp: request_decision_def client_state_le intro!: go)
  next
    case (Resolve name port)
    then show ?thesis
      using out ev by (auto simp: request_outcome_def request_decision_def Let_def answered_with_def client_state_le
          split: if_splits intro!: go)
  next
    case Overruns
    with out have "request_read env ?k w = Inl OutOfBounds" by (simp add: request_outcome_def)
    then show ?thesis
      using Overruns client_event_fault [where ready = on_read_ready and f = "request_read env" and key = ?k, OF c st]
      by (simp add: request_decision_def handle_read_event)
  qed
qed

definition sample_request_client :: client_t where
  "sample_request_client = sample_client REQUEST_READ (-1) REQUEST_PARSER
     (P_request (zero_request\<lparr>rp_p := Some (fresh_parser (sample_env []) request_parser_def)\<rparr>))"

lemma sample_request_entered:
  obtains s where "request_entered (sample_world s us sample_request_client) 0 sample_request_client"
    and "c_dns_req sample_request_client = None"
proof -
  have tag: "parser_tag_ok sample_request_client" by (simp add: sample_request_client_def parser_tag_ok_def)
  obtain s where "linked (sample_world s us sample_request_client) 0 sample_request_client"
    unfolding sample_request_client_def
    by (rule sample_linked [of REQUEST_READ "-1" REQUEST_PARSER _ us])
      (use tag in \<open>simp_all add: sample_request_client_def REQUEST_READ_def\<close>)
  moreover have "parser_ok request_parser_def (fresh_parser (sample_env []) request_parser_def)"
    using request_table.start by (rule parser_ok_fresh)
  moreover have "p_state (fresh_parser (sample_env []) request_parser_def) = REQUEST_STATE_VER"
    by (simp add: fresh_parser_def request_table_defs)
  ultimately have "request_entered (sample_world s us sample_request_client) 0 sample_request_client"
    by (auto simp: request_entered_def sample_request_client_def in_state_def client_state_defs)
  then show ?thesis using that by (simp add: sample_request_client_def)
qed

text \<open>Connecting to 10.0.0.7, port 80.\<close>

theorem request_read_decides_witness:
  "\<exists>w. reaches (handle_read_client (sample_env [5, 1, 0, 1, 10, 0, 0, 7, 0, 80]) (4, Some (ClientPtr 0)) w) 0 DEST_CONNECT
     (\<lambda>c'. c_dest_addr c' = [\<lparr>ai_family = AF_INET, ai_host = [10, 0, 0, 7], ai_port = 80\<rparr>])"
proof -
  let ?bs = "[5, 1, 0, 1, 10, 0, 0, 7, 0, 80] :: byte list"
  obtain s where e: "request_entered (sample_world s [] sample_request_client) 0 sample_request_client"
    "c_dns_req sample_request_client = None" by (rule sample_request_entered)
  have v: "request_verdict ?bs = ConnectTo \<lparr>ai_family = AF_INET, ai_host = [10, 0, 0, 7], ai_port = 80\<rparr>"
    by (simp add: address_port_def port_of_def)
  have "no_alloc_fails (sample_env ?bs)" by (simp add: no_alloc_fails_def)
  from request_read_decides [OF e(1) this e(2), of 4 ?bs] have
    "request_decision (sample_env ?bs) 4 0 sample_request_client (sample_world s [] sample_request_client) ?bs
       (handle_read_client (sample_env ?bs) (4, Some (ClientPtr 0)) (sample_world s [] sample_request_client))"
    by (simp add: REQUEST_CHUNK_def)
  then show ?thesis unfolding request_decision_def v by auto
qed

section \<open>Segments\<close>

lemma request_event_continues:
  assumes "request_event env (fd, Some (ClientPtr a)) a ev w = Inr (Some st, w')"
  shows "st \<noteq> REQUEST_READ"
  using may_returnD [OF request_event_returns assms] by auto


end
