(* ===== verification/Links.thy ===== *)
theory Links
  imports Client_Machine
begin

text \<open>
  The invariant of a connection that the handlers keep between events: the object of the client and
  its two descriptors belong together, and the tag of its parser names the member of the union that
  is in use.
\<close>

section \<open>Live connections\<close>

definition core :: "nat \<Rightarrow> int \<Rightarrow> world \<Rightarrow> client_t \<Rightarrow> bool" where
  "core a n w c \<longleftrightarrow> selector_ok (w_sel w) \<and> owned w a n \<and> c_client_fd c = n \<and>
     (c_destination_fd c \<noteq> -1 \<longrightarrow> c_destination_fd c \<noteq> n \<and> owned w a (c_destination_fd c)) \<and>
     (\<forall>k. stm_current (c_stm c) = Some k \<longrightarrow> k < 11) \<and> parser_tag_ok c"

definition live :: "nat \<Rightarrow> int \<Rightarrow> world \<Rightarrow> bool" where
  "live a n w \<longleftrightarrow> (\<exists>c. w_clients w a = Some c \<and> core a n w c)"

lemma live_iff_linked: "live a n w \<longleftrightarrow> (\<exists>c. linked w a c \<and> c_client_fd c = n)"
  by (auto simp: live_def core_def linked_def)

lemma live_core [simp]: "live a n w \<Longrightarrow> w_clients w a = Some c \<Longrightarrow> core a n w c"
  by (auto simp: live_def)

lemma live_put [simp]: "live a n (put_client a c w) \<longleftrightarrow> core a n w c"
  by (auto simp: live_def core_def owned_def)

lemma live_plain [simp]:
  "live a n (w\<lparr>w_errno := e\<rparr>) = live a n w" "live a n (emit x w) = live a n w" "live a n (w\<lparr>w_stats := st\<rparr>) = live a n w"
  by (simp_all add: live_def core_def owned_def)

lemma core_plain [simp]:
  "core a n (w\<lparr>w_errno := e\<rparr>) c = core a n w c" "core a n (emit x w) c = core a n w c"
  "core a n (w\<lparr>w_stats := st\<rparr>) c = core a n w c" "core a n (put_client b c' w) c = core a n w c"
  by (simp_all add: core_def owned_def)

lemma core_fields [simp]:
  "core a n w (c\<lparr>c_err := e\<rparr>) = core a n w c" "core a n w (c\<lparr>c_dns_req := q\<rparr>) = core a n w c"
  "core a n w (c\<lparr>c_dest_addr := as\<rparr>) = core a n w c" "core a n w (c\<lparr>c_dest_addr_base := as\<rparr>) = core a n w c"
  "core a n w (c\<lparr>c_dest_addr_from_gai := f\<rparr>) = core a n w c"
  "core a n w (c\<lparr>c_client_closed := f\<rparr>) = core a n w c" "core a n w (c\<lparr>c_dest_closed := f\<rparr>) = core a n w c"
  "core a n w (c\<lparr>c_client_buffer := b\<rparr>) = core a n w c" "core a n w (c\<lparr>c_destiny_buffer := b\<rparr>) = core a n w c"
  "core a n w (set_source_buffer f b c) = core a n w c"
  by (simp_all add: core_def parser_tag_ok_def set_source_buffer_def split: parser_state_t.splits)

text \<open>The active parser may be replaced by one of its kind, or with its tag.\<close>

lemma core_parser [simp]:
  "hello_of c = Inr hp \<Longrightarrow> core a n w c \<Longrightarrow> core a n w (c\<lparr>c_parser := P_hello hp'\<rparr>)"
  "auth_of c = Inr ap \<Longrightarrow> core a n w c \<Longrightarrow> core a n w (c\<lparr>c_parser := P_auth ap'\<rparr>)"
  "request_of c = Inr rp \<Longrightarrow> core a n w c \<Longrightarrow> core a n w (c\<lparr>c_parser := P_request rp'\<rparr>)"
  by (auto simp: core_def parser_tag_ok_def hello_of_def auth_of_def request_of_def
      split: parser_state_t.splits parser_union.splits)

lemma core_tagged [simp]:
  "core a n w c \<Longrightarrow> core a n w (c\<lparr>c_parser := u, c_active_parser := NO_PARSER\<rparr>)"
  "core a n w c \<Longrightarrow> core a n w (c\<lparr>c_parser := P_hello hp, c_active_parser := HELLO_PARSER\<rparr>)"
  "core a n w c \<Longrightarrow> core a n w (c\<lparr>c_parser := P_auth ap, c_active_parser := AUTH_PARSER\<rparr>)"
  "core a n w c \<Longrightarrow> core a n w (c\<lparr>c_parser := P_request rp, c_active_parser := REQUEST_PARSER\<rparr>)"
  by (simp_all add: core_def parser_tag_ok_def)

lemma core_interest: "core a n w c \<Longrightarrow> core a n (w\<lparr>w_sel := upd_interest (w_sel w) fd i\<rparr>) c"
  by (auto simp: core_def set_interest_ok(2))

lemma live_set_interest:
  "set_interest fd i w = Inr w' \<Longrightarrow> live a n w \<longrightarrow> live a n w'"
proof
  assume run: "set_interest fd i w = Inr w'" and "live a n w"
  then obtain c where c: "w_clients w a = Some c" "core a n w c" unfolding live_def by blast
  then have "selector_ok (w_sel w)" by (simp add: core_def)
  with run have "w' = w\<lparr>w_sel := upd_interest (w_sel w) fd i\<rparr>" by (simp add: set_interest_ok(1))
  then show "live a n w'" using c(1) core_interest [OF c(2), of fd i] unfolding live_def by simp
qed

lemma live_set_interest_key: "set_interest_key key i w = Inr w' \<Longrightarrow> live a n w \<longrightarrow> live a n w'"
  unfolding set_interest_key_eq by (rule live_set_interest)

lemmas live_interests = live_set_interest live_set_interest_key

section \<open>Every callback keeps a connection live\<close>

definition keeps_live :: "nat \<Rightarrow> int \<Rightarrow> world \<Rightarrow> ('x \<times> world) res \<Rightarrow> bool" where
  "keeps_live a n w r \<longleftrightarrow> (live a n w \<longrightarrow> (\<forall>ret w'. r = Inr (ret, w') \<longrightarrow> live a n w'))"

lemma keeps_liveD: "keeps_live a n w r \<Longrightarrow> r = Inr (ret, w') \<Longrightarrow> live a n w \<longrightarrow> live a n w'"
  by (simp add: keeps_live_def)

lemma hello_event_live: "keeps_live a n w (hello_event (fd, Some (ClientPtr a)) a ev w)"
  unfolding hello_event_def keeps_live_def
  by (auto split: if_splits dest!: live_interests [where a = a and n = n])

lemma hello_events_live: "keeps_live a n w (hello_events (fd, Some (ClientPtr a)) a evs w)"
proof (induction evs arbitrary: w)
  case (Cons ev evs)
  show ?case
    unfolding keeps_live_def
    by (auto split: option.splits dest!: keeps_liveD [OF hello_event_live, where n = n] keeps_liveD [OF Cons.IH])
qed (simp add: keeps_live_def)

lemma sys_recv_live: "sys_recv env fd k w = (m, bs, w') \<Longrightarrow> live a n w' = live a n w \<and> w_clients w' = w_clients w"
  by (auto simp: sys_recv_def split: recv_answer.splits)

lemma sys_send_live: "sys_send env fd bs w = (m, w') \<Longrightarrow> live a n w' = live a n w \<and> w_clients w' = w_clients w"
  by (auto simp: sys_send_def split: send_answer.splits)

lemma hello_read_live: "keeps_live a n w (hello_read env (fd, Some (ClientPtr a)) w)"
  unfolding hello_read_def keeps_live_def
  by (auto simp: Let_def split: if_splits prod.splits dest!: sys_recv_live [where a = a and n = n]
      live_interests [where a = a and n = n] keeps_liveD [OF hello_events_live, where n = n])

lemma hello_write_live: "keeps_live a n w (hello_write env (fd, Some (ClientPtr a)) w)"
  unfolding hello_write_def keeps_live_def
  by (auto simp: Let_def split: if_splits prod.splits dest!: sys_send_live [where a = a and n = n]
      live_interests [where a = a and n = n])

lemma auth_event_live: "keeps_live a n w (auth_event (fd, Some (ClientPtr a)) a ev w)"
  unfolding auth_event_def keeps_live_def
  by (auto simp: Let_def split: if_splits dest!: live_interests [where a = a and n = n])

lemma auth_events_live: "keeps_live a n w (auth_events (fd, Some (ClientPtr a)) a evs w)"
proof (induction evs arbitrary: w)
  case (Cons ev evs)
  show ?case
    unfolding keeps_live_def
    by (auto split: option.splits dest!: keeps_liveD [OF auth_event_live, where n = n] keeps_liveD [OF Cons.IH])
qed (simp add: keeps_live_def)

lemma auth_read_live: "keeps_live a n w (auth_read env (fd, Some (ClientPtr a)) w)"
  unfolding auth_read_def keeps_live_def
  by (auto simp: Let_def split: if_splits prod.splits dest!: sys_recv_live [where a = a and n = n]
      keeps_liveD [OF auth_events_live, where n = n])

lemma auth_write_live: "keeps_live a n w (auth_write env (fd, Some (ClientPtr a)) w)"
  unfolding auth_write_def keeps_live_def
  by (auto simp: Let_def split: if_splits prod.splits dest!: sys_send_live [where a = a and n = n]
      live_interests [where a = a and n = n])

lemma live_upd_request: "upd_request a f w = Inr w' \<Longrightarrow> live a n w \<longrightarrow> live a n w'"
  by (auto simp: upd_request_def bindr_Inr_iff)

lemma live_set_err: "set_err a e w = Inr w' \<Longrightarrow> live a n w \<longrightarrow> live a n w'"
  by (auto simp: set_err_def upd_client_def bindr_Inr_iff)

lemmas live_updates = live_interests live_upd_request live_set_err

lemma setup_lookup_live: "keeps_live a n w (setup_lookup env (fd, Some (ClientPtr a)) name port w)"
  unfolding setup_lookup_def keeps_live_def
  by (auto simp: Let_def upd_client_def split: if_splits dest!: live_updates [where a = a and n = n])

lemma handle_request_fin_live: "keeps_live a n w (handle_request_fin env (fd, Some (ClientPtr a)) rp w)"
  unfolding handle_request_fin_def start_connect_def keeps_live_def
  by (auto simp: Let_def upd_client_def split: if_splits dest!: live_updates [where a = a and n = n]
      keeps_liveD [OF setup_lookup_live, where n = n])

lemma fin_events_live: "keeps_live a n w (fin_events env (fd, Some (ClientPtr a)) a evs w)"
proof (induction evs)
  case (Cons ev evs)
  then show ?case
    by (auto simp: keeps_live_def fail_request_def split: if_splits dest!: live_updates [where a = a and n = n]
        keeps_liveD [OF handle_request_fin_live, where n = n])
qed (simp add: keeps_live_def)

lemma request_event_live: "keeps_live a n w (request_event env (fd, Some (ClientPtr a)) a ev w)"
  unfolding request_event_def keeps_live_def
  by (auto simp: refuse_def fail_request_def split: if_splits dest!: live_updates [where a = a and n = n]
      keeps_liveD [OF handle_request_fin_live, where n = n] keeps_liveD [OF fin_events_live, where n = n])

lemma request_bytes_live: "keeps_live a n w (request_bytes env (fd, Some (ClientPtr a)) a bs w)"
proof (induction bs arbitrary: w)
  case (Cons b bs)
  show ?case
    unfolding keeps_live_def
    by (auto split: option.splits dest!: keeps_liveD [OF request_event_live, where n = n] keeps_liveD [OF Cons.IH])
qed (simp add: keeps_live_def)

lemma request_read_live: "keeps_live a n w (request_read env (fd, Some (ClientPtr a)) w)"
  unfolding request_read_def keeps_live_def
  by (auto simp: Let_def split: if_splits prod.splits dest!: sys_recv_live [where a = a and n = n]
      live_updates [where a = a and n = n] keeps_liveD [OF request_bytes_live, where n = n])

lemma dns_lookup_live: "keeps_live a n w (dns_lookup env (fd, Some (ClientPtr a)) w)"
  unfolding dns_lookup_def keeps_live_def
  by (auto simp: Let_def upd_client_def split: if_splits dest!: live_updates [where a = a and n = n])

lemma forward_read_live: "keeps_live a n w (forward_read env (fd, Some (ClientPtr a)) w)"
  unfolding forward_read_def keeps_live_def
  by (auto simp: Let_def split: if_splits prod.splits dest!: sys_recv_live [where a = a and n = n]
      live_updates [where a = a and n = n])

lemma forward_write_live: "keeps_live a n w (forward_write env (fd, Some (ClientPtr a)) w)"
  unfolding forward_write_def keeps_live_def
  by (auto simp: Let_def sys_shutdown_def split: if_splits prod.splits dest!: sys_send_live [where a = a and n = n]
      live_updates [where a = a and n = n])

text \<open>The loop over the addresses gives the client a new descriptor, or takes back the one it gave.\<close>

lemma register_cases:
  assumes "selector_ok s"
  obtains (fresh) s' where "\<not> INVALID_FD fd" and "sel_lookup s fd = None"
    and "selector_register al j s fd (Some h) i d = Inr (SELECTOR_SUCCESS, s')" and "selector_ok s'"
    and "sel_lookup s' = (sel_lookup s)(fd \<mapsto> (i, Some h, d))"
  | (refused) st where "selector_register al j s fd (Some h) i d = Inr (st, s)" and "st \<noteq> SELECTOR_SUCCESS"
  using selector_register_fresh [OF assms, of fd al j h i d] selector_register_inuse [OF assms, of fd al j h i d]
    selector_register_invalid [of fd al j s "Some h" i d]
  by (cases "INVALID_FD fd"; cases "sel_lookup s fd") auto

lemma core_new_destination:
  assumes "core a n w c" and "sel_lookup (w_sel w) fd = None" and "selector_ok s"
    and "sel_lookup s = (sel_lookup (w_sel w))(fd \<mapsto> (i, Some CLIENT_HANDLER, Some (ClientPtr a)))"
  shows "core a n (w\<lparr>w_sel := s\<rparr>) (c\<lparr>c_destination_fd := fd, c_dest_addr := as\<rparr>)"
  using assms by (auto simp: core_def owned_def parser_tag_ok_def split: parser_state_t.splits)

lemma core_no_destination:
  "core a n w c \<Longrightarrow> core a n w (c\<lparr>c_destination_fd := -1\<rparr>)"
  "core a n w c \<Longrightarrow> core a n w (c\<lparr>c_destination_fd := -1, c_dest_addr := as\<rparr>)"
  "core a n w c \<Longrightarrow> core a n w (c\<lparr>c_dest_addr := as, c_destination_fd := -1\<rparr>)"
  by (auto simp: core_def parser_tag_ok_def split: parser_state_t.splits)

lemma connect_loop_live: "keeps_live a n w (connect_loop env (fd, Some (ClientPtr a)) a addrs w)"
proof (induction addrs arbitrary: w)
  case (Cons addr rest)
  let ?m = "length (addr # rest)" and ?k = "(fd, Some (ClientPtr a))"
  let ?sock = "e_socket env ?m" and ?err = "case e_connect env ?m of Connected \<Rightarrow> 0 | ConnectErr e \<Rightarrow> e"
  let ?w1 = "emit (Connecting ?sock addr) (w\<lparr>w_errno := ?err\<rparr>)"
  have "live a n w'" if l: "live a n w" and run: "connect_loop env ?k a (addr # rest) w = Inr (ret, w')" for ret w'
  proof (cases "?sock < 0 \<or> \<not> (e_connect env ?m = Connected \<or> ?err = EINPROGRESS)")
    case True
    then show ?thesis
      using run l by (auto simp: Let_def sys_close_def dest!: keeps_liveD [OF Cons.IH] split: if_splits)
  next
    case False
    from l obtain c where c: "w_clients w a = Some c" and co: "core a n w c" unfolding live_def by blast
    then have ok: "selector_ok (w_sel w)" by (simp add: core_def)
    let ?c1 = "c\<lparr>c_destination_fd := ?sock, c_dest_addr := addr # rest\<rparr>"
    from ok show ?thesis
    proof (cases rule: register_cases [of _ ?sock "e_alloc env A_selector" "e_realloc_junk env" CLIENT_HANDLER OP_WRITE "Some (ClientPtr a)"])
      case (fresh s')
      have co1: "core a n (w\<lparr>w_sel := s'\<rparr>) ?c1" using core_new_destination [OF co fresh(2,4,5)] .
      have "core a n (emit (Connecting ?sock addr) (w\<lparr>w_errno := ?err, w_sel := s'\<rparr>)) ?c1"
        using co1 by (simp add: core_def owned_def)
      then show ?thesis
        using run False c fresh(3)
        by (auto simp: Let_def upd_client_def split: if_splits dest!: live_updates [where a = a and n = n])
    next
      case (refused st)
      have "live a n (put_client a (?c1\<lparr>c_destination_fd := -1\<rparr>) (sys_close ?sock ?w1))"
        using core_no_destination(3) [OF co] by (simp add: sys_close_def)
      then show ?thesis
        using run False c refused
        by (auto simp: Let_def upd_client_def sys_close_def split: if_splits dest!: keeps_liveD [OF Cons.IH])
    qed
  qed
  then show ?case by (simp add: keeps_live_def del: connect_loop.simps)
qed (simp add: keeps_live_def)

lemma connect_next_live: "keeps_live a n w (connect_next env (fd, Some (ClientPtr a)) a addrs w)"
  unfolding connect_next_def keeps_live_def
  by (auto split: option.splits dest!: live_updates [where a = a and n = n] keeps_liveD [OF connect_loop_live, where n = n])

lemma try_connect_live: "keeps_live a n w (try_connect env (fd, Some (ClientPtr a)) w)"
  unfolding try_connect_def keeps_live_def
  by (auto simp: Let_def sys_close_def upd_client_def core_no_destination split: if_splits option.splits
      dest!: live_updates [where a = a and n = n] keeps_liveD [OF connect_next_live, where n = n])

lemma core_destroy: "destroy_active_parser c = Inr c' \<Longrightarrow> core a n w c \<longrightarrow> core a n w c'"
  by (auto simp: destroy_active_parser_def bindr_Inr_iff core_def parser_tag_ok_def split: parser_state_t.splits)

lemma core_free_destination [simp]: "core a n w (free_destination c) = core a n w c"
  by (simp add: free_destination_def)

lemma sys_send_core:
  "sys_send env fd bs w = (m, w') \<Longrightarrow> live a n w' = live a n w \<and> w_clients w' = w_clients w \<and> (\<forall>c. core a n w' c = core a n w c)"
  by (auto simp: sys_send_def split: send_answer.splits)

lemma request_write_live: "keeps_live a n w (request_write env (fd, Some (ClientPtr a)) w)"
  unfolding request_write_def keeps_live_def
  by (auto simp: Let_def split: if_splits prod.splits dest!: sys_send_core [where a = a and n = n]
      live_updates [where a = a and n = n] core_destroy [where a = a and n = n and w = w])

section \<open>Arrivals\<close>

lemma live_moved: "live a n w \<Longrightarrow> w_clients w a = Some c \<Longrightarrow> k \<le> ERROR \<Longrightarrow> live a n (put_client a (moved c k) w)"
  using live_iff_linked [of a n w] live_iff_linked [of a n "put_client a (moved c k) w"] linked_moved [of w a c k]
  by (auto simp: linked_def)

text \<open>The connection is over: its object is freed and its descriptor is no longer registered.\<close>

definition gone :: "nat \<Rightarrow> int \<Rightarrow> world \<Rightarrow> bool" where
  "gone a n w \<longleftrightarrow> w_clients w a = None \<and> sel_lookup (w_sel w) n = None \<and> selector_ok (w_sel w)"

lemma torn_down_gone: "linked w a c \<Longrightarrow> c_client_fd c = n \<Longrightarrow> gone a n (torn_down a c w)"
  using torn_down_world [of w a c] by (auto simp: gone_def)

lemma live_linked: "live a n w \<Longrightarrow> w_clients w a = Some c \<Longrightarrow> linked w a c \<and> c_client_fd c = n"
  by (auto simp: live_iff_linked linked_def)

lemma end_connection_live:
  assumes "live a n w" and "end_connection env st (fd, Some (ClientPtr a)) w = Inr w'"
  shows "live a n w' \<or> gone a n w'"
proof -
  from assms(1) obtain c where c: "w_clients w a = Some c" unfolding live_def by blast
  with assms(1) have l: "linked w a c" "c_client_fd c = n" using live_linked by auto
  show ?thesis
    using assms end_connection_finished [OF l(1), of env st fd] end_connection_unfinished [OF c, of env st fd]
      torn_down_gone [OF l] by (cases "connection_finished c") auto
qed

lemma error_handler_gone:
  assumes "live a n w" and "error_handler env st (fd, Some (ClientPtr a)) w = Inr w'"
    and "st \<notin> {REQUEST_READ, REQUEST_WRITE, DNS_LOOKUP, DEST_CONNECT}"
  shows "gone a n w'"
proof -
  from assms(1) obtain c where "w_clients w a = Some c" unfolding live_def by blast
  with assms(1) have l: "linked w a c" "c_client_fd c = n" using live_linked by auto
  show ?thesis using assms(2) error_handler_tears_down [OF l(1) assms(3), of env fd] torn_down_gone [OF l] by simp
qed

lemma arrival_hooks:
  assumes "live a n w"
  shows "hello_read_init env HELLO_READ (fd, Some (ClientPtr a)) w = Inr w' \<Longrightarrow> live a n w' \<or> gone a n w'"
    and "auth_read_init env AUTH_READ (fd, Some (ClientPtr a)) w = Inr w' \<Longrightarrow> live a n w' \<or> gone a n w'"
    and "e_alloc env A_parser \<Longrightarrow> request_read_init env REQUEST_READ (fd, Some (ClientPtr a)) w = Inr w' \<Longrightarrow> live a n w'"
    and "forward_setup FORWARDING (fd, Some (ClientPtr a)) w = Inr w' \<Longrightarrow> live a n w'"
proof -
  from assms obtain c where c: "w_clients w a = Some c" "core a n w c" unfolding live_def by blast
  show "live a n w' \<or> gone a n w'" if "hello_read_init env HELLO_READ (fd, Some (ClientPtr a)) w = Inr w'"
    using that c by (auto simp: hello_read_init_def client_state_neq split: prod.splits if_splits dest!: error_handler_gone [rotated, where n = n])
  show "live a n w' \<or> gone a n w'" if "auth_read_init env AUTH_READ (fd, Some (ClientPtr a)) w = Inr w'"
    using that c by (auto simp: auth_read_init_def Let_def split: prod.splits if_splits dest!: core_destroy [where a = a and n = n and w = w]
      error_handler_gone [rotated, where n = n])
  show "live a n w'" if "e_alloc env A_parser" "request_read_init env REQUEST_READ (fd, Some (ClientPtr a)) w = Inr w'"
    using that c by (auto simp: request_read_init_def request_parser_init_def parser_init_def Let_def split: prod.splits if_splits
      dest!: core_destroy [where a = a and n = n and w = w] live_upd_request [where a = a and n = n])
  show "live a n w'" if "forward_setup FORWARDING (fd, Some (ClientPtr a)) w = Inr w'"
    using that assms by (auto simp: forward_setup_def dest!: live_interests [where a = a and n = n])
qed

lemma arrival_live:
  assumes l: "live a n w" and c: "w_clients w a = Some c" and k: "ret \<le> ERROR" and alloc: "e_alloc env A_parser"
    and run: "after_event env k ret (fd, Some (ClientPtr a)) a c w = Inr w'"
  shows "live a n w' \<or> gone a n w'"
proof (cases "ret = k")
  case True
  then show ?thesis using run l by (simp add: after_event_def)
next
  case False
  have m: "live a n (put_client a (moved c ret) w)" using live_moved [OF l c k] .
  have "ret \<in> {HELLO_READ, HELLO_WRITE, AUTH_READ, AUTH_WRITE, REQUEST_READ, DNS_LOOKUP, DEST_CONNECT,
      REQUEST_WRITE, FORWARDING, DONE, ERROR}"
    using k unfolding client_state_defs insert_iff empty_iff by arith
  then consider (plain) "on_arrival (client_states env ! ret) = None" | (hello) "ret = HELLO_READ"
    | (auth) "ret = AUTH_READ" | (request) "ret = REQUEST_READ" | (forward) "ret = FORWARDING"
    | (finish) "ret = DONE" | (error) "ret = ERROR"
    by auto
  then show ?thesis
    using m run False arrival_hooks [OF m] alloc end_connection_live [OF m] error_handler_gone [OF m]
    by cases (auto simp: after_event_def client_state_neq)
qed

end
