(* ===== verification/Connections.thy ===== *)
theory Connections
  imports Gate Links
begin

text \<open>
  Whole events on a client: which callback ran and what followed it, and the two statements about
  every event of every client: the connection stays well formed or is over, and while a request is
  being served nothing is sent until its reply.
\<close>

section \<open>The two halves of an event\<close>

definition callback_of :: "env \<Rightarrow> nat \<Rightarrow> (key \<Rightarrow> world \<Rightarrow> (nat \<times> world) res) \<Rightarrow> bool" where
  "callback_of env k f \<longleftrightarrow> on_read_ready (client_states env ! k) = Some f \<or> on_write_ready (client_states env ! k) = Some f"

lemma state_cases:
  assumes "k \<le> ERROR"
  shows "k \<in> {HELLO_READ, HELLO_WRITE, AUTH_READ, AUTH_WRITE, REQUEST_READ, DNS_LOOKUP, DEST_CONNECT,
      REQUEST_WRITE, FORWARDING, DONE, ERROR}"
  using assms unfolding client_state_defs insert_iff empty_iff by arith

lemma callbacks:
  assumes "callback_of env k f" and "k \<le> ERROR"
  shows "f \<in> {hello_read env, hello_write env, auth_read env, auth_write env, request_read env, dns_lookup env,
    try_connect env, request_write env, forward_read env, forward_write env}"
  using state_cases [OF assms(2)] assms(1) unfolding callback_of_def by (elim insertE emptyE) auto

lemma callback_returns:
  assumes "callback_of env k f" and "k \<le> ERROR"
  shows "\<exists>R. returns a R w (f (fd, Some (ClientPtr a)) w) \<and> R \<subseteq> {..ERROR}"
  using callbacks [OF assms] hello_read_returns hello_write_returns auth_read_returns auth_write_returns
    request_read_returns dns_lookup_returns try_connect_returns request_write_returns
    forward_read_returns forward_write_returns
  by (elim insertE emptyE) fastforce+

lemma callback_live:
  assumes "callback_of env k f" and "k \<le> ERROR"
  shows "keeps_live a n w (f (fd, Some (ClientPtr a)) w)"
  using callbacks [OF assms] hello_read_live hello_write_live auth_read_live auth_write_live request_read_live
    dns_lookup_live try_connect_live request_write_live forward_read_live forward_write_live
  by (elim insertE emptyE) simp_all

lemma event_after:
  assumes w: "w_clients w a = Some c" and st: "in_state c k" and ready: "ready = on_read_ready \<or> ready = on_write_ready"
    and run: "bindr (stm_event ready (client_machine a) (set_client_machine a) (client_states env) (fd, Some (ClientPtr a)) w)
      (\<lambda>(_, w'). Inr w') = Inr w'"
  shows "\<exists>f ret w2 c2. callback_of env k f \<and> f (fd, Some (ClientPtr a)) w = Inr (ret, w2) \<and> w_clients w2 a = Some c2 \<and>
    c_stm c2 = c_stm c \<and> ret \<le> ERROR \<and> after_event env k ret (fd, Some (ClientPtr a)) a c2 w2 = Inr w'"
proof -
  let ?k = "(fd, Some (ClientPtr a))"
  obtain f where f: "ready (client_states env ! k) = Some f"
    using client_event_abort [OF w st, of ready env ?k] run by (cases "ready (client_states env ! k)") auto
  obtain ret w2 where r: "f ?k w = Inr (ret, w2)"
    using client_event_fault [where ready = ready and f = f and key = ?k, OF w st f] run by (cases "f ?k w") auto
  have cb: "callback_of env k f" using f ready by (auto simp: callback_of_def)
  obtain R where R: "returns a R w (f ?k w)" "R \<subseteq> {..ERROR}"
    using callback_returns [OF cb, where w = w and fd = fd and a = a] st by (auto simp: in_state_def)
  then have le: "ret \<le> ERROR" and keep: "keeps a w w2" using r by (auto simp: returns_def)
  from keep w obtain c2 where c2: "w_clients w2 a = Some c2" "c_stm c2 = c_stm c" by (auto simp: keeps_def)
  have "after_event env k ret ?k a c2 w2 = Inr w'"
    using client_event [where ready = ready and f = f and key = ?k, OF w st f r le c2] run by simp
  then show ?thesis using cb r c2 le by blast
qed

lemma client_step_after:
  assumes "client_step env fd a w w'" and w: "w_clients w a = Some c" and st: "in_state c k"
  obtains f ret w2 c2 where "callback_of env k f" and "f (fd, Some (ClientPtr a)) w = Inr (ret, w2)"
    and "w_clients w2 a = Some c2" and "c_stm c2 = c_stm c" and "ret \<le> ERROR"
    and "after_event env k ret (fd, Some (ClientPtr a)) a c2 w2 = Inr w'"
proof -
  from assms(1) consider (rd) "handle_read_client env (fd, Some (ClientPtr a)) w = Inr w'"
    | (wr) "handle_write_client env (fd, Some (ClientPtr a)) w = Inr w'"
    unfolding client_step_def by blast
  then show ?thesis
  proof cases
    case rd
    from event_after [OF w st _ rd [unfolded handle_read_event]] show ?thesis using that by blast
  next
    case wr
    from event_after [OF w st _ wr [unfolded handle_write_event]] show ?thesis using that by blast
  qed
qed

section \<open>The invariant\<close>

text \<open>
  C10. Every event on a live connection that returns leaves it live or over: either its object is
  still there, its two descriptors are registered with the client's handler and that object, and
  the tag of its parser is right; or its object is freed and its descriptor is not registered any
  more. The only assumption on the environment is that allocating a parser does not fail.
\<close>

theorem client_event_keeps_links:
  assumes step: "client_step env fd a w w'" and l: "linked w a c" and st: "in_state c k" and alloc: "e_alloc env A_parser"
  shows "(\<exists>c'. linked w' a c' \<and> c_client_fd c' = c_client_fd c) \<or>
    (w_clients w' a = None \<and> sel_lookup (w_sel w') (c_client_fd c) = None)"
proof -
  from l have w: "w_clients w a = Some c" by (simp add: linked_def)
  obtain f ret w2 c2 where f: "callback_of env k f" "f (fd, Some (ClientPtr a)) w = Inr (ret, w2)"
    and c2: "w_clients w2 a = Some c2" and le: "ret \<le> ERROR"
    and run: "after_event env k ret (fd, Some (ClientPtr a)) a c2 w2 = Inr w'"
    using client_step_after [OF step w st] by metis
  have "live a (c_client_fd c) w" using l by (auto simp: live_iff_linked)
  then have "live a (c_client_fd c) w2"
    using keeps_liveD [OF callback_live [OF f(1)] f(2)] st by (simp add: in_state_def)
  from arrival_live [OF this c2 le alloc run] show ?thesis by (auto simp: live_iff_linked gone_def)
qed

theorem client_event_keeps_links_witness:
  "\<exists>env w w' c'. client_step env 4 0 w w' \<and> linked w' 0 c' \<and> c_client_fd c' = 4"
proof -
  let ?env = "(sample_env [])\<lparr>e_send := \<lambda>_ _. Takes 2\<rparr>"
  have "parser_tag_ok sample_logged_in" by (simp add: sample_logged_in_def parser_tag_ok_def)
  then obtain s where l: "linked (sample_world s [] sample_logged_in) 0 sample_logged_in"
    using sample_linked [of AUTH_WRITE "-1" AUTH_PARSER "P_auth (zero_auth\<lparr>ap_auth_status := AUTH_SUCCESS\<rparr>)" "[]"]
    by (auto simp: sample_logged_in_def AUTH_WRITE_def)
  have st: "in_state sample_logged_in AUTH_WRITE"
    by (simp add: sample_logged_in_def in_state_def client_state_defs)
  obtain c' w' where run: "handle_write_client ?env (4, Some (ClientPtr 0)) (sample_world s [] sample_logged_in) =
      Inr (put_client 0 c' w')"
    using auth_reply(1) [OF l st, of "zero_auth\<lparr>ap_auth_status := AUTH_SUCCESS\<rparr>" ?env 4 2]
    by (auto simp: sample_logged_in_def)
  then have step: "client_step ?env 4 0 (sample_world s [] sample_logged_in) (put_client 0 c' w')"
    by (simp add: client_step_def)
  have "e_alloc ?env A_parser" by simp
  from client_event_keeps_links [OF step l st this] show ?thesis using step
    by (auto simp: sample_logged_in_def)
qed

end
