(* ===== verification/Connecting.thy ===== *)
theory Connecting
  imports Request_Parsing Connections
begin

text \<open>
  From a request to a connection: what the client is told when it fails, in which order the
  addresses are tried, what a failed attempt leaves behind, and the reply that ends the phase.
\<close>

section \<open>Nothing is sent\<close>

definition is_sent :: "action \<Rightarrow> bool" where
  "is_sent x \<longleftrightarrow> (\<exists>fd bs. x = Sent fd bs)"

definition quiet :: "world \<Rightarrow> world \<Rightarrow> bool" where
  "quiet w w' \<longleftrightarrow> (\<exists>xs. w_trace w' = w_trace w @ xs \<and> (\<forall>x \<in> set xs. \<not> is_sent x))"

lemma quiet_refl [simp]: "quiet w w"
  by (simp add: quiet_def)

lemma quiet_trans: "quiet w w1 \<Longrightarrow> quiet w1 w2 \<Longrightarrow> quiet w w2"
  by (fastforce simp: quiet_def)

lemma quiet_simps [simp]:
  "quiet w (put_client a c w1) = quiet w w1" "quiet w (free_client a w1) = quiet w w1"
  "quiet w (w1\<lparr>w_sel := s\<rparr>) = quiet w w1" "quiet w (w1\<lparr>w_errno := e\<rparr>) = quiet w w1"
  "quiet w (w1\<lparr>w_stats := st\<rparr>) = quiet w w1" "quiet w (w1\<lparr>w_clients := cs\<rparr>) = quiet w w1"
  by (simp_all add: quiet_def free_client_def)

lemma quiet_emit: "quiet w w1 \<Longrightarrow> \<not> is_sent x \<Longrightarrow> quiet w (emit x w1)"
  by (auto simp: quiet_def)

lemma not_sent [simp]: "\<not> is_sent (Recv fd bs)" "\<not> is_sent (Closed fd)" "\<not> is_sent (Connecting fd ai)"
  by (simp_all add: is_sent_def)

definition silent :: "world \<Rightarrow> ('a \<times> world) res \<Rightarrow> bool" where
  "silent w r \<longleftrightarrow> (\<forall>ret w'. r = Inr (ret, w') \<longrightarrow> quiet w w')"

lemma silentD: "silent w r \<Longrightarrow> r = Inr (ret, w') \<Longrightarrow> quiet w w'"
  by (simp add: silent_def)

lemma handle_request_fin_silent: "silent w (handle_request_fin env (fd, Some (ClientPtr a)) rp w)"
  unfolding silent_def handle_request_fin_def start_connect_def setup_lookup_def
  by (auto simp: Let_def split: if_splits)

lemma fin_events_silent: "silent w (fin_events env (fd, Some (ClientPtr a)) a evs w)"
proof (induction evs)
  case (Cons ev evs)
  then show ?case
    by (auto simp: silent_def fail_request_def split: if_splits dest!: silentD [OF handle_request_fin_silent])
qed (simp add: silent_def)

lemma request_event_silent: "silent w (request_event env (fd, Some (ClientPtr a)) a ev w)"
  unfolding request_event_def silent_def
  by (auto simp: refuse_def fail_request_def split: if_splits
      dest!: silentD [OF handle_request_fin_silent] silentD [OF fin_events_silent]; simp add: quiet_def)

lemma request_bytes_silent: "silent w (request_bytes env (fd, Some (ClientPtr a)) a bs w)"
proof (induction bs arbitrary: w)
  case (Cons b bs)
  show ?case
    unfolding silent_def
    by (auto split: option.splits dest!: silentD [OF request_event_silent] silentD [OF Cons.IH]; fastforce simp: quiet_def)
qed (simp add: silent_def)

lemma request_read_silent: "silent w (request_read env (fd, Some (ClientPtr a)) w)"
  unfolding request_read_def silent_def sys_recv_def
  by (auto simp: Let_def split: if_splits prod.splits recv_answer.splits dest!: silentD [OF request_bytes_silent]
      intro: quiet_emit; auto simp: quiet_def)

lemma dns_lookup_silent: "silent w (dns_lookup env (fd, Some (ClientPtr a)) w)"
  unfolding dns_lookup_def silent_def
  by (auto simp: Let_def split: if_splits)

lemma connect_loop_silent: "silent w (connect_loop env key a addrs w)"
proof (induction addrs arbitrary: w)
  case (Cons addr rest)
  show ?case
    unfolding silent_def
    by (auto simp: Let_def sys_close_def split: if_splits connect_answer.splits dest!: silentD [OF Cons.IH];
        auto simp: quiet_def)
qed (simp add: silent_def)

lemma try_connect_silent: "silent w (try_connect env (fd, Some (ClientPtr a)) w)"
  unfolding try_connect_def connect_next_def silent_def
  by (auto simp: Let_def sys_close_def split: if_splits option.splits dest!: silentD [OF connect_loop_silent];
      auto simp: quiet_def)

lemma torn_down_quiet: "quiet w w2 \<Longrightarrow> quiet w (torn_down a c w2)"
  by (auto simp: quiet_def torn_down_def Let_def)


text \<open>An unresolvable name, whose error code the client never sees.\<close>

definition sample_resolving :: client_t where
  "sample_resolving = (sample_client DNS_LOOKUP (-1) REQUEST_PARSER (P_request zero_request))
     \<lparr>c_dns_req := Some \<lparr>ar_name = Some [97], ar_service = [56, 48]\<rparr>\<rparr>"


section \<open>The addresses are tried in order\<close>

text \<open>
  An attempt fails at once when there is no socket or the connection is refused. The answers are
  indexed by the number of addresses not tried yet.
\<close>

definition attempt_fails :: "env \<Rightarrow> nat \<Rightarrow> bool" where
  "attempt_fails env n \<longleftrightarrow> e_socket env n < 0 \<or> (\<exists>e. e_connect env n = ConnectErr e \<and> e \<noteq> EINPROGRESS)"

fun all_fail :: "env \<Rightarrow> addrinfo list \<Rightarrow> nat \<Rightarrow> bool" where
  "all_fail env [] m = True"
| "all_fail env (b # bs) m = (attempt_fails env (Suc (length bs) + m) \<and> all_fail env bs m)"

fun failed_trace :: "env \<Rightarrow> addrinfo list \<Rightarrow> nat \<Rightarrow> action list" where
  "failed_trace env [] m = []"
| "failed_trace env (b # bs) m =
     (let s = e_socket env (Suc (length bs) + m)
      in (if s < 0 then [] else [Connecting s b, Closed s]) @ failed_trace env bs m)"

lemma connect_skip:
  "all_fail env bad (length rest) \<Longrightarrow> \<exists>e. connect_loop env key a (bad @ rest) w =
     connect_loop env key a rest (w\<lparr>w_errno := e, w_trace := w_trace w @ failed_trace env bad (length rest)\<rparr>)"
proof (induction bad arbitrary: w)
  case Nil
  show ?case by (intro exI [of _ "w_errno w"]) simp
next
  case (Cons b bad)
  let ?n = "Suc (length bad) + length rest" and ?s = "e_socket env (Suc (length bad) + length rest)"
  have fails: "attempt_fails env ?n" and rest: "all_fail env bad (length rest)" using Cons.prems by simp_all
  show ?case
  proof (cases "?s < 0")
    case True
    then show ?thesis using Cons.IH [OF rest, of w] by simp
  next
    case False
    then obtain e where e: "e_connect env ?n = ConnectErr e" "e \<noteq> EINPROGRESS"
      using fails by (auto simp: attempt_fails_def)
    let ?w = "sys_close ?s (emit (Connecting ?s b) (w\<lparr>w_errno := e\<rparr>))"
    have step: "connect_loop env key a ((b # bad) @ rest) w = connect_loop env key a (bad @ rest) ?w"
      using False e by (simp add: Let_def)
    from Cons.IH [OF rest, of ?w] False show ?thesis unfolding step by (simp add: sys_close_def emit_def Let_def)
  qed
qed

lemma connect_attempt:
  assumes c: "w_clients w a = Some c" and ok: "selector_ok (w_sel w)" and rp: "request_of c = Inr rp"
    and s: "e_socket env (Suc (length rest)) = s" "\<not> INVALID_FD s" "sel_lookup (w_sel w) s = None"
    and answer: "e_connect env (Suc (length rest)) \<in> {Connected, ConnectErr EINPROGRESS}"
    and fd: "c_client_fd c \<noteq> s"
  shows "\<exists>c' w'. connect_loop env (fd, Some (ClientPtr a)) a (good # rest) w =
      Inr (Some (if e_connect env (Suc (length rest)) = Connected then REQUEST_WRITE else DEST_CONNECT), put_client a c' w') \<and>
    c_destination_fd c' = s \<and> c_dest_addr c' = good # rest \<and> c_stm c' = c_stm c \<and>
    w_trace w' = w_trace w @ [Connecting s good] \<and>
    sel_lookup (w_sel w') s = Some (OP_WRITE, Some CLIENT_HANDLER, Some (ClientPtr a)) \<and>
    (e_connect env (Suc (length rest)) = Connected \<longrightarrow> answered_with 0 c')"
proof -
  let ?n = "Suc (length rest)"
  obtain sel where sel: "selector_register (e_alloc env A_selector) (e_realloc_junk env) (w_sel w) s (Some CLIENT_HANDLER)
      OP_WRITE (Some (ClientPtr a)) = Inr (SELECTOR_SUCCESS, sel)" "selector_ok sel"
    "sel_lookup sel = (sel_lookup (w_sel w))(s \<mapsto> (OP_WRITE, Some CLIENT_HANDLER, Some (ClientPtr a)))"
    using selector_register_fresh [OF ok s(2,3)] by blast
  have pos: "\<not> s < 0" using s(2) by (auto simp: INVALID_FD_def)
  let ?c1 = "c\<lparr>c_destination_fd := s, c_dest_addr := good # rest\<rparr>"
  have rp1: "request_of ?c1 = Inr rp" using rp by (auto simp: request_of_def split: parser_union.splits)
  show ?thesis
  proof (cases "e_connect env ?n = Connected")
    case True
    let ?w3 = "put_client a ?c1 (emit (Connecting s good) (w\<lparr>w_errno := 0, w_sel := sel\<rparr>))"
    have "selector_ok (w_sel ?w3)" using sel by simp
    note si = set_interest_ok [OF this, of "c_client_fd c" OP_WRITE]
    have "sel_lookup (upd_interest sel (c_client_fd c) OP_WRITE) s = Some (OP_WRITE, Some CLIENT_HANDLER, Some (ClientPtr a))"
      using si(3) sel(3) fd by (simp add: with_interest_apply)
    then show ?thesis
      using c sel(1) s(1) pos True si(1) rp1
      by (intro exI [of _ "?c1\<lparr>c_parser := P_request (rp\<lparr>rp_reply_status := 0\<rparr>)\<rparr>"]
          exI [of _ "emit (Connecting s good) (w\<lparr>w_errno := 0, w_sel := upd_interest sel (c_client_fd c) OP_WRITE\<rparr>)"])
        (simp add: Let_def upd_request_def SOCKS_REPLY_SUCCESS_def answered_with_def)
  next
    case False
    then have e: "e_connect env ?n = ConnectErr EINPROGRESS" using answer by simp
    then show ?thesis
      using c sel s(1) pos
      by (intro exI [of _ ?c1] exI [of _ "emit (Connecting s good) (w\<lparr>w_errno := EINPROGRESS, w_sel := sel\<rparr>)"])
        (simp add: Let_def)
  qed
qed

text \<open>
  C24. The addresses of the destination are tried in order: those whose attempt fails are closed
  again, the first that accepts (or is still connecting) becomes the destination of the client, is
  registered for writing, and none after it is tried.
\<close>

theorem connects_to_first_reachable:
  assumes l: "linked w a c" and st: "in_state c DEST_CONNECT" and none: "c_destination_fd c = -1"
    and rp: "c_parser c = P_request rp" and addrs: "c_dest_addr c = bad @ good # rest"
    and bad: "all_fail env bad (Suc (length rest))"
    and s: "e_socket env (Suc (length rest)) = s" "\<not> INVALID_FD s" "sel_lookup (w_sel w) s = None"
    and answer: "e_connect env (Suc (length rest)) \<in> {Connected, ConnectErr EINPROGRESS}"
  shows "\<exists>w' c'. handle_write_client env (fd, Some (ClientPtr a)) w = Inr w' \<and> w_clients w' a = Some c' \<and>
    in_state c' (if e_connect env (Suc (length rest)) = Connected then REQUEST_WRITE else DEST_CONNECT) \<and>
    (e_connect env (Suc (length rest)) = Connected \<longrightarrow> answered_with 0 c') \<and>
    c_destination_fd c' = s \<and> c_dest_addr c' = good # rest \<and>
    sel_lookup (w_sel w') s = Some (OP_WRITE, Some CLIENT_HANDLER, Some (ClientPtr a)) \<and>
    w_trace w' = w_trace w @ failed_trace env bad (Suc (length rest)) @ [Connecting s good]"
proof -
  let ?k = "(fd, Some (ClientPtr a))" and ?n = "Suc (length rest)"
  let ?st = "if e_connect env ?n = Connected then REQUEST_WRITE else DEST_CONNECT"
  from l have c: "w_clients w a = Some c" and ok: "selector_ok (w_sel w)" and own: "owned w a (c_client_fd c)"
    by (simp_all add: linked_def)
  have "all_fail env bad (length (good # rest))" using bad by simp
  from connect_skip [OF this] obtain e where skip: "connect_loop env ?k a (bad @ good # rest) w =
      connect_loop env ?k a (good # rest) (w\<lparr>w_errno := e, w_trace := w_trace w @ failed_trace env bad (length (good # rest))\<rparr>)"
      (is "_ = connect_loop env ?k a _ ?w1") by blast
  have neq: "c_client_fd c \<noteq> s" using own s(3) by (auto simp: owned_def)
  have pre: "w_clients ?w1 a = Some c" "selector_ok (w_sel ?w1)" "request_of c = Inr rp" "sel_lookup (w_sel ?w1) s = None"
    using c ok rp s(3) by simp_all
  obtain c' w' where att: "connect_loop env ?k a (good # rest) ?w1 = Inr (Some ?st, put_client a c' w')"
    and c': "c_destination_fd c' = s" "c_dest_addr c' = good # rest" "c_stm c' = c_stm c"
      "w_trace w' = w_trace ?w1 @ [Connecting s good]"
      "sel_lookup (w_sel w') s = Some (OP_WRITE, Some CLIENT_HANDLER, Some (ClientPtr a))"
      "e_connect env ?n = Connected \<longrightarrow> answered_with 0 c'"
    using connect_attempt [where good = good and fd = fd, OF pre(1-3) s(1,2) pre(4) answer neq] by blast
  have run: "try_connect env ?k w = Inr (?st, put_client a c' w')"
    unfolding try_connect_def connect_next_def using c none addrs skip att by (simp del: connect_loop.simps)
  have "handle_write_client env ?k w = after_event env DEST_CONNECT ?st ?k a c' (put_client a c' w')"
    by (rule write_event [where f = "try_connect env", OF c st _ run]) (use c' in auto)
  then show ?thesis using st c'
    by (auto simp: after_event_simps in_state_def answered_with_def)
qed

definition sample_dialing :: "addrinfo list \<Rightarrow> client_t" where
  "sample_dialing addrs = (sample_client DEST_CONNECT (-1) REQUEST_PARSER (P_request zero_request))
     \<lparr>c_dest_addr := addrs\<rparr>"

definition local_port :: "16 word \<Rightarrow> addrinfo" where
  "local_port p = \<lparr>ai_family = AF_INET, ai_host = [127, 0, 0, 1], ai_port = p\<rparr>"

lemma sample_dialing_linked:
  obtains s where "linked (put_client 0 (sample_dialing addrs) (sample_world s [] (sample_dialing addrs))) 0 (sample_dialing addrs)"
    and "sel_lookup s = [4 \<mapsto> (OP_READ, Some CLIENT_HANDLER, Some (ClientPtr 0)),
                         5 \<mapsto> (OP_READ, Some CLIENT_HANDLER, Some (ClientPtr 0))]"
    and "in_state (sample_dialing addrs) DEST_CONNECT"
proof -
  let ?c0 = "sample_client DEST_CONNECT (-1) REQUEST_PARSER (P_request zero_request)"
  have "parser_tag_ok ?c0" by (simp add: parser_tag_ok_def)
  then obtain s where l0: "linked (sample_world s [] ?c0) 0 ?c0"
    "sel_lookup s = [4 \<mapsto> (OP_READ, Some CLIENT_HANDLER, Some (ClientPtr 0)),
                     5 \<mapsto> (OP_READ, Some CLIENT_HANDLER, Some (ClientPtr 0))]"
    using sample_linked [of DEST_CONNECT "-1" REQUEST_PARSER "P_request zero_request" "[]"] by (auto simp: DEST_CONNECT_def)
  have "linked (put_client 0 (sample_dialing addrs) (sample_world s [] ?c0)) 0 (sample_dialing addrs)"
    by (rule linked_put [OF l0(1)]) (simp_all add: sample_dialing_def parser_tag_ok_def)
  moreover have "put_client 0 (sample_dialing addrs) (sample_world s [] ?c0) =
      put_client 0 (sample_dialing addrs) (sample_world s [] (sample_dialing addrs))"
    by (simp add: put_client_def sample_world_def)
  ultimately show ?thesis
    using that l0(2) by (simp add: sample_dialing_def in_state_def client_state_defs)
qed

text \<open>Two addresses, the first of which refuses.\<close>

theorem connects_to_first_reachable_witness:
  "\<exists>env w w' c'. handle_write_client env (4, Some (ClientPtr 0)) w = Inr w' \<and> w_clients w' 0 = Some c' \<and>
     c_destination_fd c' = 7 \<and> c_dest_addr c' = [local_port 81] \<and>
     w_trace w' = w_trace w @ [Connecting 8 (local_port 80), Closed 8, Connecting 7 (local_port 81)]"
proof -
  let ?addrs = "[local_port 80, local_port 81]"
  let ?env = "(sample_env [])\<lparr>e_socket := \<lambda>n. if n = 2 then 8 else 7,
      e_connect := \<lambda>n. if n = 2 then ConnectErr 111 else Connected\<rparr>"
  obtain s where s: "linked (put_client 0 (sample_dialing ?addrs) (sample_world s [] (sample_dialing ?addrs))) 0 (sample_dialing ?addrs)"
    "sel_lookup s = [4 \<mapsto> (OP_READ, Some CLIENT_HANDLER, Some (ClientPtr 0)), 5 \<mapsto> (OP_READ, Some CLIENT_HANDLER, Some (ClientPtr 0))]"
    "in_state (sample_dialing ?addrs) DEST_CONNECT"
    by (rule sample_dialing_linked)
  let ?w = "put_client 0 (sample_dialing ?addrs) (sample_world s [] (sample_dialing ?addrs))"
  have "\<exists>w' c'. handle_write_client ?env (4, Some (ClientPtr 0)) ?w = Inr w' \<and> w_clients w' 0 = Some c' \<and>
      c_destination_fd c' = 7 \<and> c_dest_addr c' = [local_port 81] \<and>
      w_trace w' = w_trace ?w @ failed_trace ?env [local_port 80] (Suc 0) @ [Connecting 7 (local_port 81)]"
    using connects_to_first_reachable [OF s(1,3), of zero_request "[local_port 80]" "local_port 81" "[]" ?env 7 4] s(2)
    by (auto simp: sample_dialing_def attempt_fails_def EINPROGRESS_def INVALID_FD_iff numeral_2_eq_2)
  moreover have "failed_trace ?env [local_port 80] (Suc 0) @ [Connecting 7 (local_port 81)] =
      [Connecting 8 (local_port 80), Closed 8, Connecting 7 (local_port 81)]"
    by (simp add: numeral_2_eq_2)
  ultimately show ?thesis by metis
qed

section \<open>What a failed connection leaves behind\<close>

text \<open>
  C31. When the last address fails after its connection was started, the socket is closed but its
  registration stays in the selector, and it still points to the client, which is freed in the same
  event: an event reported for that descriptor afterwards uses freed memory.
\<close>

theorem failed_connection_leaks_registration:
  assumes l: "linked w a c" and st: "in_state c DEST_CONNECT" and d: "c_destination_fd c = d" "d \<noteq> -1"
    and so: "e_so_error env = Some e" "e \<notin> {0, EINPROGRESS, EALREADY}" and last: "c_dest_addr c = [ai]"
  shows "\<exists>w'. handle_write_client env (fd, Some (ClientPtr a)) w = Inr w' \<and> w_clients w' a = None \<and> owned w' a d \<and>
    handle_read_client env' (d, Some (ClientPtr a)) w' = Inl UseAfterFree"
proof -
  let ?k = "(fd, Some (ClientPtr a))"
  from l have c: "w_clients w a = Some c" and ok: "selector_ok (w_sel w)" by (simp_all add: linked_def)
  let ?c1 = "c\<lparr>c_destination_fd := -1, c_dest_addr := [], c_err := 3\<rparr>"
  let ?w1 = "put_client a ?c1 (emit (Closed d) (w\<lparr>w_sel := upd_interest (w_sel w) fd OP_WRITE\<rparr>))"
  have run: "try_connect env ?k w = Inr (ERROR, ?w1)"
    using c d so last ok set_interest_recv [OF ok]
    by (simp add: try_connect_def connect_next_def sys_close_def set_interest_key_eq set_err_def set_interest_ok(1))
  have l1: "linked ?w1 a ?c1"
    using l ok set_interest_ok(2) [OF ok] by (auto simp: linked_def parser_tag_ok_def owned_def interest_simps with_interest_apply
        split: parser_state_t.splits)
  have "handle_write_client env ?k w = Inr (torn_down a ?c1 ?w1)"
    using write_event [where f = "try_connect env", OF c st _ run] after_error [OF l1, of DEST_CONNECT env fd]
    by (simp add: client_state_neq)
  moreover have own: "owned (torn_down a ?c1 ?w1) a d"
    using torn_down_world(3) [OF l1] l d ok
    by (auto simp: linked_def owned_def interest_simps with_interest_apply)
  moreover have "handle_read_client env' (d, Some (ClientPtr a)) w' = Inl UseAfterFree" if "w_clients w' a = None" for w'
    using that by (simp add: handle_read_event stm_event_def handle_first_def client_machine_def get_client_def)
  ultimately show ?thesis using torn_down_world(2) [OF l1] by blast
qed

text \<open>A refused connection (111 is \<^verbatim>\<open>ECONNREFUSED\<close>) to the only address, on descriptor 5.\<close>

theorem failed_connection_leaks_registration_witness:
  "\<exists>env w w'. handle_write_client env (4, Some (ClientPtr 0)) w = Inr w' \<and> w_clients w' 0 = None \<and> owned w' 0 5 \<and>
     handle_read_client env (5, Some (ClientPtr 0)) w' = Inl UseAfterFree"
proof -
  let ?base = "sample_client DEST_CONNECT 5 REQUEST_PARSER (P_request zero_request)"
  let ?c = "?base\<lparr>c_dest_addr := [local_port 80]\<rparr>" and ?env = "(sample_env [])\<lparr>e_so_error := Some 111\<rparr>"
  have "parser_tag_ok ?base" by (simp add: parser_tag_ok_def)
  then obtain s where l0: "linked (sample_world s [] ?base) 0 ?base"
    using sample_linked [of DEST_CONNECT 5 REQUEST_PARSER "P_request zero_request" "[]"] by (auto simp: DEST_CONNECT_def)
  have l: "linked (put_client 0 ?c (sample_world s [] ?base)) 0 ?c"
    by (rule linked_put [OF l0]) (simp_all add: parser_tag_ok_def)
  have st: "in_state ?c DEST_CONNECT" by (simp add: in_state_def client_state_defs)
  have args: "c_destination_fd ?c = 5" "(5::int) \<noteq> -1" "e_so_error ?env = Some 111"
    "(111::int) \<notin> {0, EINPROGRESS, EALREADY}" "c_dest_addr ?c = [local_port 80]"
    by (simp_all add: EINPROGRESS_def EALREADY_def)
  from failed_connection_leaks_registration [OF l st args] show ?thesis by blast
qed

section \<open>The reply\<close>

lemma forward_setup_ok:
  assumes l: "linked w a c" and d: "c_destination_fd c \<noteq> -1"
  obtains s where "forward_setup state (fd, Some (ClientPtr a)) w = Inr (w\<lparr>w_sel := s\<rparr>)"
    and "linked (w\<lparr>w_sel := s\<rparr>) a c"
    and "map_option fst (sel_lookup s (c_client_fd c)) = Some OP_READ"
    and "map_option fst (sel_lookup s (c_destination_fd c)) = Some OP_READ"
proof -
  let ?n = "c_client_fd c" and ?d = "c_destination_fd c"
  let ?w1 = "w\<lparr>w_sel := upd_interest (w_sel w) ?n OP_READ\<rparr>"
  let ?s = "upd_interest (w_sel ?w1) ?d OP_READ"
  note L = l [unfolded linked_def]
  from L have ok: "selector_ok (w_sel w)" and w: "w_clients w a = Some c" by simp_all
  note i1 = set_interest_ok [OF ok, of ?n OP_READ]
  have ok1: "selector_ok (w_sel ?w1)" using i1(2) by simp
  note i2 = set_interest_ok [OF ok1, of ?d OP_READ]
  have lk: "sel_lookup ?s = with_interest (with_interest (sel_lookup (w_sel w)) ?n OP_READ) ?d OP_READ"
    using i2(3) i1(3) by simp
  have own: "owned w a ?n" "owned w a ?d" "?d \<noteq> ?n" using L d by simp_all
  have "forward_setup state (fd, Some (ClientPtr a)) w = Inr (w\<lparr>w_sel := ?s\<rparr>)"
    using i1(1) i2(1) w by (simp add: forward_setup_def)
  moreover have "linked (w\<lparr>w_sel := ?s\<rparr>) a c"
    using L i2(2) lk by (auto simp: linked_def owned_def with_interest_apply)
  moreover have "map_option fst (sel_lookup ?s ?n) = Some OP_READ" "map_option fst (sel_lookup ?s ?d) = Some OP_READ"
    using own unfolding lk by (auto simp: owned_def with_interest_apply)
  ultimately show ?thesis by (rule that)
qed



end
