(* ===== verification/Relay.thy ===== *)
theory Relay
  imports Connections
begin

text \<open>
  What the relay of \<^verbatim>\<open>forwarding.c\<close> promises: it is transparent. Over any run of events on
  the two descriptors of a connection, the bytes sent to one side are the bytes received from the
  other, in order, apart from those still in the buffer between them. The buffer enters through the
  laws of \<open>byte_fifo\<close> only.
\<close>

section \<open>What went over a descriptor\<close>

fun bytes_in :: "int \<Rightarrow> action list \<Rightarrow> byte list" where
  "bytes_in fd [] = []"
| "bytes_in fd (Recv fd' bs # xs) = (if fd' = fd then bs else []) @ bytes_in fd xs"
| "bytes_in fd (x # xs) = bytes_in fd xs"

fun bytes_out :: "int \<Rightarrow> action list \<Rightarrow> byte list" where
  "bytes_out fd [] = []"
| "bytes_out fd (Sent fd' bs # xs) = (if fd' = fd then bs else []) @ bytes_out fd xs"
| "bytes_out fd (x # xs) = bytes_out fd xs"

lemma received_append [simp]: "bytes_in fd (xs @ ys) = bytes_in fd xs @ bytes_in fd ys"
  by (induction xs rule: bytes_in.induct) auto

lemma sent_append [simp]: "bytes_out fd (xs @ ys) = bytes_out fd xs @ bytes_out fd ys"
  by (induction xs rule: bytes_out.induct) auto

text \<open>The two ends of a connection: \<open>True\<close> is the client's.\<close>

definition end_of :: "int \<Rightarrow> int \<Rightarrow> bool \<Rightarrow> int" where
  "end_of n d from_client = (if from_client then n else d)"

text \<open>
  The state of both directions after the actions \<open>t\<close>: what one end received is what the other was
  sent, followed by what waits in the buffer of that direction.
\<close>

definition flow :: "int \<Rightarrow> int \<Rightarrow> action list \<Rightarrow> client_t \<Rightarrow> bool" where
  "flow n d t c \<longleftrightarrow> (\<forall>f. buffer_ok (source_buffer f c) \<and>
     bytes_in (end_of n d f) t = bytes_out (end_of n d (\<not> f)) t @ contents (source_buffer f c))"

lemma source_buffer_set [simp]:
  "source_buffer f (set_source_buffer g b c) = (if f = g then b else source_buffer f c)"
  by (simp add: source_buffer_def set_source_buffer_def)

lemma source_buffer_fields [simp]:
  "source_buffer f (c\<lparr>c_client_closed := x\<rparr>) = source_buffer f c" "source_buffer f (c\<lparr>c_dest_closed := x\<rparr>) = source_buffer f c"
  "source_buffer f (moved c k) = source_buffer f c"
  by (simp_all add: source_buffer_def)

lemma set_source_buffer_fields [simp]:
  "c_client_fd (set_source_buffer f b c) = c_client_fd c" "c_destination_fd (set_source_buffer f b c) = c_destination_fd c"
  "c_stm (set_source_buffer f b c) = c_stm c" "parser_tag_ok (set_source_buffer f b c) = parser_tag_ok c"
  "c_client_closed (set_source_buffer f b c) = c_client_closed c" "c_dest_closed (set_source_buffer f b c) = c_dest_closed c"
  by (simp_all add: set_source_buffer_def parser_tag_ok_def split: parser_state_t.splits)

lemma flow_fields [simp]:
  "flow n d t (c\<lparr>c_client_closed := x\<rparr>) = flow n d t c" "flow n d t (c\<lparr>c_dest_closed := x\<rparr>) = flow n d t c"
  "flow n d t (moved c k) = flow n d t c"
  by (simp_all add: flow_def)

lemma flow_silent [simp]:
  "flow n d (t @ [Shutdown fd]) c = flow n d t c" "flow n d (t @ [Closed fd]) c = flow n d t c"
  "flow n d (t @ [Recv fd []]) c = flow n d t c" "flow n d (t @ [Sent fd []]) c = flow n d t c"
  by (simp_all add: flow_def)

lemma flow_received:
  assumes "flow n d t c" and "n \<noteq> d" and "length bs \<le> buffer_space (source_buffer f c)"
    and "buffer_fill (source_buffer f c) bs = Inr b"
  shows "flow n d (t @ [Recv (end_of n d f) bs]) (set_source_buffer f b c)"
  using assms buf.fill_Inr [OF _ assms(4)] by (cases f) (auto simp: flow_def end_of_def)

lemma flow_sent:
  assumes "flow n d t c" and "n \<noteq> d"
    and "buffer_read_adv (source_buffer (\<not> f) c) (int k) = Inr b"
  shows "flow n d (t @ [Sent (end_of n d f) (take k (contents (source_buffer (\<not> f) c)))]) (set_source_buffer (\<not> f) b c)"
  using assms buf.consume_Inr [OF _ assms(3)] by (cases f) (auto simp: flow_def end_of_def)

section \<open>Both callbacks keep the flow\<close>

definition relaying :: "nat \<Rightarrow> int \<Rightarrow> int \<Rightarrow> action list \<Rightarrow> world \<Rightarrow> bool" where
  "relaying a n d t0 w \<longleftrightarrow> (\<exists>c t. w_clients w a = Some c \<and> c_client_fd c = n \<and> c_destination_fd c = d \<and>
     w_trace w = t0 @ t \<and> flow n d t c)"

text \<open>The blocks the callbacks hand to \<^verbatim>\<open>send\<close> and \<^verbatim>\<open>recv\<close>, in terms of the queue.\<close>

lemma readable_contents:
  "buffer_read_ptr b = Inr (ptr, readable) \<Longrightarrow> take readable (drop ptr (b_data b)) = contents b"
  by (auto simp: buffer_read_ptr_def contents_def)

lemma stored_fill:
  "buffer_write_ptr b = Inr (ptr, nbytes) \<Longrightarrow> arr_blit (b_data b) ptr bs = Inr data \<Longrightarrow>
     buffer_write_adv (b\<lparr>b_data := data\<rparr>) (int (length bs)) = Inr b' \<Longrightarrow> buffer_fill b bs = Inr b'"
  by (simp add: buffer_fill_def)

lemma writable_space:
  "buffer_write_ptr b = Inr (ptr, nbytes) \<Longrightarrow> nbytes = buffer_space b"
  by (auto simp: buffer_write_ptr_def buffer_space_def)

text \<open>What a read and a write of the sockets leave, as one step of the flow.\<close>

definition reliable :: "env \<Rightarrow> bool" where
  "reliable env \<longleftrightarrow> (\<forall>fd. (\<exists>bs. e_recv env fd = Avail bs) \<or> e_recv env fd = RecvErr EAGAIN) \<and>
     (\<forall>i fd. (\<exists>k > 0. e_send env i fd = Takes k) \<or> e_send env i fd = SendErr EAGAIN)"

lemma reliableD:
  "reliable env \<Longrightarrow> e_send env i fd = SendErr e \<Longrightarrow> e = EAGAIN"
  "reliable env \<Longrightarrow> e_send env i fd = Takes k \<Longrightarrow> 0 < k"
  "reliable env \<Longrightarrow> e_recv env fd = RecvErr e \<Longrightarrow> e = EAGAIN"
  unfolding reliable_def by (metis send_answer.distinct(1) send_answer.inject(2), 
    metis send_answer.distinct(1) send_answer.inject(1), metis recv_answer.distinct(1) recv_answer.inject(2))

definition progress :: "env \<Rightarrow> nat \<Rightarrow> int \<Rightarrow> int \<Rightarrow> action list \<Rightarrow> nat \<Rightarrow> world \<Rightarrow> bool" where
  "progress env a n d t0 ret w \<longleftrightarrow> relaying a n d t0 w \<and> (reliable env \<longrightarrow> ret \<noteq> ERROR)"

lemma relaying_put:
  "relaying a n d t0 (put_client a c w) \<longleftrightarrow> c_client_fd c = n \<and> c_destination_fd c = d \<and>
     (\<exists>t. w_trace w = t0 @ t \<and> flow n d t c)"
  by (auto simp: relaying_def)

lemma relaying_plain [simp]:
  "relaying a n d t0 (w\<lparr>w_errno := e\<rparr>) = relaying a n d t0 w"
  "relaying a n d t0 (w\<lparr>w_stats := st\<rparr>) = relaying a n d t0 w"
  "relaying a n d t0 (w\<lparr>w_sel := s\<rparr>) = relaying a n d t0 w"
  "relaying a n d t0 (put_client a c (emit x (w\<lparr>w_errno := e\<rparr>))) = relaying a n d t0 (put_client a c (emit x w))"
  "relaying a n d t0 (put_client a c (emit x (w\<lparr>w_stats := st\<rparr>))) = relaying a n d t0 (put_client a c (emit x w))"
  "relaying a n d t0 (put_client a c (emit x (w\<lparr>w_sel := s\<rparr>))) = relaying a n d t0 (put_client a c (emit x w))"
  by (simp_all add: relaying_def)

lemma relaying_silent [simp]:
  "relaying a n d t0 w \<Longrightarrow> relaying a n d t0 (sys_shutdown fd w)"
  "relaying a n d t0 w \<Longrightarrow> relaying a n d t0 (emit (Shutdown fd) w)"
  "relaying a n d t0 w \<Longrightarrow> relaying a n d t0 (emit (Sent fd []) w)"
  "relaying a n d t0 w \<Longrightarrow> relaying a n d t0 (emit (Recv fd []) w)"
  by (force simp: relaying_def sys_shutdown_def)+

lemma relaying_emit:
  assumes "relaying a n d t0 w" and "w_clients w a = Some c"
    and "\<And>t. flow n d t c \<Longrightarrow> flow n d (t @ [x]) c'" and "c_client_fd c' = c_client_fd c"
    and "c_destination_fd c' = c_destination_fd c"
  shows "relaying a n d t0 (put_client a c' (emit x w))"
  using assms by (force simp: relaying_def)

lemma forward_write_relays:
  assumes r: "relaying a n d t0 w" and nd: "n \<noteq> d" and fd: "fd \<in> {n, d}"
    and run: "forward_write env (fd, Some (ClientPtr a)) w = Inr (ret, w')"
  shows "progress env a n d t0 ret w'"
proof -
  from r obtain c where c: "w_clients w a = Some c" "c_client_fd c = n" "c_destination_fd c = d"
    by (auto simp: relaying_def)
  define f where "f \<longleftrightarrow> fd = n"
  then have fd_f: "fd = end_of n d f" using fd nd by (auto simp: end_of_def)
  let ?b = "source_buffer (\<not> f) c"
  show ?thesis
  proof (cases "buffer_can_read ?b")
    case False
    then show ?thesis using run r c f_def
      by (auto simp: forward_write_def Let_def progress_def split: if_splits)
  next
    case True
    with run c f_def obtain ptr readable where ptr: "buffer_read_ptr ?b = Inr (ptr, readable)"
      by (auto simp: forward_write_def Let_def)
    note cont = readable_contents [OF ptr]
    have ne: "contents ?b \<noteq> []"
      using True r c by (auto simp: relaying_def flow_def can_read_contents)
    show ?thesis
    proof (cases "e_send env (length (w_trace w)) fd")
      case (SendErr e)
      then show ?thesis using run r c f_def True ptr
        by (auto simp: forward_write_def Let_def sys_send_def progress_def would_block_def
            split: if_splits dest: reliableD)
    next
      case (Takes k)
      show ?thesis
      proof (cases "k = 0")
        case True
        then show ?thesis using run r c f_def \<open>buffer_can_read ?b\<close> ptr Takes
          by (auto simp: forward_write_def Let_def sys_send_def progress_def split: if_splits dest: reliableD)
      next
        case False
        let ?out = "take k (contents ?b)"
        have out: "0 < length ?out" using ne False by simp
        have snd: "sys_send env fd (contents ?b) w = (int (length ?out), emit (Sent fd ?out) w)"
          using Takes by (simp add: sys_send_def)
        have take_out: "take (length ?out) (contents ?b) = ?out" by (simp add: min_def)
        from run r c f_def True ptr cont snd out obtain b' where
          adv: "buffer_read_adv ?b (int (length ?out)) = Inr b'"
          by (auto simp: forward_write_def Let_def simp del: length_take split: if_splits)
        have *: "relaying a n d t0 (put_client a (set_source_buffer (\<not> f) b' c) (emit (Sent fd ?out) w))"
          by (rule relaying_emit [OF r c(1)])
            (use flow_sent [OF _ nd adv] fd_f take_out in auto)
        show ?thesis using run r c f_def True ptr cont snd out adv *
          by (auto simp: forward_write_def Let_def progress_def simp del: length_take split: if_splits)
      qed
    qed
  qed
qed

lemma forward_read_relays:
  assumes r: "relaying a n d t0 w" and nd: "n \<noteq> d" and fd: "fd \<in> {n, d}"
    and run: "forward_read env (fd, Some (ClientPtr a)) w = Inr (ret, w')"
  shows "progress env a n d t0 ret w'"
proof -
  from r obtain c where c: "w_clients w a = Some c" "c_client_fd c = n" "c_destination_fd c = d"
    by (auto simp: relaying_def)
  define f where "f \<longleftrightarrow> fd = n"
  then have fd_f: "fd = end_of n d f" using fd nd by (auto simp: end_of_def)
  let ?b = "source_buffer f c"
  show ?thesis
  proof (cases "buffer_can_write ?b")
    case False
    then show ?thesis using run r c f_def
      by (auto simp: forward_read_def Let_def progress_def split: if_splits)
  next
    case True
    with run c f_def obtain ptr nbytes where ptr: "buffer_write_ptr ?b = Inr (ptr, nbytes)"
      by (auto simp: forward_read_def Let_def)
    show ?thesis
    proof (cases "e_recv env fd")
      case (RecvErr e)
      then show ?thesis using run r c f_def True ptr
        by (auto simp: forward_read_def Let_def sys_recv_def progress_def would_block_def
            split: if_splits dest: reliableD)
    next
      case (Avail bs)
      let ?in = "take nbytes bs"
      show ?thesis
      proof (cases "?in = []")
        case True
        have *: "relaying a n d t0 (put_client a (c\<lparr>c_client_closed := True\<rparr>) (emit (Recv fd []) (w\<lparr>w_errno := 0\<rparr>)))"
          "relaying a n d t0 (put_client a (c\<lparr>c_dest_closed := True\<rparr>) (emit (Recv fd []) (w\<lparr>w_errno := 0\<rparr>)))"
          using r c by (auto intro!: relaying_emit [of a _ _ t0 w c])
        have rcv: "sys_recv env fd nbytes (w\<lparr>w_errno := 0\<rparr>) = (0, [], emit (Recv fd []) (w\<lparr>w_errno := 0\<rparr>))"
          using Avail True by (auto simp: sys_recv_def)
        show ?thesis using run r c f_def \<open>buffer_can_write ?b\<close> ptr rcv *
          by (auto simp: forward_read_def Let_def progress_def split: if_splits)
      next
        case False
        have rcv: "sys_recv env fd nbytes (w\<lparr>w_errno := 0\<rparr>) =
            (int (length ?in), ?in, emit (Recv fd ?in) (w\<lparr>w_errno := 0\<rparr>))"
          using Avail by (simp add: sys_recv_def)
        have pos: "0 < length ?in" using False by simp
        from run r c f_def True ptr rcv pos obtain data b' where
          st: "arr_blit (b_data ?b) ptr ?in = Inr data" "buffer_write_adv (?b\<lparr>b_data := data\<rparr>) (int (length ?in)) = Inr b'"
          by (auto simp: forward_read_def Let_def simp del: length_take split: if_splits)
        have fits: "length ?in \<le> buffer_space ?b" using writable_space [OF ptr] by simp
        have *: "relaying a n d t0 (put_client a (set_source_buffer f b' c) (emit (Recv fd ?in) (w\<lparr>w_errno := 0\<rparr>)))"
          unfolding relaying_plain
            by (rule relaying_emit [OF r c(1)]) (use c flow_received [OF _ nd fits stored_fill [OF ptr st]] fd_f in auto)
        show ?thesis using run r c f_def True ptr rcv pos st *
          by (auto simp: forward_read_def Let_def progress_def simp del: length_take split: if_splits)
      qed
    qed
  qed
qed

section \<open>Runs of the relay\<close>

text \<open>
  A run of events on the two descriptors of a connection, in any order, the operating system
  answering as it likes within \<open>good\<close>.
\<close>

inductive relay_run :: "(env \<Rightarrow> bool) \<Rightarrow> nat \<Rightarrow> int \<Rightarrow> int \<Rightarrow> world \<Rightarrow> world \<Rightarrow> bool" for good a n d where
  start: "relay_run good a n d w w"
| event: "relay_run good a n d w w1 \<Longrightarrow> good env \<Longrightarrow> fd \<in> {n, d} \<Longrightarrow> client_step env fd a w1 w2 \<Longrightarrow>
    relay_run good a n d w w2"

text \<open>The connection is relaying, or waiting in \<^verbatim>\<open>DONE\<close>, or it is over.\<close>

definition in_relay :: "nat \<Rightarrow> int \<Rightarrow> int \<Rightarrow> action list \<Rightarrow> world \<Rightarrow> bool" where
  "in_relay a n d t0 w \<longleftrightarrow> relaying a n d t0 w \<and>
     (\<exists>c. linked w a c \<and> (in_state c FORWARDING \<or> in_state c DONE))"

definition relay_over :: "bool \<Rightarrow> nat \<Rightarrow> int \<Rightarrow> int \<Rightarrow> action list \<Rightarrow> world \<Rightarrow> bool" where
  "relay_over whole a n d t0 w \<longleftrightarrow> w_clients w a = None \<and> (\<exists>t rest. w_trace w = t0 @ t \<and>
     (\<forall>f. bytes_in (end_of n d f) t = bytes_out (end_of n d (\<not> f)) t @ rest f \<and> (whole \<longrightarrow> rest f = [])))"

lemma torn_down_over:
  assumes r: "relaying a n d t0 w" and l: "linked w a c" and whole: "whole \<Longrightarrow> connection_finished c"
  shows "relay_over whole a n d t0 (torn_down a c w)"
proof -
  from r l obtain t where t: "w_trace w = t0 @ t" "flow n d t c" by (auto simp: relaying_def linked_def)
  obtain cl where cl: "w_trace (torn_down a c w) = w_trace w @ cl" "\<forall>x \<in> set cl. \<exists>fd. x = Closed fd"
    by (auto simp: torn_down_def Let_def)
  have silent: "bytes_in fd cl = [] \<and> bytes_out fd cl = []" for fd
    using cl(2) by (induction cl) auto
  have "contents (source_buffer f c) = []" if whole for f
  proof -
    have "buffer_ok (source_buffer f c)" using t(2) by (simp add: flow_def)
    moreover have "\<not> buffer_can_read (source_buffer f c)"
      using whole [OF that] by (simp add: connection_finished_def source_buffer_def)
    ultimately show ?thesis by (simp add: can_read_contents)
  qed
  moreover have "w_clients (torn_down a c w) a = None" by (simp add: torn_down_def Let_def)
  ultimately show ?thesis using cl(1) t silent
    by (auto simp: relay_over_def flow_def intro!: exI [of _ "t @ cl"] exI [of _ "\<lambda>f. contents (source_buffer f c)"])
qed

lemma after_relay:
  assumes r: "relaying a n d t0 w" and l: "linked w a c" and st: "in_state c FORWARDING"
    and ret: "ret \<in> {FORWARDING, DONE, ERROR}" and whole: "whole \<Longrightarrow> ret \<noteq> ERROR"
    and run: "after_event env FORWARDING ret (fd, Some (ClientPtr a)) a c w = Inr w'"
  shows "in_relay a n d t0 w' \<or> relay_over whole a n d t0 w'"
proof -
  have c: "w_clients w a = Some c" and mx: "stm_max_state (c_stm c) = ERROR"
    using l st by (simp_all add: linked_def in_state_def)
  from ret consider "ret = FORWARDING" | (D) "ret = DONE" | (E) "ret = ERROR" by blast
  then show ?thesis
  proof cases
    case 1
    then show ?thesis using run r l st by (auto simp: after_event_simps in_relay_def)
  next
    case D
    let ?c = "moved c DONE" and ?w = "put_client a (moved c DONE) w"
    have l2: "linked ?w a ?c" by (rule linked_moved [OF l]) simp
    have r2: "relaying a n d t0 ?w" using r c by (auto simp: relaying_def)
    show ?thesis
    proof (cases "connection_finished ?c")
      case True
      then show ?thesis using D run end_connection_finished [OF l2 True] torn_down_over [OF r2 l2]
        by (auto simp: after_event_simps)
    next
      case False
      then have "w' = ?w" using D run end_connection_unfinished [of ?w a ?c] by (simp add: after_event_simps)
      moreover have "in_state ?c DONE" using mx by simp
      ultimately show ?thesis using r2 l2 by (auto simp: in_relay_def)
    qed
  next
    case E
    then show ?thesis using run after_error [OF l] torn_down_over [OF r l, of whole] whole by auto
  qed
qed

lemma relay_event:
  assumes i: "in_relay a n d t0 w" and nd: "n \<noteq> d" and fd: "fd \<in> {n, d}" and step: "client_step env fd a w w'"
    and whole: "whole \<Longrightarrow> reliable env"
  shows "in_relay a n d t0 w' \<or> relay_over whole a n d t0 w'"
proof -
  from i obtain c k where l: "linked w a c" and st: "in_state c k" and k: "k = FORWARDING \<or> k = DONE"
    and r: "relaying a n d t0 w" by (auto simp: in_relay_def)
  then have c: "w_clients w a = Some c" "c_client_fd c = n" by (auto simp: linked_def relaying_def)
  obtain f ret w2 c2 where f: "callback_of env k f" "f (fd, Some (ClientPtr a)) w = Inr (ret, w2)"
    and c2: "w_clients w2 a = Some c2" "c_stm c2 = c_stm c"
    and run: "after_event env k ret (fd, Some (ClientPtr a)) a c2 w2 = Inr w'"
    using client_step_after [OF step c(1) st] by metis
  from f(1) k have kf: "k = FORWARDING" and "f = forward_read env \<or> f = forward_write env"
    by (auto simp: callback_of_def)
  then have p: "progress env a n d t0 ret w2" and ret: "ret \<in> {FORWARDING, DONE, ERROR}"
    using f(2) forward_read_relays [OF r nd fd] forward_write_relays [OF r nd fd]
      forward_read_returns [of a w env fd] forward_write_returns [of a w env fd] by (auto simp: returns_def)
  have "live a n w" using l c(2) by (auto simp: live_iff_linked)
  then have "live a n w2" using keeps_liveD [OF callback_live [OF f(1)] f(2)] st by (simp add: in_state_def)
  then have l2: "linked w2 a c2" using c2 by (auto simp: live_iff_linked linked_def)
  have st2: "in_state c2 FORWARDING" using st c2(2) kf by (simp add: in_state_def)
  show ?thesis
    by (rule after_relay [OF _ l2 st2 ret _ run [unfolded kf]])
      (use p whole in \<open>auto simp: progress_def\<close>)
qed

lemma relay_over_ends: "relay_over whole a n d t0 w \<Longrightarrow> \<not> client_step env fd a w w'"
  by (auto simp: relay_over_def client_step_def handle_read_event handle_write_event stm_event_def
      handle_first_def client_machine_def get_client_def)

lemma relay_run_result:
  assumes "relay_run good a n d w w'" and i: "in_relay a n d t0 w" and nd: "n \<noteq> d"
    and whole: "\<And>env. whole \<Longrightarrow> good env \<Longrightarrow> reliable env"
  shows "in_relay a n d t0 w' \<or> relay_over whole a n d t0 w'"
  using assms(1) i
proof (induction rule: relay_run.induct)
  case (event w w1 env fd w2)
  then show ?case using relay_event [OF _ nd, of a t0 w1 fd env w2 whole] relay_over_ends whole by blast
qed simp

section \<open>Draining a direction\<close>

definition source_closed :: "bool \<Rightarrow> client_t \<Rightarrow> bool" where
  "source_closed f c = (if f then c_client_closed c else c_dest_closed c)"

definition drained :: "nat \<Rightarrow> bool \<Rightarrow> nat \<Rightarrow> client_t \<Rightarrow> world \<Rightarrow> client_t \<Rightarrow> world \<Rightarrow> action list \<Rightarrow> bool" where
  "drained a f k c w c' w' t \<longleftrightarrow> linked w' a c' \<and> in_state c' FORWARDING \<and>
     c_client_fd c' = c_client_fd c \<and> c_destination_fd c' = c_destination_fd c \<and>
     (\<forall>g. source_closed g c' = source_closed g c) \<and> source_buffer f c' = source_buffer f c \<and>
     buffer_space (source_buffer (\<not> f) c) \<le> buffer_space (source_buffer (\<not> f) c') \<and> buffer_ok (source_buffer (\<not> f) c') \<and>
     contents (source_buffer (\<not> f) c') = drop k (contents (source_buffer (\<not> f) c)) \<and> w_trace w' = w_trace w @ t \<and>
     bytes_out (end_of (c_client_fd c) (c_destination_fd c) f) t = take k (contents (source_buffer (\<not> f) c)) \<and>
     transferred_bytes (w_stats w') =
       transferred_bytes (w_stats w) + of_nat (length (take k (contents (source_buffer (\<not> f) c)))) \<and>
     (contents (source_buffer (\<not> f) c') = [] \<and> source_closed (\<not> f) c \<longrightarrow>
        Shutdown (end_of (c_client_fd c) (c_destination_fd c) f) \<in> set t)"

lemma read_adv_space:
  "buffer_ok b \<Longrightarrow> buffer_read_adv b (int k) = Inr b' \<Longrightarrow> buffer_space b \<le> buffer_space b'"
  by (auto simp: buffer_read_adv_def buffer_compact_def buffer_space_def buffer_ok_def Let_def split: if_splits)

lemma fill_space: "buffer_fill b bs = Inr b' \<Longrightarrow> buffer_space b' = buffer_space b - length bs"
  by (auto simp: buffer_fill_def buffer_write_adv_def buffer_space_def Let_def)

lemma write_drains:
  assumes l: "linked w a c" and st: "in_state c FORWARDING" and d: "c_destination_fd c \<noteq> -1"
    and fd: "fd = end_of (c_client_fd c) (c_destination_fd c) f"
    and b: "buffer_ok (source_buffer (\<not> f) c)" and opened: "\<not> (c_client_closed c \<and> c_dest_closed c)"
    and send: "e_send env (length (w_trace w)) fd = Takes k" "0 < k"
  shows "\<exists>c' w' t. handle_write_client env (fd, Some (ClientPtr a)) w = Inr w' \<and> drained a f k c w c' w' t"
proof -
  let ?b = "source_buffer (\<not> f) c" and ?k = "(fd, Some (ClientPtr a))"
  from l have c: "w_clients w a = Some c" and ok: "selector_ok (w_sel w)" and nd: "c_client_fd c \<noteq> c_destination_fd c"
    using d by (auto simp: linked_def)
  have to_client: "fd = c_client_fd c \<longleftrightarrow> f" using fd nd by (auto simp: end_of_def)
  have sc: "(if f then c_dest_closed c else c_client_closed c) = source_closed (\<not> f) c" by (simp add: source_closed_def)
  note ints = set_interest_ok(1) set_interest_ok(2) [OF ok]
  have lk: "linked (w\<lparr>w_sel := upd_interest (w_sel w) fd i\<rparr>) a c" for i
    using l by (auto simp: linked_def set_interest_ok(2))
  show ?thesis
  proof (cases "contents ?b = []")
    case True
    then have nr: "\<not> buffer_can_read ?b" using b by (simp add: can_read_contents)
    have nf: "\<not> connection_finished c" using opened by (auto simp: connection_finished_def)
    let ?t = "if source_closed (\<not> f) c then [Shutdown fd] else []"
    let ?w' = "w\<lparr>w_sel := upd_interest (w_sel w) fd OP_READ, w_trace := w_trace w @ ?t\<rparr>"
    have run: "forward_write env ?k w = Inr (FORWARDING, ?w')"
      using c nr nf to_client sc ok ints(1) [of w fd OP_READ] ints(1) [of "emit (Shutdown fd) w" fd OP_READ]
      by (auto simp: forward_write_def Let_def sys_shutdown_def emit_def)
    have ev: "handle_write_client env ?k w = after_event env FORWARDING FORWARDING ?k a c ?w'"
      by (rule write_event [where f = "forward_write env", OF c st _ run]) (use c in simp_all)
    have "linked ?w' a c" using lk [of OP_READ] by (auto simp: linked_def owned_def)
    then have dr: "drained a f k c w c ?w' ?t" using True st b fd by (auto simp: drained_def)
    have "handle_write_client env ?k w = Inr ?w'" using ev unfolding after_event_simps .
    with dr show ?thesis by blast
  next
    case False
    let ?out = "take k (contents ?b)"
    have out: "0 < length ?out" using False send(2) by simp
    have rd: "buffer_can_read ?b" using False b by (simp add: can_read_contents)
    obtain ptr readable where ptr: "buffer_read_ptr ?b = Inr (ptr, readable)"
      using b by (simp add: buffer_read_ptr_def buffer_ok_def)
    obtain b' where adv: "buffer_read_adv ?b (int (length ?out)) = Inr b'" and b': "buffer_ok b'" "contents b' = drop (length ?out) (contents ?b)"
      using read_adv_total [OF b, of "length ?out"] by auto
    have drop_out: "drop (length ?out) (contents ?b) = drop k (contents ?b)" by (simp add: min_def)
    have snd: "sys_send env fd (contents ?b) w = (int (length ?out), emit (Sent fd ?out) w)"
      using send by (simp add: sys_send_def)
    let ?c = "set_source_buffer (\<not> f) b' c"
    let ?st = "add_transferred_bytes (of_nat (length ?out)) (w_stats w)"
    let ?t = "Sent fd ?out # (if contents b' = [] \<and> source_closed (\<not> f) c then [Shutdown fd] else [])"
    let ?i = "if buffer_can_read b' then OP_READ OR OP_WRITE else OP_READ"
    let ?w2 = "put_client a ?c (w\<lparr>w_stats := ?st, w_trace := w_trace w @ ?t\<rparr>)"
    let ?w' = "?w2\<lparr>w_sel := upd_interest (w_sel w) fd ?i\<rparr>"
    have nf: "\<not> connection_finished ?c" using opened by (auto simp: connection_finished_def)
    have si: "set_interest fd ?i ?w2 = Inr ?w'" using ints(1) [of ?w2 fd ?i] ok by simp
    have empty: "buffer_can_read b' \<longleftrightarrow> contents b' \<noteq> []" using b'(1) by (simp add: can_read_contents)
    have w2: "?w2 = (if \<not> buffer_can_read b' \<and> source_closed (\<not> f) c then sys_shutdown fd else (\<lambda>w. w))
        (put_client a ?c ((emit (Sent fd ?out) w)\<lparr>w_stats := ?st\<rparr>))"
      using empty by (auto simp: sys_shutdown_def emit_def put_client_def)
    have run: "forward_write env ?k w = Inr (FORWARDING, ?w')"
      using c rd ptr readable_contents [OF ptr] snd out adv to_client sc nf si [unfolded w2] w2
      by (simp add: forward_write_def Let_def del: length_take split: if_splits)
    have ev: "handle_write_client env ?k w = after_event env FORWARDING FORWARDING ?k a ?c ?w'"
      by (rule write_event [where f = "forward_write env", OF c st _ run]) simp_all
    have "linked ?w' a ?c" using lk [of ?i] by (auto simp: linked_def owned_def)
    moreover have "in_state ?c FORWARDING" using st by (simp add: in_state_def)
    ultimately have dr: "drained a f k c w ?c ?w' ?t"
      using b' drop_out fd read_adv_space [OF b adv]
      by (auto simp: drained_def source_closed_def add_transferred_bytes_def)
    have "handle_write_client env ?k w = Inr ?w'" using ev unfolding after_event_simps .
    with dr show ?thesis by blast
  qed
qed

text \<open>The events of a socket that takes bytes, one after the other.\<close>

fun write_events :: "env list \<Rightarrow> key \<Rightarrow> world \<Rightarrow> world res" where
  "write_events [] key w = Inr w"
| "write_events (env # envs) key w = bindr (handle_write_client env key w) (write_events envs key)"

lemma drained_trans:
  assumes "drained a f j c w c1 w1 t1" and "drained a f k c1 w1 c2 w2 t2"
  shows "drained a f (j + k) c w c2 w2 (t1 @ t2)"
proof -
  have "take j xs @ take k (drop j xs) = take (j + k) xs" for xs :: "byte list" by (simp add: take_add)
  moreover have "min (length xs) j + min (length xs - j) k = min (length xs) (j + k)" for xs :: "byte list" by arith
  ultimately show ?thesis
    using assms by (auto simp: drained_def add.commute simp flip: of_nat_add)
qed

lemma write_events_drain:
  assumes "linked w a c" and "in_state c FORWARDING" and "c_destination_fd c \<noteq> -1"
    and "fd = end_of (c_client_fd c) (c_destination_fd c) f"
    and "buffer_ok (source_buffer (\<not> f) c)" and "\<not> (c_client_closed c \<and> c_dest_closed c)"
    and "\<forall>env \<in> set envs. \<forall>i. \<exists>k > 0. e_send env i fd = Takes k" and "envs \<noteq> []"
  shows "\<exists>m c' w' t. length envs \<le> m \<and> write_events envs (fd, Some (ClientPtr a)) w = Inr w' \<and> drained a f m c w c' w' t"
  using assms
proof (induction envs arbitrary: w c)
  case (Cons env envs)
  from Cons.prems(7) obtain k where k: "e_send env (length (w_trace w)) fd = Takes k" "0 < k"
    by (auto dest!: spec [of _ "length (w_trace w)"])
  from write_drains [OF Cons.prems(1-6) k] obtain c1 w1 t1 where
    run: "handle_write_client env (fd, Some (ClientPtr a)) w = Inr w1" and d1: "drained a f k c w c1 w1 t1" by blast
  show ?case
  proof (cases "envs = []")
    case True
    then show ?thesis using run d1 k(2) by (auto intro!: exI [of _ k])
  next
    case False
    have closed: "c_client_closed c1 = c_client_closed c" "c_dest_closed c1 = c_dest_closed c"
      using d1 by (auto simp: drained_def source_closed_def all_bool_eq)
    obtain m c2 w2 t2 where "length envs \<le> m" "write_events envs (fd, Some (ClientPtr a)) w1 = Inr w2"
      "drained a f m c1 w1 c2 w2 t2"
      using Cons.IH [of w1 c1] Cons.prems d1 False closed by (auto simp: drained_def)
    then show ?thesis using run drained_trans [OF d1] k(2)
      by (auto intro!: exI [of _ "k + m"] exI [of _ c2] exI [of _ "t1 @ t2"])
  qed
qed simp

section \<open>Filling and closing a direction\<close>

lemma linked_reinterest:
  "linked w a c \<Longrightarrow> linked (w\<lparr>w_sel := upd_interest (w_sel w) fd i\<rparr>) a c"
  by (auto simp: linked_def set_interest_ok(2))

definition room_for :: "byte list \<Rightarrow> buffer \<Rightarrow> bool" where
  "room_for bs b \<longleftrightarrow> bs \<noteq> [] \<and> length bs \<le> buffer_space b"

lemma read_fills:
  assumes l: "linked w a c" and st: "in_state c FORWARDING" and d: "c_destination_fd c \<noteq> -1"
    and fd: "fd = end_of (c_client_fd c) (c_destination_fd c) f"
    and b: "buffer_ok (source_buffer f c)" and recv: "e_recv env fd = Avail bs" "room_for bs (source_buffer f c)"
  shows "\<exists>b' w'. handle_read_client env (fd, Some (ClientPtr a)) w = Inr w' \<and> linked w' a (set_source_buffer f b' c) \<and>
    buffer_ok b' \<and> contents b' = contents (source_buffer f c) @ bs \<and>
    buffer_space b' = buffer_space (source_buffer f c) - length bs \<and> w_trace w' = w_trace w @ [Recv fd bs]"
proof -
  let ?b = "source_buffer f c" and ?k = "(fd, Some (ClientPtr a))"
  let ?other = "if f then c_destination_fd c else c_client_fd c"
  from l have c: "w_clients w a = Some c" and ok: "selector_ok (w_sel w)" and nd: "c_client_fd c \<noteq> c_destination_fd c"
    and pos: "?other \<ge> 0" using d by (auto simp: linked_def owned_def sel_lookup_def split: if_splits)
  have from_client: "fd = c_client_fd c \<longleftrightarrow> f" using fd nd by (auto simp: end_of_def)
  have rm: "bs \<noteq> []" "length bs \<le> buffer_space ?b" "buffer_can_write ?b"
    using recv(2) by (cases bs; simp add: room_for_def can_write_space)+
  have ptr: "buffer_write_ptr ?b = Inr (b_write ?b, buffer_space ?b)"
    using b by (simp add: buffer_write_ptr_def buffer_ok_def buffer_space_def)
  from fill_total [OF b rm(2)] obtain b' where fill: "buffer_fill ?b bs = Inr b'"
    and b': "buffer_ok b'" "contents b' = contents ?b @ bs" by blast
  then obtain data where data: "arr_blit (b_data ?b) (b_write ?b) bs = Inr data"
    "buffer_write_adv (?b\<lparr>b_data := data\<rparr>) (int (length bs)) = Inr b'"
    using ptr by (auto simp: buffer_fill_def)
  let ?c = "set_source_buffer f b' c"
  let ?w' = "put_client a ?c (emit (Recv fd bs) (w\<lparr>w_errno := 0, w_sel := upd_interest (w_sel w) ?other (OP_READ OR OP_WRITE)\<rparr>))"
  have run: "forward_read env ?k w = Inr (FORWARDING, ?w')"
    using c rm recv(1) ptr data from_client pos
      set_interest_recv [of "w\<lparr>w_errno := 0\<rparr>" ?other "OP_READ OR OP_WRITE" a ?c "Recv fd bs"] ok
    by (cases f) (simp_all add: forward_read_def Let_def sys_recv_def)
  have ev: "handle_read_client env ?k w = after_event env FORWARDING FORWARDING ?k a ?c ?w'"
    by (rule read_event [where f = "forward_read env", OF c st _ run]) simp_all
  have "linked ?w' a ?c" using linked_reinterest [OF l, of ?other "OP_READ OR OP_WRITE"] by (auto simp: linked_def owned_def)
  moreover have "handle_read_client env ?k w = Inr ?w'" using ev unfolding after_event_simps .
  moreover have "w_trace ?w' = w_trace w @ [Recv fd bs]" by simp
  ultimately show ?thesis using b' fill_space [OF fill] by blast
qed

definition mark_closed :: "bool \<Rightarrow> client_t \<Rightarrow> client_t" where
  "mark_closed f c = (if f then c\<lparr>c_client_closed := True\<rparr> else c\<lparr>c_dest_closed := True\<rparr>)"

lemma mark_closed_fields [simp]:
  "c_client_fd (mark_closed f c) = c_client_fd c" "c_destination_fd (mark_closed f c) = c_destination_fd c"
  "c_stm (mark_closed f c) = c_stm c" "source_buffer g (mark_closed f c) = source_buffer g c"
  "source_closed g (mark_closed f c) = (f = g \<or> source_closed g c)" "parser_tag_ok (mark_closed f c) = parser_tag_ok c"
  by (auto simp: mark_closed_def source_closed_def parser_tag_ok_def split: parser_state_t.splits)

text \<open>
  The end of the stream on the first side; and on the second, with both buffers empty: the
  connection is released.
\<close>

lemma eof_read:
  assumes l: "linked w a c" and st: "in_state c FORWARDING" and d: "c_destination_fd c \<noteq> -1"
    and fd: "fd = end_of (c_client_fd c) (c_destination_fd c) f"
    and room: "buffer_can_write (source_buffer f c)" and recv: "e_recv env fd = Avail []"
  shows "\<not> source_closed (\<not> f) c \<Longrightarrow> \<exists>w'. handle_read_client env (fd, Some (ClientPtr a)) w = Inr w' \<and>
      linked w' a (mark_closed f c) \<and> w_trace w' = w_trace w @ [Recv fd []]"
    and "source_closed (\<not> f) c \<Longrightarrow> \<forall>g. \<not> buffer_can_read (source_buffer g c) \<Longrightarrow>
      \<exists>w'. handle_read_client env (fd, Some (ClientPtr a)) w = Inr w' \<and> w_clients w' a = None \<and>
        w_trace w' = w_trace w @ [Recv fd [], Closed (c_client_fd c), Closed (c_destination_fd c)]"
proof -
  let ?b = "source_buffer f c" and ?k = "(fd, Some (ClientPtr a))" and ?c = "mark_closed f c"
  let ?other = "if f then c_destination_fd c else c_client_fd c"
  from l have c: "w_clients w a = Some c" and ok: "selector_ok (w_sel w)" and nd: "c_client_fd c \<noteq> c_destination_fd c"
    and pos: "?other \<ge> 0" using d by (auto simp: linked_def owned_def sel_lookup_def split: if_splits)
  have from_client: "fd = c_client_fd c \<longleftrightarrow> f" using fd nd by (auto simp: end_of_def)
  have ptr: "buffer_write_ptr ?b = Inr (b_write ?b, buffer_space ?b)"
    using room by (simp add: buffer_write_ptr_def can_write_iff buffer_space_def)
  have fields: "c_client_closed ?c = (f \<or> c_client_closed c)" "c_dest_closed ?c = (\<not> f \<or> c_dest_closed c)"
    by (simp_all add: mark_closed_def)
  have sc: "source_closed (\<not> f) c = (if f then c_dest_closed c else c_client_closed c)" by (simp add: source_closed_def)
  show "\<exists>w'. handle_read_client env ?k w = Inr w' \<and> linked w' a ?c \<and> w_trace w' = w_trace w @ [Recv fd []]"
    if half: "\<not> source_closed (\<not> f) c"
  proof -
    let ?s1 = "upd_interest (w_sel w) ?other OP_WRITE"
    let ?w1 = "put_client a ?c (emit (Recv fd []) (w\<lparr>w_errno := 0, w_sel := ?s1\<rparr>))"
    let ?w' = "put_client a ?c (emit (Recv fd []) (w\<lparr>w_errno := 0, w_sel := upd_interest ?s1 fd OP_NOOP\<rparr>))"
    have ok1: "selector_ok ?s1" using set_interest_ok(2) [OF ok] .
    have run: "forward_read env ?k w = Inr (FORWARDING, ?w')"
      using c room recv ptr from_client pos half sc ok1 set_interest_ok(1) [of ?w1 fd OP_NOOP]
        set_interest_recv [of "w\<lparr>w_errno := 0\<rparr>" ?other OP_WRITE a ?c "Recv fd []"] ok
      by (cases f) (simp_all add: forward_read_def Let_def sys_recv_def mark_closed_def set_interest_key_eq)
    have ev: "handle_read_client env ?k w = after_event env FORWARDING FORWARDING ?k a ?c ?w'"
      by (rule read_event [where f = "forward_read env", OF c st _ run]) simp_all
    have "linked ?w' a ?c"
      using linked_reinterest [OF linked_reinterest [OF l, of ?other OP_WRITE], of fd OP_NOOP] by (auto simp: linked_def owned_def)
    moreover have "handle_read_client env ?k w = Inr ?w'" using ev unfolding after_event_simps .
    ultimately show ?thesis by (intro exI [of _ ?w']) simp
  qed
  show "\<exists>w'. handle_read_client env ?k w = Inr w' \<and> w_clients w' a = None \<and>
      w_trace w' = w_trace w @ [Recv fd [], Closed (c_client_fd c), Closed (c_destination_fd c)]"
    if both: "source_closed (\<not> f) c" and empty: "\<forall>g. \<not> buffer_can_read (source_buffer g c)"
  proof -
    let ?w1 = "put_client a ?c (emit (Recv fd []) (w\<lparr>w_errno := 0\<rparr>))"
    have run: "forward_read env ?k w = Inr (DONE, ?w1)"
      using c room recv ptr from_client both sc
      by (cases f) (simp_all add: forward_read_def Let_def sys_recv_def mark_closed_def)
    have ev: "handle_read_client env ?k w = after_event env FORWARDING DONE ?k a ?c ?w1"
      by (rule read_event [where f = "forward_read env", OF c st _ run]) simp_all
    let ?w2 = "put_client a (moved ?c DONE) ?w1"
    have "linked ?w1 a ?c" using l by (simp add: linked_def owned_def)
    then have l2: "linked ?w2 a (moved ?c DONE)" by (rule linked_moved) simp
    have "connection_finished (moved ?c DONE)"
      using both sc empty fields by (cases f) (auto simp: connection_finished_def source_buffer_def all_bool_eq mark_closed_def)
    from ev end_connection_finished [OF l2 this] d show ?thesis
      by (auto simp: after_event_simps torn_down_def Let_def)
  qed
qed

section \<open>A sample session\<close>

definition sample_relay :: client_t where
  "sample_relay = sample_client FORWARDING 5 NO_PARSER P_none"

lemma sample_relay_sel [simp]:
  "c_client_fd sample_relay = 4" "c_destination_fd sample_relay = 5" "in_state sample_relay FORWARDING"
  "\<not> c_client_closed sample_relay" "\<not> c_dest_closed sample_relay" "parser_tag_ok sample_relay"
  "\<not> source_closed f sample_relay" "source_buffer f sample_relay = buffer_init MAX_BUFFER (replicate MAX_BUFFER 0)"
  by (simp_all add: sample_relay_def in_state_def client_state_defs parser_tag_ok_def source_closed_def source_buffer_def)

lemma sample_buffers [simp]:
  "c_client_buffer sample_relay = buffer_init MAX_BUFFER (replicate MAX_BUFFER 0)"
  "c_destiny_buffer sample_relay = buffer_init MAX_BUFFER (replicate MAX_BUFFER 0)"
  by (simp_all add: sample_relay_def)

lemma empty_buffer [simp]:
  "buffer_ok (buffer_init MAX_BUFFER (replicate MAX_BUFFER 0))"
  "contents (buffer_init n data) = []" "buffer_space (buffer_init n data) = n"
  "buffer_can_write (buffer_init MAX_BUFFER data)"
  by (simp_all add: buffer_ok_init contents_init can_write_space)
    (simp_all add: buffer_space_def buffer_init_def buffer_reset_def MAX_BUFFER_def Let_def)

lemma reliable_sample: "reliable (sample_env bs)"
  by (simp add: reliable_def)

lemma sample_relay_linked:
  obtains s where "linked (sample_world s [] sample_relay) 0 sample_relay"
  using sample_linked [of FORWARDING 5 NO_PARSER P_none "[]"]
  by (auto simp: sample_relay_def parser_tag_ok_def)

lemma sample_event:
  "relay_run reliable 0 4 5 w w1 \<Longrightarrow> fd \<in> {4, 5} \<Longrightarrow> client_step (sample_env bs) fd 0 w1 w2 \<Longrightarrow>
     relay_run reliable 0 4 5 w w2"
  by (rule relay_run.event [where env = "sample_env bs" and good = reliable]) (simp_all add: reliable_sample)

lemma relay_run_any: "relay_run good a n d w w' \<Longrightarrow> relay_run (\<lambda>_. True) a n d w w'"
  by (induction rule: relay_run.induct) (auto intro: relay_run.intros)

text \<open>The client sends two bytes; they are passed on; then both sides close.\<close>

definition passing :: "world \<Rightarrow> world \<Rightarrow> client_t \<Rightarrow> bool" where
  "passing w w1 c1 \<longleftrightarrow> relay_run reliable 0 4 5 w w1 \<and> linked w1 0 c1 \<and> in_state c1 FORWARDING \<and>
     c_client_fd c1 = 4 \<and> c_destination_fd c1 = 5 \<and> (\<forall>f. \<not> source_closed f c1) \<and>
     source_buffer False c1 = source_buffer False sample_relay \<and> buffer_ok (source_buffer True c1) \<and>
     2 < buffer_space (source_buffer True c1)"

lemma sample_fills:
  assumes l: "linked (sample_world s [] sample_relay) 0 sample_relay"
  obtains w1 c1 where "passing (sample_world s [] sample_relay) w1 c1" "contents (source_buffer True c1) = [104, 105]"
    "w_trace w1 = [Recv 4 [104, 105]]"
proof -
  let ?w = "sample_world s [] sample_relay" and ?bs = "[104, 105] :: byte list"
  have "room_for ?bs (source_buffer True sample_relay)" by (simp add: room_for_def) (simp add: MAX_BUFFER_def)
  then obtain b w1 where r1: "handle_read_client (sample_env ?bs) (4, Some (ClientPtr 0)) ?w = Inr w1"
    and l1: "linked w1 0 (set_source_buffer True b sample_relay)" and b: "buffer_ok b" "contents b = ?bs"
    "buffer_space b = MAX_BUFFER - 2" and t1: "w_trace w1 = [Recv 4 ?bs]"
    using read_fills [OF l, of 4 True "sample_env ?bs" ?bs] by (auto simp: end_of_def)
  let ?c1 = "set_source_buffer True b sample_relay"
  have run1: "relay_run reliable 0 4 5 ?w w1"
    by (rule sample_event [OF relay_run.start, where fd = 4 and bs = ?bs]) (use r1 in \<open>auto simp: client_step_def\<close>)
  have "passing ?w w1 ?c1"
    using run1 l1 b by (simp add: passing_def in_state_def client_state_defs source_closed_def)
      (simp add: sample_relay_def MAX_BUFFER_def client_state_defs)
  then show ?thesis using t1 b by (intro that [of w1 ?c1]) simp_all
qed

lemma sample_drains:
  assumes p: "passing w w1 c1"
  obtains w2 c2 where "passing w w2 c2" "contents (source_buffer True c2) = drop 1000 (contents (source_buffer True c1))"
    and "\<exists>t. w_trace w2 = w_trace w1 @ t \<and> bytes_out 5 t = take 1000 (contents (source_buffer True c1))"
proof -
  note P = p [unfolded passing_def]
  from P have "\<not> (c_client_closed c1 \<and> c_dest_closed c1)" by (auto simp: source_closed_def all_bool_eq)
  moreover have "c_destination_fd c1 \<noteq> -1" "5 = end_of (c_client_fd c1) (c_destination_fd c1) False"
    "buffer_ok (source_buffer (\<not> False) c1)" "e_send (sample_env []) (length (w_trace w1)) 5 = Takes 1000" "(0::nat) < 1000"
    using P by (simp_all add: end_of_def)
  ultimately obtain c2 w2 t where r2: "handle_write_client (sample_env []) (5, Some (ClientPtr 0)) w1 = Inr w2"
    and d: "drained 0 False 1000 c1 w1 c2 w2 t"
    using write_drains [of w1 0 c1 5 False "sample_env []" 1000] P by blast
  have "relay_run reliable 0 4 5 w w2"
    by (rule sample_event [of _ w1, where fd = 5 and bs = "[]"]) (use P r2 in \<open>auto simp: client_step_def\<close>)
  with d P have "passing w w2 c2" by (simp add: passing_def drained_def)
  with d P show ?thesis by (intro that [of w2 c2]) (auto simp: drained_def end_of_def)
qed

lemma sample_closes:
  assumes p: "passing w w1 c1" and empty: "contents (source_buffer True c1) = []"
  obtains w' where "relay_run reliable 0 4 5 w w'" and "w_clients w' 0 = None"
    and "w_trace w' = w_trace w1 @ [Recv 4 [], Recv 5 [], Closed 4, Closed 5]"
proof -
  note P = p [unfolded passing_def]
  obtain w2 where r2: "handle_read_client (sample_env []) (4, Some (ClientPtr 0)) w1 = Inr w2"
    and l2: "linked w2 0 (mark_closed True c1)" and t2: "w_trace w2 = w_trace w1 @ [Recv 4 []]"
    using eof_read(1) [of w1 0 c1 4 True "sample_env []"] P by (auto simp: end_of_def can_write_space)
  have run2: "relay_run reliable 0 4 5 w w2"
    by (rule sample_event [of _ w1, where fd = 4 and bs = "[]"]) (use P r2 in \<open>auto simp: client_step_def\<close>)
  have st: "in_state (mark_closed True c1) FORWARDING" using P by (simp add: in_state_def)
  have other: "source_buffer False c1 = buffer_init MAX_BUFFER (replicate MAX_BUFFER 0)" using P by simp
  have drained: "\<forall>g. \<not> buffer_can_read (source_buffer g (mark_closed True c1))"
    using P empty other by (auto simp: all_bool_eq can_read_contents)
  have args: "c_destination_fd (mark_closed True c1) \<noteq> -1"
    "5 = end_of (c_client_fd (mark_closed True c1)) (c_destination_fd (mark_closed True c1)) False"
    "buffer_can_write (source_buffer False (mark_closed True c1))" "e_recv (sample_env []) 5 = Avail []"
    "source_closed (\<not> False) (mark_closed True c1)"
    using P other by (simp_all add: end_of_def)
  obtain w3 where r3: "handle_read_client (sample_env []) (5, Some (ClientPtr 0)) w2 = Inr w3"
    and "w_clients w3 0 = None" "w_trace w3 = w_trace w2 @ [Recv 5 [], Closed 4, Closed 5]"
    using eof_read(2) [OF l2 st args drained] P by auto
  moreover have "relay_run reliable 0 4 5 w w3"
    by (rule sample_event [OF run2, where fd = 5 and bs = "[]"]) (use r3 in \<open>auto simp: client_step_def\<close>)
  ultimately show ?thesis using t2 by (intro that [of w3]) simp_all
qed

section \<open>Properties\<close>

text \<open>
  C5. The relay is transparent: over any run of events on the two descriptors of a connection that
  starts relaying with empty buffers, and whatever the operating system answers, the bytes sent to
  each side are a prefix of the bytes received from the other; as long as the connection is not
  over, the rest is exactly what its buffer holds.
\<close>

theorem relay_is_transparent:
  assumes "linked w a c" and "in_state c FORWARDING" and "c_destination_fd c \<noteq> -1"
    and "buffer_ok (c_client_buffer c)" "contents (c_client_buffer c) = []"
    and "buffer_ok (c_destiny_buffer c)" "contents (c_destiny_buffer c) = []"
    and "relay_run (\<lambda>_. True) a (c_client_fd c) (c_destination_fd c) w w'"
  shows "\<exists>t up down. w_trace w' = w_trace w @ t \<and>
    bytes_in (c_client_fd c) t = bytes_out (c_destination_fd c) t @ up \<and>
    bytes_in (c_destination_fd c) t = bytes_out (c_client_fd c) t @ down \<and>
    (case w_clients w' a of None \<Rightarrow> True
     | Some c' \<Rightarrow> up = contents (c_client_buffer c') \<and> down = contents (c_destiny_buffer c'))"
proof -
  let ?n = "c_client_fd c" and ?d = "c_destination_fd c"
  have nd: "?n \<noteq> ?d" and w: "w_clients w a = Some c" using assms(1,3) by (auto simp: linked_def)
  have "in_relay a ?n ?d (w_trace w) w"
    using assms w by (auto simp: in_relay_def relaying_def flow_def source_buffer_def end_of_def)
  then have "in_relay a ?n ?d (w_trace w) w' \<or> relay_over False a ?n ?d (w_trace w) w'"
    by (rule relay_run_result [OF assms(8) _ nd]) simp
  then show ?thesis
  proof (elim disjE)
    assume "in_relay a ?n ?d (w_trace w) w'"
    then obtain c' t where "w_clients w' a = Some c'" "w_trace w' = w_trace w @ t" "flow ?n ?d t c'"
      by (auto simp: in_relay_def relaying_def)
    then show ?thesis
      unfolding flow_def by (intro exI [of _ t]) (auto simp: end_of_def source_buffer_def all_bool_eq)
  next
    assume "relay_over False a ?n ?d (w_trace w) w'"
    then show ?thesis by (fastforce simp: relay_over_def end_of_def all_bool_eq)
  qed
qed

theorem relay_is_transparent_witness:
  "\<exists>w w' c'. relay_run (\<lambda>_. True) 0 4 5 w w' \<and> w_clients w' 0 = Some c' \<and>
     w_trace w' = [Recv 4 [104, 105]] \<and> contents (c_client_buffer c') = [104, 105]"
proof -
  obtain s where l: "linked (sample_world s [] sample_relay) 0 sample_relay" by (rule sample_relay_linked)
  obtain w1 c1 where p: "passing (sample_world s [] sample_relay) w1 c1" and t1: "w_trace w1 = [Recv 4 [104, 105]]"
    by (rule sample_fills [OF l]) blast
  then have run: "relay_run (\<lambda>_. True) 0 4 5 (sample_world s [] sample_relay) w1" and c1: "w_clients w1 0 = Some c1"
    by (auto simp: passing_def linked_def intro: relay_run_any)
  have "contents (c_client_buffer c1) = [104, 105]"
    using relay_is_transparent [OF l, of w1] run c1 t1 by auto
  with run c1 t1 show ?thesis by blast
qed

text \<open>
  C6. Nothing is lost: when the sockets of a connection do not fail (a receive has data, the end of
  the stream or nothing yet; a send takes at least a byte or nothing yet), a run of the relay that
  ended the connection has sent to each side everything received from the other.
\<close>

theorem relay_loses_nothing:
  assumes "linked w a c" and "in_state c FORWARDING" and "c_destination_fd c \<noteq> -1"
    and "buffer_ok (c_client_buffer c)" "contents (c_client_buffer c) = []"
    and "buffer_ok (c_destiny_buffer c)" "contents (c_destiny_buffer c) = []"
    and "relay_run reliable a (c_client_fd c) (c_destination_fd c) w w'" and "w_clients w' a = None"
  shows "\<exists>t. w_trace w' = w_trace w @ t \<and>
    bytes_in (c_client_fd c) t = bytes_out (c_destination_fd c) t \<and>
    bytes_in (c_destination_fd c) t = bytes_out (c_client_fd c) t"
proof -
  let ?n = "c_client_fd c" and ?d = "c_destination_fd c"
  have nd: "?n \<noteq> ?d" and w: "w_clients w a = Some c" using assms(1,3) by (auto simp: linked_def)
  have "in_relay a ?n ?d (w_trace w) w"
    using assms w by (auto simp: in_relay_def relaying_def flow_def source_buffer_def end_of_def)
  then have "in_relay a ?n ?d (w_trace w) w' \<or> relay_over True a ?n ?d (w_trace w) w'"
    by (rule relay_run_result [OF assms(8) _ nd]) simp
  then show ?thesis using assms(9)
    by (auto simp: in_relay_def relaying_def relay_over_def end_of_def all_bool_eq)
qed

theorem relay_loses_nothing_witness:
  "\<exists>w w'. relay_run reliable 0 4 5 w w' \<and> w_clients w' 0 = None \<and>
     bytes_in 4 (w_trace w') = [104, 105] \<and> bytes_out 5 (w_trace w') = [104, 105]"
proof -
  obtain s where l: "linked (sample_world s [] sample_relay) 0 sample_relay" by (rule sample_relay_linked)
  obtain w1 c1 where p1: "passing (sample_world s [] sample_relay) w1 c1" "contents (source_buffer True c1) = [104, 105]"
    "w_trace w1 = [Recv 4 [104, 105]]" by (rule sample_fills [OF l]) blast
  obtain w2 c2 t where p2: "passing (sample_world s [] sample_relay) w2 c2" "contents (source_buffer True c2) = []"
    and t: "w_trace w2 = w_trace w1 @ t" "bytes_out 5 t = [104, 105]"
    by (rule sample_drains [OF p1(1)]) (use p1(2) in auto)
  obtain w' where run: "relay_run reliable 0 4 5 (sample_world s [] sample_relay) w'" and gone: "w_clients w' 0 = None"
    and t': "w_trace w' = w_trace w2 @ [Recv 4 [], Recv 5 [], Closed 4, Closed 5]"
    by (rule sample_closes [OF p2]) blast
  have "bytes_in 4 (w_trace w') = bytes_out 5 (w_trace w')"
    using relay_loses_nothing [OF l, of w'] run gone by auto
  moreover have "bytes_out 5 (w_trace w') = [104, 105]" using t t' p1(3) by simp
  ultimately show ?thesis using run gone by metis
qed

text \<open>
  C32. A connection can be left behind: when the client closes its side after the destination did,
  while bytes still wait to be sent, the machine moves to \<^verbatim>\<open>DONE\<close> but the connection is not
  released; nothing is sent any more, and the next event on either of its descriptors, which stay
  registered, aborts the server.
\<close>

theorem unfinished_close_aborts:
  assumes l: "linked w a c" and st: "in_state c FORWARDING" and eof: "e_recv env (c_client_fd c) = Avail []"
    and closed: "c_dest_closed c" and room: "buffer_can_write (c_client_buffer c)"
    and pending: "buffer_can_read (c_client_buffer c) \<or> buffer_can_read (c_destiny_buffer c)"
  shows "\<exists>w'. handle_read_client env (c_client_fd c, Some (ClientPtr a)) w = Inr w' \<and>
    sel_lookup (w_sel w') = sel_lookup (w_sel w) \<and>
    (\<forall>env' fd. handle_read_client env' (fd, Some (ClientPtr a)) w' = Inl Aborted \<and>
      handle_write_client env' (fd, Some (ClientPtr a)) w' = Inl Aborted)"
proof -
  let ?n = "c_client_fd c" and ?k = "(c_client_fd c, Some (ClientPtr a))"
  let ?c = "c\<lparr>c_client_closed := True\<rparr>"
  let ?w = "put_client a ?c (emit (Recv ?n []) (w\<lparr>w_errno := 0\<rparr>))"
  have c: "w_clients w a = Some c" and mx: "stm_max_state (c_stm c) = ERROR"
    using l st by (simp_all add: linked_def in_state_def)
  have ptr: "buffer_write_ptr (c_client_buffer c) = Inr (b_write (c_client_buffer c), buffer_space (c_client_buffer c))"
    using room by (simp add: buffer_write_ptr_def can_write_iff buffer_space_def)
  have run: "forward_read env ?k w = Inr (DONE, ?w)"
    using c room eof closed ptr by (simp add: forward_read_def source_buffer_def sys_recv_def Let_def)
  have ev: "handle_read_client env ?k w = after_event env FORWARDING DONE ?k a ?c ?w"
    by (rule read_event [where f = "forward_read env", OF c st _ run]) simp_all
  let ?w' = "put_client a (moved ?c DONE) ?w"
  have c': "w_clients ?w' a = Some (moved ?c DONE)" "in_state (moved ?c DONE) DONE" using mx by simp_all
  have "\<not> connection_finished (moved ?c DONE)" using pending by (auto simp: connection_finished_def)
  from ev end_connection_unfinished [OF c'(1) this] have "handle_read_client env ?k w = Inr ?w'"
    by (simp add: after_event_simps)
  moreover have "handle_read_client env' (fd, Some (ClientPtr a)) ?w' = Inl Aborted"
    "handle_write_client env' (fd, Some (ClientPtr a)) ?w' = Inl Aborted" for env' fd
    unfolding handle_read_event handle_write_event by (rule client_event_abort [OF c']; simp)+
  ultimately show ?thesis by (intro exI [of _ ?w']) simp
qed

theorem unfinished_close_aborts_witness:
  "\<exists>w w'. handle_read_client (sample_env []) (4, Some (ClientPtr 0)) w = Inr w' \<and>
     handle_write_client (sample_env []) (5, Some (ClientPtr 0)) w' = Inl Aborted"
proof -
  obtain s where l: "linked (sample_world s [] sample_relay) 0 sample_relay" by (rule sample_relay_linked)
  obtain w1 c1 where p: "passing (sample_world s [] sample_relay) w1 c1" and b: "contents (source_buffer True c1) = [104, 105]"
    by (rule sample_fills [OF l]) blast
  let ?c = "mark_closed False c1" and ?w = "put_client 0 (mark_closed False c1) w1"
  note P = p [unfolded passing_def]
  have l2: "linked ?w 0 ?c" by (rule linked_put [of _ _ c1]) (use P in \<open>auto simp: linked_def\<close>)
  have st: "in_state ?c FORWARDING" using P by (simp add: in_state_def)
  have src: "source_buffer True ?c = source_buffer True c1" by simp
  have args: "e_recv (sample_env []) (c_client_fd ?c) = Avail []" "c_dest_closed ?c"
    "buffer_can_write (c_client_buffer ?c)" "buffer_can_read (c_client_buffer ?c) \<or> buffer_can_read (c_destiny_buffer ?c)"
    using P b src by (auto simp: mark_closed_def source_buffer_def can_write_space can_read_contents)
  from unfinished_close_aborts [OF l2 st args] P show ?thesis by auto
qed

text \<open>
  C27. Buffered bytes are delivered: as many writable events as there are bytes waiting for a
  side, on a socket that takes at least a byte each time, send all of them in order, count them in
  the statistics, leave the buffer empty, and, when the other side has already closed, pass the end
  of the stream on.
\<close>

theorem relay_delivers:
  assumes "linked w a c" and "in_state c FORWARDING" and "c_destination_fd c \<noteq> -1"
    and "fd = end_of (c_client_fd c) (c_destination_fd c) f"
    and "buffer_ok (source_buffer (\<not> f) c)" and "\<not> (c_client_closed c \<and> c_dest_closed c)"
    and "\<forall>env \<in> set envs. \<forall>i. \<exists>k > 0. e_send env i fd = Takes k" and "envs \<noteq> []"
    and "length (contents (source_buffer (\<not> f) c)) \<le> length envs"
  shows "\<exists>w' c' t. write_events envs (fd, Some (ClientPtr a)) w = Inr w' \<and> linked w' a c' \<and> in_state c' FORWARDING \<and>
    w_trace w' = w_trace w @ t \<and> bytes_out fd t = contents (source_buffer (\<not> f) c) \<and>
    contents (source_buffer (\<not> f) c') = [] \<and>
    transferred_bytes (w_stats w') = transferred_bytes (w_stats w) + of_nat (length (contents (source_buffer (\<not> f) c))) \<and>
    (source_closed (\<not> f) c \<longrightarrow> Shutdown fd \<in> set t)"
proof -
  from write_events_drain [OF assms(1-8)] obtain m c' w' t where "length envs \<le> m"
    "write_events envs (fd, Some (ClientPtr a)) w = Inr w'" "drained a f m c w c' w' t" by blast
  with assms(4,9) show ?thesis by (auto simp: drained_def intro!: exI [of _ c'] exI [of _ t])
qed

theorem relay_delivers_witness:
  "\<exists>w w' c'. write_events [sample_env [], sample_env []] (5, Some (ClientPtr 0)) w = Inr w' \<and>
     w_clients w' 0 = Some c' \<and> contents (source_buffer True c') = [] \<and> bytes_out 5 (w_trace w') = [104, 105]"
proof -
  obtain s where l: "linked (sample_world s [] sample_relay) 0 sample_relay" by (rule sample_relay_linked)
  obtain w1 c1 where p: "passing (sample_world s [] sample_relay) w1 c1" and b: "contents (source_buffer True c1) = [104, 105]"
    and t: "w_trace w1 = [Recv 4 [104, 105]]"
    by (rule sample_fills [OF l]) blast
  note P = p [unfolded passing_def]
  have args: "linked w1 0 c1" "in_state c1 FORWARDING" "c_destination_fd c1 \<noteq> -1"
    "5 = end_of (c_client_fd c1) (c_destination_fd c1) False" "buffer_ok (source_buffer (\<not> False) c1)"
    "\<not> (c_client_closed c1 \<and> c_dest_closed c1)"
    "\<forall>env \<in> set [sample_env [], sample_env []]. \<forall>i. \<exists>k > 0. e_send env i 5 = Takes k"
    "[sample_env [], sample_env []] \<noteq> []"
    "length (contents (source_buffer (\<not> False) c1)) \<le> length [sample_env [], sample_env []]"
    using P b by (auto simp: end_of_def source_closed_def all_bool_eq)
  from relay_delivers [OF args] obtain w' c' t' where
    "write_events [sample_env [], sample_env []] (5, Some (ClientPtr 0)) w1 = Inr w'" "linked w' 0 c'"
    "w_trace w' = w_trace w1 @ t'" "bytes_out 5 t' = contents (source_buffer (\<not> False) c1)"
    "contents (source_buffer (\<not> False) c') = []" by blast
  moreover from this have "w_clients w' 0 = Some c'" "bytes_out 5 (w_trace w') = [104, 105]"
    using b t by (simp_all add: linked_def)
  ultimately show ?thesis by (metis (full_types))
qed

end
