(* ===== verification/Monitor_Auth.thy ===== *)
theory Monitor_Auth
  imports Auth
begin

text \<open>
  The login of a monitor connection: \<^verbatim>\<open>src/src/server/monitor/monitor_auth.c\<close>, with the two
  arrival callbacks of \<^verbatim>\<open>active_monitor.c\<close> that close a connection. (Its departure callback
  \<open>monitor_auth_finalize\<close> is in \<open>Closing\<close>, where the close callback needs it.)
\<close>

section \<open>States and errors of a monitor connection\<close>

definition MONITOR_AUTH :: nat where "MONITOR_AUTH = 0"
definition MONITOR_REQ :: nat where "MONITOR_REQ = 1"
definition MONITOR_DONE :: nat where "MONITOR_DONE = 2"
definition MONITOR_ERROR :: nat where "MONITOR_ERROR = 3"

lemmas monitor_state_defs = MONITOR_AUTH_def MONITOR_REQ_def MONITOR_DONE_def MONITOR_ERROR_def

lemma monitor_state_neq [simp]:
  "MONITOR_AUTH \<noteq> MONITOR_REQ" "MONITOR_AUTH \<noteq> MONITOR_DONE" "MONITOR_AUTH \<noteq> MONITOR_ERROR"
  "MONITOR_REQ \<noteq> MONITOR_AUTH" "MONITOR_REQ \<noteq> MONITOR_DONE" "MONITOR_REQ \<noteq> MONITOR_ERROR"
  "MONITOR_DONE \<noteq> MONITOR_AUTH" "MONITOR_DONE \<noteq> MONITOR_REQ" "MONITOR_DONE \<noteq> MONITOR_ERROR"
  "MONITOR_ERROR \<noteq> MONITOR_AUTH" "MONITOR_ERROR \<noteq> MONITOR_REQ" "MONITOR_ERROR \<noteq> MONITOR_DONE"
  by (simp_all add: monitor_state_defs)

lemma monitor_state_le [simp]:
  "MONITOR_AUTH \<le> MONITOR_ERROR" "MONITOR_REQ \<le> MONITOR_ERROR" "MONITOR_DONE \<le> MONITOR_ERROR"
  "MONITOR_AUTH < 4" "MONITOR_REQ < 4" "MONITOR_DONE < 4" "MONITOR_ERROR < 4"
  by (simp_all add: monitor_state_defs)

definition MONITOR_USER_NOT_FOUND :: byte where "MONITOR_USER_NOT_FOUND = 1"
definition MONITOR_WRONG_PASSWORD :: byte where "MONITOR_WRONG_PASSWORD = 3"
definition MONITOR_LACKS_PRIVILEGE :: byte where "MONITOR_LACKS_PRIVILEGE = 4"
definition MONITOR_IO_ERROR :: byte where "MONITOR_IO_ERROR = 5"
definition MONITOR_UNKNOWN_ERROR :: byte where "MONITOR_UNKNOWN_ERROR = 8"

lemmas monitor_error_defs = MONITOR_USER_NOT_FOUND_def MONITOR_WRONG_PASSWORD_def
  MONITOR_LACKS_PRIVILEGE_def MONITOR_IO_ERROR_def MONITOR_UNKNOWN_ERROR_def

definition set_monitor_error :: "nat \<Rightarrow> byte \<Rightarrow> world \<Rightarrow> world res" where
  "set_monitor_error a e w = upd_monitor a (\<lambda>m. m\<lparr>m_error := e\<rparr>) w"

section \<open>Closing arrivals\<close>

definition monitor_error_arrival :: "env \<Rightarrow> nat \<Rightarrow> key \<Rightarrow> world \<Rightarrow> world res" where
  "monitor_error_arrival env state key w =
     bindr (attached_monitor key) (\<lambda>a.
     bindr (get_monitor a w) (\<lambda>m.
       let w1 = (if m_error m \<noteq> 0 then snd (sys_send env (fst key) [m_error m] w) else w) in
       bindr (set_interest_key key OP_NOOP w1) (\<lambda>w2. unregister env (fst key) w2)))"

definition monitor_done_arrival :: "env \<Rightarrow> nat \<Rightarrow> key \<Rightarrow> world \<Rightarrow> world res" where
  "monitor_done_arrival env state key w =
     bindr (set_interest_key key OP_NOOP w) (\<lambda>w1. unregister env (fst key) w1)"

section \<open>The parser\<close>

definition MONITOR_AUTH_STATE_ULEN :: nat where "MONITOR_AUTH_STATE_ULEN = 0"
definition MONITOR_AUTH_STATE_UNAME :: nat where "MONITOR_AUTH_STATE_UNAME = 1"
definition MONITOR_AUTH_STATE_PLEN :: nat where "MONITOR_AUTH_STATE_PLEN = 2"
definition MONITOR_AUTH_STATE_PASSWD :: nat where "MONITOR_AUTH_STATE_PASSWD = 3"
definition MONITOR_AUTH_STATE_DONE :: nat where "MONITOR_AUTH_STATE_DONE = 4"
definition MONITOR_AUTH_STATE_ERROR :: nat where "MONITOR_AUTH_STATE_ERROR = 5"

definition MONITOR_AUTH_EVENT_ULEN :: nat where "MONITOR_AUTH_EVENT_ULEN = 0"
definition MONITOR_AUTH_EVENT_UNAME :: nat where "MONITOR_AUTH_EVENT_UNAME = 1"
definition MONITOR_AUTH_EVENT_PLEN :: nat where "MONITOR_AUTH_EVENT_PLEN = 2"
definition MONITOR_AUTH_EVENT_PASSWD :: nat where "MONITOR_AUTH_EVENT_PASSWD = 3"
definition MONITOR_AUTH_EVENT_DONE :: nat where "MONITOR_AUTH_EVENT_DONE = 4"

lemmas monitor_auth_consts = MONITOR_AUTH_STATE_ULEN_def MONITOR_AUTH_STATE_UNAME_def
  MONITOR_AUTH_STATE_PLEN_def MONITOR_AUTH_STATE_PASSWD_def MONITOR_AUTH_STATE_DONE_def
  MONITOR_AUTH_STATE_ERROR_def MONITOR_AUTH_EVENT_ULEN_def MONITOR_AUTH_EVENT_UNAME_def
  MONITOR_AUTH_EVENT_PLEN_def MONITOR_AUTH_EVENT_PASSWD_def MONITOR_AUTH_EVENT_DONE_def

definition MAX_LENGTH :: nat where "MAX_LENGTH = 255"

definition act_monitor_auth_ulen :: parser_action where "act_monitor_auth_ulen = put_byte MONITOR_AUTH_EVENT_ULEN"
definition act_monitor_auth_uname :: parser_action where "act_monitor_auth_uname = put_byte MONITOR_AUTH_EVENT_UNAME"
definition act_monitor_auth_plen :: parser_action where "act_monitor_auth_plen = put_byte MONITOR_AUTH_EVENT_PLEN"
definition act_monitor_auth_password :: parser_action where "act_monitor_auth_password = put_byte MONITOR_AUTH_EVENT_PASSWD"
definition act_monitor_auth_done :: parser_action where "act_monitor_auth_done = put_none MONITOR_AUTH_EVENT_DONE"

definition monitor_auth_parser_def :: parser_definition where
  "monitor_auth_parser_def =
     \<lparr>def_states_count = 6,
      def_states =
        [[on_any MONITOR_AUTH_STATE_UNAME act_monitor_auth_ulen],
         [on_any MONITOR_AUTH_STATE_UNAME act_monitor_auth_uname],
         [on_any MONITOR_AUTH_STATE_PASSWD act_monitor_auth_plen],
         [on_any MONITOR_AUTH_STATE_PASSWD act_monitor_auth_password],
         [on_any MONITOR_AUTH_STATE_DONE act_monitor_auth_done],
         [on_any MONITOR_AUTH_STATE_ERROR act_monitor_auth_done]],
      def_states_n = [1, 1, 1, 1, 1, 1],
      def_start_state = MONITOR_AUTH_STATE_ULEN\<rparr>"

lemmas monitor_auth_table_defs = monitor_auth_parser_def_def act_monitor_auth_ulen_def
  act_monitor_auth_uname_def act_monitor_auth_plen_def act_monitor_auth_password_def
  act_monitor_auth_done_def monitor_auth_consts

interpretation monitor_auth_table: total_table monitor_auth_parser_def
proof unfold_locales
  fix st assume "st < def_states_count monitor_auth_parser_def"
  then have "st \<in> {0, 1, 2, 3, 4, 5}" by (auto simp: monitor_auth_parser_def_def)
  then show "def_states_n monitor_auth_parser_def ! st \<le> length (def_states monitor_auth_parser_def ! st) \<and>
      (\<forall>t \<in> set (take (def_states_n monitor_auth_parser_def ! st) (def_states monitor_auth_parser_def ! st)).
         plain_transition (def_states_count monitor_auth_parser_def) t) \<and>
      (\<exists>t \<in> set (take (def_states_n monitor_auth_parser_def ! st) (def_states monitor_auth_parser_def ! st)).
         tr_when t = ANY)"
    by (auto simp: monitor_auth_table_defs)
qed (simp_all add: monitor_auth_table_defs)

datatype monitor_auth_status_t = MONITOR_AUTH_STATUS_OK | MONITOR_AUTH_STATUS_ERR

definition zero_monitor_auth :: monitor_auth_parser_t where
  "zero_monitor_auth = \<lparr>map_ulen = 0, map_plen = 0, map_uname_read = 0, map_passwd_read = 0,
     map_uname = replicate (MAX_LENGTH + 1) 0, map_passwd = replicate MAX_LENGTH 0, map_p = None\<rparr>"

definition monitor_auth_parser_init :: "env \<Rightarrow> monitor_auth_status_t \<times> monitor_auth_parser_t" where
  "monitor_auth_parser_init env =
     (let mp = zero_monitor_auth\<lparr>map_p :=
                 parser_init (e_alloc env A_parser) (parser_no_classes (e_stray env)) monitor_auth_parser_def\<rparr>
      in (if map_p mp = None then MONITOR_AUTH_STATUS_ERR else MONITOR_AUTH_STATUS_OK, mp))"

section \<open>The callbacks\<close>

definition monitor_auth_init :: "env \<Rightarrow> nat \<Rightarrow> key \<Rightarrow> world \<Rightarrow> world res" where
  "monitor_auth_init env state key w =
     bindr (attached_monitor key) (\<lambda>a.
       let (status, mp) = monitor_auth_parser_init env in
       bindr (upd_monitor a (\<lambda>m. m\<lparr>m_parser := M_auth mp\<rparr>) w) (\<lambda>w1.
       if status \<noteq> MONITOR_AUTH_STATUS_OK then
         bindr (set_monitor_error a MONITOR_IO_ERROR w1) (\<lambda>w2.
           monitor_error_arrival env MONITOR_ERROR key w2)
       else upd_monitor a (\<lambda>m. m\<lparr>m_active_parser := AUTH_PARSER_MONITOR\<rparr>) w1))"

text \<open>A failed login: the error code is kept, and one byte is sent at once.\<close>

definition auth_failed :: "env \<Rightarrow> key \<Rightarrow> world \<Rightarrow> (nat option \<times> world) res" where
  "auth_failed env key w = Inr (Some MONITOR_ERROR, snd (sys_send env (fst key) [0x01] w))"

definition login_error :: "user_status \<Rightarrow> byte \<Rightarrow> byte" where
  "login_error status old =
     (if status = USERS_USER_NOT_FOUND then MONITOR_USER_NOT_FOUND
      else if status = USERS_WRONG_PASSWORD then MONITOR_WRONG_PASSWORD else old)"

definition monitor_login :: "env \<Rightarrow> key \<Rightarrow> nat \<Rightarrow> monitor_auth_parser_t \<Rightarrow> world \<Rightarrow> (nat option \<times> world) res" where
  "monitor_login env key a mp w =
     bindr (string_at (map_uname mp)) (\<lambda>uname.
     bindr (string_at (map_passwd mp)) (\<lambda>passwd.
     bindr (get_monitor a w) (\<lambda>m.
       let (status, level) = user_login (w_users w) (Some uname) passwd in
       if status \<noteq> USERS_OK then
         bindr (set_monitor_error a (login_error status (m_error m)) w) (\<lambda>w1. auth_failed env key w1)
       else
         bindr (deref Uninitialised level) (\<lambda>lv.
         bindr (upd_monitor a (\<lambda>m. m\<lparr>m_user_access_level := lv\<rparr>) w) (\<lambda>w1.
         if lv \<noteq> 0 then
           bindr (set_monitor_error a MONITOR_LACKS_PRIVILEGE w1) (\<lambda>w2. auth_failed env key w2)
         else Inr (Some MONITOR_REQ, w1))))))"

definition set_monitor_auth :: "nat \<Rightarrow> monitor_auth_parser_t \<Rightarrow> world \<Rightarrow> world res" where
  "set_monitor_auth a mp w = upd_monitor a (\<lambda>m. m\<lparr>m_parser := M_auth mp\<rparr>) w"

definition monitor_auth_event :: "env \<Rightarrow> key \<Rightarrow> nat \<Rightarrow> parser_event \<Rightarrow> world \<Rightarrow> (nat option \<times> world) res" where
  "monitor_auth_event env key a ev w =
     bindr (get_monitor a w) (\<lambda>m.
     bindr (mauth_of m) (\<lambda>mp.
     if ev_type ev = MONITOR_AUTH_EVENT_ULEN then
       bindr (arr_get (ev_data ev) 0) (\<lambda>d.
       bindr (set_monitor_auth a (mp\<lparr>map_ulen := d, map_uname_read := 0\<rparr>) w) (\<lambda>w1. Inr (None, w1)))
     else if ev_type ev = MONITOR_AUTH_EVENT_UNAME then
       bindr (if map_uname_read mp < map_ulen mp then
                bindr (arr_get (ev_data ev) 0) (\<lambda>d.
                bindr (store_char (map_uname mp) (map_uname_read mp) d) (\<lambda>(arr, r).
                  Inr (mp\<lparr>map_uname := arr, map_uname_read := r\<rparr>)))
              else Inr mp) (\<lambda>mp1.
       bindr (if map_uname_read mp1 = map_ulen mp1 then
                bindr (deref NullDeref (map_p mp1)) (\<lambda>p.
                  Inr (mp1\<lparr>map_p := Some (parser_set_state p MONITOR_AUTH_STATE_PLEN)\<rparr>))
              else Inr mp1) (\<lambda>mp2.
       bindr (set_monitor_auth a mp2 w) (\<lambda>w1. Inr (None, w1))))
     else if ev_type ev = MONITOR_AUTH_EVENT_PLEN then
       bindr (arr_get (ev_data ev) 0) (\<lambda>d.
       bindr (set_monitor_auth a (mp\<lparr>map_plen := d, map_passwd_read := 0\<rparr>) w) (\<lambda>w1. Inr (None, w1)))
     else if ev_type ev = MONITOR_AUTH_EVENT_PASSWD then
       bindr (if map_passwd_read mp < map_plen mp then
                bindr (arr_get (ev_data ev) 0) (\<lambda>d.
                bindr (store_char (map_passwd mp) (map_passwd_read mp) d) (\<lambda>(arr, r).
                  Inr (mp\<lparr>map_passwd := arr, map_passwd_read := r\<rparr>)))
              else Inr mp) (\<lambda>mp1.
       bindr (set_monitor_auth a mp1 w) (\<lambda>w1.
       if map_passwd_read mp1 = map_plen mp1 then monitor_login env key a mp1 w1
       else Inr (None, w1)))
     else if ev_type ev = MONITOR_AUTH_EVENT_DONE then Inr (Some MONITOR_REQ, w)
     else bindr (set_monitor_error a MONITOR_UNKNOWN_ERROR w) (\<lambda>w1. Inr (Some MONITOR_ERROR, w1))))"

fun monitor_auth_events :: "env \<Rightarrow> key \<Rightarrow> nat \<Rightarrow> parser_event list \<Rightarrow> world \<Rightarrow> (nat \<times> world) res" where
  "monitor_auth_events env key a [] w = Inr (MONITOR_AUTH, w)"
| "monitor_auth_events env key a (ev # evs) w =
     bindr (monitor_auth_event env key a ev w) (\<lambda>(ret, w1).
       case ret of Some st \<Rightarrow> Inr (st, w1) | None \<Rightarrow> monitor_auth_events env key a evs w1)"

definition monitor_auth_read :: "env \<Rightarrow> key \<Rightarrow> world \<Rightarrow> (nat \<times> world) res" where
  "monitor_auth_read env key w =
     bindr (attached_monitor key) (\<lambda>a.
     bindr (get_monitor a w) (\<lambda>m.
       let (n, bs, w1) = sys_recv env (fst key) 1 w in
       if n \<le> 0 then
         if would_block w1 then Inr (MONITOR_AUTH, w1)
         else bindr (set_monitor_error a MONITOR_IO_ERROR w1) (\<lambda>w2. Inr (MONITOR_ERROR, w2))
       else
         bindr (mauth_of m) (\<lambda>mp.
         bindr (deref NullDeref (map_p mp)) (\<lambda>p.
         bindr (parser_feed p (hd bs)) (\<lambda>p'.
         bindr (set_monitor_auth a (mp\<lparr>map_p := Some p'\<rparr>) w1) (\<lambda>w2.
           monitor_auth_events env key a (parser_events p') w2))))))"

end
