(* ===== verification/Monitor_Req.thy ===== *)
theory Monitor_Req
  imports Monitor_Auth
begin

text \<open>
  The requests of an administrator: \<^verbatim>\<open>src/src/server/monitor/monitor_req.c\<close> (the parser and the
  callbacks of \<^verbatim>\<open>MONITOR_REQ\<close>) and \<^verbatim>\<open>monitor_req_utils.c\<close> (running a request and sending its
  response). The departure callback \<open>monitor_req_finalize\<close> is in \<open>Closing\<close>.
\<close>

section \<open>The requests\<close>

definition ADD_USER :: byte where "ADD_USER = 0"
definition REMOVE_USER :: byte where "REMOVE_USER = 1"
definition CHANGE_PASSWD :: byte where "CHANGE_PASSWD = 2"
definition STATISTICS :: byte where "STATISTICS = 3"
definition CHANGE_AUTH_METHODS :: byte where "CHANGE_AUTH_METHODS = 4"

lemmas monitor_request_defs = ADD_USER_def REMOVE_USER_def CHANGE_PASSWD_def STATISTICS_def CHANGE_AUTH_METHODS_def

definition REQ_AMOUNT :: nat where "REQ_AMOUNT = 5"

text \<open>Five entries, four of them with an initialiser.\<close>

definition max_arguments :: "byte list" where "max_arguments = [3, 1, 2, 0, 0]"

section \<open>The parser\<close>

definition MONITOR_REQ_STATE_TYPE :: nat where "MONITOR_REQ_STATE_TYPE = 0"
definition MONITOR_REQ_STATE_ARGUMENT_LENGTH :: nat where "MONITOR_REQ_STATE_ARGUMENT_LENGTH = 1"
definition MONITOR_REQ_STATE_ARGUMENT :: nat where "MONITOR_REQ_STATE_ARGUMENT = 2"
definition MONITOR_REQ_STATE_DONE :: nat where "MONITOR_REQ_STATE_DONE = 3"
definition MONITOR_REQ_STATE_ERROR :: nat where "MONITOR_REQ_STATE_ERROR = 4"

definition MONITOR_REQ_EVENT_TYPE :: nat where "MONITOR_REQ_EVENT_TYPE = 0"
definition MONITOR_REQ_EVENT_ARGUMENT_LENGTH :: nat where "MONITOR_REQ_EVENT_ARGUMENT_LENGTH = 1"
definition MONITOR_REQ_EVENT_ARGUMENT :: nat where "MONITOR_REQ_EVENT_ARGUMENT = 2"
definition MONITOR_REQ_EVENT_DONE :: nat where "MONITOR_REQ_EVENT_DONE = 3"
definition MONITOR_REQ_EVENT_ERROR :: nat where "MONITOR_REQ_EVENT_ERROR = 4"

lemmas monitor_req_consts = MONITOR_REQ_STATE_TYPE_def MONITOR_REQ_STATE_ARGUMENT_LENGTH_def
  MONITOR_REQ_STATE_ARGUMENT_def MONITOR_REQ_STATE_DONE_def MONITOR_REQ_STATE_ERROR_def
  MONITOR_REQ_EVENT_TYPE_def MONITOR_REQ_EVENT_ARGUMENT_LENGTH_def MONITOR_REQ_EVENT_ARGUMENT_def
  MONITOR_REQ_EVENT_DONE_def MONITOR_REQ_EVENT_ERROR_def

definition act_monitor_req_type :: parser_action where "act_monitor_req_type = put_byte MONITOR_REQ_EVENT_TYPE"
definition act_monitor_req_argument_length :: parser_action where
  "act_monitor_req_argument_length = put_byte MONITOR_REQ_EVENT_ARGUMENT_LENGTH"
definition act_monitor_req_argument :: parser_action where
  "act_monitor_req_argument = put_byte MONITOR_REQ_EVENT_ARGUMENT"
definition act_monitor_req_done :: parser_action where "act_monitor_req_done = put_none MONITOR_REQ_EVENT_DONE"
definition act_monitor_req_error :: parser_action where "act_monitor_req_error = put_none MONITOR_REQ_EVENT_ERROR"

definition monitor_req_parser_def :: parser_definition where
  "monitor_req_parser_def =
     \<lparr>def_states_count = 5,
      def_states =
        [[on_any MONITOR_REQ_STATE_ARGUMENT_LENGTH act_monitor_req_type],
         [on_any MONITOR_REQ_STATE_ARGUMENT act_monitor_req_argument_length],
         [on_any MONITOR_REQ_STATE_ARGUMENT act_monitor_req_argument],
         [on_any MONITOR_REQ_STATE_DONE act_monitor_req_done],
         [on_any MONITOR_REQ_STATE_ERROR act_monitor_req_error]],
      def_states_n = [1, 1, 1, 1, 1],
      def_start_state = MONITOR_REQ_STATE_TYPE\<rparr>"

lemmas monitor_req_table_defs = monitor_req_parser_def_def act_monitor_req_type_def
  act_monitor_req_argument_length_def act_monitor_req_argument_def act_monitor_req_done_def
  act_monitor_req_error_def monitor_req_consts

interpretation monitor_req_table: total_table monitor_req_parser_def
proof unfold_locales
  fix st assume "st < def_states_count monitor_req_parser_def"
  then have "st \<in> {0, 1, 2, 3, 4}" by (auto simp: monitor_req_parser_def_def)
  then show "def_states_n monitor_req_parser_def ! st \<le> length (def_states monitor_req_parser_def ! st) \<and>
      (\<forall>t \<in> set (take (def_states_n monitor_req_parser_def ! st) (def_states monitor_req_parser_def ! st)).
         plain_transition (def_states_count monitor_req_parser_def) t) \<and>
      (\<exists>t \<in> set (take (def_states_n monitor_req_parser_def ! st) (def_states monitor_req_parser_def ! st)).
         tr_when t = ANY)"
    by (auto simp: monitor_req_table_defs)
qed (simp_all add: monitor_req_table_defs)

definition zero_monitor_req :: monitor_req_parser_t where
  "zero_monitor_req = \<lparr>mrq_type = 0, mrq_arguments_read = 0, mrq_current_argument_length = 0,
     mrq_current_argument_read = 0, mrq_req_status = MONITOR_REQ_STATUS_OK, mrq_arguments = None,
     mrq_access_level = 0,
     mrq_stats = \<lparr>historic_connections = 0, current_connections = 0, transferred_bytes = 0\<rparr>, mrq_p = None\<rparr>"

definition monitor_req_parser_init :: "env \<Rightarrow> monitor_req_status_t \<times> monitor_req_parser_t" where
  "monitor_req_parser_init env =
     (let mrq = zero_monitor_req\<lparr>mrq_p :=
                  parser_init (e_alloc env A_parser) (parser_no_classes (e_stray env)) monitor_req_parser_def\<rparr>
      in (if mrq_p mrq = None then MONITOR_REQ_STATUS_ERR else MONITOR_REQ_STATUS_OK, mrq))"

definition set_monitor_req :: "nat \<Rightarrow> monitor_req_parser_t \<Rightarrow> world \<Rightarrow> world res" where
  "set_monitor_req a mrq w = upd_monitor a (\<lambda>m. m\<lparr>m_parser := M_req mrq\<rparr>) w"

definition monitor_req_init :: "env \<Rightarrow> nat \<Rightarrow> key \<Rightarrow> world \<Rightarrow> world res" where
  "monitor_req_init env state key w =
     bindr (attached_monitor key) (\<lambda>a.
       let (status, mrq) = monitor_req_parser_init env in
       bindr (set_monitor_req a mrq w) (\<lambda>w1.
       if status \<noteq> MONITOR_REQ_STATUS_OK then
         bindr (set_monitor_error a MONITOR_IO_ERROR w1) (\<lambda>w2.
           monitor_error_arrival env MONITOR_ERROR key w2)
       else
         let arguments = (if e_alloc env A_arguments then Some (replicate MAX_BUFFER_SIZE CellUninit) else None) in
         bindr (set_monitor_req a (mrq\<lparr>mrq_arguments := arguments\<rparr>) w1) (\<lambda>w2.
           upd_monitor a (\<lambda>m. m\<lparr>m_active_parser := REQ_PARSER\<rparr>) w2)))"

section \<open>Running a request\<close>

text \<open>The pointer in a cell: null or the memory of an argument; and the string there.\<close>

definition cell_pointer :: "arg_cell \<Rightarrow> byte list option res" where
  "cell_pointer cell =
     (case cell of CellUninit \<Rightarrow> Inl Uninitialised | CellNull \<Rightarrow> Inr None | CellPtr s \<Rightarrow> Inr (Some s))"

definition argument_at :: "arg_cell list \<Rightarrow> nat \<Rightarrow> byte list option res" where
  "argument_at cells i = bindr (arr_get cells i) cell_pointer"

definition string_of :: "byte list option \<Rightarrow> byte list option res" where
  "string_of mem = (case mem of None \<Rightarrow> Inr None | Some s \<Rightarrow> bindr (string_at s) (\<lambda>t. Inr (Some t)))"

definition status_of :: "bool \<Rightarrow> monitor_req_status_t" where
  "status_of ok = (if ok then MONITOR_REQ_STATUS_OK else MONITOR_REQ_STATUS_ERR)"

text \<open>
  The branches of the request switch; a branch that succeeds goes on to set the interest. The
  access level is the first byte of its argument, a signed character.
\<close>

definition request_add_user :: "arg_cell list \<Rightarrow> world \<Rightarrow> (monitor_req_status_t \<times> world) res" where
  "request_add_user cells w =
     bindr (argument_at cells 0) (\<lambda>uname.
     bindr (argument_at cells 1) (\<lambda>passwd.
     bindr (argument_at cells 2) (\<lambda>level.
     bindr (valid_user uname passwd) (\<lambda>valid.
     if valid = USERS_OK then Inr (MONITOR_REQ_STATUS_OK, w)
     else
       bindr (deref NullDeref level) (\<lambda>lv.
       bindr (arr_get lv 0) (\<lambda>c.
       bindr (string_of uname) (\<lambda>name.
       bindr (string_of passwd) (\<lambda>pass.
       bindr (user_create (w_users w) name pass (sint c)) (\<lambda>(status, us).
         Inr (status_of (status = USERS_OK), w\<lparr>w_users := us\<rparr>))))))))))"

definition request_remove_user :: "arg_cell list \<Rightarrow> world \<Rightarrow> (monitor_req_status_t \<times> world) res" where
  "request_remove_user cells w =
     bindr (argument_at cells 0) (\<lambda>uname.
     bindr (string_of uname) (\<lambda>name.
       let (status, us) = user_delete (w_users w) name in
       Inr (status_of (status = USERS_OK), w\<lparr>w_users := us\<rparr>)))"

definition request_change_passwd :: "arg_cell list \<Rightarrow> world \<Rightarrow> (monitor_req_status_t \<times> world) res" where
  "request_change_passwd cells w =
     bindr (argument_at cells 0) (\<lambda>uname.
     bindr (argument_at cells 1) (\<lambda>passwd.
     bindr (string_of uname) (\<lambda>name.
     bindr (string_of passwd) (\<lambda>pass.
     bindr (user_change_password (w_users w) name pass) (\<lambda>(status, us).
       Inr (status_of (status = USERS_OK), w\<lparr>w_users := us\<rparr>))))))"

definition request_statistics :: "nat \<Rightarrow> monitor_req_parser_t \<Rightarrow> world \<Rightarrow> (monitor_req_status_t \<times> world) res" where
  "request_statistics a mrq w =
     bindr (set_monitor_req a (mrq\<lparr>mrq_stats := w_stats w\<rparr>) w) (\<lambda>w1. Inr (MONITOR_REQ_STATUS_OK, w1))"

definition request_change_methods :: "arg_cell list \<Rightarrow> world \<Rightarrow> (monitor_req_status_t \<times> world) res" where
  "request_change_methods cells w =
     bindr (change_auth_methods (Some cells) (w_methods w)) (\<lambda>(status, ms).
       Inr (status_of (status = AUTH_OK), w\<lparr>w_methods := ms\<rparr>))"

definition handle_request :: "key \<Rightarrow> world \<Rightarrow> (monitor_req_status_t \<times> world) res" where
  "handle_request key w =
     bindr (attached_monitor key) (\<lambda>a.
     bindr (get_monitor a w) (\<lambda>m.
     bindr (mreq_of m) (\<lambda>mrq.
     bindr (deref NullDeref (mrq_arguments mrq)) (\<lambda>cells.
     bindr (if mrq_type mrq = ADD_USER then request_add_user cells w
            else if mrq_type mrq = REMOVE_USER then request_remove_user cells w
            else if mrq_type mrq = CHANGE_PASSWD then request_change_passwd cells w
            else if mrq_type mrq = STATISTICS then request_statistics a mrq w
            else if mrq_type mrq = CHANGE_AUTH_METHODS then request_change_methods cells w
            else Inr (MONITOR_REQ_STATUS_ERR, w)) (\<lambda>(status, w1).
     if status = MONITOR_REQ_STATUS_OK then
       bindr (set_interest_key key OP_WRITE w1) (\<lambda>w2. Inr (MONITOR_REQ_STATUS_OK, w2))
     else Inr (MONITOR_REQ_STATUS_ERR, w1))))))"

section \<open>Reading a request\<close>

text \<open>The end of the arguments: the terminating null, the count, and the request.\<close>

definition monitor_req_end :: "key \<Rightarrow> nat \<Rightarrow> monitor_req_parser_t \<Rightarrow> world \<Rightarrow> (nat option \<times> world) res" where
  "monitor_req_end key a mrq w =
     bindr (deref NullDeref (mrq_arguments mrq)) (\<lambda>cells.
     bindr (arr_set cells (unat (mrq_arguments_read mrq)) CellNull) (\<lambda>cells1.
     bindr (set_monitor_req a (mrq\<lparr>mrq_arguments := Some cells1\<rparr>) w) (\<lambda>w1.
     bindr (if mrq_type mrq \<noteq> CHANGE_AUTH_METHODS then
              bindr (arr_get max_arguments (unat (mrq_type mrq))) (\<lambda>k. Inr (mrq_arguments_read mrq \<noteq> k))
            else Inr False) (\<lambda>wrong.
     if wrong then Inr (Some MONITOR_ERROR, w1)
     else
       bindr (handle_request key w1) (\<lambda>(status, w2).
       bindr (get_monitor a w2) (\<lambda>m.
       bindr (mreq_of m) (\<lambda>mrq2.
       bindr (set_monitor_req a (mrq2\<lparr>mrq_req_status := status\<rparr>) w2) (\<lambda>w3.
         Inr (Some (if status \<noteq> MONITOR_REQ_STATUS_OK then MONITOR_ERROR else MONITOR_REQ), w3)))))))))"

text \<open>A new argument: one byte more than its length is allocated, and not initialised.\<close>

definition new_argument :: "env \<Rightarrow> byte \<Rightarrow> arg_cell" where
  "new_argument env len =
     (if e_alloc env A_argument then CellPtr (map (e_junk env) [0..<unat len + 1]) else CellNull)"

definition monitor_req_argument :: "env \<Rightarrow> nat \<Rightarrow> byte \<Rightarrow> monitor_req_parser_t \<Rightarrow> world \<Rightarrow> (nat option \<times> world) res" where
  "monitor_req_argument env a len mrq w =
     bindr (deref NullDeref (mrq_arguments mrq)) (\<lambda>cells.
     bindr (arr_set cells (unat (mrq_arguments_read mrq)) (new_argument env len)) (\<lambda>cells1.
     bindr (arr_set cells1 (unat (mrq_arguments_read mrq + 1)) CellNull) (\<lambda>cells2.
     bindr (set_monitor_req a (mrq\<lparr>mrq_arguments := Some cells2, mrq_arguments_read := mrq_arguments_read mrq + 1,
              mrq_current_argument_length := len, mrq_current_argument_read := 0\<rparr>) w) (\<lambda>w1.
       Inr (None, w1)))))"

text \<open>One byte of the argument read last.\<close>

definition store_argument :: "byte \<Rightarrow> monitor_req_parser_t \<Rightarrow> monitor_req_parser_t res" where
  "store_argument d mrq =
     bindr (deref NullDeref (mrq_arguments mrq)) (\<lambda>cells.
     bindr (guardr OutOfBounds (mrq_arguments_read mrq \<noteq> 0)) (\<lambda>_.
       let i = unat (mrq_arguments_read mrq) - 1 in
       bindr (argument_at cells i) (\<lambda>mem.
       bindr (deref NullDeref mem) (\<lambda>arr.
       bindr (store_char arr (mrq_current_argument_read mrq) d) (\<lambda>(arr', r).
         Inr (mrq\<lparr>mrq_arguments := Some (cells[i := CellPtr arr']), mrq_current_argument_read := r\<rparr>))))))"

definition monitor_req_event :: "env \<Rightarrow> key \<Rightarrow> nat \<Rightarrow> parser_event \<Rightarrow> world \<Rightarrow> (nat option \<times> world) res" where
  "monitor_req_event env key a ev w =
     bindr (get_monitor a w) (\<lambda>m.
     bindr (mreq_of m) (\<lambda>mrq.
     if ev_type ev = MONITOR_REQ_EVENT_TYPE then
       bindr (arr_get (ev_data ev) 0) (\<lambda>d.
       bindr (set_monitor_req a (mrq\<lparr>mrq_type := d\<rparr>) w) (\<lambda>w1. Inr (None, w1)))
     else if ev_type ev = MONITOR_REQ_EVENT_ARGUMENT_LENGTH then
       bindr (arr_get (ev_data ev) 0) (\<lambda>d.
         if d = 0 then monitor_req_end key a mrq w else monitor_req_argument env a d mrq w)
     else if ev_type ev = MONITOR_REQ_EVENT_ARGUMENT then
       bindr (if mrq_current_argument_read mrq < mrq_current_argument_length mrq then
                bindr (arr_get (ev_data ev) 0) (\<lambda>d. store_argument d mrq)
              else Inr mrq) (\<lambda>mrq1.
       bindr (if mrq_current_argument_read mrq1 = mrq_current_argument_length mrq1 then
                bindr (deref NullDeref (mrq_p mrq1)) (\<lambda>p.
                  Inr (mrq1\<lparr>mrq_p := Some (parser_set_state p MONITOR_REQ_STATE_ARGUMENT_LENGTH)\<rparr>))
              else Inr mrq1) (\<lambda>mrq2.
       bindr (set_monitor_req a mrq2 w) (\<lambda>w1. Inr (None, w1))))
     else if ev_type ev = MONITOR_REQ_EVENT_DONE then Inr (Some MONITOR_REQ, w)
     else bindr (set_monitor_error a MONITOR_UNKNOWN_ERROR w) (\<lambda>w1. Inr (Some MONITOR_ERROR, w1))))"

fun monitor_req_events :: "env \<Rightarrow> key \<Rightarrow> nat \<Rightarrow> parser_event list \<Rightarrow> world \<Rightarrow> (nat \<times> world) res" where
  "monitor_req_events env key a [] w = Inr (MONITOR_REQ, w)"
| "monitor_req_events env key a (ev # evs) w =
     bindr (monitor_req_event env key a ev w) (\<lambda>(ret, w1).
       case ret of Some st \<Rightarrow> Inr (st, w1) | None \<Rightarrow> monitor_req_events env key a evs w1)"

definition monitor_req_read :: "env \<Rightarrow> key \<Rightarrow> world \<Rightarrow> (nat \<times> world) res" where
  "monitor_req_read env key w =
     bindr (attached_monitor key) (\<lambda>a.
     bindr (get_monitor a w) (\<lambda>m.
       let (n, bs, w1) = sys_recv env (fst key) 1 w in
       if n \<le> 0 then
         if would_block w1 then Inr (MONITOR_REQ, w1)
         else bindr (set_monitor_error a MONITOR_IO_ERROR w1) (\<lambda>w2. Inr (MONITOR_ERROR, w2))
       else
         bindr (mreq_of m) (\<lambda>mrq.
         bindr (deref NullDeref (mrq_p mrq)) (\<lambda>p.
         bindr (parser_feed p (hd bs)) (\<lambda>p'.
         bindr (set_monitor_req a (mrq\<lparr>mrq_p := Some p'\<rparr>) w1) (\<lambda>w2.
           monitor_req_events env key a (parser_events p') w2))))))"

section \<open>The response\<close>

definition htonll :: "64 word \<Rightarrow> 64 word" where
  "htonll x =
     (let high = swap32 (ucast (drop_bit 32 x)); low = swap32 (ucast (x AND 0xFFFFFFFF))
      in push_bit 32 (ucast high) OR ucast low)"

definition write_u64 :: "byte list \<Rightarrow> nat \<Rightarrow> 64 word \<Rightarrow> byte list res" where
  "write_u64 buf pos v = arr_blit buf pos (bytes_of_u64 (htonll v))"

definition MAX_REPLY_SIZE :: nat where "MAX_REPLY_SIZE = 1 + 24"

definition status_byte :: "monitor_req_status_t \<Rightarrow> byte" where
  "status_byte st = (case st of MONITOR_REQ_STATUS_OK \<Rightarrow> 0 | MONITOR_REQ_STATUS_ERR \<Rightarrow> 1)"

definition monitor_reply :: "monitor_req_parser_t \<Rightarrow> byte list res" where
  "monitor_reply mrq =
     bindr (arr_set (replicate MAX_REPLY_SIZE 0) 0 (status_byte (mrq_req_status mrq))) (\<lambda>reply.
     if mrq_type mrq = STATISTICS then
       bindr (write_u64 reply 1 (historic_connections (mrq_stats mrq))) (\<lambda>r1.
       bindr (write_u64 r1 9 (transferred_bytes (mrq_stats mrq))) (\<lambda>r2.
       bindr (write_u64 r2 17 (current_connections (mrq_stats mrq))) (\<lambda>r3.
         Inr (take (1 + 24) r3))))
     else Inr (take 1 reply))"

definition send_response :: "env \<Rightarrow> key \<Rightarrow> world \<Rightarrow> (monitor_req_status_t \<times> world) res" where
  "send_response env key w =
     bindr (attached_monitor key) (\<lambda>a.
     bindr (get_monitor a w) (\<lambda>m.
     bindr (mreq_of m) (\<lambda>mrq.
     bindr (monitor_reply mrq) (\<lambda>reply.
       let (n, w1) = sys_send env (fst key) reply w in
       if n \<noteq> int (length reply) then Inr (MONITOR_REQ_STATUS_ERR, w1)
       else bindr (set_interest_key key OP_NOOP w1) (\<lambda>w2. Inr (MONITOR_REQ_STATUS_OK, w2))))))"

definition monitor_req_write :: "env \<Rightarrow> key \<Rightarrow> world \<Rightarrow> (nat \<times> world) res" where
  "monitor_req_write env key w =
     bindr (attached_monitor key) (\<lambda>a.
     bindr (send_response env key w) (\<lambda>(status, w1).
       if status \<noteq> MONITOR_REQ_STATUS_OK then
         bindr (set_monitor_error a MONITOR_IO_ERROR w1) (\<lambda>w2. Inr (MONITOR_ERROR, w2))
       else Inr (MONITOR_DONE, w1)))"

end
