(* ===== verification/Monitor_Machine.thy ===== *)
theory Monitor_Machine
  imports Monitor_Req Client_Machine
begin

text \<open>
  The state table of a monitor connection (\<^verbatim>\<open>monitor_states\<close> of \<^verbatim>\<open>active_monitor.h\<close>), its
  descriptor handlers (\<^verbatim>\<open>active_monitor.c\<close>) and the accepting handler of the monitor's listening
  socket (\<^verbatim>\<open>passive_monitor.c\<close>).
\<close>

definition monitor_states :: "env \<Rightarrow> (key, world) state_definition list" where
  "monitor_states env =
     [\<lparr>sd_state = MONITOR_AUTH, on_arrival = Some (monitor_auth_init env), on_departure = Some (monitor_auth_finalize env),
       on_read_ready = Some (monitor_auth_read env), on_write_ready = None, on_block_ready = None\<rparr>,
      \<lparr>sd_state = MONITOR_REQ, on_arrival = Some (monitor_req_init env), on_departure = Some monitor_req_finalize,
       on_read_ready = Some (monitor_req_read env), on_write_ready = Some (monitor_req_write env), on_block_ready = None\<rparr>,
      \<lparr>sd_state = MONITOR_DONE, on_arrival = Some (monitor_done_arrival env), on_departure = None,
       on_read_ready = None, on_write_ready = None, on_block_ready = None\<rparr>,
      \<lparr>sd_state = MONITOR_ERROR, on_arrival = Some (monitor_error_arrival env), on_departure = None,
       on_read_ready = None, on_write_ready = None, on_block_ready = None\<rparr>]"

definition handle_read_monitor :: "env \<Rightarrow> key \<Rightarrow> world \<Rightarrow> world res" where
  "handle_read_monitor env key w =
     bindr (attached_monitor key) (\<lambda>a.
     bindr (stm_handler_read (monitor_machine a) (set_monitor_machine a) (monitor_states env) key w)
       (\<lambda>(_, w'). Inr w'))"

definition handle_write_monitor :: "env \<Rightarrow> key \<Rightarrow> world \<Rightarrow> world res" where
  "handle_write_monitor env key w =
     bindr (attached_monitor key) (\<lambda>a.
     bindr (stm_handler_write (monitor_machine a) (set_monitor_machine a) (monitor_states env) key w)
       (\<lambda>(_, w'). Inr w'))"

definition INITIAL_ACTIVE_MONITOR_INTERESTS :: fd_interest where "INITIAL_ACTIVE_MONITOR_INTERESTS = OP_READ"

definition new_monitor :: monitor_t where
  "new_monitor =
     \<lparr>m_stm = \<lparr>stm_initial = MONITOR_AUTH, stm_max_state = MONITOR_ERROR, stm_current = None\<rparr>,
      m_user_access_level = 0, m_error = 0, m_active_parser = NO_PARSER_MONITOR, m_parser = M_none\<rparr>"

definition handle_read_passive_monitor :: "env \<Rightarrow> key \<Rightarrow> world \<Rightarrow> world res" where
  "handle_read_passive_monitor env key w =
     bindr (accept_loop (e_accept_interrupts env) (e_accept env) w) (\<lambda>(sock, w1).
       case sock of
         None \<Rightarrow> Inr w1
       | Some fd \<Rightarrow>
           if \<not> e_alloc env A_monitor then Inr (sys_close fd w1)
           else
             let a = w_next w1 in
             bindr (stm_init (monitor_states env) (m_stm new_monitor)) (\<lambda>st.
             let w2 = put_monitor a (new_monitor\<lparr>m_stm := st\<rparr>) (w1\<lparr>w_next := a + 1\<rparr>) in
             bindr (selector_register (e_alloc env A_selector) (e_realloc_junk env) (w_sel w2) fd
                      (Some ACTIVE_MONITOR_HANDLER) INITIAL_ACTIVE_MONITOR_INTERESTS (Some (MonitorPtr a))) (\<lambda>(status, s).
             let w3 = w2\<lparr>w_sel := s\<rparr> in
             if status \<noteq> SELECTOR_SUCCESS then Inr (free_monitor a (sys_close fd w3))
             else Inr w3)))"

section \<open>The table\<close>

lemma monitor_states_length [simp]: "length (monitor_states env) = 4"
  by (simp add: monitor_states_def)

lemma monitor_states_nth [simp]:
  "monitor_states env ! MONITOR_AUTH = \<lparr>sd_state = MONITOR_AUTH, on_arrival = Some (monitor_auth_init env),
     on_departure = Some (monitor_auth_finalize env), on_read_ready = Some (monitor_auth_read env),
     on_write_ready = None, on_block_ready = None\<rparr>"
  "monitor_states env ! MONITOR_REQ = \<lparr>sd_state = MONITOR_REQ, on_arrival = Some (monitor_req_init env),
     on_departure = Some monitor_req_finalize, on_read_ready = Some (monitor_req_read env),
     on_write_ready = Some (monitor_req_write env), on_block_ready = None\<rparr>"
  "monitor_states env ! MONITOR_DONE = \<lparr>sd_state = MONITOR_DONE, on_arrival = Some (monitor_done_arrival env),
     on_departure = None, on_read_ready = None, on_write_ready = None, on_block_ready = None\<rparr>"
  "monitor_states env ! MONITOR_ERROR = \<lparr>sd_state = MONITOR_ERROR, on_arrival = Some (monitor_error_arrival env),
     on_departure = None, on_read_ready = None, on_write_ready = None, on_block_ready = None\<rparr>"
  by (simp_all add: monitor_states_def monitor_state_defs eval_nat_numeral)

lemma monitor_table_ok [simp]: "table_ok (monitor_states env)"
proof -
  have "(i :: nat) < 4 \<longleftrightarrow> i \<in> {0, 1, 2, 3}" for i unfolding insert_iff empty_iff by arith
  then show ?thesis unfolding table_ok_def monitor_states_length
    by (auto simp: monitor_states_def monitor_state_defs)
qed

lemma monitor_departures_table: "map on_departure (monitor_states env) = monitor_departures env"
  by (simp add: monitor_states_def monitor_departures_def)

lemma monitor_stm_init:
  "stm_init (monitor_states env) (m_stm new_monitor) = Inr (m_stm new_monitor)"
  using stm_init_ok [of "monitor_states env" "m_stm new_monitor"]
  by (simp add: new_monitor_def monitor_state_defs)

end
