(* ===== verification/Monitor_Links.thy ===== *)
theory Monitor_Links
  imports Monitor_Machine Negotiation
begin

text \<open>
  Events on a monitor connection: the well-formedness a live one has, what an event does when its
  callback stays in the state or leaves it, and the tearing down of a connection.
\<close>

section \<open>Live monitor connections\<close>

definition monitor_owned :: "world \<Rightarrow> nat \<Rightarrow> int \<Rightarrow> bool" where
  "monitor_owned w a fd \<longleftrightarrow> (\<exists>i. sel_lookup (w_sel w) fd = Some (i, Some ACTIVE_MONITOR_HANDLER, Some (MonitorPtr a)))"

definition monitor_linked :: "world \<Rightarrow> nat \<Rightarrow> int \<Rightarrow> monitor_t \<Rightarrow> bool" where
  "monitor_linked w a fd m \<longleftrightarrow> selector_ok (w_sel w) \<and> w_monitors w a = Some m \<and> monitor_owned w a fd"

definition monitor_in :: "monitor_t \<Rightarrow> nat \<Rightarrow> bool" where
  "monitor_in m k \<longleftrightarrow> stm_current (m_stm m) = Some k \<and> stm_max_state (m_stm m) = MONITOR_ERROR \<and> k \<le> MONITOR_ERROR"

definition monitor_moved :: "monitor_t \<Rightarrow> nat \<Rightarrow> monitor_t" where
  "monitor_moved m k = m\<lparr>m_stm := (m_stm m)\<lparr>stm_current := Some k\<rparr>\<rparr>"

lemma monitor_moved_sel [simp]:
  "m_parser (monitor_moved m k) = m_parser m" "m_error (monitor_moved m k) = m_error m"
  "m_user_access_level (monitor_moved m k) = m_user_access_level m"
  "stm_current (m_stm (monitor_moved m k)) = Some k"
  "stm_max_state (m_stm (monitor_moved m k)) = stm_max_state (m_stm m)"
  by (simp_all add: monitor_moved_def)

lemma monitor_in_moved [simp]:
  "monitor_in m j \<Longrightarrow> k \<le> MONITOR_ERROR \<Longrightarrow> monitor_in (monitor_moved m k) k"
  by (simp add: monitor_in_def)

lemma monitor_owned_cong [simp]:
  "monitor_owned (put_monitor b m w) a fd = monitor_owned w a fd" "monitor_owned (emit x w) a fd = monitor_owned w a fd"
  "monitor_owned (received fd' bs w) a fd = monitor_owned w a fd"
  "monitor_owned (w\<lparr>w_errno := e\<rparr>) a fd = monitor_owned w a fd"
  "monitor_owned (w\<lparr>w_users := us\<rparr>) a fd = monitor_owned w a fd"
  "monitor_owned (w\<lparr>w_methods := ms\<rparr>) a fd = monitor_owned w a fd"
  "monitor_owned (w\<lparr>w_stats := st\<rparr>) a fd = monitor_owned w a fd"
  by (simp_all add: monitor_owned_def)

lemma monitor_owned_interest [simp]:
  "selector_ok (w_sel w) \<Longrightarrow> monitor_owned (w\<lparr>w_sel := upd_interest (w_sel w) fd' i\<rparr>) a fd = monitor_owned w a fd"
  by (auto simp: monitor_owned_def interest_simps with_interest_apply)

lemma received_monitor [simp]:
  "received fd ys (put_monitor a m w) = put_monitor a m (received fd ys w)"
  "w_monitors (received fd ys w) = w_monitors w"
  by (simp_all add: received_def put_monitor_def)

section \<open>Events\<close>

lemma handle_read_monitor_event:
  "handle_read_monitor env (fd, Some (MonitorPtr a)) w =
     bindr (stm_event on_read_ready (monitor_machine a) (set_monitor_machine a) (monitor_states env)
              (fd, Some (MonitorPtr a)) w) (\<lambda>(_, w'). Inr w')"
  by (simp add: handle_read_monitor_def stm_handler_read_def)

lemma handle_write_monitor_event:
  "handle_write_monitor env (fd, Some (MonitorPtr a)) w =
     bindr (stm_event on_write_ready (monitor_machine a) (set_monitor_machine a) (monitor_states env)
              (fd, Some (MonitorPtr a)) w) (\<lambda>(_, w'). Inr w')"
  by (simp add: handle_write_monitor_def stm_handler_write_def)

lemma monitor_event_run:
  assumes w: "w_monitors w a = Some m" and st: "monitor_in m k"
    and ready: "ready (monitor_states env ! k) = Some f"
  shows "stm_event ready (monitor_machine a) (set_monitor_machine a) (monitor_states env) key w =
     bindr (f key w) (\<lambda>(ret, w2). bindr (jump (monitor_machine a) (set_monitor_machine a) (monitor_states env) ret key w2)
       (\<lambda>w3. Inr (ret, w3)))"
  using mstm.event_with_callback [of a w "m_stm m" k "monitor_states env" ready f key] w st ready
  by (simp add: monitor_in_def MONITOR_ERROR_def)

lemma monitor_stays:
  assumes w: "w_monitors w a = Some m" and st: "monitor_in m k"
    and ready: "ready (monitor_states env ! k) = Some f"
    and run: "f key w = Inr (k, w2)" and w2: "w_monitors w2 a = Some m2" "m_stm m2 = m_stm m"
  shows "bindr (stm_event ready (monitor_machine a) (set_monitor_machine a) (monitor_states env) key w)
      (\<lambda>(_, w'). Inr w') = Inr w2"
  using monitor_event_run [where ready = ready and env = env and key = key, OF w st ready] run
    mstm.jump_stay [of a w2 "m_stm m" k "monitor_states env" key] w2 st
  by (simp add: monitor_in_def)

lemma monitor_leaves:
  assumes w: "w_monitors w a = Some m" and st: "monitor_in m k" and k: "k = MONITOR_AUTH \<or> k = MONITOR_REQ"
    and ready: "ready (monitor_states env ! k) = Some f"
    and run: "f key w = Inr (ret, w2)" and w2: "w_monitors w2 a = Some m2" "m_stm m2 = m_stm m"
    and ret: "ret \<noteq> k" "ret \<le> MONITOR_ERROR"
    and dep: "on_departure (monitor_states env ! k) = Some g" "g k key w2 = Inr w3"
    and w3: "w_monitors w3 a = Some m3" "m_stm m3 = m_stm m"
  shows "bindr (stm_event ready (monitor_machine a) (set_monitor_machine a) (monitor_states env) key w)
      (\<lambda>(_, w'). Inr w') =
     run_hook (on_arrival (monitor_states env ! ret)) ret key (put_monitor a (monitor_moved m3 ret) w3)"
proof -
  have get: "monitor_machine a w2 = Inr (m_stm m)" "monitor_machine a w3 = Inr (m_stm m)" using w2 w3 by simp_all
  have cur: "stm_current (m_stm m) = Some k" "ret \<le> stm_max_state (m_stm m)" "k < length (monitor_states env)"
    "ret < length (monitor_states env)"
    using st ret by (simp_all add: monitor_in_def MONITOR_ERROR_def)
  have j: "jump (monitor_machine a) (set_monitor_machine a) (monitor_states env) ret key w2 =
      run_hook (on_arrival (monitor_states env ! ret)) ret key (put_monitor a (monitor_moved m3 ret) w3)"
    using mstm.jump_depart [OF get(1) cur(1) ret(1) [symmetric] cur(2) monitor_table_ok cur(3,4) dep get(2)] w3
    by (simp add: monitor_moved_def)
  show ?thesis
    using monitor_event_run [where ready = ready and env = env and key = key, OF w st ready] run j
    by (simp add: bindr_def split: sum.splits)
qed

section \<open>Tearing down\<close>

definition monitor_gone :: "nat \<Rightarrow> int \<Rightarrow> world \<Rightarrow> bool" where
  "monitor_gone a fd w \<longleftrightarrow> w_monitors w a = None \<and> sel_lookup (w_sel w) fd = None"

lemma handle_close_monitor_closed:
  assumes "w_monitors w a = Some m" and "monitor_in m k" and "k = MONITOR_DONE \<or> k = MONITOR_ERROR"
  shows "handle_close_monitor env (fd, Some (MonitorPtr a)) w = Inr (free_monitor a (sys_close fd w))"
  using assms
  by (auto simp: handle_close_monitor_def stm_handler_close_def monitor_departures_def monitor_in_def
      monitor_state_defs eval_nat_numeral)

lemma unregister_monitor:
  assumes ok: "selector_ok (w_sel w)" and m: "w_monitors w a = Some m" and own: "monitor_owned w a fd"
    and st: "monitor_in m k" "k = MONITOR_DONE \<or> k = MONITOR_ERROR"
  shows "unregister env fd w = Inr ((free_monitor a (sys_close fd w))\<lparr>w_sel := drop_fd (w_sel w) fd\<rparr>)"
proof -
  from own obtain i where l: "sel_lookup (w_sel w) fd = Some (i, Some ACTIVE_MONITOR_HANDLER, Some (MonitorPtr a))"
    by (auto simp: monitor_owned_def)
  note it = sel_lookup_SomeD [OF l]
  have v: "\<not> INVALID_FD fd" using sel_lookup_valid [OF ok] l by simp
  have fd: "it_fd (s_fds (w_sel w) ! nat fd) = fd"
    using selector_ok_item [OF ok it(2)] it(1,3) by (simp add: item_ok_def)
  from drop_fd_ok(1) [OF ok, of fd] l
  have fin: "unregister_finish (w_sel w) fd = Inr (SELECTOR_SUCCESS, drop_fd (w_sel w) fd)" by simp
  show ?thesis
    using v it fd fin handle_close_monitor_closed [OF m st, of env fd]
    by (simp add: unregister_def selector_unregister_fd_def close_callback_def free_monitor_def sys_close_def)
qed

lemma closed_monitor:
  assumes l: "monitor_linked w a fd m" and st: "monitor_in m k" "k = MONITOR_DONE \<or> k = MONITOR_ERROR"
  shows "\<exists>w'. bindr (set_interest_key (fd, Some (MonitorPtr a)) OP_NOOP w) (unregister env fd) = Inr w' \<and>
    monitor_gone a fd w' \<and> w_trace w' = w_trace w @ [Closed fd] \<and> w_users w' = w_users w \<and>
    w_methods w' = w_methods w \<and> w_clients w' = w_clients w \<and> w_stats w' = w_stats w"
proof -
  let ?w1 = "w\<lparr>w_sel := upd_interest (w_sel w) fd OP_NOOP\<rparr>"
  from l have ok: "selector_ok (w_sel w)" and m: "w_monitors w a = Some m" and own: "monitor_owned w a fd"
    by (simp_all add: monitor_linked_def)
  have ok1: "selector_ok (w_sel ?w1)" "w_monitors ?w1 a = Some m" "monitor_owned ?w1 a fd"
    using ok m own set_interest_ok(2) [OF ok] by simp_all
  from ok1(3) have "sel_lookup (w_sel ?w1) fd \<noteq> None" by (auto simp: monitor_owned_def)
  from drop_fd_ok(3) [OF ok1(1) this] unregister_monitor [OF ok1 st, of env] show ?thesis
    using set_interest_ok(1) [OF ok, of fd OP_NOOP]
    by (simp add: set_interest_key_eq monitor_gone_def free_monitor_def sys_close_def)
qed

text \<open>Sockets that take what they are given.\<close>

definition willing :: "env \<Rightarrow> bool" where
  "willing env \<longleftrightarrow> (\<forall>i fd. \<exists>k \<ge> MAX_REPLY_SIZE. e_send env i fd = Takes k)"

lemma willing_send [simp]:
  assumes "willing env" and "length bs \<le> MAX_REPLY_SIZE"
  shows "sys_send env fd bs w = (int (length bs), emit (Sent fd bs) w)"
proof -
  from assms(1) obtain k where "MAX_REPLY_SIZE \<le> k" "e_send env (length (w_trace w)) fd = Takes k"
    unfolding willing_def by blast
  then show ?thesis using assms(2) by (simp add: sys_send_def)
qed

lemma willing_input [simp]: "willing (with_input env fd bs) = willing env"
  by (simp add: willing_def)

text \<open>What the two closing arrivals do.\<close>

lemma error_arrival:
  assumes l: "monitor_linked w a fd m" and st: "monitor_in m MONITOR_ERROR" and will: "willing env"
  shows "\<exists>w'. monitor_error_arrival env MONITOR_ERROR (fd, Some (MonitorPtr a)) w = Inr w' \<and> monitor_gone a fd w' \<and>
    w_trace w' = w_trace w @ (if m_error m \<noteq> 0 then [Sent fd [m_error m]] else []) @ [Closed fd] \<and>
    w_users w' = w_users w \<and> w_methods w' = w_methods w \<and> w_clients w' = w_clients w \<and> w_stats w' = w_stats w"
proof (cases "m_error m = 0")
  case True
  then show ?thesis using closed_monitor [OF l st, of env] l
    by (auto simp: monitor_error_arrival_def monitor_linked_def)
next
  case False
  have "monitor_linked (emit (Sent fd [m_error m]) w) a fd m" using l by (simp add: monitor_linked_def)
  from closed_monitor [OF this st, of env] False show ?thesis using l will
    by (auto simp: monitor_error_arrival_def monitor_linked_def MAX_REPLY_SIZE_def)
qed

lemma done_arrival:
  assumes l: "monitor_linked w a fd m" and st: "monitor_in m MONITOR_DONE"
  shows "\<exists>w'. monitor_done_arrival env MONITOR_DONE (fd, Some (MonitorPtr a)) w = Inr w' \<and> monitor_gone a fd w' \<and>
    w_trace w' = w_trace w @ [Closed fd] \<and> w_users w' = w_users w \<and> w_methods w' = w_methods w \<and>
    w_clients w' = w_clients w \<and> w_stats w' = w_stats w"
  using closed_monitor [OF l st, of env] by (auto simp: monitor_done_arrival_def)

section \<open>Reading a stream byte by byte\<close>

fun monitor_reads :: "env \<Rightarrow> key \<Rightarrow> byte list \<Rightarrow> world \<Rightarrow> world res" where
  "monitor_reads env key [] w = Inr w"
| "monitor_reads env key (b # bs) w =
     bindr (handle_read_monitor (with_input env (fst key) (b # bs)) key w) (monitor_reads env key bs)"

end
