(* ===== verification/Monitor_Login.thy ===== *)
theory Monitor_Login
  imports Monitor_Links
begin

text \<open>
  Whole logins of a monitor connection, from its first byte to the answer: what the bytes the
  protocol prescribes lead to, on success and on failure.
\<close>

section \<open>One byte\<close>

definition login_at :: "world \<Rightarrow> nat \<Rightarrow> int \<Rightarrow> monitor_t \<Rightarrow> nat \<Rightarrow> monitor_auth_parser_t \<Rightarrow> parser \<Rightarrow> bool" where
  "login_at w a fd m st mp p \<longleftrightarrow> monitor_linked w a fd m \<and> monitor_in m MONITOR_AUTH \<and> m_parser m = M_auth mp \<and>
     map_p mp = Some p \<and> parser_ok monitor_auth_parser_def p \<and> p_state p = st"

definition with_login :: "monitor_t \<Rightarrow> monitor_auth_parser_t \<Rightarrow> monitor_t" where
  "with_login m mp = m\<lparr>m_parser := M_auth mp\<rparr>"

lemma with_login_sel [simp]:
  "m_stm (with_login m mp) = m_stm m" "m_parser (with_login m mp) = M_auth mp" "m_error (with_login m mp) = m_error m"
  "m_user_access_level (with_login m mp) = m_user_access_level m" "with_login (with_login m mp) mp' = with_login m mp'"
  "monitor_in (with_login m mp) k = monitor_in m k"
  by (simp_all add: with_login_def monitor_in_def)

lemma monitor_auth_feed:
  assumes "parser_ok monitor_auth_parser_def p"
  shows "p_state p = MONITOR_AUTH_STATE_ULEN \<Longrightarrow>
      parser_feed p b = Inr (stepped p b MONITOR_AUTH_EVENT_ULEN MONITOR_AUTH_STATE_UNAME)"
    and "p_state p = MONITOR_AUTH_STATE_UNAME \<Longrightarrow>
      parser_feed p b = Inr (stepped p b MONITOR_AUTH_EVENT_UNAME MONITOR_AUTH_STATE_UNAME)"
    and "p_state p = MONITOR_AUTH_STATE_PLEN \<Longrightarrow>
      parser_feed p b = Inr (stepped p b MONITOR_AUTH_EVENT_PLEN MONITOR_AUTH_STATE_PASSWD)"
    and "p_state p = MONITOR_AUTH_STATE_PASSWD \<Longrightarrow>
      parser_feed p b = Inr (stepped p b MONITOR_AUTH_EVENT_PASSWD MONITOR_AUTH_STATE_PASSWD)"
  by (rule feed_row [OF assms]; simp add: monitor_auth_table_defs)+

text \<open>The world after a byte, before its event is handled; and a read in terms of its event.\<close>

definition byte_in :: "nat \<Rightarrow> int \<Rightarrow> monitor_t \<Rightarrow> monitor_auth_parser_t \<Rightarrow> byte \<Rightarrow> world \<Rightarrow> world" where
  "byte_in a fd m mp b w = put_monitor a (with_login m mp) (received fd [b] w)"

lemma byte_in_sel [simp]:
  "w_monitors (byte_in a fd m mp b w) a = Some (with_login m mp)" "w_users (byte_in a fd m mp b w) = w_users w"
  "put_monitor a m' (byte_in a fd m mp b w) = put_monitor a m' (received fd [b] w)"
  by (simp_all add: byte_in_def)

lemma login_read:
  assumes "login_at w a fd m st mp p" and "e_recv env fd = Avail (b # bs)"
    and "parser_feed p b = Inr (stepped p b ty dest)"
  shows "monitor_auth_read env (fd, Some (MonitorPtr a)) w =
    bindr (monitor_auth_event env (fd, Some (MonitorPtr a)) a (p_e1 (stepped p b ty dest))
      (byte_in a fd m (mp\<lparr>map_p := Some (stepped p b ty dest)\<rparr>) b w))
      (\<lambda>(ret, w1). Inr (case ret of Some st \<Rightarrow> st | None \<Rightarrow> MONITOR_AUTH, w1))"
  using assms
  by (auto simp: login_at_def monitor_linked_def monitor_auth_read_def set_monitor_auth_def with_login_def byte_in_def
      bindr_def split: sum.splits option.splits)

lemma login_stays:
  assumes "login_at w a fd m st mp p"
    and "monitor_auth_read env (fd, Some (MonitorPtr a)) w = Inr (MONITOR_AUTH, byte_in a fd m mp' b w)"
    and "map_p mp' = Some p'" "parser_ok monitor_auth_parser_def p'"
  shows "handle_read_monitor env (fd, Some (MonitorPtr a)) w = Inr (byte_in a fd m mp' b w)"
    and "login_at (byte_in a fd m mp' b w) a fd (with_login m mp') (p_state p') mp' p'"
proof -
  have m: "w_monitors w a = Some m" "monitor_in m MONITOR_AUTH" using assms(1) by (auto simp: login_at_def monitor_linked_def)
  show "handle_read_monitor env (fd, Some (MonitorPtr a)) w = Inr (byte_in a fd m mp' b w)"
    unfolding handle_read_monitor_event
    by (rule monitor_stays [where ready = on_read_ready and f = "monitor_auth_read env" and ?m2.0 = "with_login m mp'", OF m _ assms(2)]) simp_all
  show "login_at (byte_in a fd m mp' b w) a fd (with_login m mp') (p_state p') mp' p'"
    using assms by (simp add: login_at_def monitor_linked_def byte_in_def)
qed

lemma login_ulen:
  assumes "login_at w a fd m MONITOR_AUTH_STATE_ULEN mp p"
  shows "\<exists>mp' p'. monitor_reads env (fd, Some (MonitorPtr a)) (n # rest) w =
      monitor_reads env (fd, Some (MonitorPtr a)) rest (byte_in a fd m mp' n w) \<and>
    login_at (byte_in a fd m mp' n w) a fd (with_login m mp') MONITOR_AUTH_STATE_UNAME mp' p' \<and>
    map_uname mp' = map_uname mp \<and> map_passwd mp' = map_passwd mp \<and> map_ulen mp' = n \<and> map_uname_read mp' = 0"
proof -
  let ?p = "stepped p n MONITOR_AUTH_EVENT_ULEN MONITOR_AUTH_STATE_UNAME" and ?env = "with_input env fd (n # rest)"
  let ?mp = "mp\<lparr>map_p := Some ?p, map_ulen := n, map_uname_read := 0\<rparr>"
  have pok: "parser_ok monitor_auth_parser_def p" and feed: "parser_feed p n = Inr ?p"
    using assms monitor_auth_feed(1) [of p n] by (simp_all add: login_at_def)
  have run: "monitor_auth_read ?env (fd, Some (MonitorPtr a)) w = Inr (MONITOR_AUTH, byte_in a fd m ?mp n w)"
    using login_read [OF assms, of ?env n rest, OF _ feed] pok
    by (simp add: monitor_auth_event_def set_monitor_auth_def monitor_auth_consts, simp add: with_login_def byte_in_def)
  have p': "map_p ?mp = Some ?p" "parser_ok monitor_auth_parser_def ?p"
    using pok by (auto simp: monitor_auth_table_defs intro!: parser_ok_stepped)
  note step = login_stays [OF assms run p']
  show ?thesis using step by (intro exI [of _ ?mp] exI [of _ ?p]) simp
qed

lemma login_plen:
  assumes "login_at w a fd m MONITOR_AUTH_STATE_PLEN mp p"
  shows "\<exists>mp' p'. monitor_reads env (fd, Some (MonitorPtr a)) (n # rest) w =
      monitor_reads env (fd, Some (MonitorPtr a)) rest (byte_in a fd m mp' n w) \<and>
    login_at (byte_in a fd m mp' n w) a fd (with_login m mp') MONITOR_AUTH_STATE_PASSWD mp' p' \<and>
    map_uname mp' = map_uname mp \<and> map_passwd mp' = map_passwd mp \<and> map_plen mp' = n \<and> map_passwd_read mp' = 0"
proof -
  let ?p = "stepped p n MONITOR_AUTH_EVENT_PLEN MONITOR_AUTH_STATE_PASSWD" and ?env = "with_input env fd (n # rest)"
  let ?mp = "mp\<lparr>map_p := Some ?p, map_plen := n, map_passwd_read := 0\<rparr>"
  have pok: "parser_ok monitor_auth_parser_def p" and feed: "parser_feed p n = Inr ?p"
    using assms monitor_auth_feed(3) [of p n] by (simp_all add: login_at_def)
  have run: "monitor_auth_read ?env (fd, Some (MonitorPtr a)) w = Inr (MONITOR_AUTH, byte_in a fd m ?mp n w)"
    using login_read [OF assms, of ?env n rest, OF _ feed] pok
    by (simp add: monitor_auth_event_def set_monitor_auth_def monitor_auth_consts, simp add: with_login_def byte_in_def)
  have p': "map_p ?mp = Some ?p" "parser_ok monitor_auth_parser_def ?p"
    using pok by (auto simp: monitor_auth_table_defs intro!: parser_ok_stepped)
  note step = login_stays [OF assms run p']
  show ?thesis using step by (intro exI [of _ ?mp] exI [of _ ?p]) simp
qed

text \<open>A counter that goes up to a byte.\<close>

lemma counted:
  assumes "unat (r :: byte) = length xs" and "length xs < unat (n :: byte)"
  shows "r < n" and "unat (r + 1) = Suc (length xs)" and "r + 1 = n \<longleftrightarrow> length xs + 1 = unat n"
proof -
  show lt: "r < n" using assms by (simp add: word_less_nat_alt)
  show "unat (r + 1) = Suc (length xs)" using assms unat_byte_Suc [of r n] by simp
  then show "r + 1 = n \<longleftrightarrow> length xs + 1 = unat n" by (simp add: byte_eq_iff_unat)
qed

lemma map_p_first:
  "mp\<lparr>map_uname := x, map_uname_read := r, map_p := q\<rparr> = mp\<lparr>map_p := q, map_uname := x, map_uname_read := r\<rparr>"
  by (cases mp) simp

lemma login_name:
  assumes "login_at w a fd m MONITOR_AUTH_STATE_UNAME mp p" and "map_uname mp = filled xs (MAX_LENGTH + 1)"
    and "unat (map_uname_read mp) = length xs" and "length xs + length name = unat (map_ulen mp)" and "name \<noteq> []"
  shows "\<exists>mp' p'. monitor_reads env (fd, Some (MonitorPtr a)) (name @ rest) w =
      monitor_reads env (fd, Some (MonitorPtr a)) rest (put_monitor a (with_login m mp') (received fd name w)) \<and>
    login_at (put_monitor a (with_login m mp') (received fd name w)) a fd (with_login m mp') MONITOR_AUTH_STATE_PLEN mp' p' \<and>
    map_uname mp' = filled (xs @ name) (MAX_LENGTH + 1) \<and> map_passwd mp' = map_passwd mp"
  using assms
proof (induction name arbitrary: xs w m mp p)
  case (Cons b name)
  let ?k = "(fd, Some (MonitorPtr a))" and ?env = "with_input env fd (b # name @ rest)"
  let ?p = "stepped p b MONITOR_AUTH_EVENT_UNAME MONITOR_AUTH_STATE_UNAME"
  define p' where "p' = (if length xs + 1 = unat (map_ulen mp) then parser_set_state ?p MONITOR_AUTH_STATE_PLEN else ?p)"
  define mp1 where "mp1 = mp\<lparr>map_p := Some p', map_uname := filled (xs @ [b]) (MAX_LENGTH + 1),
      map_uname_read := map_uname_read mp + 1\<rparr>"
  have pok: "parser_ok monitor_auth_parser_def p" and feed: "parser_feed p b = Inr ?p"
    using Cons.prems(1) monitor_auth_feed(2) [of p b] by (simp_all add: login_at_def)
  have lt: "length xs < unat (map_ulen mp)" using Cons.prems(4) by simp
  note cnt = counted [OF Cons.prems(3) lt]
  have st: "store_char (map_uname mp) (map_uname_read mp) b = Inr (filled (xs @ [b]) (MAX_LENGTH + 1), map_uname_read mp + 1)"
    unfolding Cons.prems(2) using lt unat_byte_le [of "map_ulen mp"]
    by (intro store_char_filled [OF _ _ Cons.prems(3)]) (simp_all add: MAX_LENGTH_def)
  have run: "monitor_auth_read ?env ?k w = Inr (MONITOR_AUTH, byte_in a fd m mp1 b w)"
    using login_read [OF Cons.prems(1), of ?env b "name @ rest", OF _ feed] pok st cnt
    by (auto simp: monitor_auth_event_def set_monitor_auth_def monitor_auth_consts p'_def mp1_def with_login_def byte_in_def map_p_first)
  have p': "map_p mp1 = Some p'" "parser_ok monitor_auth_parser_def p'"
    using pok by (auto simp: mp1_def p'_def monitor_auth_table_defs intro!: parser_ok_stepped parser_ok_set_state)
  note step = login_stays [OF Cons.prems(1) run p']
  show ?case
  proof (cases "name = []")
    case True
    then have "p_state p' = MONITOR_AUTH_STATE_PLEN" using Cons.prems(4) by (simp add: p'_def)
    then show ?thesis using step True by (intro exI [of _ mp1] exI [of _ p']) (simp add: mp1_def byte_in_def)
  next
    case False
    then have "p_state p' = MONITOR_AUTH_STATE_UNAME" using Cons.prems(4) by (cases name) (simp_all add: p'_def)
    with step(2) have at1: "login_at (byte_in a fd m mp1 b w) a fd (with_login m mp1) MONITOR_AUTH_STATE_UNAME mp1 p'" by simp
    have "map_uname mp1 = filled (xs @ [b]) (MAX_LENGTH + 1)" "unat (map_uname_read mp1) = length (xs @ [b])"
      "length (xs @ [b]) + length name = unat (map_ulen mp1)" "map_passwd mp1 = map_passwd mp"
      using cnt Cons.prems(4) by (simp_all add: mp1_def)
    with Cons.IH [OF at1 this(1-3) False] show ?thesis using step(1) by (simp add: byte_in_def)
  qed
qed simp

lemma login_password:
  assumes "login_at w a fd m MONITOR_AUTH_STATE_PASSWD mp p" and "map_passwd mp = filled xs MAX_LENGTH"
    and "unat (map_passwd_read mp) = length xs" and "length xs + length pass < unat (map_plen mp)"
    and "unat (map_plen mp) < MAX_LENGTH"
  shows "\<exists>mp' p'. monitor_reads env (fd, Some (MonitorPtr a)) (pass @ rest) w =
      monitor_reads env (fd, Some (MonitorPtr a)) rest (put_monitor a (with_login m mp') (received fd pass w)) \<and>
    login_at (put_monitor a (with_login m mp') (received fd pass w)) a fd (with_login m mp') MONITOR_AUTH_STATE_PASSWD mp' p' \<and>
    map_passwd mp' = filled (xs @ pass) MAX_LENGTH \<and> unat (map_passwd_read mp') = length (xs @ pass) \<and>
    map_plen mp' = map_plen mp \<and> map_uname mp' = map_uname mp"
  using assms
proof (induction pass arbitrary: xs w m mp p)
  case Nil
  have "put_monitor a (with_login m mp) w = w" "with_login m mp = m"
    using Nil.prems(1) by (simp_all add: login_at_def monitor_linked_def put_monitor_def with_login_def fun_upd_idem)
  then show ?case using Nil.prems by (intro exI [of _ mp] exI [of _ p]) (simp add: received_def)
next
  case (Cons b pass)
  let ?k = "(fd, Some (MonitorPtr a))" and ?env = "with_input env fd (b # pass @ rest)"
  let ?p = "stepped p b MONITOR_AUTH_EVENT_PASSWD MONITOR_AUTH_STATE_PASSWD"
  define mp1 where "mp1 = mp\<lparr>map_p := Some ?p, map_passwd := filled (xs @ [b]) MAX_LENGTH,
      map_passwd_read := map_passwd_read mp + 1\<rparr>"
  have pok: "parser_ok monitor_auth_parser_def p" and feed: "parser_feed p b = Inr ?p"
    using Cons.prems(1) monitor_auth_feed(4) [of p b] by (simp_all add: login_at_def)
  have lt: "length xs < unat (map_plen mp)" using Cons.prems(4) by simp
  note cnt = counted [OF Cons.prems(3) lt]
  have more: "map_passwd_read mp + 1 \<noteq> map_plen mp" using cnt(3) Cons.prems(4) by simp
  have st: "store_char (map_passwd mp) (map_passwd_read mp) b = Inr (filled (xs @ [b]) MAX_LENGTH, map_passwd_read mp + 1)"
    unfolding Cons.prems(2) using Cons.prems(4,5) by (intro store_char_filled [OF _ _ Cons.prems(3)]) (simp_all add: MAX_LENGTH_def)
  have run: "monitor_auth_read ?env ?k w = Inr (MONITOR_AUTH, byte_in a fd m mp1 b w)"
    using login_read [OF Cons.prems(1), of ?env b "pass @ rest", OF _ feed] pok st cnt(1) more
    by (simp add: monitor_auth_event_def set_monitor_auth_def monitor_auth_consts mp1_def, simp add: with_login_def byte_in_def)
  have p': "map_p mp1 = Some ?p" "parser_ok monitor_auth_parser_def ?p"
    using pok by (auto simp: mp1_def monitor_auth_table_defs intro!: parser_ok_stepped)
  note step = login_stays [OF Cons.prems(1) run p']
  have "map_passwd mp1 = filled (xs @ [b]) MAX_LENGTH" "unat (map_passwd_read mp1) = length (xs @ [b])"
    "length (xs @ [b]) + length pass < unat (map_plen mp1)" "unat (map_plen mp1) < MAX_LENGTH" "map_plen mp1 = map_plen mp"
    "map_uname mp1 = map_uname mp"
    using cnt Cons.prems(4,5) by (simp_all add: mp1_def)
  with Cons.IH [OF step(2) [simplified] this(1-4)] show ?case using step(1) by (simp add: byte_in_def)
qed

section \<open>The verdict\<close>

text \<open>What the last byte of the password leads to.\<close>

definition may_log_in :: "users \<Rightarrow> byte list \<Rightarrow> byte list \<Rightarrow> bool" where
  "may_log_in us name pass \<longleftrightarrow> user_login us (Some name) pass = (USERS_OK, Some ADMIN)"

text \<open>The level of a failed login: a user without privileges leaves it in the connection.\<close>

definition failed_level :: "users \<Rightarrow> byte list \<Rightarrow> byte list \<Rightarrow> access_level \<Rightarrow> access_level" where
  "failed_level us name pass old = (case snd (user_login us (Some name) pass) of None \<Rightarrow> old | Some lv \<Rightarrow> lv)"

definition login_code :: "users \<Rightarrow> byte list \<Rightarrow> byte list \<Rightarrow> byte" where
  "login_code us name pass = (case fst (user_login us (Some name) pass) of
     USERS_USER_NOT_FOUND \<Rightarrow> MONITOR_USER_NOT_FOUND | USERS_WRONG_PASSWORD \<Rightarrow> MONITOR_WRONG_PASSWORD
   | _ \<Rightarrow> MONITOR_LACKS_PRIVILEGE)"

lemma user_login_cases:
  obtains "user_login us name pass = (USERS_USER_NOT_FOUND, None)"
    | "user_login us name pass = (USERS_WRONG_PASSWORD, None)"
    | lv where "user_login us name pass = (USERS_OK, Some lv)"
proof (cases "get_user_index us name")
  case None
  then show ?thesis using that(1) by (simp add: user_login_def)
next
  case (Some i)
  then show ?thesis using that(2,3) by (cases "u_pass (us ! i) = pass") (simp_all add: user_login_def)
qed

lemma monitor_login_result:
  assumes m: "w_monitors w a = Some m" and will: "willing env"
    and name: "map_uname mp = filled name (MAX_LENGTH + 1)" "length name \<le> MAX_LENGTH"
    and pass: "map_passwd mp = filled pass MAX_LENGTH" "length pass < MAX_LENGTH"
  shows "monitor_login env (fd, Some (MonitorPtr a)) a mp w =
    (if may_log_in (w_users w) (cstr name) (cstr pass)
     then Inr (Some MONITOR_REQ, put_monitor a (m\<lparr>m_user_access_level := ADMIN\<rparr>) w)
     else Inr (Some MONITOR_ERROR, put_monitor a
       (m\<lparr>m_user_access_level := failed_level (w_users w) (cstr name) (cstr pass) (m_user_access_level m),
          m_error := login_code (w_users w) (cstr name) (cstr pass)\<rparr>) (emit (Sent fd [1]) w)))"
proof -
  have s: "string_at (map_uname mp) = Inr (cstr name)" "string_at (map_passwd mp) = Inr (cstr pass)"
    using name pass cstr_filled [of name "MAX_LENGTH + 1"] cstr_filled [of pass MAX_LENGTH] by simp_all
  have snd: "sys_send env fd [1] w' = (1, emit (Sent fd [1]) w')" for w'
    using will by (simp add: MAX_REPLY_SIZE_def)
  show ?thesis
    using m s snd
    by (cases rule: user_login_cases [of "w_users w" "Some (cstr name)" "cstr pass"])
      (auto simp: monitor_login_def auth_failed_def login_error_def set_monitor_error_def may_log_in_def
        failed_level_def login_code_def ADMIN_def)
qed

text \<open>A monitor connection that was let in, and waits for the first byte of a request.\<close>

definition fresh_request :: "env \<Rightarrow> monitor_req_parser_t" where
  "fresh_request env = zero_monitor_req\<lparr>mrq_p := Some (fresh_parser env monitor_req_parser_def),
     mrq_arguments := Some (replicate MAX_BUFFER_SIZE CellUninit)\<rparr>"

definition serving :: "env \<Rightarrow> world \<Rightarrow> nat \<Rightarrow> int \<Rightarrow> monitor_t \<Rightarrow> bool" where
  "serving env w a fd m \<longleftrightarrow> monitor_linked w a fd m \<and> monitor_in m MONITOR_REQ \<and> m_parser m = M_req (fresh_request env) \<and>
     m_user_access_level m = ADMIN"

lemma request_init:
  assumes "e_alloc env A_parser" and "e_alloc env A_arguments" and "w_monitors w a = Some m"
  shows "monitor_req_init env MONITOR_REQ (fd, Some (MonitorPtr a)) w =
    Inr (put_monitor a (m\<lparr>m_parser := M_req (fresh_request env), m_active_parser := REQ_PARSER\<rparr>) w)"
  using assms by (simp add: monitor_req_init_def monitor_req_parser_init_def parser_init_def set_monitor_req_def
      fresh_request_def fresh_parser_def zero_monitor_req_def Let_def)

definition answered :: "env \<Rightarrow> nat \<Rightarrow> int \<Rightarrow> monitor_t \<Rightarrow> byte list \<Rightarrow> byte list \<Rightarrow> world \<Rightarrow> action list \<Rightarrow> world \<Rightarrow> bool" where
  "answered env a fd m name pass w t w' \<longleftrightarrow> w_users w' = w_users w \<and> w_methods w' = w_methods w \<and> w_stats w' = w_stats w \<and>
     (if may_log_in (w_users w) name pass
      then (\<exists>m'. serving env w' a fd m' \<and> m_error m' = m_error m) \<and> w_trace w' = w_trace w @ t @ [Sent fd [0]]
      else monitor_gone a fd w' \<and> w_trace w' = w_trace w @ t @
        [Sent fd [1],
         Sent fd [if failed_level (w_users w) name pass (m_user_access_level m) = ADMIN then 0 else 1],
         Sent fd [login_code (w_users w) name pass], Closed fd])"

lemma login_code_nonzero: "login_code us name pass \<noteq> 0"
  unfolding login_code_def
  by (cases rule: user_login_cases [of us "Some name" pass]) (simp_all add: monitor_error_defs)

lemma finalize_auth:
  assumes "w_monitors w a = Some m" and "m_parser m = M_auth mp" and "willing env"
  shows "monitor_auth_finalize env MONITOR_AUTH (fd, Some (MonitorPtr a)) w =
    Inr (put_monitor a (with_login m (mp\<lparr>map_p := None\<rparr>)) (emit (Sent fd [if m_user_access_level m = ADMIN then 0 else 1]) w))"
  using assms by (simp add: monitor_auth_finalize_def with_login_def MAX_REPLY_SIZE_def Let_def)

lemma login_last:
  assumes l: "login_at w a fd m MONITOR_AUTH_STATE_PASSWD mp p" and pass: "map_passwd mp = filled xs MAX_LENGTH"
    "unat (map_passwd_read mp) = length xs" "length xs + 1 = unat (map_plen mp)" "unat (map_plen mp) < MAX_LENGTH"
    and name: "map_uname mp = filled name (MAX_LENGTH + 1)" "length name \<le> MAX_LENGTH"
    and will: "willing env" and alloc: "e_alloc env A_parser" "e_alloc env A_arguments"
    and inp: "e_recv env fd = Avail (b # bs)"
  shows "\<exists>w'. handle_read_monitor env (fd, Some (MonitorPtr a)) w = Inr w' \<and>
    answered env a fd m (cstr name) (cstr (xs @ [b])) w [Recv fd [b]] w'"
proof -
  let ?k = "(fd, Some (MonitorPtr a))" and ?ok = "may_log_in (w_users w) (cstr name) (cstr (xs @ [b]))"
  let ?p = "stepped p b MONITOR_AUTH_EVENT_PASSWD MONITOR_AUTH_STATE_PASSWD"
  let ?lv = "failed_level (w_users w) (cstr name) (cstr (xs @ [b])) (m_user_access_level m)"
  let ?code = "login_code (w_users w) (cstr name) (cstr (xs @ [b]))"
  define mp1 where "mp1 = mp\<lparr>map_p := Some ?p, map_passwd := filled (xs @ [b]) MAX_LENGTH,
      map_passwd_read := map_passwd_read mp + 1\<rparr>"
  have ml: "w_monitors w a = Some m" "monitor_in m MONITOR_AUTH" "selector_ok (w_sel w)" "monitor_owned w a fd"
    and pok: "parser_ok monitor_auth_parser_def p" and feed: "parser_feed p b = Inr ?p"
    using l monitor_auth_feed(4) [of p b] by (simp_all add: login_at_def monitor_linked_def)
  have lt: "length xs < unat (map_plen mp)" using pass(3) by simp
  note cnt = counted [OF pass(2) lt]
  have st: "store_char (map_passwd mp) (map_passwd_read mp) b = Inr (filled (xs @ [b]) MAX_LENGTH, map_passwd_read mp + 1)"
    unfolding pass(1) using pass(3,4) by (intro store_char_filled [OF _ _ pass(2)]) (simp_all add: MAX_LENGTH_def)
  let ?w1 = "byte_in a fd m mp1 b w"
  have res: "monitor_login env ?k a mp1 ?w1 =
    (if ?ok then Inr (Some MONITOR_REQ, put_monitor a ((with_login m mp1)\<lparr>m_user_access_level := ADMIN\<rparr>) ?w1)
     else Inr (Some MONITOR_ERROR, put_monitor a ((with_login m mp1)\<lparr>m_user_access_level := ?lv, m_error := ?code\<rparr>)
       (emit (Sent fd [1]) ?w1)))"
    using monitor_login_result [of ?w1 a "with_login m mp1" env mp1 name "xs @ [b]" fd] will name pass(3,4)
    by (simp add: mp1_def)
  have read: "monitor_auth_read env ?k w = bindr (monitor_login env ?k a mp1 ?w1)
      (\<lambda>(ret, w1). Inr (case ret of Some st \<Rightarrow> st | None \<Rightarrow> MONITOR_AUTH, w1))"
    using login_read [OF l inp feed] pok st cnt pass(3)
    by (simp add: monitor_auth_event_def set_monitor_auth_def monitor_auth_consts mp1_def)
      (simp add: with_login_def byte_in_def)
  show ?thesis
  proof (cases ?ok)
    case True
    let ?m2 = "(with_login m mp1)\<lparr>m_user_access_level := ADMIN\<rparr>"
    let ?w2 = "put_monitor a ?m2 ?w1"
    have run: "monitor_auth_read env ?k w = Inr (MONITOR_REQ, ?w2)" using read res True by simp
    have dep: "monitor_auth_finalize env MONITOR_AUTH ?k ?w2 =
        Inr (put_monitor a (with_login ?m2 (mp1\<lparr>map_p := None\<rparr>)) (emit (Sent fd [0]) ?w2))"
      using finalize_auth [of ?w2 a ?m2 mp1 env fd] will by simp
    let ?m3 = "with_login ?m2 (mp1\<lparr>map_p := None\<rparr>)"
    let ?w3 = "put_monitor a ?m3 (emit (Sent fd [0]) ?w2)"
    let ?w4 = "put_monitor a (monitor_moved ?m3 MONITOR_REQ) ?w3"
    have "handle_read_monitor env ?k w =
        run_hook (on_arrival (monitor_states env ! MONITOR_REQ)) MONITOR_REQ ?k ?w4"
      unfolding handle_read_monitor_event
      by (rule monitor_leaves [where ready = on_read_ready and f = "monitor_auth_read env" and g = "monitor_auth_finalize env"
            and ?m2.0 = ?m2, OF ml(1,2) _ _ run _ _ _ _ _ dep]) simp_all
    also have "\<dots> = Inr (put_monitor a ((monitor_moved ?m3 MONITOR_REQ)\<lparr>m_parser := M_req (fresh_request env),
        m_active_parser := REQ_PARSER\<rparr>) ?w4)" (is "_ = Inr ?w5")
      using request_init [OF alloc, of ?w4 a _ fd] by simp
    finally have ev: "handle_read_monitor env ?k w = Inr ?w5" .
    have "serving env ?w5 a fd ((monitor_moved ?m3 MONITOR_REQ)\<lparr>m_parser := M_req (fresh_request env),
        m_active_parser := REQ_PARSER\<rparr>)"
      using ml by (simp add: serving_def monitor_linked_def monitor_in_def byte_in_def)
    then show ?thesis using ev True by (auto simp: answered_def byte_in_def)
  next
    case False
    let ?m2 = "(with_login m mp1)\<lparr>m_user_access_level := ?lv, m_error := ?code\<rparr>"
    let ?w2 = "put_monitor a ?m2 (emit (Sent fd [1]) ?w1)"
    let ?x = "if ?lv = ADMIN then 0 else 1 :: byte"
    have run: "monitor_auth_read env ?k w = Inr (MONITOR_ERROR, ?w2)" using read res False by simp
    let ?m3 = "with_login ?m2 (mp1\<lparr>map_p := None\<rparr>)"
    let ?w3 = "put_monitor a ?m3 (emit (Sent fd [?x]) ?w2)"
    let ?w4 = "put_monitor a (monitor_moved ?m3 MONITOR_ERROR) ?w3"
    have dep: "monitor_auth_finalize env MONITOR_AUTH ?k ?w2 = Inr ?w3"
      using finalize_auth [of ?w2 a ?m2 mp1 env fd] will by simp
    have ev: "handle_read_monitor env ?k w =
        run_hook (on_arrival (monitor_states env ! MONITOR_ERROR)) MONITOR_ERROR ?k ?w4"
      unfolding handle_read_monitor_event
      by (rule monitor_leaves [where ready = on_read_ready and f = "monitor_auth_read env" and g = "monitor_auth_finalize env"
            and ?m2.0 = ?m2, OF ml(1,2) _ _ run _ _ _ _ _ dep]) simp_all
    have l4: "monitor_linked ?w4 a fd (monitor_moved ?m3 MONITOR_ERROR)"
      using ml by (simp add: monitor_linked_def byte_in_def)
    have st4: "monitor_in (monitor_moved ?m3 MONITOR_ERROR) MONITOR_ERROR" using ml(2) by (simp add: monitor_in_def)
    have "m_error (monitor_moved ?m3 MONITOR_ERROR) = ?code" by simp
    with error_arrival [OF l4 st4 will] ev login_code_nonzero [of "w_users w" "cstr name" "cstr (xs @ [b])"] False
    show ?thesis by (auto simp: answered_def byte_in_def)
  qed
qed

section \<open>Whole logins\<close>

text \<open>The first event of a connection prepares the parser.\<close>

definition started :: "env \<Rightarrow> monitor_t \<Rightarrow> monitor_t" where
  "started env m = (monitor_moved m MONITOR_AUTH)\<lparr>
     m_parser := M_auth (zero_monitor_auth\<lparr>map_p := Some (fresh_parser env monitor_auth_parser_def)\<rparr>),
     m_active_parser := AUTH_PARSER_MONITOR\<rparr>"

lemma first_monitor_event:
  assumes "w_monitors w a = Some m" and "m_stm m = m_stm new_monitor" and "e_alloc env A_parser"
  shows "handle_read_monitor env (fd, Some (MonitorPtr a)) w =
     handle_read_monitor env (fd, Some (MonitorPtr a)) (put_monitor a (started env m) w)"
proof -
  let ?k = "(fd, Some (MonitorPtr a))"
  have ini: "stm_current (m_stm m) = None" "stm_initial (m_stm m) = MONITOR_AUTH"
    using assms(2) by (simp_all add: new_monitor_def)
  have init: "monitor_auth_init env MONITOR_AUTH ?k (put_monitor a (monitor_moved m MONITOR_AUTH) w) =
      Inr (put_monitor a (started env m) w)"
    using assms(3)
    by (simp add: monitor_auth_init_def monitor_auth_parser_init_def parser_init_def started_def
        fresh_parser_def zero_monitor_auth_def Let_def)
  have cur: "stm_current (m_stm (started env m)) = Some MONITOR_AUTH" by (simp add: started_def)
  have put: "set_monitor_machine a ((m_stm m)\<lparr>stm_current := Some MONITOR_AUTH\<rparr>) w =
      put_monitor a (monitor_moved m MONITOR_AUTH) w"
    using assms(1) by (simp add: monitor_moved_def)
  have "stm_event on_read_ready (monitor_machine a) (set_monitor_machine a) (monitor_states env) ?k w =
      stm_event on_read_ready (monitor_machine a) (set_monitor_machine a) (monitor_states env) ?k
        (put_monitor a (started env m) w)"
    using mstm.first_event [of a w "m_stm m" "monitor_states env" on_read_ready ?k, OF _ ini(1)]
      assms(1) ini init cur put
    by (simp add: stm_event_def handle_first_def)
  then show ?thesis by (simp add: handle_read_monitor_event)
qed

lemma serving_input [simp]: "serving (with_input env fd' bs) w a fd m = serving env w a fd m"
  by (simp add: serving_def fresh_request_def fresh_parser_def)

lemma login_run:
  assumes l: "monitor_linked w a fd m" and fresh: "m_stm m = m_stm new_monitor" "m_user_access_level m = ADMIN"
    and env: "willing env" "e_alloc env A_parser" "e_alloc env A_arguments"
    and name: "name \<noteq> []" "length name \<le> 255" and pass: "pass \<noteq> []" "length pass \<le> 254"
  shows "\<exists>w'. monitor_reads env (fd, Some (MonitorPtr a))
      (of_nat (length name) # name @ of_nat (length pass) # pass) w = Inr w' \<and>
    answered env a fd m (cstr name) (cstr pass) w
      (map (\<lambda>b. Recv fd [b]) (of_nat (length name) # name @ of_nat (length pass) # pass)) w'"
proof -
  let ?k = "(fd, Some (MonitorPtr a))" and ?m0 = "started env m" and ?w0 = "put_monitor a (started env m) w"
  let ?n = "of_nat (length name) :: byte" and ?q = "of_nat (length pass) :: byte"
  have lens: "unat ?n = length name" "unat ?q = length pass" using name pass by (simp_all add: byte_of_nat_unat)
  have m: "w_monitors w a = Some m" using l by (simp add: monitor_linked_def)
  have first: "monitor_reads env ?k (b # bs) w = monitor_reads env ?k (b # bs) ?w0" for b bs
    using first_monitor_event [OF m fresh(1), of "with_input env fd (b # bs)" fd] env(2)
    by (simp add: started_def fresh_parser_def)
  have "monitor_in ?m0 MONITOR_AUTH" using fresh(1) by (simp add: monitor_in_def started_def new_monitor_def)
  then have at0: "login_at ?w0 a fd ?m0 MONITOR_AUTH_STATE_ULEN
      (zero_monitor_auth\<lparr>map_p := Some (fresh_parser env monitor_auth_parser_def)\<rparr>) (fresh_parser env monitor_auth_parser_def)"
    using l parser_ok_fresh [of monitor_auth_parser_def env]
    by (simp add: login_at_def monitor_linked_def started_def monitor_auth_table_defs fresh_parser_def)
  obtain mp1 p1 where r1: "monitor_reads env ?k (?n # name @ ?q # pass) ?w0 =
      monitor_reads env ?k (name @ ?q # pass) (byte_in a fd ?m0 mp1 ?n ?w0)"
    and at1: "login_at (byte_in a fd ?m0 mp1 ?n ?w0) a fd (with_login ?m0 mp1) MONITOR_AUTH_STATE_UNAME mp1 p1"
    and mp1: "map_uname mp1 = filled [] (MAX_LENGTH + 1)" "map_passwd mp1 = filled [] MAX_LENGTH"
      "map_ulen mp1 = ?n" "map_uname_read mp1 = 0"
    using login_ulen [OF at0, of env ?n "name @ ?q # pass"] by (auto simp: zero_monitor_auth_def filled_Nil)
  let ?w1 = "byte_in a fd ?m0 mp1 ?n ?w0"
  obtain mp2 p2 where r2: "monitor_reads env ?k (name @ ?q # pass) ?w1 =
      monitor_reads env ?k (?q # pass) (put_monitor a (with_login ?m0 mp2) (received fd name ?w1))"
    and at2: "login_at (put_monitor a (with_login ?m0 mp2) (received fd name ?w1)) a fd (with_login ?m0 mp2) MONITOR_AUTH_STATE_PLEN mp2 p2"
    and mp2: "map_uname mp2 = filled name (MAX_LENGTH + 1)" "map_passwd mp2 = filled [] MAX_LENGTH"
    using login_name [OF at1 mp1(1), where name = name and env = env and rest = "?q # pass"] mp1 lens name
    by (auto simp: with_login_def)
  let ?w2 = "put_monitor a (with_login ?m0 mp2) (received fd name ?w1)"
  obtain mp3 p3 where r3: "monitor_reads env ?k (?q # pass) ?w2 = monitor_reads env ?k pass (byte_in a fd (with_login ?m0 mp2) mp3 ?q ?w2)"
    and at3: "login_at (byte_in a fd (with_login ?m0 mp2) mp3 ?q ?w2) a fd (with_login ?m0 mp3) MONITOR_AUTH_STATE_PASSWD mp3 p3"
    and mp3: "map_uname mp3 = filled name (MAX_LENGTH + 1)" "map_passwd mp3 = filled [] MAX_LENGTH"
      "map_plen mp3 = ?q" "map_passwd_read mp3 = 0"
    using login_plen [OF at2, of env ?q pass] mp2 by auto
  let ?w3 = "byte_in a fd (with_login ?m0 mp2) mp3 ?q ?w2"
  obtain init b where split: "pass = init @ [b]" using pass(1) by (cases pass rule: rev_cases) auto
  obtain mp4 p4 where r4: "monitor_reads env ?k (init @ [b]) ?w3 =
      monitor_reads env ?k [b] (put_monitor a (with_login ?m0 mp4) (received fd init ?w3))"
    and at4: "login_at (put_monitor a (with_login ?m0 mp4) (received fd init ?w3)) a fd (with_login ?m0 mp4) MONITOR_AUTH_STATE_PASSWD mp4 p4"
    and mp4: "map_passwd mp4 = filled init MAX_LENGTH" "unat (map_passwd_read mp4) = length init" "map_plen mp4 = ?q"
      "map_uname mp4 = filled name (MAX_LENGTH + 1)"
    using login_password [OF at3 mp3(2), where pass = init and env = env and rest = "[b]"] mp3 lens split pass
    by (auto simp: MAX_LENGTH_def)
  let ?w4 = "put_monitor a (with_login ?m0 mp4) (received fd init ?w3)"
  obtain w' where run: "handle_read_monitor (with_input env fd [b]) ?k ?w4 = Inr w'"
    and ans: "answered (with_input env fd [b]) a fd (with_login ?m0 mp4) (cstr name) (cstr (init @ [b])) ?w4 [Recv fd [b]] w'"
    using login_last [OF at4 mp4(1,2), where name = name and env = "with_input env fd [b]" and b = b and bs = "[]"]
      mp4 lens split pass name env by (auto simp: MAX_LENGTH_def)
  have "answered env a fd m (cstr name) (cstr pass) w
      (map (\<lambda>b. Recv fd [b]) (?n # name @ ?q # pass)) w'"
    using ans split fresh(2)
    by (auto simp: answered_def byte_in_def started_def received_def emit_def split: if_splits)
  then show ?thesis using run r1 r2 r3 r4 split by (simp add: first del: monitor_reads.simps) auto
qed

end
