(* ===== verification/Monitor_Client.thy ===== *)
theory Monitor_Client
  imports Users Stats World
begin

text \<open>
  The messages of the administration client, \<^verbatim>\<open>src/src/client/monitor_utils.c\<close>: the functions that
  write a request into a buffer, and those that read the answers of the server.
\<close>

section \<open>Writing requests\<close>

definition ADD_USER_ACTION_TYPE :: byte where "ADD_USER_ACTION_TYPE = 0"
definition DELETE_USER_ACTION_TYPE :: byte where "DELETE_USER_ACTION_TYPE = 1"
definition CHANGE_PASS_ACTION_TYPE :: byte where "CHANGE_PASS_ACTION_TYPE = 2"
definition GET_STATS_ACTION_TYPE :: byte where "GET_STATS_ACTION_TYPE = 3"
definition CHANGE_AUTH_METHODS_TYPE :: byte where "CHANGE_AUTH_METHODS_TYPE = 4"
definition TERMINATOR :: byte where "TERMINATOR = 0"
definition ACCESS_LEVEL_ARG_LENGTH :: byte where "ACCESS_LEVEL_ARG_LENGTH = 1"

lemmas action_type_defs = ADD_USER_ACTION_TYPE_def DELETE_USER_ACTION_TYPE_def CHANGE_PASS_ACTION_TYPE_def
  GET_STATS_ACTION_TYPE_def CHANGE_AUTH_METHODS_TYPE_def TERMINATOR_def ACCESS_LEVEL_ARG_LENGTH_def

definition UINT8_MAX :: nat where "UINT8_MAX = 255"

text \<open>
  Storing one chunk after the other at the position \<open>pos\<close>; the result is the buffer and the
  position behind the last one.
\<close>

fun put_all :: "byte list \<Rightarrow> nat \<Rightarrow> byte list list \<Rightarrow> (nat \<times> byte list) res" where
  "put_all buf pos [] = Inr (pos, buf)"
| "put_all buf pos (chunk # chunks) = bindr (arr_blit buf pos chunk) (\<lambda>buf'. put_all buf' (pos + length chunk) chunks)"

text \<open>
  The functions return the number of bytes written, 0 when they refuse, with the buffer. A null
  pointer is None; \<open>buffer_len\<close> is the size the caller states.
\<close>

definition bad_length :: "nat \<Rightarrow> bool" where
  "bad_length n \<longleftrightarrow> n = 0 \<or> n > UINT8_MAX"

definition refuse_message :: "byte list option \<Rightarrow> (nat \<times> byte list) res" where
  "refuse_message buf = Inr (0, case buf of None \<Rightarrow> [] | Some b \<Rightarrow> b)"

definition write_monitor_auth_request :: "byte list option \<Rightarrow> nat \<Rightarrow> user option \<Rightarrow> (nat \<times> byte list) res" where
  "write_monitor_auth_request buf buffer_len login_user =
     (case (buf, login_user) of
        (Some b, Some u) \<Rightarrow>
          let ulen = length (u_name u); plen = length (u_pass u) in
          if bad_length ulen \<or> bad_length plen then refuse_message buf
          else if 2 + ulen + plen > buffer_len then refuse_message buf
          else put_all b 0 [[of_nat ulen], u_name u, [of_nat plen], u_pass u]
      | _ \<Rightarrow> refuse_message buf)"

definition write_monitor_user_add_request :: "byte list option \<Rightarrow> nat \<Rightarrow> user option \<Rightarrow> (nat \<times> byte list) res" where
  "write_monitor_user_add_request buf buffer_len user_to_add =
     (case (buf, user_to_add) of
        (Some b, Some u) \<Rightarrow>
          let ulen = length (u_name u); plen = length (u_pass u) in
          if bad_length ulen \<or> bad_length plen then refuse_message buf
          else if 6 + ulen + plen > buffer_len then refuse_message buf
          else put_all b 0 [[ADD_USER_ACTION_TYPE], [of_nat ulen], u_name u, [of_nat plen], u_pass u,
                            [ACCESS_LEVEL_ARG_LENGTH], [of_int (u_level u)], [TERMINATOR]]
      | _ \<Rightarrow> refuse_message buf)"

definition write_monitor_user_delete_request :: "byte list option \<Rightarrow> nat \<Rightarrow> user option \<Rightarrow> (nat \<times> byte list) res" where
  "write_monitor_user_delete_request buf buffer_len user_to_delete =
     (case (buf, user_to_delete) of
        (Some b, Some u) \<Rightarrow>
          let ulen = length (u_name u) in
          if bad_length ulen then refuse_message buf
          else if 3 + ulen > buffer_len then refuse_message buf
          else put_all b 0 [[DELETE_USER_ACTION_TYPE], [of_nat ulen], u_name u, [TERMINATOR]]
      | _ \<Rightarrow> refuse_message buf)"

definition write_monitor_change_pass_request :: "byte list option \<Rightarrow> nat \<Rightarrow> user option \<Rightarrow> (nat \<times> byte list) res" where
  "write_monitor_change_pass_request buf buffer_len user_to_change =
     (case (buf, user_to_change) of
        (Some b, Some u) \<Rightarrow>
          let ulen = length (u_name u); plen = length (u_pass u) in
          if bad_length ulen \<or> bad_length plen then refuse_message buf
          else if 5 + ulen + plen > buffer_len then refuse_message buf
          else put_all b 0 [[CHANGE_PASS_ACTION_TYPE], [of_nat ulen], u_name u, [of_nat plen], u_pass u, [TERMINATOR]]
      | _ \<Rightarrow> refuse_message buf)"

definition write_monitor_get_stats_request :: "byte list option \<Rightarrow> nat \<Rightarrow> (nat \<times> byte list) res" where
  "write_monitor_get_stats_request buf buffer_len =
     (case buf of
        Some b \<Rightarrow> if buffer_len < 2 then refuse_message buf else put_all b 0 [[GET_STATS_ACTION_TYPE], [TERMINATOR]]
      | None \<Rightarrow> refuse_message buf)"

text \<open>
  The loop over the methods, the list of those from the index \<open>j\<close> on, up to the entry \<open>-1\<close>. The
  room in the buffer is not checked. Both indices have 16 bits in C; \<open>i\<close> wraps in the model too.
\<close>

fun methods_loop :: "byte list \<Rightarrow> 16 word \<Rightarrow> byte list \<Rightarrow> (nat \<times> byte list) res" where
  "methods_loop buf i [] = Inl OutOfBounds"
| "methods_loop buf i (m # ms) =
     (if sint m = -1 then bindr (arr_set buf (unat i) 0) (\<lambda>b. Inr (unat (i + 1), b))
      else
        bindr (arr_set buf (unat i) 1) (\<lambda>b1.
        bindr (arr_set b1 (unat (i + 1)) m) (\<lambda>b2. methods_loop b2 (i + 2) ms)))"

definition write_monitor_change_auth_methods_request ::
    "byte list option \<Rightarrow> nat \<Rightarrow> byte list \<Rightarrow> (nat \<times> byte list) res" where
  "write_monitor_change_auth_methods_request buf buffer_len auth_methods =
     (case buf of
        Some b \<Rightarrow>
          if buffer_len < 1 then refuse_message buf
          else bindr (arr_set b 0 CHANGE_AUTH_METHODS_TYPE) (\<lambda>b1. methods_loop b1 1 auth_methods)
      | None \<Rightarrow> refuse_message buf)"

section \<open>Reading answers\<close>

text \<open>
  The blocking socket of the client: what the successive segments hold, or the error of a receive;
  the empty list is a closed connection. A receive takes at most \<open>n\<close> bytes of the first segment.
\<close>

fun sock_recv :: "nat \<Rightarrow> recv_answer list \<Rightarrow> int \<times> byte list \<times> recv_answer list" where
  "sock_recv n [] = (0, [], [])"
| "sock_recv n (RecvErr e # rest) = (-1, [], rest)"
| "sock_recv n (Avail bs # rest) =
     (int (length (take n bs)), take n bs, if drop n bs = [] then rest else Avail (drop n bs) # rest)"

definition read_monitor_auth_reply :: "recv_answer list \<Rightarrow> bool \<times> recv_answer list" where
  "read_monitor_auth_reply sock =
     (let (n, bs, sock') = sock_recv 1 sock in
      if n \<le> 0 then (False, sock') else (hd bs = 0x00, sock'))"

text \<open>
  The loop that collects \<open>needed\<close> bytes; every round takes at least one, so there are at most
  \<open>needed\<close> rounds.
\<close>

function recv_all :: "nat \<Rightarrow> byte list \<Rightarrow> recv_answer list \<Rightarrow> byte list option \<times> recv_answer list" where
  "recv_all needed got sock =
     (if length got < needed then
        let (n, bs, sock') = sock_recv (needed - length got) sock in
        if n \<le> 0 then (None, sock') else recv_all needed (got @ bs) sock'
      else (Some got, sock))"
  by pat_completeness auto

lemma sock_recv_some: "(n, bs, sock') = sock_recv k sock \<Longrightarrow> \<not> n \<le> 0 \<Longrightarrow> bs \<noteq> []"
  by (cases "(k, sock)" rule: sock_recv.cases) auto

termination recv_all
proof (relation "measure (\<lambda>(needed, got, sock). needed - length got)")
  fix needed sock x n y sock' and got bs :: "byte list"
  assume "length got < needed" "x = sock_recv (needed - length got) sock" "(n, y) = x" "(bs, sock') = y" "\<not> (n :: int) \<le> 0"
  then have "bs \<noteq> []" using sock_recv_some [of n bs sock'] by simp
  then show "((needed, got @ bs, sock'), needed, got, sock) \<in> measure (\<lambda>(needed, got, sock). needed - length got)"
    using \<open>length got < needed\<close> by (cases bs) simp_all
qed simp

declare recv_all.simps [simp del]

definition ntohll_u64 :: "64 word \<Rightarrow> 64 word" where
  "ntohll_u64 x =
     (let high = swap32 (ucast (drop_bit 32 x)); low = swap32 (ucast (x AND 0xFFFFFFFF))
      in push_bit 32 (ucast high) OR ucast low)"

definition read_monitor_stats_reply :: "recv_answer list \<Rightarrow> stats option" where
  "read_monitor_stats_reply sock =
     (let (n, status, sock1) = sock_recv 1 sock in
      if n \<le> 0 \<or> hd status \<noteq> 0x00 then None
      else
        case fst (recv_all 24 [] sock1) of
          None \<Rightarrow> None
        | Some bs \<Rightarrow>
            let value = (\<lambda>i. ntohll_u64 (u64_of_bytes (take 8 (drop (8 * i) bs)))) in
            Some \<lparr>historic_connections = value 0, current_connections = value 2, transferred_bytes = value 1\<rparr>)"

section \<open>What is written\<close>

lemma put_all_blit:
  "pos + length (concat chunks) \<le> length buf \<Longrightarrow>
     put_all buf pos chunks = Inr (pos + length (concat chunks), overwrite buf pos (concat chunks))"
proof (induction chunks arbitrary: buf pos)
  case (Cons c cs)
  have "overwrite (overwrite buf pos c) (pos + length c) (concat cs) = overwrite buf pos (c @ concat cs)"
    using Cons.prems by (simp add: overwrite_def ac_simps)
  with Cons show ?case by simp
qed (simp add: overwrite_def)

lemma put_all_written:
  assumes "length (concat chunks) \<le> length buf"
  shows "\<exists>b. put_all buf 0 chunks = Inr (length (concat chunks), b) \<and> take (length (concat chunks)) b = concat chunks"
  using put_all_blit [of 0 chunks buf] assms by (simp add: overwrite_def)

section \<open>What is read\<close>

lemma recv_all_chunks:
  assumes "length got \<le> needed" and "[] \<notin> set css" and "concat css = bs @ extra" and "length got + length bs = needed"
  shows "fst (recv_all needed got (map Avail css)) = Some (got @ bs)"
  using assms
proof (induction "needed - length got" arbitrary: got css bs rule: less_induct)
  case less
  show ?case
  proof (cases "length got < needed")
    case False
    then show ?thesis using less.prems by (simp add: recv_all.simps)
  next
    case True
    then have "bs \<noteq> []" using less.prems(4) by auto
    then obtain c cs where css: "css = c # cs" "c \<noteq> []" using less.prems(2,3) by (cases css) auto
    let ?k = "needed - length got"
    define css' where "css' = (if drop ?k c = [] then cs else drop ?k c # cs)"
    have k: "length bs = ?k" using less.prems(4) by simp
    have sock: "sock_recv ?k (map Avail css) = (int (length (take ?k c)), take ?k c, map Avail css')"
      by (simp add: css css'_def)
    have "concat css' = drop (length (take ?k c)) (concat css)"
      by (cases "length c \<le> ?k") (simp_all add: css css'_def)
    then have cat: "concat css' = drop (length (take ?k c)) bs @ extra"
      using less.prems(3) k by simp
    have "take ?k c = take (length (take ?k c)) (concat css)" by (simp add: css min_def)
    then have tk: "take ?k c = take (length (take ?k c)) bs" using less.prems(3) k by simp
    have ne: "take ?k c \<noteq> []" using css(2) True by simp
    have "fst (recv_all needed (got @ take ?k c) (map Avail css')) = Some ((got @ take ?k c) @ drop (length (take ?k c)) bs)"
    proof (rule less.hyps)
      show "needed - length (got @ take ?k c) < needed - length got" using ne True by (cases c) auto
      show "length (got @ take ?k c) \<le> needed" using True by simp
      show "[] \<notin> set css'" using less.prems(2) css by (auto simp: css'_def)
      show "concat css' = drop (length (take ?k c)) bs @ extra" by (rule cat)
      show "length (got @ take ?k c) + length (drop (length (take ?k c)) bs) = needed"
        using k True by simp
    qed
    moreover have "(got @ take ?k c) @ drop (length (take ?k c)) bs = got @ bs"
      using tk by (metis append.assoc append_take_drop_id)
    ultimately have rest: "fst (recv_all needed (got @ take ?k c) (map Avail css')) = Some (got @ bs)" by simp
    have pos: "\<not> int (length (take ?k c)) \<le> 0" using ne by (simp del: length_take)
    show ?thesis
      using True pos rest unfolding recv_all.simps [of needed got "map Avail css"] sock Let_def
      by (simp del: length_take)
  qed
qed

end
