(* ===== verification/Monitor_Requests.thy ===== *)
theory Monitor_Requests
  imports Monitor_Login Monitor_Client
begin

text \<open>
  Whole requests of an administrator, as its client writes them, and the answers as its client
  reads them.
\<close>

section \<open>The statistics on the wire\<close>

lemma ntohll_htonll [simp]: "ntohll_u64 (htonll x) = x"
proof -
  have "push_bit 32 (ucast (ucast (drop_bit 32 x) :: 32 word)) OR ucast (ucast (x AND 0xFFFFFFFF) :: 32 word) = (x :: 64 word)"
  proof (rule bit_word_eqI)
    fix n assume n: "n < LENGTH(64)"
    have "(x AND 0xFFFFFFFF) = take_bit 32 x" by (simp add: take_bit_eq_mask mask_eq_exp_minus_1)
    with n show "bit (push_bit 32 (ucast (ucast (drop_bit 32 x) :: 32 word)) OR ucast (ucast (x AND 0xFFFFFFFF) :: 32 word) :: 64 word) n = bit x n"
      by (cases "n < 32") (auto simp: bit_simps)
  qed
  then show ?thesis unfolding ntohll_u64_def htonll_def Let_def word_halves swap32_swap32 .
qed

definition stats_message :: "monitor_req_status_t \<Rightarrow> stats \<Rightarrow> byte list" where
  "stats_message st s = status_byte st # bytes_of_u64 (htonll (historic_connections s)) @
     bytes_of_u64 (htonll (transferred_bytes s)) @ bytes_of_u64 (htonll (current_connections s))"

lemma reply_statistics:
  assumes "mrq_type mrq = STATISTICS"
  shows "monitor_reply mrq = Inr (stats_message (mrq_req_status mrq) (mrq_stats mrq))"
  using assms
  by (simp add: monitor_reply_def write_u64_def MAX_REPLY_SIZE_def stats_message_def overwrite_def eval_nat_numeral)

lemma reply_status:
  assumes "mrq_type mrq \<noteq> STATISTICS"
  shows "monitor_reply mrq = Inr [status_byte (mrq_req_status mrq)]"
  using assms by (simp add: monitor_reply_def MAX_REPLY_SIZE_def eval_nat_numeral)

lemma stats_read:
  assumes "concat css = stats_message MONITOR_REQ_STATUS_OK s" and "[] \<notin> set css"
  shows "read_monitor_stats_reply (map Avail css) = Some s"
proof -
  let ?body = "bytes_of_u64 (htonll (historic_connections s)) @ bytes_of_u64 (htonll (transferred_bytes s)) @
     bytes_of_u64 (htonll (current_connections s))"
  from assms(1) have reply: "concat css = 0 # ?body" by (simp add: stats_message_def status_byte_def)
  then obtain c cs where css: "css = (0 # c) # cs" using assms(2) by (cases css; cases "hd css") auto
  define css' where "css' = (if c = [] then cs else c # cs)"
  have first: "sock_recv 1 (map Avail css) = (1, [0], map Avail css')" by (simp add: css css'_def)
  have "concat css' = ?body @ []" "[] \<notin> set css'" using assms(2) reply css by (auto simp: css'_def)
  with recv_all_chunks [of "[]" 24 css' ?body "[]"] have "fst (recv_all 24 [] (map Avail css')) = Some ?body" by simp
  then show ?thesis using first by (simp add: read_monitor_stats_reply_def)
qed

text \<open>
  C33. The statistics survive the wire: whatever the segments in which the answer of the server
  reaches the client, \<open>read_monitor_stats_reply\<close> gives back the three counters
  \<open>send_response\<close> sent.
\<close>

theorem statistics_roundtrip:
  assumes "mrq_type mrq = STATISTICS" and "mrq_req_status mrq = MONITOR_REQ_STATUS_OK"
    and "monitor_reply mrq = Inr reply" and "concat css = reply" and "[] \<notin> set css"
  shows "read_monitor_stats_reply (map Avail css) = Some (mrq_stats mrq)"
  using stats_read [OF _ assms(5), of "mrq_stats mrq"] assms by (simp add: reply_statistics)

theorem statistics_roundtrip_witness:
  "\<exists>reply. monitor_reply (zero_monitor_req\<lparr>mrq_type := STATISTICS,
      mrq_stats := \<lparr>historic_connections = 7, current_connections = 2, transferred_bytes = 70000\<rparr>\<rparr>) = Inr reply \<and>
    read_monitor_stats_reply [Avail (take 5 reply), Avail (drop 5 reply)] =
      Some \<lparr>historic_connections = 7, current_connections = 2, transferred_bytes = 70000\<rparr>"
proof -
  let ?s = "\<lparr>historic_connections = 7, current_connections = 2, transferred_bytes = 70000\<rparr>"
  let ?mrq = "zero_monitor_req\<lparr>mrq_type := STATISTICS, mrq_stats := ?s\<rparr>" and ?reply = "stats_message MONITOR_REQ_STATUS_OK ?s"
  have reply: "monitor_reply ?mrq = Inr ?reply" by (simp add: reply_statistics zero_monitor_req_def)
  have "length ?reply = 25" by (simp add: stats_message_def)
  then have "[] \<notin> set [take 5 ?reply, drop 5 ?reply]" by (auto simp: drop_eq_Nil)
  from statistics_roundtrip [OF _ _ reply _ this] reply show ?thesis by (simp add: zero_monitor_req_def)
qed

section \<open>One byte of a request\<close>

definition with_req :: "monitor_t \<Rightarrow> monitor_req_parser_t \<Rightarrow> monitor_t" where
  "with_req m mrq = m\<lparr>m_parser := M_req mrq\<rparr>"

lemma with_req_sel [simp]:
  "m_stm (with_req m mrq) = m_stm m" "m_parser (with_req m mrq) = M_req mrq" "m_error (with_req m mrq) = m_error m"
  "m_user_access_level (with_req m mrq) = m_user_access_level m" "with_req (with_req m mrq) mrq' = with_req m mrq'"
  "monitor_in (with_req m mrq) k = monitor_in m k" "m\<lparr>m_parser := M_req mrq\<rparr> = with_req m mrq"
  by (simp_all add: with_req_def monitor_in_def)

definition request_at :: "world \<Rightarrow> nat \<Rightarrow> int \<Rightarrow> monitor_t \<Rightarrow> nat \<Rightarrow> monitor_req_parser_t \<Rightarrow> parser \<Rightarrow> bool" where
  "request_at w a fd m st mrq p \<longleftrightarrow> monitor_linked w a fd m \<and> monitor_in m MONITOR_REQ \<and> m_parser m = M_req mrq \<and>
     mrq_p mrq = Some p \<and> parser_ok monitor_req_parser_def p \<and> p_state p = st"

definition request_in :: "nat \<Rightarrow> int \<Rightarrow> monitor_t \<Rightarrow> monitor_req_parser_t \<Rightarrow> byte list \<Rightarrow> world \<Rightarrow> world" where
  "request_in a fd m mrq bs w = put_monitor a (with_req m mrq) (received fd bs w)"

lemma request_in_sel [simp]:
  "w_monitors (request_in a fd m mrq bs w) a = Some (with_req m mrq)" "w_users (request_in a fd m mrq bs w) = w_users w"
  "put_monitor a m' (request_in a fd m mrq bs w) = put_monitor a m' (received fd bs w)"
  "w_sel (request_in a fd m mrq bs w) = w_sel w" "w_stats (request_in a fd m mrq bs w) = w_stats w"
  "request_in a fd (with_req m mrq') mrq cs (request_in a fd m mrq' bs w) = request_in a fd m mrq (bs @ cs) w"
  by (simp_all add: request_in_def)

lemma monitor_req_feed:
  assumes "parser_ok monitor_req_parser_def p"
  shows "p_state p = MONITOR_REQ_STATE_TYPE \<Longrightarrow>
      parser_feed p b = Inr (stepped p b MONITOR_REQ_EVENT_TYPE MONITOR_REQ_STATE_ARGUMENT_LENGTH)"
    and "p_state p = MONITOR_REQ_STATE_ARGUMENT_LENGTH \<Longrightarrow>
      parser_feed p b = Inr (stepped p b MONITOR_REQ_EVENT_ARGUMENT_LENGTH MONITOR_REQ_STATE_ARGUMENT)"
    and "p_state p = MONITOR_REQ_STATE_ARGUMENT \<Longrightarrow>
      parser_feed p b = Inr (stepped p b MONITOR_REQ_EVENT_ARGUMENT MONITOR_REQ_STATE_ARGUMENT)"
  by (rule feed_row [OF assms]; simp add: monitor_req_table_defs)+

lemma request_read:
  assumes "request_at w a fd m st mrq p" and "e_recv env fd = Avail (b # bs)"
    and "parser_feed p b = Inr (stepped p b ty dest)"
  shows "monitor_req_read env (fd, Some (MonitorPtr a)) w =
    bindr (monitor_req_event env (fd, Some (MonitorPtr a)) a (p_e1 (stepped p b ty dest))
      (request_in a fd m (mrq\<lparr>mrq_p := Some (stepped p b ty dest)\<rparr>) [b] w))
      (\<lambda>(ret, w1). Inr (case ret of Some st \<Rightarrow> st | None \<Rightarrow> MONITOR_REQ, w1))"
  using assms
  by (auto simp: request_at_def monitor_linked_def monitor_req_read_def set_monitor_req_def request_in_def
      bindr_def split: sum.splits option.splits)

lemma request_stays:
  assumes "request_at w a fd m st mrq p"
    and "monitor_req_read env (fd, Some (MonitorPtr a)) w = Inr (MONITOR_REQ, request_in a fd m mrq' [b] w)"
    and "mrq_p mrq' = Some p'" "parser_ok monitor_req_parser_def p'"
  shows "handle_read_monitor env (fd, Some (MonitorPtr a)) w = Inr (request_in a fd m mrq' [b] w)"
    and "request_at (request_in a fd m mrq' [b] w) a fd (with_req m mrq') (p_state p') mrq' p'"
proof -
  have m: "w_monitors w a = Some m" "monitor_in m MONITOR_REQ" using assms(1) by (auto simp: request_at_def monitor_linked_def)
  show "handle_read_monitor env (fd, Some (MonitorPtr a)) w = Inr (request_in a fd m mrq' [b] w)"
    unfolding handle_read_monitor_event
    by (rule monitor_stays [where ready = on_read_ready and f = "monitor_req_read env" and ?m2.0 = "with_req m mrq'",
          OF m _ assms(2)]) simp_all
  show "request_at (request_in a fd m mrq' [b] w) a fd (with_req m mrq') (p_state p') mrq' p'"
    using assms by (simp add: request_at_def monitor_linked_def request_in_def)
qed

lemma request_type_byte:
  assumes "request_at w a fd m MONITOR_REQ_STATE_TYPE mrq p"
  shows "\<exists>mrq' p'. monitor_reads env (fd, Some (MonitorPtr a)) (t # rest) w =
      monitor_reads env (fd, Some (MonitorPtr a)) rest (request_in a fd m mrq' [t] w) \<and>
    request_at (request_in a fd m mrq' [t] w) a fd (with_req m mrq') MONITOR_REQ_STATE_ARGUMENT_LENGTH mrq' p' \<and>
    mrq_type mrq' = t \<and> mrq_arguments mrq' = mrq_arguments mrq \<and> mrq_arguments_read mrq' = mrq_arguments_read mrq"
proof -
  let ?p = "stepped p t MONITOR_REQ_EVENT_TYPE MONITOR_REQ_STATE_ARGUMENT_LENGTH" and ?env = "with_input env fd (t # rest)"
  let ?mrq = "mrq\<lparr>mrq_p := Some ?p, mrq_type := t\<rparr>"
  have pok: "parser_ok monitor_req_parser_def p" and feed: "parser_feed p t = Inr ?p"
    using assms monitor_req_feed(1) [of p t] by (simp_all add: request_at_def)
  have run: "monitor_req_read ?env (fd, Some (MonitorPtr a)) w = Inr (MONITOR_REQ, request_in a fd m ?mrq [t] w)"
    using request_read [OF assms, of ?env t rest, OF _ feed] pok
    by (simp add: monitor_req_event_def set_monitor_req_def monitor_req_consts, simp add: request_in_def)
  have p': "mrq_p ?mrq = Some ?p" "parser_ok monitor_req_parser_def ?p"
    using pok by (auto simp: monitor_req_table_defs intro!: parser_ok_stepped)
  note step = request_stays [OF assms run p']
  show ?thesis using step by (intro exI [of _ ?mrq] exI [of _ ?p]) simp
qed

section \<open>One argument\<close>

text \<open>The first bytes of an argument were stored into its memory.\<close>

definition filling :: "byte list \<Rightarrow> nat \<Rightarrow> byte list \<Rightarrow> bool" where
  "filling xs n mem \<longleftrightarrow> length mem = n + 1 \<and> take (length xs) mem = xs \<and> (xs \<noteq> [] \<longrightarrow> mem ! length xs = 0)"

lemma filling_store:
  assumes "filling xs n mem" and "length xs < n" and "n \<le> 255" and "unat pos = length xs"
  shows "\<exists>mem'. store_char mem pos d = Inr (mem', pos + 1) \<and> filling (xs @ [d]) n mem'"
proof -
  have next_pos: "unat (pos + 1) = Suc (length xs)" using assms unat_byte_Suc [of pos 255] by simp
  then have "store_char mem pos d = Inr (mem[length xs := d, Suc (length xs) := 0], pos + 1)"
    using assms by (simp add: store_char_def filling_def)
  moreover have "filling (xs @ [d]) n (mem[length xs := d, Suc (length xs) := 0])"
    using assms take_list_update_snoc [of "length xs" mem d] by (simp add: filling_def)
  ultimately show ?thesis by blast
qed

lemma filling_full: "filling xs (length xs) mem \<Longrightarrow> xs \<noteq> [] \<Longrightarrow> mem = xs @ [0]"
  using take_Suc_conv_app_nth [of "length xs" mem] by (simp add: filling_def)

text \<open>The arguments read so far, and the state between two of them.\<close>

definition holds_arguments :: "byte list list \<Rightarrow> arg_cell list \<Rightarrow> bool" where
  "holds_arguments args cells \<longleftrightarrow> length cells = MAX_BUFFER_SIZE \<and>
     take (length args) cells = map (\<lambda>s. CellPtr (s @ [0])) args"

definition arguments_at :: "byte list list \<Rightarrow> monitor_req_parser_t \<Rightarrow> bool" where
  "arguments_at args mrq \<longleftrightarrow> (\<exists>cells. mrq_arguments mrq = Some cells \<and> holds_arguments args cells) \<and>
     unat (mrq_arguments_read mrq) = length args"

text \<open>In the middle of an argument of \<open>n\<close> bytes.\<close>

definition argument_at_byte :: "byte list list \<Rightarrow> byte list \<Rightarrow> nat \<Rightarrow> monitor_req_parser_t \<Rightarrow> bool" where
  "argument_at_byte args xs n mrq \<longleftrightarrow> (\<exists>cells mem. mrq_arguments mrq = Some cells \<and> holds_arguments args cells \<and>
     cells ! length args = CellPtr mem \<and> filling xs n mem) \<and> unat (mrq_arguments_read mrq) = Suc (length args) \<and>
     unat (mrq_current_argument_length mrq) = n \<and> unat (mrq_current_argument_read mrq) = length xs"

lemma argument_length_byte:
  assumes l: "request_at w a fd m MONITOR_REQ_STATE_ARGUMENT_LENGTH mrq p" and args: "arguments_at args mrq"
    and room: "length args + 1 < MAX_BUFFER_SIZE" and n: "n \<noteq> 0" and alloc: "e_alloc env A_argument"
  shows "\<exists>mrq' p'. monitor_reads env (fd, Some (MonitorPtr a)) (n # rest) w =
      monitor_reads env (fd, Some (MonitorPtr a)) rest (request_in a fd m mrq' [n] w) \<and>
    request_at (request_in a fd m mrq' [n] w) a fd (with_req m mrq') MONITOR_REQ_STATE_ARGUMENT mrq' p' \<and>
    mrq_type mrq' = mrq_type mrq \<and> argument_at_byte args [] (unat n) mrq'"
proof -
  let ?p = "stepped p n MONITOR_REQ_EVENT_ARGUMENT_LENGTH MONITOR_REQ_STATE_ARGUMENT" and ?env = "with_input env fd (n # rest)"
  obtain cells where cells: "mrq_arguments mrq = Some cells" "holds_arguments args cells"
    and r: "unat (mrq_arguments_read mrq) = length args" using args by (auto simp: arguments_at_def)
  let ?mem = "map (e_junk env) [0..<unat n + 1]"
  let ?cells = "cells[length args := CellPtr ?mem, Suc (length args) := CellNull]"
  let ?mrq = "mrq\<lparr>mrq_p := Some ?p, mrq_arguments := Some ?cells, mrq_arguments_read := mrq_arguments_read mrq + 1,
      mrq_current_argument_length := n, mrq_current_argument_read := 0\<rparr>"
  have pok: "parser_ok monitor_req_parser_def p" and feed: "parser_feed p n = Inr ?p"
    using l monitor_req_feed(2) [of p n] by (simp_all add: request_at_def)
  have r1: "unat (mrq_arguments_read mrq + 1) = Suc (length args)"
    using r room unat_byte_Suc [of "mrq_arguments_read mrq" 255] by (simp add: MAX_BUFFER_SIZE_def)
  have len: "length cells = MAX_BUFFER_SIZE" using cells(2) by (simp add: holds_arguments_def)
  have new: "new_argument ?env n = CellPtr ?mem" using alloc by (simp add: new_argument_def with_input_def)
  have run: "monitor_req_read ?env (fd, Some (MonitorPtr a)) w = Inr (MONITOR_REQ, request_in a fd m ?mrq [n] w)"
    using request_read [OF l, of ?env n rest, OF _ feed] pok n cells r r1 room len new
    by (simp add: monitor_req_event_def monitor_req_argument_def set_monitor_req_def monitor_req_consts, simp add: request_in_def)
  have p': "mrq_p ?mrq = Some ?p" "parser_ok monitor_req_parser_def ?p"
    using pok by (auto simp: monitor_req_table_defs intro!: parser_ok_stepped)
  note step = request_stays [OF l run p']
  have "argument_at_byte args [] (unat n) ?mrq"
    using cells(2) r1 room len by (simp add: argument_at_byte_def holds_arguments_def filling_def)
  then show ?thesis using step by (intro exI [of _ ?mrq] exI [of _ ?p]) simp
qed

lemma argument_byte:
  assumes l: "request_at w a fd m MONITOR_REQ_STATE_ARGUMENT mrq p" and at: "argument_at_byte args xs n mrq"
    and lt: "length xs < n" and room: "length args + 1 < MAX_BUFFER_SIZE"
  shows "\<exists>mrq' p'. monitor_reads env (fd, Some (MonitorPtr a)) (d # rest) w =
      monitor_reads env (fd, Some (MonitorPtr a)) rest (request_in a fd m mrq' [d] w) \<and>
    request_at (request_in a fd m mrq' [d] w) a fd (with_req m mrq')
      (if length xs + 1 = n then MONITOR_REQ_STATE_ARGUMENT_LENGTH else MONITOR_REQ_STATE_ARGUMENT) mrq' p' \<and>
    mrq_type mrq' = mrq_type mrq \<and> argument_at_byte args (xs @ [d]) n mrq'"
proof -
  let ?q = "stepped p d MONITOR_REQ_EVENT_ARGUMENT MONITOR_REQ_STATE_ARGUMENT" and ?env = "with_input env fd (d # rest)"
  obtain cells mem where cells: "mrq_arguments mrq = Some cells" "holds_arguments args cells"
    "cells ! length args = CellPtr mem" "filling xs n mem"
    and r: "unat (mrq_arguments_read mrq) = Suc (length args)" and cl: "unat (mrq_current_argument_length mrq) = n"
    and cr: "unat (mrq_current_argument_read mrq) = length xs" using at by (auto simp: argument_at_byte_def)
  have n: "n \<le> 255" using unat_byte_le [of "mrq_current_argument_length mrq"] cl by simp
  obtain mem' where store: "store_char mem (mrq_current_argument_read mrq) d = Inr (mem', mrq_current_argument_read mrq + 1)"
    and mem': "filling (xs @ [d]) n mem'" using filling_store [OF cells(4) lt n cr] by blast
  note cnt = counted [OF cr, of "mrq_current_argument_length mrq"]
  define p' where "p' = (if length xs + 1 = n then parser_set_state ?q MONITOR_REQ_STATE_ARGUMENT_LENGTH else ?q)"
  define mrq1 where "mrq1 = mrq\<lparr>mrq_p := Some p', mrq_arguments := Some (cells[length args := CellPtr mem']),
      mrq_current_argument_read := mrq_current_argument_read mrq + 1\<rparr>"
  have pok: "parser_ok monitor_req_parser_def p" and feed: "parser_feed p d = Inr ?q"
    using l monitor_req_feed(3) [of p d] by (simp_all add: request_at_def)
  have len: "length args < length cells" using cells(2) room by (simp add: holds_arguments_def)
  have nz: "mrq_arguments_read mrq \<noteq> 0" using r by auto
  have order: "x\<lparr>mrq_arguments := c, mrq_current_argument_read := k, mrq_p := q\<rparr> =
      x\<lparr>mrq_p := q, mrq_arguments := c, mrq_current_argument_read := k\<rparr>" for x :: monitor_req_parser_t and c k q
    by (cases x) simp
  have run: "monitor_req_read ?env (fd, Some (MonitorPtr a)) w = Inr (MONITOR_REQ, request_in a fd m mrq1 [d] w)"
    using request_read [OF l, of ?env d rest, OF _ feed] pok store cells(1,3) r nz len cnt cl lt
    by (auto simp: monitor_req_event_def set_monitor_req_def monitor_req_consts store_argument_def argument_at_def
        cell_pointer_def p'_def mrq1_def order Let_def request_in_def)
  have p': "mrq_p mrq1 = Some p'" "parser_ok monitor_req_parser_def p'"
    using pok by (auto simp: mrq1_def p'_def monitor_req_table_defs intro!: parser_ok_stepped parser_ok_set_state)
  note step = request_stays [OF l run p']
  have "holds_arguments args (cells[length args := CellPtr mem'])" using cells(2) by (simp add: holds_arguments_def)
  then have "argument_at_byte args (xs @ [d]) n mrq1"
    using mem' r cl cnt lt len by (auto simp: argument_at_byte_def mrq1_def)
  moreover have "p_state p' = (if length xs + 1 = n then MONITOR_REQ_STATE_ARGUMENT_LENGTH else MONITOR_REQ_STATE_ARGUMENT)"
    by (simp add: p'_def)
  ultimately show ?thesis using step by (intro exI [of _ mrq1] exI [of _ p']) (simp add: mrq1_def)
qed

lemma argument_bytes:
  assumes "request_at w a fd m MONITOR_REQ_STATE_ARGUMENT mrq p" and "argument_at_byte args xs n mrq"
    and "length xs + length ys = n" and "ys \<noteq> []" and "length args + 1 < MAX_BUFFER_SIZE"
  shows "\<exists>mrq' p'. monitor_reads env (fd, Some (MonitorPtr a)) (ys @ rest) w =
      monitor_reads env (fd, Some (MonitorPtr a)) rest (request_in a fd m mrq' ys w) \<and>
    request_at (request_in a fd m mrq' ys w) a fd (with_req m mrq') MONITOR_REQ_STATE_ARGUMENT_LENGTH mrq' p' \<and>
    mrq_type mrq' = mrq_type mrq \<and> arguments_at (args @ [xs @ ys]) mrq'"
  using assms
proof (induction ys arbitrary: xs w m mrq p)
  case (Cons d ys)
  let ?k = "(fd, Some (MonitorPtr a))"
  have "length xs < n" using Cons.prems(3) by simp
  from argument_byte [OF Cons.prems(1,2) this Cons.prems(5), of env d "ys @ rest"] obtain mrq1 p1 where
    run: "monitor_reads env ?k (d # ys @ rest) w = monitor_reads env ?k (ys @ rest) (request_in a fd m mrq1 [d] w)"
    and at1: "request_at (request_in a fd m mrq1 [d] w) a fd (with_req m mrq1)
      (if length xs + 1 = n then MONITOR_REQ_STATE_ARGUMENT_LENGTH else MONITOR_REQ_STATE_ARGUMENT) mrq1 p1"
    and ty: "mrq_type mrq1 = mrq_type mrq" and arg: "argument_at_byte args (xs @ [d]) n mrq1" by blast
  show ?case
  proof (cases "ys = []")
    case True
    obtain cells mem where cells: "mrq_arguments mrq1 = Some cells" "holds_arguments args cells"
      "cells ! length args = CellPtr mem" "filling (xs @ [d]) n mem"
      and r: "unat (mrq_arguments_read mrq1) = Suc (length args)" using arg by (auto simp: argument_at_byte_def)
    have "mem = (xs @ [d]) @ [0]" using filling_full [of "xs @ [d]" mem] cells(4) Cons.prems(3) True by simp
    then have "holds_arguments (args @ [xs @ [d]]) cells"
      using cells(2,3) Cons.prems(5) take_Suc_conv_app_nth [of "length args" cells] by (simp add: holds_arguments_def)
    then have "arguments_at (args @ [xs @ [d]]) mrq1" using cells(1) r by (simp add: arguments_at_def)
    then show ?thesis using run at1 ty True Cons.prems(3) by (intro exI [of _ mrq1] exI [of _ p1]) simp
  next
    case False
    then have "request_at (request_in a fd m mrq1 [d] w) a fd (with_req m mrq1) MONITOR_REQ_STATE_ARGUMENT mrq1 p1"
      using at1 Cons.prems(3) by (cases ys) simp_all
    from Cons.IH [OF this arg _ False Cons.prems(5)] Cons.prems(3) obtain mrq2 p2 where
      "monitor_reads env ?k (ys @ rest) (request_in a fd m mrq1 [d] w) =
        monitor_reads env ?k rest (request_in a fd (with_req m mrq1) mrq2 ys (request_in a fd m mrq1 [d] w))"
      "request_at (request_in a fd (with_req m mrq1) mrq2 ys (request_in a fd m mrq1 [d] w)) a fd
        (with_req (with_req m mrq1) mrq2) MONITOR_REQ_STATE_ARGUMENT_LENGTH mrq2 p2"
      "mrq_type mrq2 = mrq_type mrq1" "arguments_at (args @ [(xs @ [d]) @ ys]) mrq2" by auto
    then show ?thesis using run ty by (intro exI [of _ mrq2] exI [of _ p2]) simp
  qed
qed simp

section \<open>All arguments\<close>

definition argument_ok :: "byte list \<Rightarrow> bool" where
  "argument_ok s \<longleftrightarrow> s \<noteq> [] \<and> length s \<le> 255"

definition encode_arguments :: "byte list list \<Rightarrow> byte list" where
  "encode_arguments args = concat (map (\<lambda>s. of_nat (length s) # s) args)"

lemma arguments_run:
  assumes "request_at w a fd m MONITOR_REQ_STATE_ARGUMENT_LENGTH mrq p" and "arguments_at args mrq"
    and "length args + length new < MAX_BUFFER_SIZE" and "\<forall>s \<in> set new. argument_ok s" and "e_alloc env A_argument"
  shows "\<exists>mrq' p'. monitor_reads env (fd, Some (MonitorPtr a)) (encode_arguments new @ rest) w =
      monitor_reads env (fd, Some (MonitorPtr a)) rest (request_in a fd m mrq' (encode_arguments new) w) \<and>
    request_at (request_in a fd m mrq' (encode_arguments new) w) a fd (with_req m mrq') MONITOR_REQ_STATE_ARGUMENT_LENGTH mrq' p' \<and>
    mrq_type mrq' = mrq_type mrq \<and> arguments_at (args @ new) mrq'"
  using assms
proof (induction new arbitrary: args w m mrq p)
  case Nil
  have wr: "with_req m mrq = m"
    using Nil.prems(1) unfolding with_req_def by (cases m) (simp add: request_at_def del: with_req_sel)
  then have "request_in a fd m mrq [] w = w"
    using Nil.prems(1) by (simp add: request_at_def monitor_linked_def request_in_def put_monitor_def fun_upd_idem)
  then show ?case using Nil.prems wr by (intro exI [of _ mrq] exI [of _ p]) (simp add: encode_arguments_def)
next
  case (Cons s new)
  let ?k = "(fd, Some (MonitorPtr a))" and ?n = "of_nat (length s) :: byte"
  have s: "s \<noteq> []" "unat ?n = length s" using Cons.prems(4) by (simp_all add: argument_ok_def byte_of_nat_unat)
  have n0: "?n \<noteq> 0"
  proof
    assume z: "?n = 0"
    have "unat ?n = 0" unfolding z by (rule unat_0)
    then have "length s = 0" by (rule trans [OF sym [OF s(2)]])
    then show False using s(1) by simp
  qed
  have room: "length args + 1 < MAX_BUFFER_SIZE" using Cons.prems(3) by simp
  let ?tail = "s @ encode_arguments new @ rest"
  from argument_length_byte [OF Cons.prems(1,2) room n0 Cons.prems(5), of ?tail] obtain mrq1 p1 where
    r1: "monitor_reads env ?k (?n # ?tail) w = monitor_reads env ?k ?tail (request_in a fd m mrq1 [?n] w)"
    and at1: "request_at (request_in a fd m mrq1 [?n] w) a fd (with_req m mrq1) MONITOR_REQ_STATE_ARGUMENT mrq1 p1"
    and ty1: "mrq_type mrq1 = mrq_type mrq" and arg1: "argument_at_byte args [] (length s) mrq1" using s(2) by auto
  from argument_bytes [OF at1 arg1 _ s(1) room, of env "encode_arguments new @ rest"] obtain mrq2 p2 where
    r2: "monitor_reads env ?k ?tail (request_in a fd m mrq1 [?n] w) =
      monitor_reads env ?k (encode_arguments new @ rest) (request_in a fd m mrq2 (?n # s) w)"
    and at2: "request_at (request_in a fd m mrq2 (?n # s) w) a fd (with_req m mrq2) MONITOR_REQ_STATE_ARGUMENT_LENGTH mrq2 p2"
    and ty2: "mrq_type mrq2 = mrq_type mrq1" and arg2: "arguments_at (args @ [s]) mrq2" by auto
  from Cons.IH [OF at2 arg2 _ _ Cons.prems(5)] Cons.prems(3,4) obtain mrq3 p3 where
    "monitor_reads env ?k (encode_arguments new @ rest) (request_in a fd m mrq2 (?n # s) w) =
      monitor_reads env ?k rest (request_in a fd (with_req m mrq2) mrq3 (encode_arguments new) (request_in a fd m mrq2 (?n # s) w))"
    "request_at (request_in a fd (with_req m mrq2) mrq3 (encode_arguments new) (request_in a fd m mrq2 (?n # s) w)) a fd
      (with_req (with_req m mrq2) mrq3) MONITOR_REQ_STATE_ARGUMENT_LENGTH mrq3 p3"
    "mrq_type mrq3 = mrq_type mrq2" "arguments_at ((args @ [s]) @ new) mrq3" by auto
  then show ?case using r1 r2 ty1 ty2
    by (intro exI [of _ mrq3] exI [of _ p3]) (simp add: encode_arguments_def del: monitor_reads.simps)
qed

section \<open>The last byte\<close>

text \<open>What the server makes of the request, over the world that was read.\<close>

definition perform :: "nat \<Rightarrow> monitor_req_parser_t \<Rightarrow> arg_cell list \<Rightarrow> world \<Rightarrow> (monitor_req_status_t \<times> world) res" where
  "perform a mrq cells w =
     (if mrq_type mrq = ADD_USER then request_add_user cells w
      else if mrq_type mrq = REMOVE_USER then request_remove_user cells w
      else if mrq_type mrq = CHANGE_PASSWD then request_change_passwd cells w
      else if mrq_type mrq = STATISTICS then request_statistics a mrq w
      else if mrq_type mrq = CHANGE_AUTH_METHODS then request_change_methods cells w
      else Inr (MONITOR_REQ_STATUS_ERR, w))"

definition terminated :: "byte list list \<Rightarrow> arg_cell list \<Rightarrow> bool" where
  "terminated args cells \<longleftrightarrow> length args < length cells \<and> take (length args) cells = map (\<lambda>s. CellPtr (s @ [0])) args \<and>
     cells ! length args = CellNull"

lemma terminated_split:
  assumes "terminated args cells"
  obtains rest where "cells = map (\<lambda>s. CellPtr (s @ [0])) args @ CellNull # rest"
  using assms id_take_nth_drop [of "length args" cells] by (auto simp: terminated_def)

lemma free_terminated: "free_arguments (map (\<lambda>s. CellPtr (s @ [0])) args @ CellNull # rest) = Inr ()"
  by (induction args) simp_all

definition count_ok :: "byte \<Rightarrow> byte list list \<Rightarrow> bool" where
  "count_ok ty args \<longleftrightarrow> ty = CHANGE_AUTH_METHODS \<or>
     unat ty < REQ_AMOUNT \<and> length args = unat (max_arguments ! unat ty)"

lemma end_byte:
  assumes l: "request_at w a fd m MONITOR_REQ_STATE_ARGUMENT_LENGTH mrq p" and args: "arguments_at args mrq"
    and room: "length args < MAX_BUFFER_SIZE" and count: "count_ok (mrq_type mrq) args"
    and inp: "e_recv env fd = Avail (0 # bs)"
  shows "\<exists>mrq' cells. monitor_req_read env (fd, Some (MonitorPtr a)) w =
      bindr (handle_request (fd, Some (MonitorPtr a)) (request_in a fd m mrq' [0] w)) (\<lambda>(status, w2).
      bindr (get_monitor a w2) (\<lambda>m.
      bindr (mreq_of m) (\<lambda>mrq2.
      bindr (set_monitor_req a (mrq2\<lparr>mrq_req_status := status\<rparr>) w2) (\<lambda>w3.
        Inr (if status \<noteq> MONITOR_REQ_STATUS_OK then MONITOR_ERROR else MONITOR_REQ, w3))))) \<and>
    mrq_type mrq' = mrq_type mrq \<and> mrq_arguments mrq' = Some cells \<and> terminated args cells"
proof -
  let ?p = "stepped p 0 MONITOR_REQ_EVENT_ARGUMENT_LENGTH MONITOR_REQ_STATE_ARGUMENT"
  obtain cells where cells: "mrq_arguments mrq = Some cells" "holds_arguments args cells"
    and r: "unat (mrq_arguments_read mrq) = length args" using args by (auto simp: arguments_at_def)
  let ?cells = "cells[length args := CellNull]"
  let ?mrq = "mrq\<lparr>mrq_p := Some ?p, mrq_arguments := Some ?cells\<rparr>"
  have pok: "parser_ok monitor_req_parser_def p" and feed: "parser_feed p 0 = Inr ?p"
    using l monitor_req_feed(2) [of p 0] by (simp_all add: request_at_def)
  have len: "length args < length cells" using cells(2) room by (simp add: holds_arguments_def)
  have lens: "length max_arguments = 5" by (simp add: max_arguments_def)
  have cnt: "mrq_type mrq \<noteq> CHANGE_AUTH_METHODS \<Longrightarrow> unat (mrq_type mrq) < 5 \<and>
      max_arguments ! unat (mrq_type mrq) = mrq_arguments_read mrq"
    using count r by (auto simp: count_ok_def byte_eq_iff_unat REQ_AMOUNT_def)
  have mon: "w_monitors w a = Some m" using l by (simp add: request_at_def monitor_linked_def)
  have "monitor_req_read env (fd, Some (MonitorPtr a)) w =
      bindr (handle_request (fd, Some (MonitorPtr a)) (request_in a fd m ?mrq [0] w)) (\<lambda>(status, w2).
      bindr (get_monitor a w2) (\<lambda>m.
      bindr (mreq_of m) (\<lambda>mrq2.
      bindr (set_monitor_req a (mrq2\<lparr>mrq_req_status := status\<rparr>) w2) (\<lambda>w3.
        Inr (if status \<noteq> MONITOR_REQ_STATUS_OK then MONITOR_ERROR else MONITOR_REQ, w3)))))"
    using request_read [OF l inp feed] pok cells(1) r len lens cnt
    by (cases "mrq_type mrq = CHANGE_AUTH_METHODS")
      (auto simp: monitor_req_event_def monitor_req_end_def set_monitor_req_def monitor_req_consts request_in_def
        bindr_def case_prod_unfold split: sum.splits)
  moreover have "terminated args ?cells" using cells(2) len by (simp add: terminated_def holds_arguments_def)
  ultimately show ?thesis by (intro exI [of _ ?mrq] exI [of _ ?cells]) simp
qed

end
