(* ===== verification/Administration.thy ===== *)
theory Administration
  imports Monitor_Requests
begin

text \<open>
  The administration protocol end to end: every request a client can write, what the server makes
  of it, and its answer.
\<close>

section \<open>Requests and their effects\<close>

datatype admin_request =
    Add_User "byte list" "byte list" byte
  | Remove_User "byte list"
  | Change_Password "byte list" "byte list"
  | Get_Statistics
  | Set_Methods "byte list"

fun request_type :: "admin_request \<Rightarrow> byte" where
  "request_type (Add_User _ _ _) = ADD_USER"
| "request_type (Remove_User _) = REMOVE_USER"
| "request_type (Change_Password _ _) = CHANGE_PASSWD"
| "request_type Get_Statistics = STATISTICS"
| "request_type (Set_Methods _) = CHANGE_AUTH_METHODS"

fun request_args :: "admin_request \<Rightarrow> byte list list" where
  "request_args (Add_User name pass level) = [name, pass, [level]]"
| "request_args (Remove_User name) = [name]"
| "request_args (Change_Password name pass) = [name, pass]"
| "request_args Get_Statistics = []"
| "request_args (Set_Methods ms) = map (\<lambda>m. [m]) ms"

definition encode_request :: "admin_request \<Rightarrow> byte list" where
  "encode_request r = request_type r # encode_arguments (request_args r) @ [0]"

definition text_ok :: "byte list \<Rightarrow> bool" where
  "text_ok s \<longleftrightarrow> argument_ok s \<and> 0 \<notin> set s"

fun request_ok :: "admin_request \<Rightarrow> bool" where
  "request_ok (Add_User name pass level) \<longleftrightarrow> text_ok name \<and> text_ok pass"
| "request_ok (Remove_User name) \<longleftrightarrow> text_ok name"
| "request_ok (Change_Password name pass) \<longleftrightarrow> text_ok name \<and> text_ok pass"
| "request_ok Get_Statistics \<longleftrightarrow> True"
| "request_ok (Set_Methods ms) \<longleftrightarrow> length ms + 1 < MAX_BUFFER_SIZE"

text \<open>The effect on the users and the methods, and whether the request succeeds.\<close>

fun request_effect :: "admin_request \<Rightarrow> users \<Rightarrow> methods \<Rightarrow> bool \<times> users \<times> methods" where
  "request_effect (Add_User name pass level) us ms =
     (case user_create us (Some name) (Some pass) (sint level) of
        Inl _ \<Rightarrow> (False, us, ms) | Inr (st, us') \<Rightarrow> (st = USERS_OK, us', ms))"
| "request_effect (Remove_User name) us ms =
     (let (st, us') = user_delete us (Some name) in (st = USERS_OK, us', ms))"
| "request_effect (Change_Password name pass) us ms =
     (case user_change_password us (Some name) (Some pass) of
        Inl _ \<Rightarrow> (False, us, ms) | Inr (st, us') \<Rightarrow> (st = USERS_OK, us', ms))"
| "request_effect Get_Statistics us ms = (True, us, ms)"
| "request_effect (Set_Methods new) us ms =
     (case change_auth_methods (Some (map (\<lambda>m. CellPtr [m, 0]) new @ [CellNull])) ms of
        Inl _ \<Rightarrow> (False, us, ms) | Inr (st, ms') \<Rightarrow> (st = AUTH_OK, us, ms'))"

lemma request_count: "count_ok (request_type r) (request_args r)"
  by (cases r) (simp_all add: count_ok_def monitor_request_defs max_arguments_def REQ_AMOUNT_def)

lemma request_args_ok: "request_ok r \<Longrightarrow> \<forall>s \<in> set (request_args r). argument_ok s"
  by (cases r) (auto simp: text_ok_def argument_ok_def)

lemma request_args_few: "request_ok r \<Longrightarrow> length (request_args r) + 1 < MAX_BUFFER_SIZE"
  by (cases r) (simp_all add: MAX_BUFFER_SIZE_def)

section \<open>Performing a request\<close>

lemma text_string: "text_ok s \<Longrightarrow> string_at (s @ [0]) = Inr s"
  by (simp add: text_ok_def cstr_append_nul has_nul_def)

lemma user_create_fits:
  "length name \<le> 255 \<Longrightarrow> length pass \<le> 255 \<Longrightarrow> \<exists>st us'. user_create us (Some name) (Some pass) lv = Inr (st, us')"
  by (simp add: user_create_def strcpy_into_def MAX_USERNAME_LEN_def MAX_PASSWORD_LEN_def)

lemma user_change_fits:
  "length pass \<le> 255 \<Longrightarrow> \<exists>st us'. user_change_password us (Some name) (Some pass) = Inr (st, us')"
  by (simp add: user_change_password_def strcpy_into_def MAX_PASSWORD_LEN_def split: option.splits)

lemma change_loop_rest: "change_loop (map (\<lambda>m. CellPtr [m, 0]) new @ CellNull # rest) i ms =
    change_loop (map (\<lambda>m. CellPtr [m, 0]) new @ [CellNull]) i ms"
  by (induction new arbitrary: i ms) (simp_all add: bindr_def split: sum.splits)

lemma change_loop_fits:
  "i + length new < length ms \<Longrightarrow> \<exists>st ms'. change_loop (map (\<lambda>m. CellPtr [m, 0]) new @ [CellNull]) i ms = Inr (st, ms')"
  by (induction new arbitrary: i ms) simp_all

definition same_connection :: "world \<Rightarrow> world \<Rightarrow> bool" where
  "same_connection w w' \<longleftrightarrow> w_sel w' = w_sel w \<and> w_trace w' = w_trace w \<and> w_stats w' = w_stats w \<and> w_clients w' = w_clients w"

lemma perform_effect:
  assumes m: "w_monitors w a = Some (with_req m mrq)" and ty: "mrq_type mrq = request_type r" and ok: "request_ok r"
    and cells: "terminated (request_args r) cells" and table: "length (w_methods w) = MAX_BUFFER_SIZE"
    and eff: "request_effect r (w_users w) (w_methods w) = (good, us, ms)"
  shows "\<exists>w' mrq'. perform a mrq cells w = Inr (status_of good, w') \<and> w_monitors w' a = Some (with_req m mrq') \<and>
    mrq_type mrq' = mrq_type mrq \<and> mrq_arguments mrq' = mrq_arguments mrq \<and>
    (r = Get_Statistics \<longrightarrow> mrq_stats mrq' = w_stats w) \<and> w_users w' = us \<and> w_methods w' = ms \<and> same_connection w w'"
proof -
  from cells obtain rest where c: "cells = map (\<lambda>s. CellPtr (s @ [0])) (request_args r) @ CellNull # rest"
    by (rule terminated_split)
  show ?thesis
  proof (cases r)
    case (Add_User name pass level)
    have t: "text_ok name" "text_ok pass" using ok Add_User by simp_all
    obtain v where v: "valid_user (Some (name @ [0])) (Some (pass @ [0])) = Inr v" "v \<noteq> USERS_OK"
      using valid_scan_terminated [of "name @ [0]"] by (force simp: valid_user_def)
    obtain st us' where cr: "user_create (w_users w) (Some name) (Some pass) (sint level) = Inr (st, us')"
      using user_create_fits [of name pass] t by (fastforce simp: text_ok_def argument_ok_def)
    show ?thesis
      using m ty Add_User c v cr eff text_string [OF t(1)] text_string [OF t(2)]
      by (auto simp: perform_def request_add_user_def argument_at_def cell_pointer_def string_of_def same_connection_def
          intro!: exI [of _ "w\<lparr>w_users := us'\<rparr>"])
  next
    case (Remove_User name)
    have t: "text_ok name" using ok Remove_User by simp
    show ?thesis
      using m ty Remove_User c eff text_string [OF t]
      by (auto simp: perform_def request_remove_user_def argument_at_def cell_pointer_def string_of_def same_connection_def
          monitor_request_defs split: prod.splits intro!: exI [of _ "w\<lparr>w_users := us\<rparr>"])
  next
    case (Change_Password name pass)
    have t: "text_ok name" "text_ok pass" using ok Change_Password by simp_all
    obtain st us' where cr: "user_change_password (w_users w) (Some name) (Some pass) = Inr (st, us')"
      using user_change_fits [of pass "w_users w" name] t by (fastforce simp: text_ok_def argument_ok_def)
    show ?thesis
      using m ty Change_Password c cr eff text_string [OF t(1)] text_string [OF t(2)]
      by (auto simp: perform_def request_change_passwd_def argument_at_def cell_pointer_def string_of_def same_connection_def
          monitor_request_defs intro!: exI [of _ "w\<lparr>w_users := us'\<rparr>"])
  next
    case Get_Statistics
    then show ?thesis
      using m ty eff
      by (auto simp: perform_def request_statistics_def set_monitor_req_def same_connection_def monitor_request_defs
          status_of_def)
  next
    case (Set_Methods new)
    obtain st ms' where ch: "change_loop (map (\<lambda>m. CellPtr [m, 0]) new @ [CellNull]) 0 (w_methods w) = Inr (st, ms')"
      using change_loop_fits [of 0 new "w_methods w"] ok Set_Methods table by auto
    have "cells = map (\<lambda>m. CellPtr [m, 0]) new @ CellNull # rest" using c Set_Methods by (simp add: comp_def)
    then show ?thesis
      using m ty Set_Methods ch eff change_loop_rest [of new rest 0 "w_methods w"]
      by (auto simp: perform_def request_change_methods_def change_auth_methods_def same_connection_def
          monitor_request_defs intro!: exI [of _ "w\<lparr>w_methods := ms'\<rparr>"])
  qed
qed

text \<open>The last byte of a request: it is performed, and the answer is left to be written.\<close>

lemma handle_request_perform:
  assumes "w_monitors w a = Some m" and "m_parser m = M_req mrq" and "mrq_arguments mrq = Some cells"
  shows "handle_request (fd, Some (MonitorPtr a)) w =
    bindr (perform a mrq cells w) (\<lambda>(status, w1).
      if status = MONITOR_REQ_STATUS_OK then
        bindr (set_interest_key (fd, Some (MonitorPtr a)) OP_WRITE w1) (\<lambda>w2. Inr (MONITOR_REQ_STATUS_OK, w2))
      else Inr (MONITOR_REQ_STATUS_ERR, w1))"
  using assms by (simp add: handle_request_def perform_def)

definition performed :: "nat \<Rightarrow> int \<Rightarrow> monitor_t \<Rightarrow> admin_request \<Rightarrow> bool \<Rightarrow> stats \<Rightarrow> monitor_req_parser_t \<Rightarrow> world \<Rightarrow> bool" where
  "performed a fd m r good s mrq w' \<longleftrightarrow> monitor_linked w' a fd (with_req m mrq) \<and> mrq_type mrq = request_type r \<and>
     (\<exists>cells. mrq_arguments mrq = Some cells \<and> terminated (request_args r) cells) \<and>
     mrq_req_status mrq = status_of good \<and> (r = Get_Statistics \<longrightarrow> mrq_stats mrq = s) \<and>
     (good \<longrightarrow> (\<exists>x. sel_lookup (w_sel w') fd = Some (OP_WRITE, x)))"

lemma request_end:
  assumes l: "request_at w a fd m MONITOR_REQ_STATE_ARGUMENT_LENGTH mrq p" and args: "arguments_at (request_args r) mrq"
    and ty: "mrq_type mrq = request_type r" and ok: "request_ok r" and table: "length (w_methods w) = MAX_BUFFER_SIZE"
    and eff: "request_effect r (w_users w) (w_methods w) = (good, us, ms)" and inp: "e_recv env fd = Avail (0 # bs)"
  shows "\<exists>w' mrq'. monitor_req_read env (fd, Some (MonitorPtr a)) w =
      Inr (if good then MONITOR_REQ else MONITOR_ERROR, w') \<and> performed a fd m r good (w_stats w) mrq' w' \<and>
      w_users w' = us \<and> w_methods w' = ms \<and> w_trace w' = w_trace w @ [Recv fd [0]] \<and> w_stats w' = w_stats w \<and>
      w_clients w' = w_clients w"
proof -
  let ?k = "(fd, Some (MonitorPtr a))"
  have room: "length (request_args r) < MAX_BUFFER_SIZE" and count: "count_ok (mrq_type mrq) (request_args r)"
    using request_args_few [OF ok] request_count [of r] ty by simp_all
  obtain mrq1 cells where read: "monitor_req_read env ?k w =
      bindr (handle_request ?k (request_in a fd m mrq1 [0] w)) (\<lambda>(status, w2).
      bindr (get_monitor a w2) (\<lambda>m.
      bindr (mreq_of m) (\<lambda>mrq2.
      bindr (set_monitor_req a (mrq2\<lparr>mrq_req_status := status\<rparr>) w2) (\<lambda>w3.
        Inr (if status \<noteq> MONITOR_REQ_STATUS_OK then MONITOR_ERROR else MONITOR_REQ, w3)))))"
    and q: "mrq_type mrq1 = request_type r" "mrq_arguments mrq1 = Some cells" "terminated (request_args r) cells"
    using end_byte [OF l args room count inp] ty by auto
  let ?w1 = "request_in a fd m mrq1 [0] w"
  have w1: "w_monitors ?w1 a = Some (with_req m mrq1)" "w_methods ?w1 = w_methods w" "w_clients ?w1 = w_clients w"
    "w_trace ?w1 = w_trace w @ [Recv fd [0]]" by (simp_all add: request_in_def received_def)
  have own: "selector_ok (w_sel w)" "monitor_owned w a fd" using l by (simp_all add: request_at_def monitor_linked_def)
  obtain w2 mrq2 where per: "perform a mrq1 cells ?w1 = Inr (status_of good, w2)"
    and m2: "w_monitors w2 a = Some (with_req m mrq2)" "mrq_type mrq2 = mrq_type mrq1" "mrq_arguments mrq2 = mrq_arguments mrq1"
      "r = Get_Statistics \<longrightarrow> mrq_stats mrq2 = w_stats w" "w_users w2 = us" "w_methods w2 = ms"
    and same: "w_sel w2 = w_sel w" "w_trace w2 = w_trace w @ [Recv fd [0]]" "w_stats w2 = w_stats w" "w_clients w2 = w_clients w"
    using perform_effect [OF w1(1) q(1) ok q(3)] eff table w1 by (fastforce simp: same_connection_def)
  have handled: "handle_request ?k ?w1 = Inr (status_of good,
      if good then w2\<lparr>w_sel := upd_interest (w_sel w) fd OP_WRITE\<rparr> else w2)"
    using handle_request_perform [OF w1(1) _ q(2)] per set_interest_ok(1) [of w2 fd OP_WRITE] same own
    by (simp add: status_of_def set_interest_key_eq)
  let ?mrq = "mrq2\<lparr>mrq_req_status := status_of good\<rparr>"
  let ?w3 = "put_monitor a (with_req m ?mrq) (if good then w2\<lparr>w_sel := upd_interest (w_sel w) fd OP_WRITE\<rparr> else w2)"
  have "monitor_req_read env ?k w = Inr (if good then MONITOR_REQ else MONITOR_ERROR, ?w3)"
    using read handled m2(1) by (simp add: set_monitor_req_def status_of_def)
  moreover have "performed a fd m r good (w_stats w) ?mrq ?w3"
    using m2 q same own set_interest_ok(2,3) [of w fd OP_WRITE]
    by (auto simp: performed_def monitor_linked_def monitor_owned_def)
  ultimately show ?thesis using m2 same by (intro exI [of _ ?w3] exI [of _ ?mrq]) simp
qed

section \<open>Whole requests\<close>

text \<open>What the server answers to a request it carried out.\<close>

definition reply_message :: "admin_request \<Rightarrow> stats \<Rightarrow> byte list" where
  "reply_message r s = (if r = Get_Statistics then stats_message MONITOR_REQ_STATUS_OK s else [0])"

lemma finalize_req:
  assumes "w_monitors w a = Some (with_req m mrq)" and "mrq_arguments mrq = Some cells" and "terminated args cells"
  shows "monitor_req_finalize MONITOR_REQ (fd, Some (MonitorPtr a)) w =
    Inr (put_monitor a (with_req m (mrq\<lparr>mrq_arguments := None, mrq_p := None\<rparr>)) w)"
proof -
  from assms(3) obtain rest where "cells = map (\<lambda>s. CellPtr (s @ [0])) args @ CellNull # rest" by (rule terminated_split)
  then show ?thesis using assms(1,2) by (simp add: monitor_req_finalize_def free_terminated)
qed

lemma monitor_reply_message:
  assumes "mrq_type mrq = request_type r" and "mrq_req_status mrq = MONITOR_REQ_STATUS_OK"
    and "r = Get_Statistics \<longrightarrow> mrq_stats mrq = s"
  shows "monitor_reply mrq = Inr (reply_message r s)" and "length (reply_message r s) \<le> MAX_REPLY_SIZE"
  using assms reply_statistics [of mrq] reply_status [of mrq]
  by (cases r; simp add: reply_message_def status_byte_def monitor_request_defs MAX_REPLY_SIZE_def stats_message_def)+

lemma request_closing:
  assumes l: "monitor_linked w1 a fd (with_req m mrq)" and c: "mrq_arguments mrq = Some cells" "terminated args cells"
    and st: "monitor_in m MONITOR_REQ" and ret: "ret = MONITOR_DONE \<or> ret = MONITOR_ERROR"
    and w0: "w_monitors w0 a = Some m0" "monitor_in m0 MONITOR_REQ" "m_stm m0 = m_stm m"
    and ready: "ready (monitor_states env ! MONITOR_REQ) = Some f" and run: "f (fd, Some (MonitorPtr a)) w0 = Inr (ret, w1)"
    and err: "m_error m = 0" and will: "willing env"
  shows "\<exists>w'. bindr (stm_event ready (monitor_machine a) (set_monitor_machine a) (monitor_states env) (fd, Some (MonitorPtr a)) w0)
      (\<lambda>(_, w'). Inr w') = Inr w' \<and> monitor_gone a fd w' \<and> w_trace w' = w_trace w1 @ [Closed fd] \<and>
    w_users w' = w_users w1 \<and> w_methods w' = w_methods w1 \<and> w_clients w' = w_clients w1 \<and> w_stats w' = w_stats w1"
proof -
  let ?k = "(fd, Some (MonitorPtr a))"
  let ?m3 = "with_req m (mrq\<lparr>mrq_arguments := None, mrq_p := None\<rparr>)"
  let ?w3 = "put_monitor a ?m3 w1" and ?w4 = "put_monitor a (monitor_moved ?m3 ret) (put_monitor a ?m3 w1)"
  have mon: "w_monitors w1 a = Some (with_req m mrq)" using l by (simp add: monitor_linked_def)
  have ev: "bindr (stm_event ready (monitor_machine a) (set_monitor_machine a) (monitor_states env) ?k w0) (\<lambda>(_, w'). Inr w') =
      run_hook (on_arrival (monitor_states env ! ret)) ret ?k ?w4"
    by (rule monitor_leaves [where ready = ready and f = f and g = monitor_req_finalize, OF w0(1,2) _ ready run mon _ _ _ _ finalize_req [OF mon c]])
      (use ret w0(3) in \<open>auto simp: monitor_state_defs monitor_states_def\<close>)
  have l4: "monitor_linked ?w4 a fd (monitor_moved ?m3 ret)" using l by (simp add: monitor_linked_def)
  from ret show ?thesis
  proof
    assume d: "ret = MONITOR_DONE"
    have "monitor_in (monitor_moved ?m3 ret) MONITOR_DONE" using st d by (simp add: monitor_in_def monitor_state_defs)
    from done_arrival [OF l4 this, of env] ev d show ?thesis by simp
  next
    assume d: "ret = MONITOR_ERROR"
    have "monitor_in (monitor_moved ?m3 ret) MONITOR_ERROR" using st d by (simp add: monitor_in_def)
    from error_arrival [OF l4 this will] ev d err show ?thesis by simp
  qed
qed

text \<open>The connection is ready to send its answer.\<close>

definition answering :: "nat \<Rightarrow> int \<Rightarrow> admin_request \<Rightarrow> stats \<Rightarrow> world \<Rightarrow> bool" where
  "answering a fd r s w' \<longleftrightarrow> (\<exists>m mrq. w_monitors w' a = Some (with_req m mrq) \<and> monitor_in m MONITOR_REQ \<and>
     m_error m = 0 \<and> performed a fd m r True s mrq w')"

lemma request_last:
  assumes l: "request_at w a fd m MONITOR_REQ_STATE_ARGUMENT_LENGTH mrq p" and args: "arguments_at (request_args r) mrq"
    and ty: "mrq_type mrq = request_type r" and ok: "request_ok r" and table: "length (w_methods w) = MAX_BUFFER_SIZE"
    and eff: "request_effect r (w_users w) (w_methods w) = (good, us, ms)" and will: "willing env" and err: "m_error m = 0"
  shows "\<exists>w'. monitor_reads env (fd, Some (MonitorPtr a)) [0] w = Inr w' \<and> w_users w' = us \<and> w_methods w' = ms \<and>
    w_stats w' = w_stats w \<and> w_trace w' = w_trace w @ [Recv fd [0]] @ (if good then [] else [Closed fd]) \<and>
    (if good then answering a fd r (w_stats w) w' else monitor_gone a fd w')"
proof -
  let ?k = "(fd, Some (MonitorPtr a))" and ?env = "with_input env fd [0]"
  obtain w1 mrq1 where read: "monitor_req_read ?env ?k w = Inr (if good then MONITOR_REQ else MONITOR_ERROR, w1)"
    and per: "performed a fd m r good (w_stats w) mrq1 w1"
    and w1: "w_users w1 = us" "w_methods w1 = ms" "w_trace w1 = w_trace w @ [Recv fd [0]]" "w_stats w1 = w_stats w"
      "w_clients w1 = w_clients w"
    using request_end [OF l args ty ok table eff, of ?env "[]"] by auto
  have m: "w_monitors w a = Some m" "monitor_in m MONITOR_REQ" using l by (simp_all add: request_at_def monitor_linked_def)
  have mon: "w_monitors w1 a = Some (with_req m mrq1)" using per by (simp add: performed_def monitor_linked_def)
  show ?thesis
  proof (cases good)
    case True
    have "handle_read_monitor ?env ?k w = Inr w1"
      unfolding handle_read_monitor_event
      by (rule monitor_stays [where ready = on_read_ready and f = "monitor_req_read ?env", OF m _ _ mon])
        (use read True in simp_all)
    moreover have "answering a fd r (w_stats w) w1" using mon per m err True by (auto simp: answering_def)
    ultimately show ?thesis using w1 True by simp
  next
    case False
    have "monitor_req_read ?env ?k w = Inr (MONITOR_ERROR, w1)" using read False by simp
    obtain cells where c: "mrq_arguments mrq1 = Some cells" "terminated (request_args r) cells"
      and lk: "monitor_linked w1 a fd (with_req m mrq1)" using per by (auto simp: performed_def)
    have "on_read_ready (monitor_states ?env ! MONITOR_REQ) = Some (monitor_req_read ?env)" by simp
    from request_closing [where ready = on_read_ready and f = "monitor_req_read ?env" and env = ?env,
        OF lk c m(2) _ m refl this _ err, of MONITOR_ERROR] read False w1 will
    obtain w' where "handle_read_monitor ?env ?k w = Inr w'" "monitor_gone a fd w'" "w_trace w' = w_trace w1 @ [Closed fd]"
      "w_users w' = us" "w_methods w' = ms" "w_stats w' = w_stats w"
      by (auto simp: handle_read_monitor_event)
    then show ?thesis using w1 False by simp
  qed
qed

lemma answer_sent:
  assumes ans: "answering a fd r s w1" and will: "willing env"
  shows "\<exists>w'. handle_write_monitor env (fd, Some (MonitorPtr a)) w1 = Inr w' \<and> monitor_gone a fd w' \<and>
    w_trace w' = w_trace w1 @ [Sent fd (reply_message r s), Closed fd] \<and> w_users w' = w_users w1 \<and>
    w_methods w' = w_methods w1 \<and> w_stats w' = w_stats w1"
proof -
  let ?k = "(fd, Some (MonitorPtr a))"
  obtain m mrq where m: "w_monitors w1 a = Some (with_req m mrq)" "monitor_in m MONITOR_REQ" "m_error m = 0"
    and per: "performed a fd m r True s mrq w1" using ans by (auto simp: answering_def)
  have q: "mrq_type mrq = request_type r" "mrq_req_status mrq = MONITOR_REQ_STATUS_OK"
    "r = Get_Statistics \<longrightarrow> mrq_stats mrq = s" and own: "selector_ok (w_sel w1)" "monitor_owned w1 a fd"
    using per by (simp_all add: performed_def status_of_def monitor_linked_def)
  note rep = monitor_reply_message [OF q]
  let ?w2 = "(emit (Sent fd (reply_message r s)) w1)\<lparr>w_sel := upd_interest (w_sel w1) fd OP_NOOP\<rparr>"
  have run: "monitor_req_write env ?k w1 = Inr (MONITOR_DONE, ?w2)"
    using m(1) rep will own set_interest_ok(1) [of "emit (Sent fd (reply_message r s)) w1" fd OP_NOOP]
    by (simp add: monitor_req_write_def send_response_def set_interest_key_eq)
  obtain cells where c: "mrq_arguments mrq = Some cells" "terminated (request_args r) cells" using per by (auto simp: performed_def)
  have lk: "monitor_linked ?w2 a fd (with_req m mrq)"
    using m(1) own set_interest_ok(2) [OF own(1)] by (simp add: monitor_linked_def)
  have m1: "monitor_in (with_req m mrq) MONITOR_REQ" "m_stm (with_req m mrq) = m_stm m" using m(2) by simp_all
  have "on_write_ready (monitor_states env ! MONITOR_REQ) = Some (monitor_req_write env)" by simp
  from request_closing [where ready = on_write_ready and f = "monitor_req_write env" and env = env,
      OF lk c m(2) _ m(1) m1 this run m(3) will]
  show ?thesis by (auto simp: handle_write_monitor_event)
qed

lemma request_run:
  assumes srv: "serving env w a fd m" and err: "m_error m = 0" and ok: "request_ok r"
    and table: "length (w_methods w) = MAX_BUFFER_SIZE" and alloc: "e_alloc env A_argument" and will: "willing env"
    and eff: "request_effect r (w_users w) (w_methods w) = (good, us, ms)"
  shows "\<exists>w1. monitor_reads env (fd, Some (MonitorPtr a)) (encode_request r) w = Inr w1 \<and> w_users w1 = us \<and> w_methods w1 = ms \<and>
    w_stats w1 = w_stats w \<and>
    w_trace w1 = w_trace w @ map (\<lambda>b. Recv fd [b]) (encode_request r) @ (if good then [] else [Closed fd]) \<and>
    (if good then answering a fd r (w_stats w) w1 else monitor_gone a fd w1)"
proof -
  let ?k = "(fd, Some (MonitorPtr a))" and ?args = "encode_arguments (request_args r)"
  have at0: "request_at w a fd m MONITOR_REQ_STATE_TYPE (fresh_request env) (fresh_parser env monitor_req_parser_def)"
    using srv parser_ok_fresh [of monitor_req_parser_def env]
    by (simp add: request_at_def serving_def fresh_request_def fresh_parser_def monitor_req_table_defs)
  obtain mrq1 p1 where r1: "monitor_reads env ?k (request_type r # ?args @ [0]) w =
      monitor_reads env ?k (?args @ [0]) (request_in a fd m mrq1 [request_type r] w)"
    and at1: "request_at (request_in a fd m mrq1 [request_type r] w) a fd (with_req m mrq1) MONITOR_REQ_STATE_ARGUMENT_LENGTH mrq1 p1"
    and q1: "mrq_type mrq1 = request_type r" "mrq_arguments mrq1 = mrq_arguments (fresh_request env)"
      "mrq_arguments_read mrq1 = mrq_arguments_read (fresh_request env)"
    using request_type_byte [OF at0, of env "request_type r" "?args @ [0]"] by blast
  let ?w1 = "request_in a fd m mrq1 [request_type r] w"
  have "arguments_at [] mrq1" using q1(2,3) by (simp add: arguments_at_def holds_arguments_def fresh_request_def zero_monitor_req_def)
  from arguments_run [OF at1 this, of "request_args r" env "[0]"] request_args_few [OF ok] request_args_ok [OF ok] alloc
  obtain mrq2 p2 where r2: "monitor_reads env ?k (?args @ [0]) ?w1 = monitor_reads env ?k [0] (request_in a fd (with_req m mrq1) mrq2 ?args ?w1)"
    and at2: "request_at (request_in a fd (with_req m mrq1) mrq2 ?args ?w1) a fd (with_req (with_req m mrq1) mrq2)
      MONITOR_REQ_STATE_ARGUMENT_LENGTH mrq2 p2"
    and q2: "mrq_type mrq2 = request_type r" "arguments_at (request_args r) mrq2" using q1(1) by auto
  let ?w2 = "request_in a fd (with_req m mrq1) mrq2 ?args ?w1"
  have w2: "w_users ?w2 = w_users w" "w_methods ?w2 = w_methods w" "w_stats ?w2 = w_stats w"
    "w_trace ?w2 = w_trace w @ map (\<lambda>b. Recv fd [b]) (request_type r # ?args)"
    by (simp_all add: request_in_def received_def)
  have "m_error (with_req (with_req m mrq1) mrq2) = 0" using err by simp
  from request_last [OF at2 q2(2,1) ok _ _ will this, of good us ms, unfolded w2] table eff
  obtain w' where "monitor_reads env ?k [0] ?w2 = Inr w'" "w_users w' = us" "w_methods w' = ms" "w_stats w' = w_stats w"
    "w_trace w' = w_trace w @ map (\<lambda>b. Recv fd [b]) (request_type r # ?args @ [0]) @ (if good then [] else [Closed fd])"
    "if good then answering a fd r (w_stats w) w' else monitor_gone a fd w'" by auto
  then show ?thesis using r1 r2 w2(3) unfolding encode_request_def by auto
qed

end
