(* ===== verification/Admin_Sessions.thy ===== *)
theory Admin_Sessions
  imports Administration
begin

text \<open>
  Sessions of an administrator: from the accepted connection to the answer of its request, and what
  its own client writes and reads.
\<close>

section \<open>A sample connection\<close>

definition admin_world :: "(fd_handler, attachment) fdselector \<Rightarrow> users \<Rightarrow> world" where
  "admin_world s us = (sample_world s us (sample_client 0 (-1) NO_PARSER P_none))\<lparr>w_clients := Map.empty,
     w_monitors := [0 \<mapsto> new_monitor]\<rparr>"

lemma admin_world_sel [simp]:
  "w_sel (admin_world s us) = s" "w_users (admin_world s us) = us" "w_trace (admin_world s us) = []"
  "w_monitors (admin_world s us) = [0 \<mapsto> new_monitor]" "w_stats (admin_world s us) = stats_init"
  "w_methods (admin_world s us) = (replicate MAX_BUFFER_SIZE 0)[0 := 2, 1 := -1]"
  by (simp_all add: admin_world_def)

lemma admin_world_linked: "\<exists>s. \<forall>us. monitor_linked (admin_world s us) 0 4 new_monitor"
proof -
  obtain s0 :: "(fd_handler, attachment) fdselector" where "selector_ok s0" "sel_lookup s0 = (\<lambda>_. None)"
    using selector_new_server [of 1000 "(60, 0)"] by auto
  then obtain s1 where "selector_ok s1" "sel_lookup s1 = [4 \<mapsto> (OP_READ, Some ACTIVE_MONITOR_HANDLER, Some (MonitorPtr 0))]"
    using selector_register_fresh [of s0 4] by (fastforce simp: INVALID_FD_iff)
  then show ?thesis by (auto simp: monitor_linked_def monitor_owned_def)
qed

lemma sample_willing: "willing (sample_env bs)"
  by (auto simp: willing_def MAX_REPLY_SIZE_def)

lemma new_monitor_sel [simp]: "m_error new_monitor = 0" "m_user_access_level new_monitor = ADMIN"
  by (simp_all add: new_monitor_def ADMIN_def)

section \<open>Logging in\<close>

definition encode_login :: "byte list \<Rightarrow> byte list \<Rightarrow> byte list" where
  "encode_login name pass = of_nat (length name) # name @ of_nat (length pass) # pass"

definition reads_trace :: "int \<Rightarrow> byte list \<Rightarrow> action list" where
  "reads_trace fd bs = map (\<lambda>b. Recv fd [b]) bs"



lemma login_failed_trace:
  assumes "monitor_linked w a fd m" and "m_stm m = m_stm new_monitor" and "m_user_access_level m = ADMIN"
    and "willing env" and "e_alloc env A_parser" and "e_alloc env A_arguments"
    and "text_ok name" and "text_ok pass" and "length pass \<le> 254"
    and "user_login (w_users w) (Some name) pass = (st, None)"
  shows "\<exists>w'. monitor_reads env (fd, Some (MonitorPtr a)) (encode_login name pass) w = Inr w' \<and>
    w_trace w' = w_trace w @ reads_trace fd (encode_login name pass) @
      [Sent fd [1], Sent fd [0], Sent fd [login_code (w_users w) name pass], Closed fd]"
proof -
  have "name \<noteq> []" "length name \<le> 255" "pass \<noteq> []" "cstr name = name" "cstr pass = pass"
    using assms(7,8) by (auto simp: text_ok_def argument_ok_def cstr_def takeWhile_eq_all_conv)
  with login_run [OF assms(1-6), of name pass] assms(3,9,10) show ?thesis
    by (fastforce simp: encode_login_def reads_trace_def answered_def may_log_in_def failed_level_def split: if_splits)
qed

text \<open>
  A refused login is answered as if it had succeeded, too. When the user is unknown or the
  password is wrong, the connection sends 1, then the departure callback sends the byte 0 of a
  successful login (the level of a fresh connection is that of an administrator), then comes the
  error code.
\<close>

theorem refused_login_also_sends_success:
  assumes "monitor_linked w a fd m" and "m_stm m = m_stm new_monitor" and "m_user_access_level m = ADMIN"
    and "willing env" and "e_alloc env A_parser" and "e_alloc env A_arguments"
    and "text_ok name" and "text_ok pass" and "length pass \<le> 254"
    and "user_login (w_users w) (Some name) pass = (st, None)"
  shows "\<exists>w' code. monitor_reads env (fd, Some (MonitorPtr a)) (encode_login name pass) w = Inr w' \<and> code \<noteq> 0 \<and>
    w_trace w' = w_trace w @ reads_trace fd (encode_login name pass) @ [Sent fd [1], Sent fd [0], Sent fd [code], Closed fd]"
  using login_failed_trace [OF assms] login_code_nonzero by blast

theorem refused_login_also_sends_success_witness:
  "\<exists>s w' code. monitor_reads (sample_env []) (4, Some (MonitorPtr 0)) (encode_login [114] [115]) (admin_world s []) = Inr w' \<and>
    code \<noteq> 0 \<and> w_trace w' = reads_trace 4 [1, 114, 1, 115] @ [Sent 4 [1], Sent 4 [0], Sent 4 [code], Closed 4]"
proof -
  obtain s where l: "monitor_linked (admin_world s []) 0 4 new_monitor" using admin_world_linked by blast
  have "user_login [] (Some [114]) [115] = (USERS_USER_NOT_FOUND, None)" by (simp add: user_login_def get_user_index_def)
  with refused_login_also_sends_success [OF l refl _ sample_willing, of "[]" "[114]" "[115]" USERS_USER_NOT_FOUND] show ?thesis
    by (intro exI [of _ s]) (auto simp: text_ok_def argument_ok_def encode_login_def)
qed

section \<open>Whole sessions\<close>

lemma session_run:
  assumes "monitor_linked w a fd m" and "m_stm m = m_stm new_monitor" and "m_user_access_level m = ADMIN" and "m_error m = 0"
    and "willing env" and "e_alloc env A_parser" and "e_alloc env A_arguments" and "e_alloc env A_argument"
    and "text_ok name" and "text_ok pass" and "length pass \<le> 254"
    and "user_login (w_users w) (Some name) pass = (USERS_OK, Some ADMIN)"
    and "request_ok r" and "length (w_methods w) = MAX_BUFFER_SIZE"
    and "request_effect r (w_users w) (w_methods w) = (True, us, ms)"
  shows "\<exists>w1 w2 w3. monitor_reads env (fd, Some (MonitorPtr a)) (encode_login name pass) w = Inr w1 \<and>
    monitor_reads env (fd, Some (MonitorPtr a)) (encode_request r) w1 = Inr w2 \<and>
    (\<exists>x. sel_lookup (w_sel w2) fd = Some (OP_WRITE, x)) \<and>
    handle_write_monitor env (fd, Some (MonitorPtr a)) w2 = Inr w3 \<and>
    w_users w3 = us \<and> w_methods w3 = ms \<and> w_stats w3 = w_stats w \<and>
    w_monitors w3 a = None \<and> sel_lookup (w_sel w3) fd = None \<and>
    w_trace w3 = w_trace w @ reads_trace fd (encode_login name pass) @ [Sent fd [0]] @
      reads_trace fd (encode_request r) @ [Sent fd (reply_message r (w_stats w)), Closed fd]"
proof -
  have named: "name \<noteq> []" "length name \<le> 255" "pass \<noteq> []" "cstr name = name" "cstr pass = pass"
    using assms(9,10) by (auto simp: text_ok_def argument_ok_def cstr_def takeWhile_eq_all_conv)
  obtain w1 m1 where w1: "monitor_reads env (fd, Some (MonitorPtr a)) (encode_login name pass) w = Inr w1"
    "serving env w1 a fd m1" "m_error m1 = 0" "w_users w1 = w_users w" "w_methods w1 = w_methods w" "w_stats w1 = w_stats w"
    "w_trace w1 = w_trace w @ reads_trace fd (encode_login name pass) @ [Sent fd [0]]"
    using login_run [OF assms(1-3,5-7), of name pass] named assms(4,11,12)
    by (auto simp: encode_login_def reads_trace_def answered_def may_log_in_def)
  obtain w2 where w2: "monitor_reads env (fd, Some (MonitorPtr a)) (encode_request r) w1 = Inr w2" "w_users w2 = us"
    "w_methods w2 = ms" "w_stats w2 = w_stats w" "w_trace w2 = w_trace w1 @ reads_trace fd (encode_request r)"
    "answering a fd r (w_stats w) w2"
    using request_run [OF w1(2,3) assms(13) _ assms(8,5), of True us ms] w1(4-6) assms(14,15) by (auto simp: reads_trace_def)
  have "\<exists>x. sel_lookup (w_sel w2) fd = Some (OP_WRITE, x)" using w2(6) by (auto simp: answering_def performed_def)
  with answer_sent [OF w2(6) assms(5)] w1 w2 show ?thesis by (fastforce simp: monitor_gone_def)
qed

text \<open>
  C9. A session of an administrator. After the login, the bytes of a request that can be carried
  out change users and methods exactly as the request says, the connection waits to be writable,
  and then the server answers with its status (and the counters), and the connection is closed and
  freed; nothing else is sent.
\<close>

theorem admin_session:
  assumes "monitor_linked w a fd m" and "m_stm m = m_stm new_monitor" and "m_user_access_level m = ADMIN" and "m_error m = 0"
    and "willing env" and "e_alloc env A_parser" and "e_alloc env A_arguments" and "e_alloc env A_argument"
    and "text_ok name" and "text_ok pass" and "length pass \<le> 254"
    and "user_login (w_users w) (Some name) pass = (USERS_OK, Some ADMIN)"
    and "request_ok r" and "length (w_methods w) = MAX_BUFFER_SIZE"
    and "request_effect r (w_users w) (w_methods w) = (True, us, ms)"
  shows "\<exists>w1 w2 w3. monitor_reads env (fd, Some (MonitorPtr a)) (encode_login name pass) w = Inr w1 \<and>
    monitor_reads env (fd, Some (MonitorPtr a)) (encode_request r) w1 = Inr w2 \<and>
    (\<exists>x. sel_lookup (w_sel w2) fd = Some (OP_WRITE, x)) \<and>
    handle_write_monitor env (fd, Some (MonitorPtr a)) w2 = Inr w3 \<and>
    w_users w3 = us \<and> w_methods w3 = ms \<and> w_stats w3 = w_stats w \<and>
    w_monitors w3 a = None \<and> sel_lookup (w_sel w3) fd = None \<and>
    w_trace w3 = w_trace w @ reads_trace fd (encode_login name pass) @ [Sent fd [0]] @
      reads_trace fd (encode_request r) @ [Sent fd (reply_message r (w_stats w)), Closed fd]"
  by (rule session_run [OF assms])

lemma sample_admin_login:
  "user_login [\<lparr>u_name = [114], u_pass = [115], u_level = ADMIN\<rparr>] (Some [114]) [115] = (USERS_OK, Some ADMIN)"
  by (simp add: user_login_def get_user_index_def)

theorem admin_session_witness:
  "\<exists>s w1 w2 w3. monitor_reads (sample_env []) (4, Some (MonitorPtr 0)) (encode_login [114] [115])
      (admin_world s [\<lparr>u_name = [114], u_pass = [115], u_level = ADMIN\<rparr>]) = Inr w1 \<and>
    monitor_reads (sample_env []) (4, Some (MonitorPtr 0)) (encode_request (Add_User [97] [98] 1)) w1 = Inr w2 \<and>
    handle_write_monitor (sample_env []) (4, Some (MonitorPtr 0)) w2 = Inr w3 \<and>
    w_users w3 = [\<lparr>u_name = [114], u_pass = [115], u_level = ADMIN\<rparr>, \<lparr>u_name = [97], u_pass = [98], u_level = USER\<rparr>] \<and>
    w_trace w3 = reads_trace 4 [1, 114, 1, 115] @ [Sent 4 [0]] @ reads_trace 4 [0, 1, 97, 1, 98, 1, 1, 0] @
      [Sent 4 [0], Closed 4]"
proof -
  let ?u = "[\<lparr>u_name = [114], u_pass = [115], u_level = ADMIN\<rparr>] :: users"
  let ?r = "Add_User [97] [98] 1" and ?ms = "(replicate MAX_BUFFER_SIZE 0)[0 := 2, 1 := -1] :: methods"
  obtain s where l: "monitor_linked (admin_world s ?u) 0 4 new_monitor" using admin_world_linked by blast
  have eff: "request_effect ?r (w_users (admin_world s ?u)) (w_methods (admin_world s ?u)) =
      (True, ?u @ [\<lparr>u_name = [97], u_pass = [98], u_level = USER\<rparr>], ?ms)"
    by (simp add: user_create_def get_user_index_def strcpy_into_def MAX_USERNAME_LEN_def MAX_PASSWORD_LEN_def
        USER_def ADMIN_def MAX_USERS_REGISTERED_def)
  have enc: "encode_login [114] [115] = [1, 114, 1, 115]" "encode_request ?r = [0, 1, 97, 1, 98, 1, 1, 0]"
    by (simp_all add: encode_login_def encode_request_def encode_arguments_def monitor_request_defs)
  from admin_session [OF l refl _ _ sample_willing _ _ _ _ _ _ _ _ _ eff, of "[]" "[114]" "[115]"] sample_admin_login
  show ?thesis unfolding enc
    by (intro exI [of _ s]) (auto simp: text_ok_def argument_ok_def reply_message_def)
qed

text \<open>
  C34. A request that cannot be carried out is not answered. The connection is closed without the
  byte of the error status, which only \<open>send_response\<close> would send; the users are those the
  operation leaves behind.
\<close>

theorem failed_admin_request_gets_no_answer:
  assumes "serving env w a fd m" and "m_error m = 0" and "request_ok r" and "length (w_methods w) = MAX_BUFFER_SIZE"
    and "e_alloc env A_argument" and "willing env" and "request_effect r (w_users w) (w_methods w) = (False, us, ms)"
  shows "\<exists>w'. monitor_reads env (fd, Some (MonitorPtr a)) (encode_request r) w = Inr w' \<and> w_users w' = us \<and> w_methods w' = ms \<and>
    w_monitors w' a = None \<and> sel_lookup (w_sel w') fd = None \<and>
    w_trace w' = w_trace w @ reads_trace fd (encode_request r) @ [Closed fd]"
  using request_run [OF assms(1-7)] by (auto simp: monitor_gone_def reads_trace_def)

text \<open>The connection of an administrator that logged in, over the given methods.\<close>

lemma sample_serving:
  "\<exists>w m. serving (sample_env []) w 0 4 m \<and> m_error m = 0 \<and> length (w_methods w) = MAX_BUFFER_SIZE \<and>
    w_users w = [\<lparr>u_name = [114], u_pass = [115], u_level = ADMIN\<rparr>] \<and>
    w_trace w = reads_trace 4 [1, 114, 1, 115] @ [Sent 4 [0]]"
proof -
  let ?u = "[\<lparr>u_name = [114], u_pass = [115], u_level = ADMIN\<rparr>] :: users"
  obtain s where l: "monitor_linked (admin_world s ?u) 0 4 new_monitor" using admin_world_linked by blast
  from login_run [OF l refl _ sample_willing, of "[]" "[114]" "[115]"] obtain w' where
    "answered (sample_env []) 0 4 new_monitor [114] [115] (admin_world s ?u) (reads_trace 4 [1, 114, 1, 115]) w'"
    by (auto simp: cstr_def reads_trace_def)
  then show ?thesis using sample_admin_login
    by (intro exI [of _ w']) (auto simp: answered_def may_log_in_def)
qed

theorem failed_admin_request_gets_no_answer_witness:
  "\<exists>w w'. monitor_reads (sample_env []) (4, Some (MonitorPtr 0)) (encode_request (Remove_User [97])) w = Inr w' \<and>
    w_users w' = [\<lparr>u_name = [114], u_pass = [115], u_level = ADMIN\<rparr>] \<and>
    w_trace w' = reads_trace 4 [1, 114, 1, 115] @ [Sent 4 [0]] @ reads_trace 4 [1, 1, 97, 0] @ [Closed 4]"
proof -
  obtain w m where w: "serving (sample_env []) w 0 4 m" "m_error m = 0" "length (w_methods w) = MAX_BUFFER_SIZE"
    "w_users w = [\<lparr>u_name = [114], u_pass = [115], u_level = ADMIN\<rparr>]"
    "w_trace w = reads_trace 4 [1, 114, 1, 115] @ [Sent 4 [0]]"
    using sample_serving by blast
  have eff: "request_effect (Remove_User [97]) (w_users w) (w_methods w) = (False, w_users w, w_methods w)"
    by (simp add: w(4) user_delete_def get_user_index_def)
  have enc: "encode_request (Remove_User [97]) = [1, 1, 97, 0]"
    by (simp add: encode_request_def encode_arguments_def monitor_request_defs)
  have "request_ok (Remove_User [97])" by (simp add: text_ok_def argument_ok_def)
  from failed_admin_request_gets_no_answer [OF w(1,2) this w(3) _ sample_willing eff] obtain w' where
    "monitor_reads (sample_env []) (4, Some (MonitorPtr 0)) [1, 1, 97, 0] w = Inr w'" "w_users w' = w_users w"
    "w_trace w' = w_trace w @ reads_trace 4 [1, 1, 97, 0] @ [Closed 4]" unfolding enc by auto
  then show ?thesis unfolding enc using w(4,5) by (intro exI [of _ w] exI [of _ w']) (simp del: monitor_reads.simps)
qed

section \<open>The bytes the client writes\<close>

text \<open>The function of the client for each request, with a buffer of the stated size.\<close>

fun client_request :: "admin_request \<Rightarrow> byte list \<Rightarrow> (nat \<times> byte list) res" where
  "client_request (Add_User name pass level) b = write_monitor_user_add_request (Some b) (length b)
     (Some \<lparr>u_name = name, u_pass = pass, u_level = sint level\<rparr>)"
| "client_request (Remove_User name) b = write_monitor_user_delete_request (Some b) (length b)
     (Some \<lparr>u_name = name, u_pass = [], u_level = USER\<rparr>)"
| "client_request (Change_Password name pass) b = write_monitor_change_pass_request (Some b) (length b)
     (Some \<lparr>u_name = name, u_pass = pass, u_level = USER\<rparr>)"
| "client_request Get_Statistics b = write_monitor_get_stats_request (Some b) (length b)"
| "client_request (Set_Methods ms) b = write_monitor_change_auth_methods_request (Some b) (length b) (ms @ [-1])"

lemma methods_loop_written:
  assumes "-1 \<notin> set ms" and "unat i + 2 * length ms < length buf" and "unat i + 2 * length ms < 60000"
  shows "methods_loop buf i (ms @ [-1]) = Inr (unat i + 2 * length ms + 1,
    overwrite buf (unat i) (encode_arguments (map (\<lambda>m. [m]) ms) @ [0]))"
  using assms
proof (induction ms arbitrary: buf i)
  case Nil
  have "unat (i + 1) = unat i + 1" using Nil.prems by (simp add: unat_word_ariths)
  then show ?case using Nil.prems by (simp add: overwrite_def encode_arguments_def upd_conv_take_nth_drop)
next
  case (Cons m ms)
  have n: "unat (i + 1) = unat i + 1" "unat (i + 2) = unat i + 2" using Cons.prems by (simp_all add: unat_word_ariths)
  have m: "sint m \<noteq> -1"
  proof
    assume "sint m = -1"
    then have "m = -1" by (simp add: word_eq_iff_signed)
    then show False using Cons.prems(1) by simp
  qed
  have "overwrite (buf[unat i := 1, Suc (unat i) := m]) (unat i + 2) xs = overwrite buf (unat i) (1 # m # xs)" for xs
    using Cons.prems(2) by (simp add: overwrite_def upd_conv_take_nth_drop take_Suc_conv_app_nth min_def nth_append add.commute)
  then show ?case using Cons.prems Cons.IH [of "i + 2" "buf[unat i := 1, Suc (unat i) := m]"] n m
    by (simp add: encode_arguments_def)
qed

text \<open>
  The client writes the protocol: for every request of the protocol, the function of the client
  leaves in a buffer that is larger than the message exactly the bytes the server understands as that request,
  and returns their number.
\<close>

lemma client_writes_requests:
  assumes "request_ok r" and "\<forall>ms. r = Set_Methods ms \<longrightarrow> -1 \<notin> set ms" and "length (encode_request r) < length b"
  shows "\<exists>b'. client_request r b = Inr (length (encode_request r), b') \<and> take (length (encode_request r)) b' = encode_request r"
proof (cases r)
  case (Add_User name pass level)
  have "of_int (sint level) = level" by simp
  with Add_User assms put_all_written [of "[[ADD_USER_ACTION_TYPE], [of_nat (length name)], name, [of_nat (length pass)], pass,
      [ACCESS_LEVEL_ARG_LENGTH], [level], [TERMINATOR]]" b] show ?thesis
    by (auto simp: write_monitor_user_add_request_def Let_def bad_length_def UINT8_MAX_def text_ok_def argument_ok_def
        encode_request_def encode_arguments_def monitor_request_defs action_type_defs simp del: put_all.simps)
next
  case (Remove_User name)
  with assms put_all_written [of "[[DELETE_USER_ACTION_TYPE], [of_nat (length name)], name, [TERMINATOR]]" b] show ?thesis
    by (auto simp: write_monitor_user_delete_request_def Let_def bad_length_def UINT8_MAX_def text_ok_def argument_ok_def
        encode_request_def encode_arguments_def monitor_request_defs action_type_defs simp del: put_all.simps)
next
  case (Change_Password name pass)
  with assms put_all_written [of "[[CHANGE_PASS_ACTION_TYPE], [of_nat (length name)], name, [of_nat (length pass)], pass,
      [TERMINATOR]]" b] show ?thesis
    by (auto simp: write_monitor_change_pass_request_def Let_def bad_length_def UINT8_MAX_def text_ok_def argument_ok_def
        encode_request_def encode_arguments_def monitor_request_defs action_type_defs simp del: put_all.simps)
next
  case Get_Statistics
  with assms put_all_written [of "[[GET_STATS_ACTION_TYPE], [TERMINATOR]]" b] show ?thesis
    by (auto simp: write_monitor_get_stats_request_def encode_request_def encode_arguments_def monitor_request_defs action_type_defs simp del: put_all.simps)
next
  case (Set_Methods ms)
  let ?enc = "encode_arguments (map (\<lambda>m. [m]) ms) @ [0]"
  have len: "length (encode_arguments (map (\<lambda>m. [m]) ms)) = 2 * length ms" by (induction ms) (simp_all add: encode_arguments_def)
  have "methods_loop (b[0 := CHANGE_AUTH_METHODS_TYPE]) 1 (ms @ [-1]) =
      Inr (1 + 2 * length ms + 1, overwrite (b[0 := CHANGE_AUTH_METHODS_TYPE]) 1 ?enc)"
    using methods_loop_written [of ms 1 "b[0 := CHANGE_AUTH_METHODS_TYPE]"] assms Set_Methods len
    by (simp add: encode_request_def MAX_BUFFER_SIZE_def)
  then show ?thesis using assms(3) Set_Methods len
    by (cases b) (auto simp: write_monitor_change_auth_methods_request_def encode_request_def overwrite_def
        monitor_request_defs action_type_defs)
qed

end
