(* ===== verification/Admin_Faults.thy ===== *)
theory Admin_Faults
  imports Admin_Sessions
begin

text \<open>
  What a client of the monitor can send, once logged in, that the handlers are not prepared for,
  and who gets to the state of requests at all.
\<close>

section \<open>Unknown request types\<close>

text \<open>
  C35. A request type is used as an index without a check: \<open>max_arguments\<close> has one entry for each
  of the five types, and the end of the arguments of any larger type reads behind it.
\<close>

theorem unknown_request_type_overreads:
  assumes "serving env w a fd m" and "unat t \<ge> REQ_AMOUNT"
  shows "monitor_reads env (fd, Some (MonitorPtr a)) [t, 0] w = Inl OutOfBounds"
proof -
  let ?k = "(fd, Some (MonitorPtr a))" and ?env = "with_input env fd [0]"
  have at0: "request_at w a fd m MONITOR_REQ_STATE_TYPE (fresh_request env) (fresh_parser env monitor_req_parser_def)"
    using assms(1) parser_ok_fresh [of monitor_req_parser_def env]
    by (simp add: request_at_def serving_def fresh_request_def fresh_parser_def monitor_req_table_defs)
  obtain mrq p where run: "monitor_reads env ?k (t # [0]) w = monitor_reads env ?k [0] (request_in a fd m mrq [t] w)"
    and at1: "request_at (request_in a fd m mrq [t] w) a fd (with_req m mrq) MONITOR_REQ_STATE_ARGUMENT_LENGTH mrq p"
    and q: "mrq_type mrq = t" "mrq_arguments mrq = mrq_arguments (fresh_request env)"
      "mrq_arguments_read mrq = mrq_arguments_read (fresh_request env)"
    using request_type_byte [OF at0, of env t "[0]"] by blast
  let ?w1 = "request_in a fd m mrq [t] w"
  let ?p = "stepped p 0 MONITOR_REQ_EVENT_ARGUMENT_LENGTH MONITOR_REQ_STATE_ARGUMENT"
  have pok: "parser_ok monitor_req_parser_def p" and feed: "parser_feed p 0 = Inr ?p"
    using at1 monitor_req_feed(2) [of p 0] by (simp_all add: request_at_def)
  have t: "t \<noteq> CHANGE_AUTH_METHODS" "\<not> unat t < length max_arguments"
    using assms(2) by (auto simp: CHANGE_AUTH_METHODS_def REQ_AMOUNT_def max_arguments_def)
  have "monitor_req_read ?env ?k ?w1 = Inl OutOfBounds"
    using request_read [OF at1, of ?env 0 "[]", OF _ feed] pok q t
    by (simp add: monitor_req_event_def monitor_req_end_def set_monitor_req_def monitor_req_consts fresh_request_def
        zero_monitor_req_def MAX_BUFFER_SIZE_def)
  moreover have "w_monitors ?w1 a = Some (with_req m mrq)" "monitor_in (with_req m mrq) MONITOR_REQ"
    using at1 by (simp_all add: request_at_def monitor_linked_def)
  ultimately have "handle_read_monitor ?env ?k ?w1 = Inl OutOfBounds"
    using monitor_event_run [where ready = on_read_ready and env = ?env and key = ?k and w = ?w1 and k = MONITOR_REQ]
    by (simp add: handle_read_monitor_event)
  then show ?thesis using run by simp
qed

theorem unknown_request_type_overreads_witness:
  "\<exists>w m. serving (sample_env []) w 0 4 m \<and>
    monitor_reads (sample_env []) (4, Some (MonitorPtr 0)) [9, 0] w = Inl OutOfBounds"
proof -
  obtain w m where "serving (sample_env []) w 0 4 m" using sample_serving by blast
  then show ?thesis using unknown_request_type_overreads [of "sample_env []" w 0 4 m 9]
    by (intro exI [of _ w] exI [of _ m]) (simp add: REQ_AMOUNT_def del: monitor_reads.simps)
qed

section \<open>Leaving before a request\<close>

definition lost :: "env \<Rightarrow> int \<Rightarrow> world \<Rightarrow> bool" where
  "lost env fd w \<longleftrightarrow> (case e_recv env fd of
     Avail bs \<Rightarrow> bs = [] \<and> w_errno w \<noteq> EAGAIN | RecvErr e \<Rightarrow> e \<noteq> EAGAIN)"

text \<open>
  C36. A client that logs in and whose connection ends before its request crashes the server: the
  departure callback frees the cells of the argument array up to the first null pointer, and that
  array was allocated without being initialised.
\<close>

theorem early_close_frees_uninitialised:
  assumes "serving env w a fd m" and "lost env fd w"
  shows "handle_read_monitor env (fd, Some (MonitorPtr a)) w = Inl Uninitialised"
proof -
  let ?k = "(fd, Some (MonitorPtr a))" and ?m = "m\<lparr>m_error := MONITOR_IO_ERROR\<rparr>"
  have m: "w_monitors w a = Some m" "monitor_in m MONITOR_REQ" "m_parser m = M_req (fresh_request env)"
    using assms(1) by (simp_all add: serving_def monitor_linked_def)
  obtain w0 where run: "monitor_req_read env ?k w = Inr (MONITOR_ERROR, put_monitor a ?m w0)"
    using m assms(2)
    by (auto simp: lost_def monitor_req_read_def sys_recv_def would_block_def set_monitor_error_def split: recv_answer.splits)
  let ?w1 = "put_monitor a ?m w0"
  have dep: "monitor_req_finalize MONITOR_REQ ?k ?w1 = Inl Uninitialised"
    using m by (simp add: monitor_req_finalize_def fresh_request_def MAX_BUFFER_SIZE_def numeral_eq_Suc)
  show ?thesis
    using monitor_event_run [where ready = on_read_ready and env = env and key = ?k, OF m(1,2), of "monitor_req_read env"] run dep m
    by (simp add: handle_read_monitor_event jump_def monitor_in_def run_hook_def)
qed

theorem early_close_frees_uninitialised_witness:
  "\<exists>env w m. serving env w 0 4 m \<and> w_trace w = reads_trace 4 [1, 114, 1, 115] @ [Sent 4 [0]] \<and> lost env 4 w \<and>
    handle_read_monitor env (4, Some (MonitorPtr 0)) w = Inl Uninitialised"
proof -
  let ?env = "(sample_env [])\<lparr>e_recv := \<lambda>_. RecvErr 104\<rparr>"
  obtain w m where w: "serving (sample_env []) w 0 4 m" "w_trace w = reads_trace 4 [1, 114, 1, 115] @ [Sent 4 [0]]"
    using sample_serving by blast
  have "serving ?env w 0 4 m" using w(1) by (simp add: serving_def fresh_request_def fresh_parser_def)
  moreover have "lost ?env 4 w" by (simp add: lost_def EAGAIN_def)
  ultimately show ?thesis using w(2) early_close_frees_uninitialised by blast
qed

section \<open>Who gets to send requests\<close>

definition granted :: "users \<Rightarrow> monitor_auth_parser_t \<Rightarrow> bool" where
  "granted us mp \<longleftrightarrow> (\<exists>pw. (pw = map_passwd mp \<or> (\<exists>b r. store_char (map_passwd mp) (map_passwd_read mp) b = Inr (pw, r))) \<and>
     user_login us (Some (cstr (map_uname mp))) (cstr pw) = (USERS_OK, Some ADMIN))"

text \<open>What the callback of the login leaves: the machine untouched, and one of three states.\<close>

definition auth_result :: "world \<Rightarrow> nat \<Rightarrow> monitor_t \<Rightarrow> monitor_auth_parser_t \<Rightarrow> nat \<Rightarrow> world \<Rightarrow> bool" where
  "auth_result w a m mp ret w1 \<longleftrightarrow> w_sel w1 = w_sel w \<and>
     (\<exists>m1 mp1. w_monitors w1 a = Some m1 \<and> m_stm m1 = m_stm m \<and> m_parser m1 = M_auth mp1) \<and>
     (ret = MONITOR_AUTH \<or> ret = MONITOR_ERROR \<or> ret = MONITOR_REQ \<and> granted (w_users w) mp)"

lemma send_keeps [simp]:
  "w_sel (snd (sys_send env fd bs w)) = w_sel w" "w_monitors (snd (sys_send env fd bs w)) = w_monitors w"
  by (auto simp: sys_send_def split: send_answer.splits)

lemma login_event:
  assumes run: "monitor_login env key a mp w = Inr (ret, w1)" and m: "w_monitors w a = Some m"
  shows "w_sel w1 = w_sel w \<and> (\<exists>m1. w_monitors w1 a = Some m1 \<and> m_stm m1 = m_stm m \<and> m_parser m1 = m_parser m) \<and>
    (ret = Some MONITOR_ERROR \<or> ret = Some MONITOR_REQ \<and>
       user_login (w_users w) (Some (cstr (map_uname mp))) (cstr (map_passwd mp)) = (USERS_OK, Some ADMIN))"
proof -
  have s: "\<And>arr x. string_at arr = Inr x \<Longrightarrow> x = cstr arr" by (auto simp: string_at_def)
  show ?thesis using run m
    by (auto simp: monitor_login_def auth_failed_def set_monitor_error_def ADMIN_def Let_def deref_def dest!: s
        split: prod.splits if_splits option.splits)
qed

lemma password_event:
  assumes "monitor_auth_event env key a ev w = Inr (r, w1)" and "w_monitors w a = Some m" and "m_parser m = M_auth mp"
    and "ev_type ev = MONITOR_AUTH_EVENT_PASSWD"
  shows "\<exists>mp1. map_uname mp1 = map_uname mp \<and>
    (map_passwd mp1 = map_passwd mp \<or> (\<exists>d r. store_char (map_passwd mp) (map_passwd_read mp) d = Inr (map_passwd mp1, r))) \<and>
    (r = None \<and> w1 = put_monitor a (with_login m mp1) w \<or>
     monitor_login env key a mp1 (put_monitor a (with_login m mp1) w) = Inr (r, w1))"
proof -
  have eq: "monitor_auth_event env key a ev w =
      bindr (if map_passwd_read mp < map_plen mp then
               bindr (arr_get (ev_data ev) 0) (\<lambda>d.
               bindr (store_char (map_passwd mp) (map_passwd_read mp) d) (\<lambda>(arr, r).
                 Inr (mp\<lparr>map_passwd := arr, map_passwd_read := r\<rparr>)))
             else Inr mp) (\<lambda>mp1.
      if map_passwd_read mp1 = map_plen mp1 then monitor_login env key a mp1 (put_monitor a (with_login m mp1) w)
      else Inr (None, put_monitor a (with_login m mp1) w))"
    using assms(2-4) unfolding with_login_def
    by (simp add: monitor_auth_event_def monitor_auth_consts set_monitor_auth_def)
  obtain mp1 where pre: "(if map_passwd_read mp < map_plen mp then
               bindr (arr_get (ev_data ev) 0) (\<lambda>d.
               bindr (store_char (map_passwd mp) (map_passwd_read mp) d) (\<lambda>(arr, r).
                 Inr (mp\<lparr>map_passwd := arr, map_passwd_read := r\<rparr>)))
             else Inr mp) = Inr mp1"
    and post: "(if map_passwd_read mp1 = map_plen mp1 then monitor_login env key a mp1 (put_monitor a (with_login m mp1) w)
      else Inr (None, put_monitor a (with_login m mp1) w)) = Inr (r, w1)"
    by (rule bindr_InrE [OF trans [OF eq [symmetric] assms(1)]])
  from pre have "map_uname mp1 = map_uname mp \<and>
    (map_passwd mp1 = map_passwd mp \<or> (\<exists>d r. store_char (map_passwd mp) (map_passwd_read mp) d = Inr (map_passwd mp1, r)))"
    by (auto split: if_splits)
  with post show ?thesis by (intro exI [of _ mp1]) (auto split: if_splits)
qed

lemma auth_read_result:
  assumes l: "login_at w a fd m st mp p" and st: "st \<le> MONITOR_AUTH_STATE_PASSWD"
    and run: "monitor_auth_read env (fd, Some (MonitorPtr a)) w = Inr (ret, w1)"
  shows "auth_result w a m mp ret w1"
proof (cases "\<exists>b bs. e_recv env fd = Avail (b # bs)")
  case False
  have m: "w_monitors w a = Some m" "m_parser m = M_auth mp" using l by (auto simp: login_at_def monitor_linked_def)
  show ?thesis using run m False
    by (cases "e_recv env fd"; cases "case e_recv env fd of Avail bs \<Rightarrow> bs")
      (auto simp: monitor_auth_read_def sys_recv_def set_monitor_error_def auth_result_def split: if_splits)
next
  case True
  then obtain b bs where inp: "e_recv env fd = Avail (b # bs)" by blast
  have pok: "parser_ok monitor_auth_parser_def p" and pst: "p_state p = st" using l by (simp_all add: login_at_def)
  from st have "st = MONITOR_AUTH_STATE_ULEN \<or> st = MONITOR_AUTH_STATE_UNAME \<or> st = MONITOR_AUTH_STATE_PLEN \<or> st = MONITOR_AUTH_STATE_PASSWD"
    by (auto simp: monitor_auth_consts)
  then show ?thesis
  proof (elim disjE)
    assume k: "st = MONITOR_AUTH_STATE_ULEN"
    show ?thesis using run pok login_read [OF l inp, OF monitor_auth_feed(1)] pst k
      by (auto simp: monitor_auth_event_def set_monitor_auth_def monitor_auth_consts auth_result_def byte_in_def with_login_def)
  next
    assume k: "st = MONITOR_AUTH_STATE_UNAME"
    show ?thesis using run pok login_read [OF l inp, OF monitor_auth_feed(2)] pst k
      by (auto simp: monitor_auth_event_def set_monitor_auth_def monitor_auth_consts auth_result_def byte_in_def with_login_def)
  next
    assume k: "st = MONITOR_AUTH_STATE_PLEN"
    show ?thesis using run pok login_read [OF l inp, OF monitor_auth_feed(3)] pst k
      by (auto simp: monitor_auth_event_def set_monitor_auth_def monitor_auth_consts auth_result_def byte_in_def with_login_def)
  next
    assume k: "st = MONITOR_AUTH_STATE_PASSWD"
    let ?p = "stepped p b MONITOR_AUTH_EVENT_PASSWD MONITOR_AUTH_STATE_PASSWD"
    let ?mp = "mp\<lparr>map_p := Some ?p\<rparr>" and ?k = "(fd, Some (MonitorPtr a))"
    have ty: "ev_type (p_e1 ?p) = MONITOR_AUTH_EVENT_PASSWD" using pok by simp
    from run login_read [OF l inp monitor_auth_feed(4) [OF pok]] pst k obtain r where
      r: "monitor_auth_event env ?k a (p_e1 ?p) (byte_in a fd m ?mp b w) = Inr (r, w1)"
      "ret = (case r of Some st \<Rightarrow> st | None \<Rightarrow> MONITOR_AUTH)" by auto
    from password_event [OF r(1) _ _ ty] obtain mp1 where mp1: "map_uname mp1 = map_uname mp"
      "map_passwd mp1 = map_passwd mp \<or> (\<exists>d r. store_char (map_passwd mp) (map_passwd_read mp) d = Inr (map_passwd mp1, r))"
      and ends: "r = None \<and> w1 = put_monitor a (with_login m mp1) (byte_in a fd m ?mp b w) \<or>
        monitor_login env ?k a mp1 (put_monitor a (with_login m mp1) (byte_in a fd m ?mp b w)) = Inr (r, w1)"
      by (force simp: with_login_def)
    from ends show ?thesis
    proof
      assume "r = None \<and> w1 = put_monitor a (with_login m mp1) (byte_in a fd m ?mp b w)"
      then show ?thesis using r(2) by (auto simp: auth_result_def byte_in_def)
    next
      assume "monitor_login env ?k a mp1 (put_monitor a (with_login m mp1) (byte_in a fd m ?mp b w)) = Inr (r, w1)"
      from login_event [OF this, of "with_login m mp1"] r(2) mp1 show ?thesis
        by (auto simp: auth_result_def granted_def byte_in_def)
    qed
  qed
qed

lemma error_arrival_frees:
  assumes "monitor_linked w a fd m" and "monitor_in m MONITOR_ERROR"
    and "monitor_error_arrival env s (fd, Some (MonitorPtr a)) w = Inr w'"
  shows "w_monitors w' a = None"
proof -
  let ?w1 = "if m_error m \<noteq> 0 then snd (sys_send env fd [m_error m] w) else w"
  have m: "w_monitors w a = Some m" and l: "monitor_linked ?w1 a fd m"
    using assms(1) by (simp_all add: monitor_linked_def monitor_owned_def)
  from closed_monitor [OF l assms(2), of env] assms(3) m show ?thesis
    by (auto simp: monitor_error_arrival_def monitor_gone_def Let_def split: if_splits)
qed

text \<open>
  C13. Only administrators get to send requests. Whatever the network answers, an event on a
  connection that has not logged in yet takes it to the state of requests only if the directory
  holds the user named in its parser, with the password there (or the one its last byte
  completes), as an administrator.
\<close>

theorem only_administrators_request:
  assumes "login_at w a fd m st mp p" and "st \<le> MONITOR_AUTH_STATE_PASSWD"
    and "handle_read_monitor env (fd, Some (MonitorPtr a)) w = Inr w'"
    and "w_monitors w' a = Some m'" and "stm_current (m_stm m') = Some MONITOR_REQ"
  shows "granted (w_users w) mp"
proof (rule ccontr)
  let ?k = "(fd, Some (MonitorPtr a))"
  assume no: "\<not> granted (w_users w) mp"
  have m: "w_monitors w a = Some m" "monitor_in m MONITOR_AUTH" "selector_ok (w_sel w)" "monitor_owned w a fd"
    using assms(1) by (simp_all add: login_at_def monitor_linked_def)
  from monitor_event_run [where ready = on_read_ready and env = env and key = ?k, OF m(1,2), of "monitor_auth_read env"] assms(3)
  obtain ret w1 where run: "monitor_auth_read env ?k w = Inr (ret, w1)"
    and j: "jump (monitor_machine a) (set_monitor_machine a) (monitor_states env) ret ?k w1 = Inr w'"
    by (auto simp: handle_read_monitor_event)
  from auth_read_result [OF assms(1,2) run] no obtain m1 mp1 where
    m1: "w_monitors w1 a = Some m1" "m_stm m1 = m_stm m" "m_parser m1 = M_auth mp1" "w_sel w1 = w_sel w"
    and ret: "ret = MONITOR_AUTH \<or> ret = MONITOR_ERROR" by (auto simp: auth_result_def)
  have get: "monitor_machine a w1 = Inr (m_stm m)" using m1 by simp
  from ret show False
  proof
    assume "ret = MONITOR_AUTH"
    then have "w' = w1" using j mstm.jump_stay [OF get, of MONITOR_AUTH "monitor_states env" ?k] m(2) by (simp add: monitor_in_def)
    then show False using assms(4,5) m1 m(2) by (simp add: monitor_in_def)
  next
    assume e: "ret = MONITOR_ERROR"
    let ?w2 = "snd (sys_send env fd [if m_user_access_level m1 = ADMIN then 0 else 1] w1)"
    let ?m2 = "m1\<lparr>m_parser := M_auth (mp1\<lparr>map_p := None\<rparr>)\<rparr>"
    have dep: "monitor_auth_finalize env MONITOR_AUTH ?k w1 = Inr (put_monitor a ?m2 ?w2)"
      using m1 by (simp add: monitor_auth_finalize_def case_prod_unfold Let_def)
    let ?w3 = "put_monitor a (monitor_moved ?m2 MONITOR_ERROR) (put_monitor a ?m2 ?w2)"
    have "monitor_error_arrival env MONITOR_ERROR ?k ?w3 = Inr w'"
      using j mstm.jump_depart [OF get, of MONITOR_AUTH MONITOR_ERROR "monitor_states env" "monitor_auth_finalize env" ?k, OF _ _ _ _ _ _ _ dep]
        m(2) m1(2) e by (simp add: monitor_in_def monitor_moved_def)
    moreover have "monitor_linked ?w3 a fd (monitor_moved ?m2 MONITOR_ERROR)"
      using m m1 by (simp add: monitor_linked_def monitor_owned_def)
    moreover have "monitor_in (monitor_moved ?m2 MONITOR_ERROR) MONITOR_ERROR" using m(2) m1(2) by (simp add: monitor_in_def)
    ultimately have "w_monitors w' a = None" using error_arrival_frees by blast
    then show False using assms(4) by simp
  qed
qed

theorem only_administrators_request_witness:
  "\<exists>w w' m' mp. w_users w = [\<lparr>u_name = [114], u_pass = [115], u_level = ADMIN\<rparr>] \<and>
    handle_read_monitor (sample_env [115]) (4, Some (MonitorPtr 0)) w = Inr w' \<and> w_monitors w' 0 = Some m' \<and>
    stm_current (m_stm m') = Some MONITOR_REQ \<and> granted (w_users w) mp"
proof -
  let ?u = "[\<lparr>u_name = [114], u_pass = [115], u_level = ADMIN\<rparr>] :: users" and ?env = "sample_env [115]"
  let ?p = "parser_set_state (fresh_parser ?env monitor_auth_parser_def) MONITOR_AUTH_STATE_PASSWD"
  let ?mp = "\<lparr>map_ulen = 1, map_plen = 1, map_uname_read = 1, map_passwd_read = 0, map_uname = filled [114] (MAX_LENGTH + 1),
      map_passwd = filled [] MAX_LENGTH, map_p = Some ?p\<rparr>"
  let ?m = "with_login (monitor_moved new_monitor MONITOR_AUTH) ?mp"
  obtain s where l: "monitor_linked (admin_world s ?u) 0 4 new_monitor" using admin_world_linked by blast
  let ?w = "put_monitor 0 ?m (admin_world s ?u)"
  have "monitor_linked ?w 0 4 ?m" using l by (simp add: monitor_linked_def)
  moreover have "monitor_in ?m MONITOR_AUTH" by (simp add: monitor_in_def new_monitor_def)
  moreover have "parser_ok monitor_auth_parser_def ?p"
    using parser_ok_fresh [of monitor_auth_parser_def ?env] by (auto simp: monitor_auth_table_defs intro!: parser_ok_set_state)
  ultimately have at: "login_at ?w 0 4 ?m MONITOR_AUTH_STATE_PASSWD ?mp ?p" by (simp add: login_at_def)
  from login_last [OF at, where xs = "[]" and name = "[114]" and env = ?env and b = 115 and bs = "[]"] sample_willing
  obtain w' where w': "handle_read_monitor ?env (4, Some (MonitorPtr 0)) ?w = Inr w'"
    "answered ?env 0 4 ?m [114] [115] ?w [Recv 4 [115]] w'" by (auto simp: MAX_LENGTH_def cstr_def)
  then obtain m' where m': "w_monitors w' 0 = Some m'" "stm_current (m_stm m') = Some MONITOR_REQ"
    using sample_admin_login by (auto simp: answered_def may_log_in_def serving_def monitor_linked_def monitor_in_def)
  from only_administrators_request [OF at _ w'(1) m'] have "granted (w_users ?w) ?mp" by simp
  then show ?thesis using w'(1) m' by (intro exI [of _ ?w] exI [of _ w'] exI [of _ m'] exI [of _ ?mp]) simp
qed

end
