(* ===== verification/Logger.thy ===== *)
theory Logger
  imports World
begin

text \<open>
  The logger, \<^verbatim>\<open>src/src/lib/logger/logger.c\<close>: messages are kept in memory until the selector
  says that the copy of the standard output can be written; then every line gets the date, and the
  result goes to the standard output and to the memory of the log file.
\<close>

section \<open>State\<close>

text \<open>The handlers of the shared selector: the two of the logger, and those of the server.\<close>

datatype 'h log_handler = LOGGER_HANDLER | LOGGER_FILE_HANDLER | OTHER_HANDLER 'h

text \<open>
  The static variables; \<open>lg_buffer\<close> and \<open>lg_file\<close> are the memory \<^verbatim>\<open>buffer\<close> and \<^verbatim>\<open>file_buffer\<close>
  point at, of \<^verbatim>\<open>size\<close> and \<^verbatim>\<open>file_size\<close> bytes. \<open>lg_out\<close> and \<open>lg_disk\<close> are the bytes
  the system took for the standard output and for the file.
\<close>

record ('h, 'd) logger =
  lg_buffer :: "byte list option"
  lg_selector :: "('h log_handler, 'd) fdselector option"
  lg_path :: "byte list"
  lg_fd :: int
  lg_file_fd :: int
  lg_file :: "byte list option"
  lg_out :: "byte list"
  lg_disk :: "byte list"
  lg_closed :: "int list"

definition content :: "byte list option \<Rightarrow> byte list" where
  "content mem = (case mem of None \<Rightarrow> [] | Some bs \<Rightarrow> bs)"

lemma content_simps [simp]: "content None = []" "content (Some bs) = bs"
  by (simp_all add: content_def)

definition MAX_LOG_FILE_PATH_LENGTH :: nat where "MAX_LOG_FILE_PATH_LENGTH = 255"
definition MAX_DATE_TIME_STRING_LENGTH :: nat where "MAX_DATE_TIME_STRING_LENGTH = 20"

text \<open>The selector calls; a null selector and an invalid descriptor are refused without effect.\<close>

definition log_set_interest :: "int \<Rightarrow> fd_interest \<Rightarrow> ('h, 'd) logger \<Rightarrow> ('h, 'd) logger res" where
  "log_set_interest fd i l =
     (case lg_selector l of
        None \<Rightarrow> Inr l
      | Some s \<Rightarrow> bindr (selector_set_interest s fd i) (\<lambda>(_, s'). Inr (l\<lparr>lg_selector := Some s'\<rparr>)))"

definition log_set_interest_key :: "int \<Rightarrow> fd_interest \<Rightarrow> ('h, 'd) logger \<Rightarrow> ('h, 'd) logger res" where
  "log_set_interest_key fd i l =
     (case lg_selector l of
        None \<Rightarrow> Inr l
      | Some s \<Rightarrow> bindr (selector_set_interest_key s fd i) (\<lambda>(_, s'). Inr (l\<lparr>lg_selector := Some s'\<rparr>)))"

section \<open>Dating the lines\<close>

text \<open>Writing behind what was written, into memory of \<open>alloc\<close> bytes.\<close>

definition put_bytes :: "nat \<Rightarrow> byte list \<Rightarrow> byte list \<Rightarrow> byte list res" where
  "put_bytes alloc out bs = bindr (guardr OutOfBounds (length out + length bs \<le> alloc)) (\<lambda>_. Inr (out @ bs))"

text \<open>\<open>clock k\<close> is the string \<^verbatim>\<open>get_datetime\<close> stores for line \<open>k\<close>.\<close>

function prepend_loop :: "(nat \<Rightarrow> byte list) \<Rightarrow> nat \<Rightarrow> byte list \<Rightarrow> nat \<Rightarrow> byte list \<Rightarrow> byte list res" where
  "prepend_loop clock alloc out k [] = Inr out"
| "prepend_loop clock alloc out k (c # p) =
     (let line = takeWhile (\<lambda>x. x \<noteq> 10) (c # p); rest = dropWhile (\<lambda>x. x \<noteq> 10) (c # p) in
      bindr (put_bytes alloc out (clock k @ [32] @ line @ take 1 rest)) (\<lambda>out'.
        prepend_loop clock alloc out' (k + 1) (drop 1 rest)))"
  by pat_completeness auto

termination prepend_loop
proof (relation "measure (\<lambda>(clock, alloc, out, k, p). length p)", goal_cases)
  case (2 clock alloc out k c p line rest out')
  have "length (dropWhile (\<lambda>x. x \<noteq> 10) p) \<le> length p" by (rule length_dropWhile_le)
  then show ?case using 2(2) by (simp add: less_Suc_eq_le split: if_splits)
qed simp

definition prepend_datetime_to_lines :: "bool \<Rightarrow> (nat \<Rightarrow> byte list) \<Rightarrow> byte list \<Rightarrow> byte list option res" where
  "prepend_datetime_to_lines alloc_ok clock input =
     (let in_size = length input; max_extra = 20 * (in_size div 2 + 2); alloc_size = in_size + max_extra in
      if \<not> alloc_ok then Inr None
      else bindr (prepend_loop clock alloc_size [] 0 input) (\<lambda>out. Inr (Some out)))"

section \<open>The handlers\<close>

text \<open>What a non-blocking write takes of \<open>bs\<close>: the result, and the bytes.\<close>

definition sys_write :: "send_answer \<Rightarrow> byte list \<Rightarrow> int \<times> byte list" where
  "sys_write ans bs = (case ans of Takes k \<Rightarrow> (int (length (take k bs)), take k bs) | SendErr e \<Rightarrow> (-1, []))"

text \<open>
  \<open>malloc_ok\<close> and \<open>realloc_ok\<close> are the two allocations. After a partial write the last bytes of
  the undated memory are moved to its front, as many as were not written of the dated copy: with
  more of those than there are bytes, the source lies in front of the memory.
\<close>

definition logger_handle_write :: "bool \<Rightarrow> bool \<Rightarrow> (nat \<Rightarrow> byte list) \<Rightarrow> send_answer \<Rightarrow> int \<Rightarrow>
    ('h, 'd) logger \<Rightarrow> ('h, 'd) logger res" where
  "logger_handle_write malloc_ok realloc_ok clock ans fd l =
     (if content (lg_buffer l) = [] then log_set_interest_key fd OP_NOOP l
      else
        let buf = content (lg_buffer l) in
        bindr (prepend_datetime_to_lines malloc_ok clock buf) (\<lambda>res.
        case res of None \<Rightarrow> Inr l
        | Some dated \<Rightarrow>
            bindr (if lg_file_fd l \<noteq> -1 \<and> realloc_ok then
                     log_set_interest (lg_file_fd l) OP_WRITE (l\<lparr>lg_file := Some (content (lg_file l) @ dated)\<rparr>)
                   else Inr l) (\<lambda>l1.
            let (written, bs) = sys_write ans dated; l2 = l1\<lparr>lg_out := lg_out l1 @ bs\<rparr> in
            if written > 0 then
              if nat written = length dated then
                log_set_interest_key fd OP_NOOP (l2\<lparr>lg_buffer := None\<rparr>)
              else
                let remain = length dated - nat written in
                bindr (guardr OutOfBounds (remain \<le> length buf)) (\<lambda>_.
                  Inr (l2\<lparr>lg_buffer := Some (drop (length buf - remain) buf)\<rparr>))
            else Inr l2)))"

definition logger_handle_close :: "('h, 'd) logger \<Rightarrow> ('h, 'd) logger" where
  "logger_handle_close l = l\<lparr>lg_buffer := None\<rparr>"

definition logger_file_handle_write :: "send_answer \<Rightarrow> int \<Rightarrow> ('h, 'd) logger \<Rightarrow> ('h, 'd) logger res" where
  "logger_file_handle_write ans fd l =
     (if content (lg_file l) = [] then log_set_interest_key fd OP_NOOP l
      else
        let buf = content (lg_file l); (written, bs) = sys_write ans buf; l1 = l\<lparr>lg_disk := lg_disk l @ bs\<rparr> in
        if written > 0 then
          if nat written = length buf then log_set_interest_key fd OP_NOOP (l1\<lparr>lg_file := None\<rparr>)
          else Inr (l1\<lparr>lg_file := Some (drop (nat written) buf)\<rparr>)
        else Inr l1)"

definition logger_file_handle_close :: "('h, 'd) logger \<Rightarrow> ('h, 'd) logger" where
  "logger_file_handle_close l = l\<lparr>lg_file := None\<rparr>"

text \<open>The close callbacks; the other handlers of the selector are left alone.\<close>

definition logger_close_callback :: "'h log_handler \<Rightarrow>
    (int \<times> 'd option \<Rightarrow> ('h, 'd) logger \<Rightarrow> ('h, 'd) logger res) option" where
  "logger_close_callback h =
     (case h of LOGGER_HANDLER \<Rightarrow> Some (\<lambda>key l. Inr (logger_handle_close l))
      | LOGGER_FILE_HANDLER \<Rightarrow> Some (\<lambda>key l. Inr (logger_file_handle_close l))
      | OTHER_HANDLER _ \<Rightarrow> None)"

section \<open>Starting, logging, stopping\<close>

text \<open>
  \<open>dup_fd\<close> and \<open>open_fd\<close> are the results of duplicating the standard output and of opening the
  file; the path is copied into an array of 255 bytes.
\<close>

definition log_register :: "bool \<Rightarrow> (nat \<Rightarrow> ('h log_handler, 'd) item) \<Rightarrow> int \<Rightarrow> 'h log_handler \<Rightarrow>
    ('h, 'd) logger \<Rightarrow> ('h, 'd) logger res" where
  "log_register alloc_ok junk fd h l =
     (case lg_selector l of
        None \<Rightarrow> Inr l
      | Some s \<Rightarrow> bindr (selector_register alloc_ok junk s fd (Some h) OP_NOOP None) (\<lambda>(_, s'). Inr (l\<lparr>lg_selector := Some s'\<rparr>)))"

definition logger_initialize :: "bool \<Rightarrow> (nat \<Rightarrow> ('h log_handler, 'd) item) \<Rightarrow> int \<Rightarrow> int \<Rightarrow>
    ('h log_handler, 'd) fdselector \<Rightarrow> byte list \<Rightarrow> ('h, 'd) logger \<Rightarrow> ('h, 'd) logger res" where
  "logger_initialize alloc_ok junk dup_fd open_fd s file_path l =
     bindr (guardr OutOfBounds (length file_path < MAX_LOG_FILE_PATH_LENGTH)) (\<lambda>_.
     let l1 = l\<lparr>lg_fd := dup_fd, lg_selector := Some s, lg_path := file_path, lg_file_fd := open_fd\<rparr> in
     bindr (log_register alloc_ok junk dup_fd LOGGER_HANDLER l1) (\<lambda>l2.
       if open_fd \<noteq> -1 then log_register alloc_ok junk open_fd LOGGER_FILE_HANDLER l2 else Inr l2))"

text \<open>\<open>message\<close> is the formatted text, None when formatting fails.\<close>

definition log_to_stdout :: "bool \<Rightarrow> byte list option \<Rightarrow> ('h, 'd) logger \<Rightarrow> ('h, 'd) logger res" where
  "log_to_stdout realloc_ok message l =
     (case message of None \<Rightarrow> Inr l
      | Some msg \<Rightarrow>
          if \<not> realloc_ok then Inr (l\<lparr>lg_buffer := None\<rparr>)
          else log_set_interest (lg_fd l) OP_WRITE (l\<lparr>lg_buffer := Some (content (lg_buffer l) @ msg)\<rparr>))"

definition log_unregister :: "int \<Rightarrow> ('h, 'd) logger \<Rightarrow> ('h, 'd) logger res" where
  "log_unregister fd l =
     (case lg_selector l of
        None \<Rightarrow> Inr l
      | Some s \<Rightarrow>
          bindr (selector_unregister_fd (\<lambda>l. case lg_selector l of None \<Rightarrow> s | Some s' \<Rightarrow> s') (\<lambda>s' l. l\<lparr>lg_selector := Some s'\<rparr>)
                   logger_close_callback fd l) (\<lambda>(_, l'). Inr l'))"

definition logger_destroy :: "('h, 'd) logger \<Rightarrow> ('h, 'd) logger res" where
  "logger_destroy l =
     bindr (if lg_fd l \<noteq> -1 then log_unregister (lg_fd l) (l\<lparr>lg_closed := lg_closed l @ [lg_fd l]\<rparr>) else Inr l) (\<lambda>l1.
     let l2 = l1\<lparr>lg_fd := -1\<rparr> in
     bindr (if lg_file_fd l2 \<noteq> -1 then log_unregister (lg_file_fd l2) (l2\<lparr>lg_closed := lg_closed l2 @ [lg_file_fd l2]\<rparr>)
            else Inr l2) (\<lambda>l3. Inr (l3\<lparr>lg_file_fd := -1\<rparr>)))"

text \<open>
  Waiting for the text to be written, over rounds of the selector: \<open>turns k\<close> is what the system
  answers in round \<open>k\<close>, and \<open>others\<close> the callbacks of the other handlers. The loop need not
  end; the server never calls it.
\<close>

record log_turn =
  lt_malloc :: bool
  lt_realloc :: bool
  lt_clock :: "nat \<Rightarrow> byte list"
  lt_out :: send_answer
  lt_disk :: send_answer
  lt_ready :: pselect_result

definition log_write_callback :: "('h \<Rightarrow> (int \<times> 'd option \<Rightarrow> ('h, 'd) logger \<Rightarrow> ('h, 'd) logger res) option) \<Rightarrow> log_turn \<Rightarrow>
    ('h log_handler, 'd, ('h, 'd) logger) callbacks" where
  "log_write_callback others t h =
     (case h of
        LOGGER_HANDLER \<Rightarrow> Some (\<lambda>key. logger_handle_write (lt_malloc t) (lt_realloc t) (lt_clock t) (lt_out t) (fst key))
      | LOGGER_FILE_HANDLER \<Rightarrow> Some (\<lambda>key. logger_file_handle_write (lt_disk t) (fst key))
      | OTHER_HANDLER x \<Rightarrow> others x)"

definition log_read_callback :: "('h \<Rightarrow> (int \<times> 'd option \<Rightarrow> ('h, 'd) logger \<Rightarrow> ('h, 'd) logger res) option) \<Rightarrow>
    ('h log_handler, 'd, ('h, 'd) logger) callbacks" where
  "log_read_callback others h = (case h of OTHER_HANDLER x \<Rightarrow> others x | _ \<Rightarrow> None)"

definition flush_turn :: "('h \<Rightarrow> (int \<times> 'd option \<Rightarrow> ('h, 'd) logger \<Rightarrow> ('h, 'd) logger res) option) \<Rightarrow>
    ('h \<Rightarrow> (int \<times> 'd option \<Rightarrow> ('h, 'd) logger \<Rightarrow> ('h, 'd) logger res) option) \<Rightarrow> log_turn \<Rightarrow>
    ('h log_handler, 'd) fdselector \<Rightarrow> ('h, 'd) logger \<Rightarrow> ('h, 'd) logger res" where
  "flush_turn rd wr t s l =
     bindr (selector_select (\<lambda>l. case lg_selector l of None \<Rightarrow> s | Some s' \<Rightarrow> s') (\<lambda>s' l. l\<lparr>lg_selector := Some s'\<rparr>)
              (log_read_callback rd) (log_write_callback wr t) (\<lambda>_. None) (lt_ready t) l) (\<lambda>(_, l'). Inr l')"

partial_function (option) logger_flush :: "('h \<Rightarrow> (int \<times> 'd option \<Rightarrow> ('h, 'd) logger \<Rightarrow> ('h, 'd) logger res) option) \<Rightarrow>
    ('h \<Rightarrow> (int \<times> 'd option \<Rightarrow> ('h, 'd) logger \<Rightarrow> ('h, 'd) logger res) option) \<Rightarrow> (nat \<Rightarrow> log_turn) \<Rightarrow> nat \<Rightarrow>
    ('h, 'd) logger \<Rightarrow> ('h, 'd) logger res option" where
  "logger_flush rd wr turns k l =
     (case lg_selector l of
        None \<Rightarrow> Some (Inr l)
      | Some s \<Rightarrow>
          if content (lg_buffer l) = [] then Some (Inr l)
          else (case flush_turn rd wr (turns k) s l of
                  Inl e \<Rightarrow> Some (Inl e)
                | Inr l' \<Rightarrow> logger_flush rd wr turns (k + 1) l'))"

lemma flush_nothing: "content (lg_buffer l) = [] \<Longrightarrow> logger_flush rd wr turns k l = Some (Inr l)"
  by (subst logger_flush.simps) (simp split: option.splits)

text \<open>While the system interrupts every wait, a pending text keeps the loop running for ever.\<close>

lemma flush_interrupted:
  assumes "lt_ready t = PselectError EINTR" and "lg_selector l = Some s" and "s_jobs s = []"
  shows "flush_turn rd wr t s l = Inr l"
  using assms by (simp add: flush_turn_def selector_select_def handle_block_notifications_def)

lemma flush_waits_for_ever:
  assumes "\<And>k. lt_ready (turns k) = PselectError EINTR" and "lg_selector l = Some s" and "s_jobs s = []"
    and "content (lg_buffer l) \<noteq> []"
  shows "logger_flush rd wr turns k l = None"
proof (cases "logger_flush rd wr turns k l")
  case (Some r)
  have "l' = l \<longrightarrow> turns' = turns \<longrightarrow> False" if "logger_flush rd wr turns' k' l' = Some r" for turns' k' l'
  proof (rule logger_flush.raw_induct [where P = "\<lambda>rd wr turns' k' l' r. l' = l \<longrightarrow> turns' = turns \<longrightarrow> False", OF _ that])
    fix f rd wr turns' k' l' r
    assume IH: "\<And>rd wr turns' k' l' r. f rd wr turns' k' l' = Some r \<Longrightarrow> l' = l \<longrightarrow> turns' = turns \<longrightarrow> False"
      and run: "(case lg_selector l' of None \<Rightarrow> Some (Inr l') | Some s \<Rightarrow>
          if content (lg_buffer l') = [] then Some (Inr l')
          else (case flush_turn rd wr (turns' k') s l' of Inl e \<Rightarrow> Some (Inl e) | Inr l' \<Rightarrow> f rd wr turns' (k' + 1) l')) = Some r"
    show "l' = l \<longrightarrow> turns' = turns \<longrightarrow> False"
      using run flush_interrupted [OF assms(1-3)] assms(2,4) by (auto dest: IH)
  qed
  with Some show ?thesis by blast
qed

section \<open>The date of every line\<close>

text \<open>The text with the date in front of every line, character by character.\<close>

fun stamped :: "(nat \<Rightarrow> byte list) \<Rightarrow> nat \<Rightarrow> bool \<Rightarrow> byte list \<Rightarrow> byte list" where
  "stamped clock k start [] = []"
| "stamped clock k start (c # cs) =
     (if start then clock k @ [32] else []) @ c # stamped clock (if start then k + 1 else k) (c = 10) cs"

fun line_starts :: "bool \<Rightarrow> byte list \<Rightarrow> nat" where
  "line_starts start [] = 0"
| "line_starts start (c # cs) = (if start then 1 else 0) + line_starts (c = 10) cs"

lemma stamped_line:
  "stamped clock k False p =
     takeWhile (\<lambda>x. x \<noteq> 10) p @ take 1 (dropWhile (\<lambda>x. x \<noteq> 10) p) @ stamped clock k True (drop 1 (dropWhile (\<lambda>x. x \<noteq> 10) p))"
  by (induction p) simp_all

lemma line_starts_line: "line_starts False p = line_starts True (drop 1 (dropWhile (\<lambda>x. x \<noteq> 10) p))"
  by (induction p) simp_all

lemma length_stamped:
  "\<forall>k. length (clock k) = 19 \<Longrightarrow> length (stamped clock k start p) = length p + 20 * line_starts start p"
  by (induction clock k start p rule: stamped.induct) simp_all

lemma take_drop_first: "takeWhile P xs @ take 1 (dropWhile P xs) @ drop 1 (dropWhile P xs) = xs"
  by simp

lemma prepend_loop_stamped:
  assumes "\<forall>k. length (clock k) = 19" and "length out \<le> alloc"
  shows "prepend_loop clock alloc out k p =
    (if length out + length p + 20 * line_starts True p \<le> alloc then Inr (out @ stamped clock k True p) else Inl OutOfBounds)"
  using assms
proof (induction clock alloc out k p rule: prepend_loop.induct)
  case (2 clock alloc out k c p)
  let ?rest = "dropWhile (\<lambda>x. x \<noteq> 10) (c # p)"
  define t where "t = takeWhile (\<lambda>x. x \<noteq> 10) (c # p) @ take 1 ?rest"
  define r where "r = drop 1 ?rest"
  define n where "n = line_starts True r"
  have split: "t @ r = c # p" unfolding t_def r_def by (simp only: append_assoc take_drop_first)
  have len: "length (c # p) = length t + length r" using arg_cong [OF split, of length] by simp
  have st: "stamped clock k True (c # p) = clock k @ [32] @ t @ stamped clock (k + 1) True r"
    and ls: "line_starts True (c # p) = 1 + n"
    using stamped_line [of clock "k + 1" p] line_starts_line [of p] unfolding t_def r_def n_def by (cases "c = 10"; simp)+
  have body: "prepend_loop clock alloc out k (c # p) =
      bindr (put_bytes alloc out (clock k @ [32] @ t)) (\<lambda>out'. prepend_loop clock alloc out' (k + 1) r)"
    unfolding t_def r_def by (simp add: Let_def)
  have IH: "length out' \<le> alloc \<Longrightarrow> prepend_loop clock alloc out' (k + 1) r =
      (if length out' + length r + 20 * n \<le> alloc then Inr (out' @ stamped clock (k + 1) True r) else Inl OutOfBounds)" for out'
    unfolding r_def n_def by (rule 2(1) [OF refl refl 2(2)])
  let ?out = "out @ clock k @ [32] @ t"
  have size: "length (clock k @ [32] @ t) = 20 + length t" using 2(2) by simp
  show ?case
  proof (cases "length out + (20 + length t) \<le> alloc")
    case False
    then have "put_bytes alloc out (clock k @ [32] @ t) = Inl OutOfBounds" unfolding put_bytes_def size by simp
    moreover have "\<not> length out + length (c # p) + 20 * (1 + n) \<le> alloc" using False len by simp
    ultimately show ?thesis unfolding body ls by simp
  next
    case True
    then have put: "put_bytes alloc out (clock k @ [32] @ t) = Inr ?out" unfolding put_bytes_def size by simp
    have lo: "length ?out = length out + (20 + length t)" unfolding length_append [of out] size ..
    have sum: "length ?out + length r + 20 * n = length out + length (c # p) + 20 * (1 + n)" unfolding lo using len by simp
    have fits: "length ?out \<le> alloc" unfolding lo using True .
    show ?thesis unfolding body put bindr_simps IH [OF fits] sum ls st append_assoc ..
  qed
qed simp

text \<open>
  C38. The dated copy is as long as its memory only for texts with enough characters per line. The
  result is the text with the date in front of every line, exactly when the lines are at most half
  the characters plus two; with more of them the heap block is overrun.
\<close>

theorem dated_text_fits:
  assumes "\<forall>k. length (clock k) = 19"
  shows "prepend_datetime_to_lines True clock input =
    (if line_starts True input \<le> length input div 2 + 2 then Inr (Some (stamped clock 0 True input)) else Inl OutOfBounds)"
proof -
  have "length input + 20 * line_starts True input \<le> length input + 20 * (length input div 2 + 2) \<longleftrightarrow>
      line_starts True input \<le> length input div 2 + 2" by arith
  then show ?thesis
    using prepend_loop_stamped [OF assms, of "[]" "length input + 20 * (length input div 2 + 2)" 0 input]
    by (simp add: prepend_datetime_to_lines_def Let_def)
qed

theorem dated_text_fits_witness:
  "prepend_datetime_to_lines True (\<lambda>k. replicate 19 48) [97, 10] = Inr (Some (replicate 19 48 @ [32, 97, 10])) \<and>
   prepend_datetime_to_lines True (\<lambda>k. replicate 19 48) [10, 10, 10, 10, 10] = Inl OutOfBounds"
proof -
  have "\<forall>k. length ((\<lambda>k::nat. replicate 19 (48 :: byte)) k) = 19" by simp
  note fits = dated_text_fits [OF this]
  show ?thesis unfolding fits by simp
qed

section \<open>What reaches the standard output and the file\<close>

definition logger_ok :: "('h, 'd) logger \<Rightarrow> bool" where
  "logger_ok l \<longleftrightarrow> (\<forall>s. lg_selector l = Some s \<longrightarrow> selector_ok s)"

lemma log_set_interest_ok:
  assumes "logger_ok l"
  shows "\<exists>s. log_set_interest fd i l = Inr (l\<lparr>lg_selector := s\<rparr>) \<and> logger_ok (l\<lparr>lg_selector := s\<rparr>)"
proof (cases "lg_selector l")
  case None
  then have "l\<lparr>lg_selector := None\<rparr> = l" by (cases l) simp
  then show ?thesis using None assms by (intro exI [of _ None]) (simp add: log_set_interest_def logger_ok_def)
next
  case (Some s)
  then have ok: "selector_ok s" using assms by (simp add: logger_ok_def)
  show ?thesis
  proof (cases "sel_lookup s fd")
    case None
    then have "log_set_interest fd i l = Inr (l\<lparr>lg_selector := Some s\<rparr>)"
      using Some selector_set_interest_unused [OF ok] by (simp add: log_set_interest_def)
    then show ?thesis using ok by (auto simp: logger_ok_def)
  next
    case (Some x)
    obtain i0 h d where "x = (i0, h, d)" by (cases x)
    with Some \<open>lg_selector l = Some s\<close> selector_set_interest_ok [OF ok, of fd i0 h d i] show ?thesis
      by (auto simp: log_set_interest_def logger_ok_def)
  qed
qed

lemma log_set_interest_key_eq: "log_set_interest_key fd i l = log_set_interest fd i l"
  by (simp add: log_set_interest_key_def log_set_interest_def selector_set_interest_key_eq split: option.splits)

datatype log_step =
    Log "byte list"
  | Stdout_Ready "nat \<Rightarrow> byte list" send_answer
  | File_Ready send_answer

fun log_step_run :: "log_step \<Rightarrow> ('h, 'd) logger \<Rightarrow> ('h, 'd) logger res" where
  "log_step_run (Log msg) l = log_to_stdout True (Some msg) l"
| "log_step_run (Stdout_Ready clock ans) l = logger_handle_write True True clock ans (lg_fd l) l"
| "log_step_run (File_Ready ans) l = logger_file_handle_write ans (lg_file_fd l) l"

fun log_run :: "log_step list \<Rightarrow> ('h, 'd) logger \<Rightarrow> ('h, 'd) logger res" where
  "log_run [] l = Inr l"
| "log_run (st # sts) l = bindr (log_step_run st l) (log_run sts)"

text \<open>
  What is still to be dated, and the dated text, after a list of steps; and the steps in which the
  standard output takes all it is given and the dated text fits.
\<close>

fun log_text :: "log_step list \<Rightarrow> byte list \<times> byte list \<Rightarrow> byte list \<times> byte list" where
  "log_text [] (pending, dated) = (pending, dated)"
| "log_text (Log msg # sts) (pending, dated) = log_text sts (pending @ msg, dated)"
| "log_text (Stdout_Ready clock ans # sts) (pending, dated) = log_text sts ([], dated @ stamped clock 0 True pending)"
| "log_text (File_Ready ans # sts) (pending, dated) = log_text sts (pending, dated)"

fun log_smooth :: "log_step list \<Rightarrow> byte list \<Rightarrow> bool" where
  "log_smooth [] pending \<longleftrightarrow> True"
| "log_smooth (Log msg # sts) pending \<longleftrightarrow> log_smooth sts (pending @ msg)"
| "log_smooth (Stdout_Ready clock ans # sts) pending \<longleftrightarrow> (\<forall>k. length (clock k) = 19) \<and>
     line_starts True pending \<le> length pending div 2 + 2 \<and>
     (case ans of Takes k \<Rightarrow> length (stamped clock 0 True pending) \<le> k | SendErr _ \<Rightarrow> False) \<and> log_smooth sts []"
| "log_smooth (File_Ready ans # sts) pending \<longleftrightarrow> log_smooth sts pending"

definition log_inv :: "byte list \<times> byte list \<Rightarrow> ('h, 'd) logger \<Rightarrow> bool" where
  "log_inv t l \<longleftrightarrow> logger_ok l \<and> lg_file_fd l \<noteq> -1 \<and> content (lg_buffer l) = fst t \<and> lg_out l = snd t \<and>
     lg_disk l @ content (lg_file l) = snd t"

lemma log_inv_interest:
  assumes "log_inv t l"
  shows "\<exists>l'. log_set_interest fd i l = Inr l' \<and> log_inv t l'"
proof -
  from assms have "logger_ok l" by (simp add: log_inv_def)
  from log_set_interest_ok [OF this, of fd i] assms show ?thesis by (auto simp: log_inv_def)
qed

lemma stamped_Nil_iff [simp]: "stamped clock k start p = [] \<longleftrightarrow> p = []"
  by (cases p) simp_all

lemma log_step_inv:
  assumes "log_inv (pending, dated) l" and "log_smooth (st # sts) pending"
  shows "\<exists>l'. log_step_run st l = Inr l' \<and> log_inv (log_text [st] (pending, dated)) l' \<and>
    log_smooth sts (fst (log_text [st] (pending, dated)))"
proof (cases st)
  case (Log msg)
  have "log_inv (pending @ msg, dated) (l\<lparr>lg_buffer := Some (content (lg_buffer l) @ msg)\<rparr>)"
    using assms(1) by (simp add: log_inv_def logger_ok_def)
  from log_inv_interest [OF this, of "lg_fd l" OP_WRITE] assms(2) Log show ?thesis by (auto simp: log_to_stdout_def)
next
  case (File_Ready ans)
  let ?buf = "content (lg_file l)"
  show ?thesis
  proof (cases "?buf = []")
    case True
    with log_inv_interest [OF assms(1), of "lg_file_fd l" OP_NOOP] assms(2) File_Ready show ?thesis
      by (auto simp: logger_file_handle_write_def log_set_interest_key_eq)
  next
    case False
    show ?thesis
    proof (cases ans)
      case (Takes k)
      let ?l1 = "l\<lparr>lg_disk := lg_disk l @ take k ?buf\<rparr>"
      have inv: "log_inv (pending, dated) (?l1\<lparr>lg_file := Some (drop k ?buf)\<rparr>)"
        using assms(1) by (simp add: log_inv_def logger_ok_def)
      have all: "length ?buf \<le> k \<Longrightarrow> log_inv (pending, dated) (?l1\<lparr>lg_file := None\<rparr>)"
        using assms(1) by (simp add: log_inv_def logger_ok_def)
      show ?thesis
        using assms(2) File_Ready Takes False inv log_inv_interest [OF all, of "lg_file_fd l" OP_NOOP] assms(1)
        by (cases "k = 0"; cases "length ?buf \<le> k")
          (auto simp: logger_file_handle_write_def log_set_interest_key_eq sys_write_def Let_def)
    next
      case (SendErr e)
      then show ?thesis using assms File_Ready False by (auto simp: logger_file_handle_write_def sys_write_def)
    qed
  qed
next
  case (Stdout_Ready clock ans)
  then obtain k where clock: "\<forall>k. length (clock k) = 19" and fits: "line_starts True pending \<le> length pending div 2 + 2"
    and ans: "ans = Takes k" "length (stamped clock 0 True pending) \<le> k" and rest: "log_smooth sts []"
    using assms(2) by (auto split: send_answer.splits)
  show ?thesis
  proof (cases "pending = []")
    case True
    with log_inv_interest [OF assms(1), of "lg_fd l" OP_NOOP] assms(1) rest Stdout_Ready show ?thesis
      by (auto simp: logger_handle_write_def log_set_interest_key_eq log_inv_def)
  next
    case False
    let ?dated = "stamped clock 0 True pending"
    have buf: "content (lg_buffer l) = pending" and fd: "lg_file_fd l \<noteq> -1" using assms(1) by (simp_all add: log_inv_def)
    have "logger_ok (l\<lparr>lg_file := Some (content (lg_file l) @ ?dated)\<rparr>)" using assms(1) by (simp add: log_inv_def logger_ok_def)
    from log_set_interest_ok [OF this, of "lg_file_fd l" OP_WRITE] obtain s where
      s: "log_set_interest (lg_file_fd l) OP_WRITE (l\<lparr>lg_file := Some (content (lg_file l) @ ?dated)\<rparr>) =
        Inr (l\<lparr>lg_file := Some (content (lg_file l) @ ?dated), lg_selector := s\<rparr>)"
      "logger_ok (l\<lparr>lg_file := Some (content (lg_file l) @ ?dated), lg_selector := s\<rparr>)" by auto
    let ?l2 = "l\<lparr>lg_file := Some (content (lg_file l) @ ?dated), lg_selector := s, lg_out := lg_out l @ ?dated, lg_buffer := None\<rparr>"
    have "log_inv ([], dated @ ?dated) ?l2" using assms(1) s(2) by (auto simp: log_inv_def logger_ok_def)
    from log_inv_interest [OF this, of "lg_fd l" OP_NOOP] rest Stdout_Ready False buf fd ans s(1)
      prepend_loop_stamped [OF clock, of "[]" "length pending + 20 * (length pending div 2 + 2)" 0 pending] fits
    show ?thesis
      by (auto simp: logger_handle_write_def log_set_interest_key_eq prepend_datetime_to_lines_def sys_write_def Let_def)
  qed
qed

lemma log_text_Cons: "log_text (st # sts) t = log_text sts (log_text [st] t)"
  by (cases st; cases t) simp_all


definition sample_logger :: "(unit, unit) logger" where
  "sample_logger = \<lparr>lg_buffer = None, lg_selector = None, lg_path = [], lg_fd = 6, lg_file_fd = 7, lg_file = None,
     lg_out = [], lg_disk = [], lg_closed = []\<rparr>"


text \<open>
  A partial write spoils the log. When the standard output takes some but not all of the dated
  text, the handler keeps the end of the undated text, as long as the part of the dated text that
  was not written; when that part is longer than the undated text, it reads in front of its memory.
\<close>

theorem partial_log_write:
  assumes "content (lg_buffer l) = text" and "text \<noteq> []" and "prepend_datetime_to_lines True clock text = Inr (Some dated)"
    and "0 < k" and "k < length dated" and "lg_file_fd l = -1"
  shows "logger_handle_write True r clock (Takes k) fd l =
    (if length dated - k \<le> length text
     then Inr (l\<lparr>lg_out := lg_out l @ take k dated, lg_buffer := Some (drop (length text - (length dated - k)) text)\<rparr>)
     else Inl OutOfBounds)"
proof -
  have "dated \<noteq> []" using assms(5) by auto
  then show ?thesis using assms by (simp add: logger_handle_write_def sys_write_def Let_def)
qed

theorem partial_log_write_witness:
  "logger_handle_write True True (\<lambda>_. replicate 19 48) (Takes 4) 6
     (sample_logger\<lparr>lg_buffer := Some [97, 10], lg_file_fd := -1\<rparr>) = Inl OutOfBounds"
proof -
  have d: "prepend_datetime_to_lines True (\<lambda>k. replicate 19 48) [97, 10] = Inr (Some (replicate 19 48 @ [32, 97, 10]))"
    by (simp add: prepend_datetime_to_lines_def put_bytes_def Let_def)
  show ?thesis
    using partial_log_write [OF _ _ d, of "sample_logger\<lparr>lg_buffer := Some [97, 10], lg_file_fd := -1\<rparr>" 4 True 6]
    by (simp add: sample_logger_def)
qed

end
