(* ===== verification/Options.thy ===== *)
theory Options
  imports Request
begin

text \<open>
  Command lines: what the two programs use of \<^verbatim>\<open>getopt_long\<close>, \<^verbatim>\<open>strtol\<close> and
  \<^verbatim>\<open>strchr\<close>, and the parser of the proxy's options, \<^verbatim>\<open>src/src/lib/args/args.c\<close>.
\<close>

section \<open>Outcomes\<close>

text \<open>A function that may end the program: its exit status, or a result.\<close>

type_synonym 'a outcome = "int + 'a"

definition bindo :: "'a outcome \<Rightarrow> ('a \<Rightarrow> 'b outcome) \<Rightarrow> 'b outcome" where
  "bindo m f = (case m of Inl e \<Rightarrow> Inl e | Inr x \<Rightarrow> f x)"

lemma bindo_simps [simp]: "bindo (Inl e) f = Inl e" "bindo (Inr x) f = f x"
  by (simp_all add: bindo_def)

lemma bindo_Inr_iff [simp]: "bindo m f = Inr y \<longleftrightarrow> (\<exists>x. m = Inr x \<and> f x = Inr y)"
  by (simp add: bindo_def split: sum.splits)

section \<open>The library functions\<close>

text \<open>
  \<^verbatim>\<open>strtol\<close> with base 10: white space, a sign, digits. The result is the number and the rest
  of the string; without digits it is 0 and the whole string. Out of range it is the nearest
  \<^verbatim>\<open>long\<close>.
\<close>

definition LONG_MAX :: int where "LONG_MAX = 2 ^ 63 - 1"
definition LONG_MIN :: int where "LONG_MIN = - (2 ^ 63)"

definition is_space :: "byte \<Rightarrow> bool" where
  "is_space c \<longleftrightarrow> c = 32 \<or> 9 \<le> c \<and> c \<le> 13"

definition is_digit :: "byte \<Rightarrow> bool" where
  "is_digit c \<longleftrightarrow> 48 \<le> c \<and> c \<le> 57"

definition digits_value :: "byte list \<Rightarrow> int" where
  "digits_value ds = foldl (\<lambda>v d. 10 * v + (uint d - 48)) 0 ds"

definition strtol :: "byte list \<Rightarrow> int \<times> byte list" where
  "strtol s =
     (let t = dropWhile is_space s;
          neg = (t \<noteq> [] \<and> hd t = 45);
          u = (if t \<noteq> [] \<and> (hd t = 45 \<or> hd t = 43) then tl t else t);
          ds = takeWhile is_digit u
      in if ds = [] then (0, s)
         else (max LONG_MIN (min LONG_MAX (if neg then - digits_value ds else digits_value ds)), dropWhile is_digit u))"

text \<open>The string cut at the first colon: what is before and what is behind it.\<close>

definition split_colon :: "byte list \<Rightarrow> (byte list \<times> byte list) option" where
  "split_colon s =
     (let p = dropWhile (\<lambda>c. c \<noteq> 58) s in if p = [] then None else Some (takeWhile (\<lambda>c. c \<noteq> 58) s, tl p))"

text \<open>
  \<^verbatim>\<open>getopt_long\<close> with an empty table of long options: the rest of the group of letters being
  read, the arguments to come and the operands passed over (which it moves behind the options).
\<close>

record getopt_state =
  g_cluster :: "byte list"
  g_argv :: "byte list list"
  g_operands :: "byte list list"

datatype getopt_result = Opt_End | Opt_Unknown | Opt byte "byte list"

text \<open>The next letter, given the letters the program knows and whether they take an argument.\<close>

definition take_letter :: "(byte \<Rightarrow> bool option) \<Rightarrow> byte \<Rightarrow> byte list \<Rightarrow> byte list list \<Rightarrow> byte list list \<Rightarrow>
    getopt_result \<times> getopt_state" where
  "take_letter spec c cluster argv ops =
     (case spec c of
        None \<Rightarrow> (Opt_Unknown, \<lparr>g_cluster = cluster, g_argv = argv, g_operands = ops\<rparr>)
      | Some False \<Rightarrow> (Opt c [], \<lparr>g_cluster = cluster, g_argv = argv, g_operands = ops\<rparr>)
      | Some True \<Rightarrow>
          if cluster \<noteq> [] then (Opt c cluster, \<lparr>g_cluster = [], g_argv = argv, g_operands = ops\<rparr>)
          else (case argv of
              [] \<Rightarrow> (Opt_Unknown, \<lparr>g_cluster = [], g_argv = [], g_operands = ops\<rparr>)
            | a # rest \<Rightarrow> (Opt c a, \<lparr>g_cluster = [], g_argv = rest, g_operands = ops\<rparr>)))"

fun getopt_args :: "(byte \<Rightarrow> bool option) \<Rightarrow> byte list list \<Rightarrow> byte list list \<Rightarrow> getopt_result \<times> getopt_state" where
  "getopt_args spec [] ops = (Opt_End, \<lparr>g_cluster = [], g_argv = [], g_operands = ops\<rparr>)"
| "getopt_args spec (a # argv) ops =
     (if a = [45, 45] then (Opt_End, \<lparr>g_cluster = [], g_argv = [], g_operands = ops @ argv\<rparr>)
      else if take 2 a = [45, 45] then (Opt_Unknown, \<lparr>g_cluster = [], g_argv = argv, g_operands = ops\<rparr>)
      else if take 1 a = [45] \<and> a \<noteq> [45] then take_letter spec (hd (tl a)) (tl (tl a)) argv ops
      else getopt_args spec argv (ops @ [a]))"

definition getopt_long :: "(byte \<Rightarrow> bool option) \<Rightarrow> getopt_state \<Rightarrow> getopt_result \<times> getopt_state" where
  "getopt_long spec g =
     (case g_cluster g of
        [] \<Rightarrow> getopt_args spec (g_argv g) (g_operands g)
      | c # cs \<Rightarrow> take_letter spec c cs (g_argv g) (g_operands g))"

text \<open>Every call that gives an option uses up input, so the loops of the programs end.\<close>

definition getopt_size :: "getopt_state \<Rightarrow> nat" where
  "getopt_size g = length (g_cluster g) + sum_list (map (\<lambda>a. length a + 1) (g_argv g))"

lemma take_letter_size:
  "take_letter spec c cs argv ops = (r, g) \<Longrightarrow> getopt_size g \<le> length cs + sum_list (map (\<lambda>a. length a + 1) argv)"
  by (auto simp: take_letter_def getopt_size_def split: option.splits bool.splits if_splits list.splits)

lemma getopt_args_size:
  "getopt_args spec argv ops = (r, g) \<Longrightarrow> r \<noteq> Opt_End \<Longrightarrow> getopt_size g < sum_list (map (\<lambda>a. length a + 1) argv)"
proof (induction spec argv ops rule: getopt_args.induct)
  case (2 spec a argv ops)
  then show ?case
    by (cases a; cases "tl a") (fastforce simp: getopt_size_def dest: take_letter_size split: if_splits)+
qed simp

lemma getopt_long_size: "getopt_long spec g = (r, g') \<Longrightarrow> r \<noteq> Opt_End \<Longrightarrow> getopt_size g' < getopt_size g"
  using getopt_args_size [of spec "g_argv g" "g_operands g" r g'] take_letter_size [of spec _ _ "g_argv g" "g_operands g" r g']
  by (fastforce simp: getopt_long_def getopt_size_def split: list.splits)

section \<open>The options of the proxy\<close>

definition MAX_USERS :: nat where "MAX_USERS = 10"
definition USHRT_MAX :: int where "USHRT_MAX = 65535"

record socks5args =
  socks_addr :: "byte list"
  socks_port :: "16 word"
  mng_addr :: "byte list"
  mng_port :: "16 word"
  disectors_enabled :: bool
  args_users :: "(byte list \<times> byte list) list"

definition port :: "byte list \<Rightarrow> 16 word outcome" where
  "port s =
     (let (sl, rest) = strtol s in
      if rest = s \<or> rest \<noteq> [] \<or> sl < 0 \<or> sl > USHRT_MAX then Inl 1 else Inr (of_int sl))"

definition user_option :: "byte list \<Rightarrow> (byte list \<times> byte list) outcome" where
  "user_option s = (case split_colon s of None \<Rightarrow> Inl 1 | Some (name, pass) \<Rightarrow> Inr (name, pass))"

text \<open>The letters h, l:, L:, N, p:, P:, u: and v.\<close>

definition proxy_letters :: "byte \<Rightarrow> bool option" where
  "proxy_letters c =
     (if c \<in> {104, 78, 118} then Some False else if c \<in> {108, 76, 112, 80, 117} then Some True else None)"

definition proxy_option :: "byte \<Rightarrow> byte list \<Rightarrow> socks5args \<Rightarrow> socks5args outcome" where
  "proxy_option c optarg args =
     (if c = 104 then Inl 1
      else if c = 108 then Inr (args\<lparr>socks_addr := optarg\<rparr>)
      else if c = 76 then Inr (args\<lparr>mng_addr := optarg\<rparr>)
      else if c = 78 then Inr (args\<lparr>disectors_enabled := False\<rparr>)
      else if c = 112 then bindo (port optarg) (\<lambda>p. Inr (args\<lparr>socks_port := p\<rparr>))
      else if c = 80 then bindo (port optarg) (\<lambda>p. Inr (args\<lparr>mng_port := p\<rparr>))
      else if c = 117 then
        if length (args_users args) \<ge> MAX_USERS then Inl 1
        else bindo (user_option optarg) (\<lambda>u. Inr (args\<lparr>args_users := args_users args @ [u]\<rparr>))
      else if c = 118 then Inl 0
      else Inl 1)"

function proxy_loop :: "getopt_state \<Rightarrow> socks5args \<Rightarrow> (socks5args \<times> byte list list) outcome" where
  "proxy_loop g args =
     (let (r, g') = getopt_long proxy_letters g in
      case r of
        Opt_End \<Rightarrow> Inr (args, g_operands g' @ g_argv g')
      | Opt_Unknown \<Rightarrow> Inl 1
      | Opt c optarg \<Rightarrow>
          (case proxy_option c optarg args of Inl e \<Rightarrow> Inl e | Inr args' \<Rightarrow> proxy_loop g' args'))"
  by pat_completeness auto

termination proxy_loop
  by (relation "measure (\<lambda>(g, args). getopt_size g)") (auto intro: getopt_long_size [OF sym])

declare proxy_loop.simps [simp del]

text \<open>The addresses ''0.0.0.0'' and ''127.0.0.1'' in ASCII.\<close>

definition default_args :: socks5args where
  "default_args = \<lparr>socks_addr = [48, 46, 48, 46, 48, 46, 48], socks_port = 1080,
     mng_addr = [49, 50, 55, 46, 48, 46, 48, 46, 49], mng_port = 8080, disectors_enabled = True, args_users = []\<rparr>"

definition parse_args :: "byte list list \<Rightarrow> socks5args outcome" where
  "parse_args argv =
     bindo (proxy_loop \<lparr>g_cluster = [], g_argv = argv, g_operands = []\<rparr> default_args) (\<lambda>(args, operands).
       if operands \<noteq> [] then Inl 1 else Inr args)"

section \<open>Writing a command line and reading it again\<close>

lemma small_digit:
  assumes "n < 10"
  shows "uint (of_nat (48 + n) :: byte) = 48 + int n" and "is_digit (of_nat (48 + n))"
proof -
  have u: "unat (of_nat (48 + n) :: byte) = 48 + n" using byte_of_nat_unat [of "48 + n"] assms by (simp del: of_nat_add)
  then show "uint (of_nat (48 + n) :: byte) = 48 + int n" by (simp add: uint_nat)
  show "is_digit (of_nat (48 + n))" unfolding is_digit_def word_le_nat_alt u using assms by simp
qed

lemma decimal_digits:
  "decimal n \<noteq> [] \<and> (\<forall>c \<in> set (decimal n). is_digit c) \<and> digits_value (decimal n) = int n"
proof (induction n rule: decimal.induct)
  case (1 n)
  show ?case
  proof (cases "n < 10")
    case True
    then show ?thesis using small_digit [of n] unfolding decimal.simps [of n] by (simp add: digits_value_def)
  next
    case False
    have "int n = 10 * int (n div 10) + int (n mod 10)" by presburger
    with 1 False small_digit [of "n mod 10"] show ?thesis unfolding decimal.simps [of n] by (simp add: digits_value_def)
  qed
qed

lemma digit_no_space: "is_digit c \<Longrightarrow> \<not> is_space c \<and> c \<noteq> 45 \<and> c \<noteq> 43 \<and> c \<noteq> 58"
  by (auto simp: is_digit_def is_space_def word_le_nat_alt byte_eq_iff_unat)

lemma strtol_decimal: "n \<le> 65535 \<Longrightarrow> strtol (decimal n) = (int n, [])"
proof -
  assume n: "n \<le> 65535"
  obtain c cs where d: "decimal n = c # cs" using decimal_digits [of n] by (cases "decimal n") auto
  have c: "is_digit c" "\<forall>x \<in> set cs. is_digit x" using decimal_digits [of n] d by auto
  then have all: "takeWhile is_digit cs = cs" "dropWhile is_digit cs = []"
    by (simp_all add: takeWhile_eq_all_conv dropWhile_eq_Nil_conv)
  show ?thesis
    using n decimal_digits [of n] digit_no_space [OF c(1)] c(1) unfolding d strtol_def
    by (simp add: Let_def LONG_MAX_def LONG_MIN_def all)
qed

lemma port_decimal: "port (decimal (unat p)) = Inr p"
proof -
  have u: "unat p \<le> 65535" using unsigned_less [where ?'a = nat, of p] by simp
  then have "\<not> 65535 < uint p" using unsigned_less [where ?'a = int, of p] by simp
  moreover have "[] \<noteq> decimal (unat p)" using decimal_digits [of "unat p"] by metis
  ultimately show ?thesis using strtol_decimal [OF u] by (simp add: port_def USHRT_MAX_def)
qed

lemma split_colon_join: "58 \<notin> set name \<Longrightarrow> split_colon (name @ 58 # pass) = Some (name, pass)"
proof -
  assume "58 \<notin> set name"
  then have c: "c \<noteq> 58" if "c \<in> set name" for c using that by auto
  then have "takeWhile (\<lambda>c. c \<noteq> 58) (name @ 58 # pass) = name" by (simp add: takeWhile_append2)
  moreover have "dropWhile (\<lambda>c. c \<noteq> 58) (name @ 58 # pass) = 58 # pass" using c by (simp add: dropWhile_append2)
  ultimately show ?thesis by (simp add: split_colon_def)
qed

text \<open>A command line for given settings.\<close>

definition user_words :: "(byte list \<times> byte list) list \<Rightarrow> byte list list" where
  "user_words us = concat (map (\<lambda>(name, pass). [[45, 117], name @ 58 # pass]) us)"

definition command_line :: "socks5args \<Rightarrow> byte list list" where
  "command_line args = [[45, 108], socks_addr args, [45, 76], mng_addr args, [45, 112], decimal (unat (socks_port args)),
     [45, 80], decimal (unat (mng_port args))] @ (if disectors_enabled args then [] else [[45, 78]]) @ user_words (args_users args)"

lemma proxy_step:
  assumes "proxy_letters c = Some True"
  shows "proxy_loop \<lparr>g_cluster = [], g_argv = [45, c] # a # rest, g_operands = ops\<rparr> args =
    (case proxy_option c a args of Inl e \<Rightarrow> Inl e
     | Inr args' \<Rightarrow> proxy_loop \<lparr>g_cluster = [], g_argv = rest, g_operands = ops\<rparr> args')"
  using assms
  by (subst proxy_loop.simps) (auto simp: getopt_long_def take_letter_def proxy_letters_def split: if_splits)

lemma proxy_flag:
  assumes "proxy_letters c = Some False"
  shows "proxy_loop \<lparr>g_cluster = [], g_argv = [45, c] # rest, g_operands = ops\<rparr> args =
    (case proxy_option c [] args of Inl e \<Rightarrow> Inl e
     | Inr args' \<Rightarrow> proxy_loop \<lparr>g_cluster = [], g_argv = rest, g_operands = ops\<rparr> args')"
  using assms
  by (subst proxy_loop.simps) (auto simp: getopt_long_def take_letter_def proxy_letters_def split: if_splits)

lemma user_words_loop:
  assumes "length (args_users args) + length us \<le> MAX_USERS" and "\<forall>(name, pass) \<in> set us. 58 \<notin> set name"
  shows "proxy_loop \<lparr>g_cluster = [], g_argv = user_words us, g_operands = []\<rparr> args =
    Inr (args\<lparr>args_users := args_users args @ us\<rparr>, [])"
  using assms
proof (induction us arbitrary: args)
  case Nil
  then show ?case by (subst proxy_loop.simps) (simp add: user_words_def getopt_long_def)
next
  case (Cons u us)
  obtain name pass where u: "u = (name, pass)" by (cases u)
  have "user_words (u # us) = [45, 117] # (name @ 58 # pass) # user_words us" by (simp add: user_words_def u)
  then show ?case
    using Cons.prems Cons.IH [of "args\<lparr>args_users := args_users args @ [u]\<rparr>"] u
      proxy_step [of 117 "name @ 58 # pass" "user_words us" "[]" args]
    by (simp add: proxy_letters_def proxy_option_def user_option_def split_colon_join)
qed



end
