(* ===== verification/Client_Program.thy ===== *)
theory Client_Program
  imports Options Admin_Sessions
begin

text \<open>
  The administration client: its command line, \<^verbatim>\<open>src/src/lib/args_monitor/args_monitor.c\<close>, and
  its main program, \<^verbatim>\<open>src/src/client/main.c\<close>. Ending the program with \<^verbatim>\<open>exit\<close> is the
  fault \<open>Exited\<close>.
\<close>

section \<open>The command line\<close>

definition MAX_METHODS :: nat where "MAX_METHODS = 255"
definition ADMIN_ACCESS_LEVEL :: byte where "ADMIN_ACCESS_LEVEL = 0"
definition USER_ACCESS_LEVEL :: byte where "USER_ACCESS_LEVEL = 1"

datatype management_action_t =
    ACTION_NONE | ACTION_ADD_USER | ACTION_DELETE_USER | ACTION_CHANGE_PASSWORD | ACTION_STATS
  | ACTION_CHANGE_AUTH_METHODS

text \<open>A user of the command line; None is the null pointer.\<close>

record user_arg =
  ua_name :: "byte list option"
  ua_pass :: "byte list option"
  ua_level :: byte

record management_args_t =
  auth_methods :: "byte list"
  auth_methods_count :: byte
  managing_user :: user_arg
  ma_action :: management_action_t
  user_to_modify :: user_arg
  direction :: "byte list"
  ma_port :: "16 word"

definition no_user :: user_arg where
  "no_user = \<lparr>ua_name = None, ua_pass = None, ua_level = 0\<rparr>"

definition no_management_args :: management_args_t where
  "no_management_args = \<lparr>auth_methods = replicate MAX_METHODS 0, auth_methods_count = 0, managing_user = no_user,
     ma_action = ACTION_NONE, user_to_modify = no_user, direction = [], ma_port = 0\<rparr>"

definition ensure_single_action :: "management_action_t \<Rightarrow> management_args_t \<Rightarrow> management_args_t res" where
  "ensure_single_action act args =
     (if ma_action args \<noteq> ACTION_NONE \<and> ma_action args \<noteq> act then Inl Exited
      else Inr (args\<lparr>ma_action := act\<rparr>))"

definition parse_port :: "byte list \<Rightarrow> 16 word res" where
  "parse_port s =
     (let (sl, rest) = strtol s in
      if rest = s \<or> rest \<noteq> [] \<or> sl \<le> 0 \<or> sl > 65535 then Inl Exited else Inr (of_int sl))"

definition parse_direction_port :: "byte list \<Rightarrow> management_args_t \<Rightarrow> management_args_t res" where
  "parse_direction_port arg args =
     (case split_colon arg of
        None \<Rightarrow> Inl Exited
      | Some (host, port_text) \<Rightarrow>
          if host = [] \<or> port_text = [] then Inl Exited
          else bindr (parse_port port_text) (\<lambda>p. Inr (args\<lparr>direction := host, ma_port := p\<rparr>)))"

definition parse_userpass :: "byte list \<Rightarrow> user_arg res" where
  "parse_userpass arg =
     (case split_colon arg of
        None \<Rightarrow> Inl Exited
      | Some (name, pass) \<Rightarrow>
          if name = [] \<or> pass = [] then Inl Exited
          else Inr \<lparr>ua_name = Some name, ua_pass = Some pass, ua_level = 0\<rparr>)"

definition login_option :: "byte list \<Rightarrow> management_args_t \<Rightarrow> management_args_t res" where
  "login_option user args = bindr (parse_userpass user) (\<lambda>u. Inr (args\<lparr>managing_user := u\<rparr>))"

definition add_user_to_modify :: "byte list \<Rightarrow> management_args_t \<Rightarrow> management_args_t res" where
  "add_user_to_modify user args = bindr (parse_userpass user) (\<lambda>u. Inr (args\<lparr>user_to_modify := u\<rparr>))"

text \<open>
  \<^verbatim>\<open>atoi\<close> cut to 8 bits; the methods are stored one after the other, with a counter of 8 bits,
  and then the end mark, for which there is no check.
\<close>

definition method_of :: "byte list \<Rightarrow> byte" where
  "method_of s = of_int (fst (strtol s))"

definition store_method :: "byte list \<Rightarrow> management_args_t \<Rightarrow> management_args_t res" where
  "store_method s args =
     bindr (arr_set (auth_methods args) (unat (auth_methods_count args)) (method_of s)) (\<lambda>ms.
       Inr (args\<lparr>auth_methods := ms, auth_methods_count := auth_methods_count args + 1\<rparr>))"

fun more_methods :: "byte list list \<Rightarrow> management_args_t \<Rightarrow> (management_args_t \<times> byte list list) res" where
  "more_methods [] args = Inr (args, [])"
| "more_methods (a # argv) args =
     (if take 1 a = [45] then Inr (args, a # argv)
      else if unat (auth_methods_count args) \<ge> MAX_METHODS then Inl Exited
      else bindr (store_method a args) (more_methods argv))"

definition methods_option :: "byte list \<Rightarrow> byte list list \<Rightarrow> management_args_t \<Rightarrow> (management_args_t \<times> byte list list) res" where
  "methods_option optarg argv args =
     bindr (ensure_single_action ACTION_CHANGE_AUTH_METHODS args) (\<lambda>args1.
     bindr (store_method optarg (args1\<lparr>auth_methods_count := 0\<rparr>)) (\<lambda>args2.
     bindr (more_methods argv args2) (\<lambda>(args3, rest).
     bindr (arr_set (auth_methods args3) (unat (auth_methods_count args3)) (-1)) (\<lambda>ms.
       Inr (args3\<lparr>auth_methods := ms\<rparr>, rest)))))"

text \<open>The letters l:, a:, A:, d:, c:, m:, s and h.\<close>

definition client_letters :: "byte \<Rightarrow> bool option" where
  "client_letters c =
     (if c \<in> {115, 104} then Some False else if c \<in> {108, 97, 65, 100, 99, 109} then Some True else None)"

definition set_modify_level :: "byte \<Rightarrow> management_args_t \<Rightarrow> management_args_t" where
  "set_modify_level lv args = args\<lparr>user_to_modify := (user_to_modify args)\<lparr>ua_level := lv\<rparr>\<rparr>"

definition client_option :: "byte \<Rightarrow> byte list \<Rightarrow> byte list list \<Rightarrow> management_args_t \<Rightarrow>
    (management_args_t \<times> byte list list) res" where
  "client_option c optarg argv args =
     (if c = 108 then
        if ua_name (managing_user args) \<noteq> None \<or> ua_pass (managing_user args) \<noteq> None then Inl Exited
        else bindr (login_option optarg args) (\<lambda>x. Inr (x, argv))
      else if c = 97 then
        bindr (ensure_single_action ACTION_ADD_USER args) (\<lambda>a1.
        bindr (add_user_to_modify optarg a1) (\<lambda>a2. Inr (set_modify_level USER_ACCESS_LEVEL a2, argv)))
      else if c = 65 then
        bindr (ensure_single_action ACTION_ADD_USER args) (\<lambda>a1.
        bindr (add_user_to_modify optarg a1) (\<lambda>a2. Inr (set_modify_level ADMIN_ACCESS_LEVEL a2, argv)))
      else if c = 100 then
        bindr (ensure_single_action ACTION_DELETE_USER args) (\<lambda>a1.
          if optarg = [] then Inl Exited
          else Inr (a1\<lparr>user_to_modify := (user_to_modify a1)\<lparr>ua_name := Some optarg\<rparr>\<rparr>, argv))
      else if c = 99 then
        bindr (ensure_single_action ACTION_CHANGE_PASSWORD args) (\<lambda>a1.
        bindr (add_user_to_modify optarg a1) (\<lambda>a2. Inr (a2, argv)))
      else if c = 115 then bindr (ensure_single_action ACTION_STATS args) (\<lambda>a1. Inr (a1, argv))
      else if c = 109 then methods_option optarg argv args
      else Inl Exited)"

lemma more_methods_suffix: "more_methods argv args = Inr (args', rest) \<Longrightarrow> \<exists>pre. argv = pre @ rest"
  by (induction argv args rule: more_methods.induct) (fastforce split: if_splits)+

lemma client_option_suffix:
  assumes "client_option c optarg argv args = Inr (args', rest)"
  shows "sum_list (map (\<lambda>a. length a + 1) rest) \<le> sum_list (map (\<lambda>a. length a + 1) argv)"
proof -
  have "rest = argv \<or> (\<exists>x y. more_methods argv x = Inr (y, rest))"
    using assms by (auto simp: client_option_def methods_option_def split: if_splits)
  then show ?thesis using more_methods_suffix by fastforce
qed

function client_loop :: "getopt_state \<Rightarrow> management_args_t \<Rightarrow> (management_args_t \<times> byte list list) res" where
  "client_loop g args =
     (let (r, g') = getopt_long client_letters g in
      case r of
        Opt_End \<Rightarrow> Inr (args, g_operands g' @ g_argv g')
      | Opt_Unknown \<Rightarrow> Inl Exited
      | Opt c optarg \<Rightarrow>
          (case client_option c optarg (g_argv g') args of
             Inl e \<Rightarrow> Inl e
           | Inr (args', rest) \<Rightarrow> client_loop (g'\<lparr>g_argv := rest\<rparr>) args'))"
  by pat_completeness auto

termination client_loop
proof (relation "measure (\<lambda>(g, args). getopt_size g)", goal_cases)
  case (2 g args x r g' c optarg y args' rest)
  then have "getopt_size g' < getopt_size g" by (auto intro: getopt_long_size [OF sym])
  moreover have "getopt_size (g'\<lparr>g_argv := rest\<rparr>) \<le> getopt_size g'"
    using client_option_suffix [of c optarg "g_argv g'" args args' rest] 2 by (simp add: getopt_size_def)
  ultimately show ?case by simp
qed simp

declare client_loop.simps [simp del]

text \<open>\<open>argv\<close> is without the name of the program.\<close>

definition parse_monitor_args :: "byte list list \<Rightarrow> management_args_t res" where
  "parse_monitor_args argv =
     (case argv of
        [] \<Rightarrow> Inl Exited
      | a # rest \<Rightarrow>
          if take 1 a = [45] then Inl Exited
          else
            bindr (parse_direction_port a no_management_args) (\<lambda>args.
            bindr (client_loop \<lparr>g_cluster = [], g_argv = rest, g_operands = []\<rparr> args) (\<lambda>(args, operands).
              if operands \<noteq> [] then Inl Exited
              else if ua_name (managing_user args) = None \<or> ua_pass (managing_user args) = None then Inl Exited
              else if ma_action args = ACTION_NONE then Inl Exited
              else Inr args)))"

section \<open>The program\<close>

text \<open>
  What the operating system answers: whether an address is a valid one, the socket, whether it
  connects, what a send takes, the bytes the buffers on the stack hold, and the segments that
  arrive.
\<close>

record client_env =
  ce_pton :: "byte list \<Rightarrow> bool"
  ce_socket :: int
  ce_connects :: bool
  ce_send :: "nat \<Rightarrow> send_answer"
  ce_stack :: "nat \<Rightarrow> byte list"
  ce_replies :: "recv_answer list"

text \<open>``localhost'' in ASCII.\<close>

definition localhost :: "byte list" where
  "localhost = [108, 111, 99, 97, 108, 104, 111, 115, 116]"

definition create_monitor_socket :: "client_env \<Rightarrow> byte list \<Rightarrow> int" where
  "create_monitor_socket env dir =
     (let host = (if dir = localhost then [49, 50, 55, 46, 48, 46, 48, 46, 49] else dir) in
      if \<not> ce_pton env host then -1
      else if ce_socket env < 0 then -1
      else if \<not> ce_connects env then -1
      else ce_socket env)"

text \<open>A user for the encoders: None when one of the strings they read is null.\<close>

definition full_user :: "user_arg \<Rightarrow> user option" where
  "full_user u =
     (case (ua_name u, ua_pass u) of
        (Some name, Some pass) \<Rightarrow> Some \<lparr>u_name = name, u_pass = pass, u_level = uint (ua_level u)\<rparr>
      | _ \<Rightarrow> None)"

definition named_user :: "user_arg \<Rightarrow> user option" where
  "named_user u =
     (case ua_name u of None \<Rightarrow> None | Some name \<Rightarrow> Some \<lparr>u_name = name, u_pass = [], u_level = uint (ua_level u)\<rparr>)"

definition client_sends :: "client_env \<Rightarrow> nat \<Rightarrow> byte list \<Rightarrow> int \<times> byte list" where
  "client_sends env i bs = (case ce_send env i of Takes k \<Rightarrow> (int (length (take k bs)), take k bs) | SendErr e \<Rightarrow> (-1, []))"

definition action_message :: "client_env \<Rightarrow> management_args_t \<Rightarrow> (nat \<times> byte list) res" where
  "action_message env args =
     (let buf = ce_stack env 1 in
      case ma_action args of
        ACTION_ADD_USER \<Rightarrow> write_monitor_user_add_request (Some buf) (length buf) (full_user (user_to_modify args))
      | ACTION_DELETE_USER \<Rightarrow> write_monitor_user_delete_request (Some buf) (length buf) (named_user (user_to_modify args))
      | ACTION_CHANGE_PASSWORD \<Rightarrow> write_monitor_change_pass_request (Some buf) (length buf) (full_user (user_to_modify args))
      | ACTION_STATS \<Rightarrow> write_monitor_get_stats_request (Some buf) (length buf)
      | ACTION_CHANGE_AUTH_METHODS \<Rightarrow> write_monitor_change_auth_methods_request (Some buf) (length buf) (auth_methods args)
      | ACTION_NONE \<Rightarrow> Inr (0, buf))"

text \<open>The result: the exit status, what was sent, and the statistics when they were printed.\<close>

record client_result =
  cr_status :: int
  cr_sent :: "byte list list"
  cr_stats :: "stats option"

definition client_main :: "client_env \<Rightarrow> management_args_t \<Rightarrow> client_result res" where
  "client_main env args =
     (let sock = create_monitor_socket env (direction args) in
      if sock < 0 then Inr \<lparr>cr_status = 1, cr_sent = [], cr_stats = None\<rparr>
      else
        let auth_buf = ce_stack env 0 in
        bindr (write_monitor_auth_request (Some auth_buf) (length auth_buf) (full_user (managing_user args))) (\<lambda>(auth_len, auth_buf').
        if auth_len = 0 then Inr \<lparr>cr_status = 1, cr_sent = [], cr_stats = None\<rparr>
        else
          let (n, sent) = client_sends env 0 (take auth_len auth_buf') in
          if n < 0 then Inr \<lparr>cr_status = 1, cr_sent = [], cr_stats = None\<rparr>
          else
            let (auth_ok, replies) = read_monitor_auth_reply (ce_replies env) in
            if \<not> auth_ok then Inr \<lparr>cr_status = 1, cr_sent = [sent], cr_stats = None\<rparr>
            else
              bindr (action_message env args) (\<lambda>(req_len, req_buf).
              if req_len = 0 then Inr \<lparr>cr_status = 1, cr_sent = [sent], cr_stats = None\<rparr>
              else
                let (n, req_sent) = client_sends env 1 (take req_len req_buf) in
                if n < 0 then Inr \<lparr>cr_status = 1, cr_sent = [sent], cr_stats = None\<rparr>
                else if ma_action args = ACTION_STATS then
                  (case read_monitor_stats_reply replies of
                     None \<Rightarrow> Inr \<lparr>cr_status = 1, cr_sent = [sent, req_sent], cr_stats = None\<rparr>
                   | Some s \<Rightarrow> Inr \<lparr>cr_status = 0, cr_sent = [sent, req_sent], cr_stats = Some s\<rparr>)
                else Inr \<lparr>cr_status = 0, cr_sent = [sent, req_sent], cr_stats = None\<rparr>)))"

section \<open>The client against the server\<close>

text \<open>The settings that ask for a request.\<close>

fun asks_for :: "management_args_t \<Rightarrow> admin_request \<Rightarrow> bool" where
  "asks_for args (Add_User name pass level) \<longleftrightarrow> ma_action args = ACTION_ADD_USER \<and>
     user_to_modify args = \<lparr>ua_name = Some name, ua_pass = Some pass, ua_level = level\<rparr>"
| "asks_for args (Remove_User name) \<longleftrightarrow> ma_action args = ACTION_DELETE_USER \<and> ua_name (user_to_modify args) = Some name"
| "asks_for args (Change_Password name pass) \<longleftrightarrow> ma_action args = ACTION_CHANGE_PASSWORD \<and>
     ua_name (user_to_modify args) = Some name \<and> ua_pass (user_to_modify args) = Some pass"
| "asks_for args Get_Statistics \<longleftrightarrow> ma_action args = ACTION_STATS"
| "asks_for args (Set_Methods ms) \<longleftrightarrow> ma_action args = ACTION_CHANGE_AUTH_METHODS \<and> -1 \<notin> set ms \<and>
     (\<exists>rest. auth_methods args = ms @ [-1] @ rest)"

lemma methods_loop_end:
  "-1 \<notin> set ms \<Longrightarrow> methods_loop buf i (ms @ -1 # rest) = methods_loop buf i (ms @ [-1])"
proof (induction ms arbitrary: buf i)
  case (Cons m ms)
  then have "sint m \<noteq> -1" by (auto simp: word_eq_iff_signed)
  then show ?case using Cons by (simp add: bindr_def split: sum.splits)
qed simp

lemma action_message_request:
  assumes "asks_for args r" and "request_ok r" and "length (encode_request r) < 512" and "length (ce_stack env 1) = 512"
  shows "\<exists>b. action_message env args = Inr (length (encode_request r), b) \<and> take (length (encode_request r)) b = encode_request r"
proof -
  have "action_message env args = client_request r (ce_stack env 1)"
  proof (cases r)
    case (Add_User name pass level)
    have "(of_int (uint level) :: byte) = of_int (sint level)" by simp
    then show ?thesis using assms(1) Add_User
      by (simp add: action_message_def full_user_def write_monitor_user_add_request_def Let_def del: put_all.simps)
  next
    case (Remove_User name)
    then show ?thesis using assms(1)
      by (simp add: action_message_def named_user_def write_monitor_user_delete_request_def Let_def del: put_all.simps)
  next
    case (Change_Password name pass)
    then show ?thesis using assms(1)
      by (simp add: action_message_def full_user_def write_monitor_change_pass_request_def Let_def del: put_all.simps)
  next
    case Get_Statistics
    then show ?thesis using assms(1) by (simp add: action_message_def Let_def)
  next
    case (Set_Methods ms)
    then show ?thesis using assms(1) methods_loop_end [of ms]
      by (auto simp: action_message_def write_monitor_change_auth_methods_request_def Let_def)
  qed
  moreover have "\<forall>ms. r = Set_Methods ms \<longrightarrow> -1 \<notin> set ms" using assms(1) by (cases r) auto
  ultimately show ?thesis using client_writes_requests [OF assms(2), of "ce_stack env 1"] assms(3,4) by simp
qed

lemma login_message:
  assumes "text_ok name" and "text_ok pass" and "length b = 512"
  shows "\<exists>b'. write_monitor_auth_request (Some b) (length b) (Some \<lparr>u_name = name, u_pass = pass, u_level = lv\<rparr>) =
    Inr (length (encode_login name pass), b') \<and> take (length (encode_login name pass)) b' = encode_login name pass"
proof -
  have len: "name \<noteq> []" "length name \<le> 255" "pass \<noteq> []" "length pass \<le> 255"
    using assms(1,2) by (simp_all add: text_ok_def argument_ok_def)
  then show ?thesis
    using put_all_written [of "[[of_nat (length name)], name, [of_nat (length pass)], pass]" b] assms(3)
    by (simp add: write_monitor_auth_request_def bad_length_def UINT8_MAX_def encode_login_def Let_def del: put_all.simps)
qed

definition ready_client :: "client_env \<Rightarrow> management_args_t \<Rightarrow> bool" where
  "ready_client env args \<longleftrightarrow> 0 \<le> create_monitor_socket env (direction args) \<and>
     (\<forall>i. \<exists>k \<ge> 512. ce_send env i = Takes k) \<and> (\<forall>i. length (ce_stack env i) = 512)"

lemma ready_sends: "ready_client env args \<Longrightarrow> length bs \<le> 512 \<Longrightarrow> client_sends env i bs = (int (length bs), bs)"
proof -
  assume "ready_client env args" and len: "length bs \<le> 512"
  then obtain k where "ce_send env i = Takes k" "512 \<le> k" unfolding ready_client_def by blast
  then show ?thesis using len by (simp add: client_sends_def)
qed

lemma client_main_run:
  assumes env: "ready_client env args" and who: "managing_user args = \<lparr>ua_name = Some name, ua_pass = Some pass, ua_level = lv\<rparr>"
    and str: "text_ok name" "text_ok pass" and r: "asks_for args r" "request_ok r" "length (encode_request r) < 512"
    and replies: "ce_replies env = map Avail css" "[] \<notin> set css" "concat css = 0 # reply"
      "r = Get_Statistics \<longrightarrow> reply = stats_message MONITOR_REQ_STATUS_OK s"
  shows "client_main env args = Inr \<lparr>cr_status = 0, cr_sent = [encode_login name pass, encode_request r],
     cr_stats = if r = Get_Statistics then Some s else None\<rparr>"
proof -
  have stack: "length (ce_stack env i) = 512" for i using env by (simp add: ready_client_def)
  have full: "full_user (managing_user args) = Some \<lparr>u_name = name, u_pass = pass, u_level = uint lv\<rparr>"
    by (simp add: full_user_def who)
  from login_message [OF str stack, of 0 "uint lv"] obtain b0 where
    auth: "write_monitor_auth_request (Some (ce_stack env 0)) (length (ce_stack env 0)) (full_user (managing_user args)) =
        Inr (length (encode_login name pass), b0)" "take (length (encode_login name pass)) b0 = encode_login name pass"
    unfolding full by blast
  from action_message_request [OF r stack] obtain b1 where
    msg: "action_message env args = Inr (length (encode_request r), b1)" "take (length (encode_request r)) b1 = encode_request r"
    by blast
  have sizes: "length (encode_login name pass) \<le> 512" "length (encode_login name pass) \<noteq> 0" "length (encode_request r) \<noteq> 0"
    using str by (simp_all add: text_ok_def argument_ok_def encode_login_def encode_request_def)
  have sends: "client_sends env 0 (encode_login name pass) = (int (length (encode_login name pass)), encode_login name pass)"
    "client_sends env 1 (encode_request r) = (int (length (encode_request r)), encode_request r)"
    using ready_sends [OF env] sizes r(3) by simp_all
  obtain c cs where css: "css = (0 # c) # cs" using replies(2,3) by (cases css; cases "hd css") auto
  define css' where "css' = (if c = [] then cs else c # cs)"
  have rest: "concat css' = reply" "[] \<notin> set css'" using replies(2,3) css by (auto simp: css'_def)
  have read: "read_monitor_auth_reply (ce_replies env) = (True, map Avail css')"
    by (simp add: replies(1) css css'_def read_monitor_auth_reply_def)
  have stats: "r = Get_Statistics \<Longrightarrow> read_monitor_stats_reply (map Avail css') = Some s"
    using stats_read [of css' s] rest replies(4) by simp
  have act: "ma_action args = ACTION_STATS \<longleftrightarrow> r = Get_Statistics" using r(1) by (cases r) auto
  have sock: "\<not> create_monitor_socket env (direction args) < 0" using env by (simp add: ready_client_def)
  show ?thesis
    using sock sizes unfolding client_main_def Let_def auth(1) bindr_simps prod.case auth(2) sends read msg(1) msg(2)
    by (simp add: act stats sends msg)
qed

text \<open>
  C14. The client and the server agree. For the settings of a request, the client sends two messages
  and ends with status 0; the server, reading them on a fresh connection of an administrator, does
  what the request says and answers with the bytes the client expects, and for the statistics the
  client prints the counters of the server.
\<close>

theorem client_runs_request:
  assumes "monitor_linked w a fd m" and "m_stm m = m_stm new_monitor" and "m_user_access_level m = ADMIN" and "m_error m = 0"
    and "willing senv" and "e_alloc senv A_parser" and "e_alloc senv A_arguments" and "e_alloc senv A_argument"
    and "length (w_methods w) = MAX_BUFFER_SIZE" and "text_ok name" and "text_ok pass" and "length pass \<le> 254"
    and "user_login (w_users w) (Some name) pass = (USERS_OK, Some ADMIN)"
    and "request_effect r (w_users w) (w_methods w) = (True, us, ms)"
    and "ready_client env args" and "managing_user args = \<lparr>ua_name = Some name, ua_pass = Some pass, ua_level = lv\<rparr>"
    and "asks_for args r" and "request_ok r" and "length (encode_request r) < 512"
    and "ce_replies env = map Avail css" and "[] \<notin> set css" and "concat css = 0 # reply_message r (w_stats w)"
  shows "\<exists>login_msg request_msg w1 w2 w3. client_main env args = Inr \<lparr>cr_status = 0, cr_sent = [login_msg, request_msg],
      cr_stats = if r = Get_Statistics then Some (w_stats w) else None\<rparr> \<and>
    monitor_reads senv (fd, Some (MonitorPtr a)) login_msg w = Inr w1 \<and>
    monitor_reads senv (fd, Some (MonitorPtr a)) request_msg w1 = Inr w2 \<and>
    handle_write_monitor senv (fd, Some (MonitorPtr a)) w2 = Inr w3 \<and> w_users w3 = us \<and> w_methods w3 = ms \<and>
    w_trace w3 = w_trace w @ reads_trace fd login_msg @ [Sent fd [0]] @ reads_trace fd request_msg @
      [Sent fd (reply_message r (w_stats w)), Closed fd]"
proof -
  have "r = Get_Statistics \<longrightarrow> reply_message r (w_stats w) = stats_message MONITOR_REQ_STATUS_OK (w_stats w)"
    by (simp add: reply_message_def)
  from client_main_run [OF assms(15,16,10,11,17-22) this]
    session_run [OF assms(1-8,10-13,18,9,14)] show ?thesis by blast
qed

definition sample_client_env :: "recv_answer list \<Rightarrow> client_env" where
  "sample_client_env replies = \<lparr>ce_pton = \<lambda>_. True, ce_socket = 5, ce_connects = True, ce_send = \<lambda>_. Takes 1000,
     ce_stack = \<lambda>_. replicate 512 0, ce_replies = replies\<rparr>"

definition sample_client_args :: management_args_t where
  "sample_client_args = no_management_args\<lparr>ma_action := ACTION_ADD_USER, direction := [49],
     managing_user := \<lparr>ua_name = Some [114], ua_pass = Some [115], ua_level = 0\<rparr>,
     user_to_modify := \<lparr>ua_name = Some [97], ua_pass = Some [98], ua_level = 1\<rparr>\<rparr>"

lemma sample_add_user:
  "request_effect (Add_User [97] [98] 1) [\<lparr>u_name = [114], u_pass = [115], u_level = ADMIN\<rparr>] ms =
     (True, [\<lparr>u_name = [114], u_pass = [115], u_level = ADMIN\<rparr>, \<lparr>u_name = [97], u_pass = [98], u_level = USER\<rparr>], ms)"
  by (simp add: user_create_def get_user_index_def strcpy_into_def MAX_USERNAME_LEN_def MAX_PASSWORD_LEN_def
      USER_def ADMIN_def MAX_USERS_REGISTERED_def)

theorem client_runs_request_witness:
  "\<exists>s login_msg request_msg w1 w2 w3.
    client_main (sample_client_env [Avail [0, 0]]) sample_client_args =
      Inr \<lparr>cr_status = 0, cr_sent = [login_msg, request_msg], cr_stats = None\<rparr> \<and>
    monitor_reads (sample_env []) (4, Some (MonitorPtr 0)) login_msg
      (admin_world s [\<lparr>u_name = [114], u_pass = [115], u_level = ADMIN\<rparr>]) = Inr w1 \<and>
    monitor_reads (sample_env []) (4, Some (MonitorPtr 0)) request_msg w1 = Inr w2 \<and>
    handle_write_monitor (sample_env []) (4, Some (MonitorPtr 0)) w2 = Inr w3 \<and>
    w_users w3 = [\<lparr>u_name = [114], u_pass = [115], u_level = ADMIN\<rparr>, \<lparr>u_name = [97], u_pass = [98], u_level = USER\<rparr>]"
proof -
  let ?u = "[\<lparr>u_name = [114], u_pass = [115], u_level = ADMIN\<rparr>] :: users" and ?r = "Add_User [97] [98] 1"
  let ?env = "sample_client_env [Avail [0, 0]]"
  obtain s where l: "monitor_linked (admin_world s ?u) 0 4 new_monitor" using admin_world_linked by blast
  have ok: "text_ok [114]" "text_ok [115]" "request_ok ?r" by (simp_all add: text_ok_def argument_ok_def)
  have login: "user_login (w_users (admin_world s ?u)) (Some [114]) [115] = (USERS_OK, Some ADMIN)" using sample_admin_login by simp
  have eff: "request_effect ?r (w_users (admin_world s ?u)) (w_methods (admin_world s ?u)) =
      (True, ?u @ [\<lparr>u_name = [97], u_pass = [98], u_level = USER\<rparr>], w_methods (admin_world s ?u))"
    using sample_add_user by simp
  have client: "ready_client ?env sample_client_args" "asks_for sample_client_args ?r" "ce_replies ?env = map Avail [[0, 0]]"
    "managing_user sample_client_args = \<lparr>ua_name = Some [114], ua_pass = Some [115], ua_level = 0\<rparr>"
    by (simp_all add: ready_client_def sample_client_env_def sample_client_args_def create_monitor_socket_def)
  have msg: "length (encode_request ?r) < 512" "concat [[0, 0]] = 0 # reply_message ?r (w_stats (admin_world s ?u))"
    by (simp_all add: encode_request_def encode_arguments_def reply_message_def)
  from client_runs_request [OF l refl _ _ sample_willing _ _ _ _ ok(1,2) _ login eff client(1,4,2) ok(3) msg(1) client(3) _ msg(2), of "[]"]
  show ?thesis by (intro exI [of _ s]) auto
qed

section \<open>The command line of a request\<close>

definition option_words :: "byte \<Rightarrow> byte list \<Rightarrow> byte list list" where
  "option_words c a = [[45, c], a]"

fun request_words :: "admin_request \<Rightarrow> byte list list" where
  "request_words (Add_User name pass level) = option_words (if level = 0 then 65 else 97) (name @ 58 # pass)"
| "request_words (Remove_User name) = option_words 100 name"
| "request_words (Change_Password name pass) = option_words 99 (name @ 58 # pass)"
| "request_words Get_Statistics = [[45, 115]]"
| "request_words (Set_Methods ms) = [45, 109] # map (\<lambda>m. decimal (unat m)) ms"

definition client_line :: "byte list \<Rightarrow> 16 word \<Rightarrow> byte list \<Rightarrow> byte list \<Rightarrow> admin_request \<Rightarrow> byte list list" where
  "client_line host p name pass r =
     [host @ 58 # decimal (unat p)] @ option_words 108 (name @ 58 # pass) @ request_words r"

text \<open>What can be written on a command line.\<close>

fun request_writable :: "admin_request \<Rightarrow> bool" where
  "request_writable (Add_User name pass level) \<longleftrightarrow> name \<noteq> [] \<and> pass \<noteq> [] \<and> 58 \<notin> set name \<and> (level = 0 \<or> level = 1)"
| "request_writable (Remove_User name) \<longleftrightarrow> name \<noteq> []"
| "request_writable (Change_Password name pass) \<longleftrightarrow> name \<noteq> [] \<and> pass \<noteq> [] \<and> 58 \<notin> set name"
| "request_writable Get_Statistics \<longleftrightarrow> True"
| "request_writable (Set_Methods ms) \<longleftrightarrow> ms \<noteq> [] \<and> length ms < MAX_METHODS \<and> (\<forall>m \<in> set ms. unat m < 128)"

lemma parse_userpass_join:
  "name \<noteq> [] \<Longrightarrow> pass \<noteq> [] \<Longrightarrow> 58 \<notin> set name \<Longrightarrow>
     parse_userpass (name @ 58 # pass) = Inr \<lparr>ua_name = Some name, ua_pass = Some pass, ua_level = 0\<rparr>"
  by (simp add: parse_userpass_def split_colon_join)

lemma client_step:
  assumes "client_letters c = Some True"
  shows "client_loop \<lparr>g_cluster = [], g_argv = [45, c] # a # argv, g_operands = ops\<rparr> args =
    (case client_option c a argv args of Inl e \<Rightarrow> Inl e
     | Inr (args', rest) \<Rightarrow> client_loop \<lparr>g_cluster = [], g_argv = rest, g_operands = ops\<rparr> args')"
  using assms
  by (subst client_loop.simps) (auto simp: getopt_long_def take_letter_def client_letters_def split: if_splits sum.splits)

lemma client_flag:
  assumes "client_letters c = Some False"
  shows "client_loop \<lparr>g_cluster = [], g_argv = [45, c] # argv, g_operands = ops\<rparr> args =
    (case client_option c [] argv args of Inl e \<Rightarrow> Inl e
     | Inr (args', rest) \<Rightarrow> client_loop \<lparr>g_cluster = [], g_argv = rest, g_operands = ops\<rparr> args')"
  using assms
  by (subst client_loop.simps) (auto simp: getopt_long_def take_letter_def client_letters_def split: if_splits sum.splits)

lemma client_ends: "client_loop \<lparr>g_cluster = [], g_argv = [], g_operands = ops\<rparr> args = Inr (args, ops)"
  by (subst client_loop.simps) (simp add: getopt_long_def)

lemma method_decimal: "method_of (decimal (unat m)) = m"
  using strtol_decimal [of "unat m"] unat_byte_le [of m] by (simp add: method_of_def)

lemma decimal_no_option: "take 1 (decimal n) \<noteq> [45]"
  using decimal_digits [of n] digit_no_space by (cases "decimal n") auto

lemma more_methods_read:
  assumes "auth_methods args = pre @ rest" and "length (auth_methods args) = MAX_METHODS"
    and "unat (auth_methods_count args) = length pre" and "length pre + length ms < MAX_METHODS"
  shows "\<exists>args' rest'. more_methods (map (\<lambda>m. decimal (unat m)) ms) args = Inr (args', []) \<and>
    auth_methods args' = pre @ ms @ rest' \<and> length (auth_methods args') = MAX_METHODS \<and>
    unat (auth_methods_count args') = length (pre @ ms) \<and> ma_action args' = ma_action args \<and>
    managing_user args' = managing_user args \<and> direction args' = direction args \<and> ma_port args' = ma_port args"
  using assms
proof (induction ms arbitrary: args pre rest)
  case (Cons m ms)
  have len: "length pre < 255" using Cons.prems(4) by (simp add: MAX_METHODS_def)
  obtain x rest0 where rest: "rest = x # rest0" using Cons.prems by (cases rest) auto
  let ?a = "args\<lparr>auth_methods := (pre @ [m]) @ rest0, auth_methods_count := auth_methods_count args + 1\<rparr>"
  have st: "store_method (decimal (unat m)) args = Inr ?a"
    using Cons.prems len rest by (simp add: store_method_def method_decimal list_update_append)
  have cnt: "unat (auth_methods_count args + 1) = length (pre @ [m])"
    using Cons.prems(3) len unat_byte_Suc [of "auth_methods_count args" 255] by simp
  have pre: "auth_methods ?a = (pre @ [m]) @ rest0" "length (auth_methods ?a) = MAX_METHODS"
    "unat (auth_methods_count ?a) = length (pre @ [m])" "length (pre @ [m]) + length ms < MAX_METHODS"
    using Cons.prems rest cnt by simp_all
  from Cons.IH [OF this] show ?case
    using st Cons.prems(3) len decimal_no_option [of "unat m"] by (auto simp: MAX_METHODS_def)
qed auto

lemma methods_words:
  assumes "request_writable (Set_Methods ms)" and "ma_action args = ACTION_NONE"
    and "length (auth_methods args) = MAX_METHODS"
  shows "\<exists>args'. client_loop \<lparr>g_cluster = [], g_argv = request_words (Set_Methods ms), g_operands = []\<rparr> args = Inr (args', []) \<and>
    asks_for args' (Set_Methods ms) \<and> managing_user args' = managing_user args \<and> direction args' = direction args \<and>
    ma_port args' = ma_port args"
proof -
  obtain m ms' where ms: "ms = m # ms'" using assms(1) by (cases ms) auto
  obtain x rest where arr: "auth_methods args = x # rest" using assms(3) by (cases "auth_methods args") (auto simp: MAX_METHODS_def)
  let ?a = "args\<lparr>ma_action := ACTION_CHANGE_AUTH_METHODS, auth_methods_count := 1, auth_methods := [m] @ rest\<rparr>"
  have st: "store_method (decimal (unat m)) (args\<lparr>ma_action := ACTION_CHANGE_AUTH_METHODS, auth_methods_count := 0\<rparr>) = Inr ?a"
    by (cases args) (use arr in \<open>simp add: store_method_def method_decimal\<close>)
  have "auth_methods ?a = [m] @ rest" "length (auth_methods ?a) = MAX_METHODS" "unat (auth_methods_count ?a) = length [m]"
    "length [m] + length ms' < MAX_METHODS" using assms arr ms by simp_all
  from more_methods_read [OF this] obtain a' rest' where
    more: "more_methods (map (\<lambda>m. decimal (unat m)) ms') ?a = Inr (a', [])" and
    a': "auth_methods a' = [m] @ ms' @ rest'" "length (auth_methods a') = MAX_METHODS"
      "unat (auth_methods_count a') = length ([m] @ ms')" "ma_action a' = ACTION_CHANGE_AUTH_METHODS"
      "managing_user a' = managing_user args" "direction a' = direction args" "ma_port a' = ma_port args" by auto
  have "length ms < MAX_METHODS" using assms(1) by simp
  then obtain y rest'' where r: "rest' = y # rest''" using a'(1,2) ms by (cases rest') auto
  let ?b = "a'\<lparr>auth_methods := ms @ [-1] @ rest''\<rparr>"
  have "unat (-1 :: byte) = 255" by (simp add: unsigned_minus_1_eq_mask mask_eq_exp_minus_1)
  then have "-1 \<notin> set ms" using assms(1) by fastforce
  then have asks: "asks_for ?b (Set_Methods ms)" using a'(4) by auto
  have opt: "client_option 109 (decimal (unat m)) (map (\<lambda>m. decimal (unat m)) ms') args = Inr (?b, [])"
    using assms(2) st more a'(1,2,3) r ms
    by (simp add: client_option_def methods_option_def ensure_single_action_def list_update_append)
  have "client_letters 109 = Some True" by (simp add: client_letters_def)
  from client_step [OF this, of "decimal (unat m)" "map (\<lambda>m. decimal (unat m)) ms'" "[]" args] opt ms
  have "client_loop \<lparr>g_cluster = [], g_argv = request_words (Set_Methods ms), g_operands = []\<rparr> args = Inr (?b, [])"
    by (simp add: client_ends)
  then show ?thesis using asks a' by auto
qed

lemma request_words_loop:
  assumes "request_writable r" and "ma_action args = ACTION_NONE" and "length (auth_methods args) = MAX_METHODS"
  shows "\<exists>args'. client_loop \<lparr>g_cluster = [], g_argv = request_words r, g_operands = []\<rparr> args = Inr (args', []) \<and>
    asks_for args' r \<and> managing_user args' = managing_user args \<and> direction args' = direction args \<and> ma_port args' = ma_port args"
proof (cases r)
  case (Set_Methods ms)
  then show ?thesis using methods_words assms by blast
qed (use assms in \<open>auto simp: option_words_def client_step client_flag client_letters_def client_ends client_option_def
    ensure_single_action_def add_user_to_modify_def parse_userpass_join set_modify_level_def
    USER_ACCESS_LEVEL_def ADMIN_ACCESS_LEVEL_def\<close>)

lemma request_words_action: "asks_for args r \<Longrightarrow> ma_action args \<noteq> ACTION_NONE"
  by (cases r) auto

text \<open>
  Every request can be written on the command line of the client, and the settings parsed from
  it ask for that request, with the credentials and the server that were given.
\<close>

theorem client_line_parsed:
  assumes "host \<noteq> []" and "58 \<notin> set host" and "take 1 host \<noteq> [45]" and "p \<noteq> 0"
    and "name \<noteq> []" and "58 \<notin> set name" and "pass \<noteq> []" and "request_writable r"
  shows "\<exists>args. parse_monitor_args (client_line host p name pass r) = Inr args \<and> asks_for args r \<and>
    managing_user args = \<lparr>ua_name = Some name, ua_pass = Some pass, ua_level = 0\<rparr> \<and>
    direction args = host \<and> ma_port args = p"
proof -
  let ?dir = "host @ 58 # decimal (unat p)"
  have p: "unat p \<le> 65535" "\<not> 65535 < uint p"
    using unsigned_less [where ?'a = nat, of p] unsigned_less [where ?'a = int, of p] by simp_all
  have pos: "\<not> uint p \<le> 0" using assms(4) by (metis uint_0_iff order_antisym uint_ge_0)
  have d: "decimal (unat p) \<noteq> []" using decimal_digits [of "unat p"] by blast
  have "parse_port (decimal (unat p)) = Inr p" using strtol_decimal [OF p(1)] p(2) pos d by (simp add: parse_port_def)
  then have dir: "parse_direction_port ?dir no_management_args = Inr (no_management_args\<lparr>direction := host, ma_port := p\<rparr>)"
    using assms(1,2) d by (simp add: parse_direction_port_def split_colon_join)
  let ?a = "no_management_args\<lparr>direction := host, ma_port := p, managing_user := \<lparr>ua_name = Some name, ua_pass = Some pass, ua_level = 0\<rparr>\<rparr>"
  have letters: "client_letters 108 = Some True" by (simp add: client_letters_def)
  have "client_option 108 (name @ 58 # pass) (request_words r) (no_management_args\<lparr>direction := host, ma_port := p\<rparr>) = Inr (?a, request_words r)"
    using assms(5-7) by (simp add: client_option_def login_option_def parse_userpass_join no_management_args_def no_user_def)
  with client_step [OF letters, of "name @ 58 # pass" "request_words r" "[]" "no_management_args\<lparr>direction := host, ma_port := p\<rparr>"]
  have loop: "client_loop \<lparr>g_cluster = [], g_argv = option_words 108 (name @ 58 # pass) @ request_words r, g_operands = []\<rparr>
      (no_management_args\<lparr>direction := host, ma_port := p\<rparr>) =
    client_loop \<lparr>g_cluster = [], g_argv = request_words r, g_operands = []\<rparr> ?a" by (simp add: option_words_def)
  obtain args where args: "client_loop \<lparr>g_cluster = [], g_argv = request_words r, g_operands = []\<rparr> ?a = Inr (args, [])"
    "asks_for args r" "managing_user args = managing_user ?a" "direction args = host" "ma_port args = p"
    using request_words_loop [OF assms(8), of ?a] by (auto simp: no_management_args_def)
  have "take 1 ?dir \<noteq> [45]" using assms(1,3) by (cases host) auto
  then have "parse_monitor_args (client_line host p name pass r) = Inr args"
    using dir loop args request_words_action [OF args(2)] by (simp add: parse_monitor_args_def client_line_def)
  then show ?thesis using args by simp
qed

theorem client_line_parsed_witness:
  "\<exists>args. parse_monitor_args (client_line [49, 46, 50] 8080 [114] [115] (Set_Methods [0, 2])) = Inr args \<and>
    asks_for args (Set_Methods [0, 2]) \<and> direction args = [49, 46, 50] \<and> ma_port args = 8080"
  using client_line_parsed [of "[49, 46, 50]" 8080 "[114]" "[115]" "Set_Methods [0, 2]"]
  by (auto simp: MAX_METHODS_def simp del: asks_for.simps)

end
