(* ===== verification/Parser_Utils.thy ===== *)
theory Parser_Utils
  imports Parser
begin

text \<open>
  The parser factory of \<^verbatim>\<open>src/src/lib/parser/parser_utils.c\<close>: the definition of a parser
  that compares its input with a given string, ignoring the case of letters. The comparison is
  proved to give, after each byte, the verdict of a specification on the bytes read so far.
\<close>

section \<open>The factory\<close>

definition STRING_CMP_MAYEQ :: nat where "STRING_CMP_MAYEQ = 0"
definition STRING_CMP_EQ :: nat where "STRING_CMP_EQ = 1"
definition STRING_CMP_NEQ :: nat where "STRING_CMP_NEQ = 2"

definition parser_utils_strcmpi_event :: "nat \<Rightarrow> string option" where
  "parser_utils_strcmpi_event type =
     (if type = STRING_CMP_MAYEQ then Some ''wait(c)''
      else if type = STRING_CMP_EQ then Some ''eq(c)''
      else if type = STRING_CMP_NEQ then Some ''neq(c)''
      else None)"

definition may_eq :: parser_action where "may_eq = put_byte STRING_CMP_MAYEQ"
definition eq :: parser_action where "eq = put_byte STRING_CMP_EQ"
definition neq :: parser_action where "neq = put_byte STRING_CMP_NEQ"

text \<open>\<^verbatim>\<open>tolower\<close> and \<^verbatim>\<open>toupper\<close> of the C locale; \<^verbatim>\<open>char\<close> is signed.\<close>

definition c_tolower :: "int \<Rightarrow> int" where
  "c_tolower x = (if 65 \<le> x \<and> x \<le> 90 then x + 32 else x)"

definition c_toupper :: "int \<Rightarrow> int" where
  "c_toupper x = (if 97 \<le> x \<and> x \<le> 122 then x - 32 else x)"

text \<open>A transition of the zeroed array returned by \<^verbatim>\<open>calloc\<close>.\<close>

definition calloc_transition :: parser_state_transition where
  "calloc_transition = \<lparr>tr_when = 0, tr_dest = 0, tr_act1 = None, tr_act2 = None\<rparr>"

definition strcmpi_row :: "byte list \<Rightarrow> nat \<Rightarrow> parser_state_transition list" where
  "strcmpi_row s i =
     (let n = length s; st_eq = n; st_neq = n + 1;
          dest = (if i + 1 = n then st_eq else i + 1);
          act = (if i + 1 = n then eq else may_eq)
      in [on_byte (c_tolower (sint (s ! i))) dest act,
          on_byte (c_toupper (sint (s ! i))) dest act,
          on_any st_neq neq])"

definition strcmpi_sink :: "nat \<Rightarrow> parser_state_transition list" where
  "strcmpi_sink n = [on_any (n + 1) neq, calloc_transition, calloc_transition]"

definition strcmpi_transitions :: "byte list \<Rightarrow> parser_state_transition list" where
  "strcmpi_transitions s =
     concat (map (strcmpi_row s) [0..<length s]) @ strcmpi_sink (length s) @ strcmpi_sink (length s)"

definition parser_utils_strcmpi :: "bool \<Rightarrow> byte list \<Rightarrow> parser_definition" where
  "parser_utils_strcmpi calloc_ok s =
     (let n = length s in
      if \<not> calloc_ok
      then \<lparr>def_states_count = 0, def_states = [], def_states_n = [], def_start_state = 0\<rparr>
      else \<lparr>def_states_count = n + 2,
             def_states = map (\<lambda>i. drop (i * 3) (strcmpi_transitions s)) [0..<n + 2],
             def_states_n = replicate n 3 @ [1, 1],
             def_start_state = 0\<rparr>)"

abbreviation strcmpi_def_of :: "byte list \<Rightarrow> parser_definition" where
  "strcmpi_def_of \<equiv> parser_utils_strcmpi True"

section \<open>The table\<close>

lemma length_strcmpi_row [simp]: "length (strcmpi_row s i) = 3"
  by (simp add: strcmpi_row_def Let_def)

lemma length_rows: "length (concat (map (strcmpi_row s) [0..<k])) = k * 3"
  by (induction k) simp_all

lemma drop_rows:
  "i \<le> k \<Longrightarrow> drop (i * 3) (concat (map f [0..<k])) = concat (map f [i..<k])"
  if "\<And>j. length (f j) = 3" for f :: "nat \<Rightarrow> 'a list"
proof (induction i)
  case (Suc i)
  have "drop (Suc i * 3) (concat (map f [0..<k])) = drop 3 (drop (i * 3) (concat (map f [0..<k])))"
    by (simp add: add.commute)
  with Suc show ?case by (simp add: upt_conv_Cons that)
qed simp

lemma strcmpi_state_row:
  assumes "i < length s"
  shows "take 3 (drop (i * 3) (strcmpi_transitions s)) = strcmpi_row s i"
proof -
  have "drop (i * 3) (strcmpi_transitions s) =
      concat (map (strcmpi_row s) [i..<length s]) @ strcmpi_sink (length s) @ strcmpi_sink (length s)"
    using assms by (simp add: strcmpi_transitions_def drop_rows length_rows)
  then show ?thesis using assms by (simp add: upt_conv_Cons)
qed

lemma strcmpi_state_sink:
  assumes "i = length s \<or> i = length s + 1"
  shows "take 1 (drop (i * 3) (strcmpi_transitions s)) = [on_any (length s + 1) neq]"
  using assms by (auto simp: strcmpi_transitions_def length_rows strcmpi_sink_def)

lemma strcmpi_row_of_state:
  assumes "st < length s + 2"
  shows "take (def_states_n (strcmpi_def_of s) ! st) (def_states (strcmpi_def_of s) ! st) =
     (if st < length s then strcmpi_row s st else [on_any (length s + 1) neq])"
proof (cases "st < length s")
  case True
  then show ?thesis
    by (simp add: parser_utils_strcmpi_def Let_def nth_append strcmpi_state_row del: upt_Suc)
next
  case False
  with assms have "st = length s \<or> st = length s + 1" by auto
  with False show ?thesis
    using strcmpi_state_sink [of st s]
    by (auto simp: parser_utils_strcmpi_def Let_def nth_append simp del: upt_Suc)
qed

lemma c_case_le_255: "c_tolower (sint (c :: byte)) \<le> 255" "c_toupper (sint c) \<le> 255"
  using sint_lt [of c] by (auto simp: c_tolower_def c_toupper_def)

lemma strcmpi_row_plain: "st < length s \<Longrightarrow> t \<in> set (strcmpi_row s st) \<Longrightarrow>
    plain_transition (length s + 2) t"
  by (auto simp: strcmpi_row_def Let_def plain_transition_def c_case_le_255 eq_def may_eq_def
      neq_def ANY_def)

lemma strcmpi_counts:
  "def_states_count (strcmpi_def_of s) = length s + 2"
  "def_start_state (strcmpi_def_of s) = 0"
  "length (def_states (strcmpi_def_of s)) = length s + 2"
  "length (def_states_n (strcmpi_def_of s)) = length s + 2"
  by (simp_all add: parser_utils_strcmpi_def Let_def)

lemma strcmpi_row_length:
  assumes "st < length s + 2"
  shows "def_states_n (strcmpi_def_of s) ! st \<le> length (def_states (strcmpi_def_of s) ! st)"
  using assms
  by (auto simp: parser_utils_strcmpi_def Let_def nth_append strcmpi_transitions_def length_rows
      strcmpi_sink_def nth_Cons' simp del: upt_Suc)

interpretation strcmpi: total_table "strcmpi_def_of s" for s
proof unfold_locales
  fix st assume st: "st < def_states_count (strcmpi_def_of s)"
  then have st': "st < length s + 2" by (simp add: strcmpi_counts)
  show "def_states_n (strcmpi_def_of s) ! st \<le> length (def_states (strcmpi_def_of s) ! st) \<and>
      (\<forall>t \<in> set (take (def_states_n (strcmpi_def_of s) ! st) (def_states (strcmpi_def_of s) ! st)).
         plain_transition (def_states_count (strcmpi_def_of s)) t) \<and>
      (\<exists>t \<in> set (take (def_states_n (strcmpi_def_of s) ! st) (def_states (strcmpi_def_of s) ! st)).
         tr_when t = ANY)"
    using strcmpi_row_plain [of st s] strcmpi_row_length [OF st'] st'
    by (auto simp: strcmpi_row_of_state strcmpi_counts strcmpi_row_def Let_def neq_def
        plain_transition_def)
qed (simp_all add: strcmpi_counts)

section \<open>What the comparison computes\<close>

definition eqi :: "byte \<Rightarrow> byte \<Rightarrow> bool" where
  "eqi c d \<longleftrightarrow> c_tolower (uint c) = c_tolower (uint d)"

definition starts_eqi :: "byte list \<Rightarrow> byte list \<Rightarrow> bool" where
  "starts_eqi s t \<longleftrightarrow> length t \<le> length s \<and> list_all2 eqi t (take (length t) s)"

definition strcmpi_verdict :: "byte list \<Rightarrow> byte list \<Rightarrow> nat" where
  "strcmpi_verdict s t =
     (if starts_eqi s t then (if length t = length s then STRING_CMP_EQ else STRING_CMP_MAYEQ)
      else STRING_CMP_NEQ)"

definition strcmpi_at :: "byte list \<Rightarrow> byte list \<Rightarrow> nat" where
  "strcmpi_at s t = (if starts_eqi s t then length t else length s + 1)"

lemma match_letter:
  assumes "uint (d :: byte) < 128"
  shows "uint (c :: byte) = c_tolower (sint d) \<or> uint c = c_toupper (sint d) \<longleftrightarrow> eqi c d"
proof -
  have "sint d = uint d"
    using assms signed_take_bit_int_eq_self [of 7 "uint d"] order_trans [OF _ uint_ge_0, of "- 128" d]
    by (simp add: sint_uint)
  then show ?thesis by (auto simp: eqi_def c_tolower_def c_toupper_def)
qed

lemma starts_eqi_snoc:
  "starts_eqi s (t @ [c]) \<longleftrightarrow> starts_eqi s t \<and> length t < length s \<and> eqi c (s ! length t)"
proof (cases "length t < length s")
  case True
  then show ?thesis
    by (simp add: starts_eqi_def take_Suc_conv_app_nth list_all2_append)
next
  case False
  then show ?thesis by (auto simp: starts_eqi_def)
qed

lemma strcmpi_at_bound: "strcmpi_at s t < length s + 2"
  by (auto simp: strcmpi_at_def starts_eqi_def)

lemma strcmpi_at_start: "strcmpi_at s [] = 0"
  by (simp add: strcmpi_at_def starts_eqi_def)

text \<open>The transition taken in the state that stands for \<open>t\<close> leads to the one for \<open>t @ [c]\<close>.\<close>

lemma strcmpi_next:
  assumes ascii: "\<forall>d \<in> set s. uint d < 128"
  shows "\<exists>w. next_transition (strcmpi_def_of s) (strcmpi_at s t) c =
     Some \<lparr>tr_when = w, tr_dest = strcmpi_at s (t @ [c]),
           tr_act1 = Some (put_byte (strcmpi_verdict s (t @ [c]))), tr_act2 = None\<rparr>"
proof (cases "starts_eqi s t \<and> length t < length s")
  case True
  then have at: "strcmpi_at s t = length t" by (simp add: strcmpi_at_def)
  have "eqi c (s ! length t) \<longleftrightarrow>
      uint c = c_tolower (sint (s ! length t)) \<or> uint c = c_toupper (sint (s ! length t))"
    using True ascii by (intro match_letter [symmetric]) simp
  with True at show ?thesis
    by (auto simp: next_transition_def strcmpi_row_of_state strcmpi_row_def Let_def
        starts_eqi_snoc strcmpi_at_def strcmpi_verdict_def c_case_le_255 on_byte_def [symmetric]
        eq_def may_eq_def neq_def) (auto simp: on_byte_def on_any_def)
next
  case False
  then have "strcmpi_at s t \<ge> length s" "\<not> starts_eqi s (t @ [c])"
    by (auto simp: strcmpi_at_def starts_eqi_snoc)
  then show ?thesis
    using strcmpi_at_bound [of s t]
    by (auto simp: next_transition_def strcmpi_row_of_state strcmpi_at_def strcmpi_verdict_def
        neq_def) (simp_all add: on_any_def)
qed

lemma strcmpi_feed_step:
  assumes "\<forall>d \<in> set s. uint d < 128"
    and "parser_ok (strcmpi_def_of s) p" and "p_state p = strcmpi_at s t"
  shows "\<exists>p'. parser_feed p c = Inr p' \<and> parser_ok (strcmpi_def_of s) p' \<and>
     p_state p' = strcmpi_at s (t @ [c]) \<and> parser_events p' = [p_e1 p'] \<and>
     ev_type (p_e1 p') = strcmpi_verdict s (t @ [c])"
proof -
  from strcmpi_next [OF assms(1), of t c] assms(3) obtain w where
    "next_transition (strcmpi_def_of s) (p_state p) c =
       Some \<lparr>tr_when = w, tr_dest = strcmpi_at s (t @ [c]),
             tr_act1 = Some (put_byte (strcmpi_verdict s (t @ [c]))), tr_act2 = None\<rparr>"
    by auto
  with strcmpi.feed_total [OF assms(2), of c] show ?thesis by auto
qed

lemma strcmpi_feed_all:
  assumes "\<forall>d \<in> set s. uint d < 128"
    and "parser_ok (strcmpi_def_of s) p" and "p_state p = 0" and "t \<noteq> []"
  shows "\<exists>p'. parser_feed_all p t = Inr p' \<and> parser_ok (strcmpi_def_of s) p' \<and>
     p_state p' = strcmpi_at s t \<and> parser_events p' = [p_e1 p'] \<and>
     ev_type (p_e1 p') = strcmpi_verdict s t"
  using assms(4)
proof (induction t rule: rev_induct)
  case (snoc c t)
  obtain p1 where p1: "parser_feed_all p t = Inr p1" "parser_ok (strcmpi_def_of s) p1"
      "p_state p1 = strcmpi_at s t"
    using snoc.IH assms(2,3) by (cases "t = []") (auto simp: strcmpi_at_start)
  from strcmpi_feed_step [OF assms(1) p1(2,3), of c] p1(1) show ?case
    by (auto simp: parser_feed_all_append)
qed simp

section \<open>Properties\<close>

text \<open>
  C22. The generated comparison parser decides case-insensitive equality: started on the
  definition built for an ASCII string and fed any non-empty input, it runs without a fault and
  the single event of the last byte says that the whole input equals the string up to case
  (\<^verbatim>\<open>STRING_CMP_EQ\<close>), that the input is so far a proper prefix of it
  (\<^verbatim>\<open>STRING_CMP_MAYEQ\<close>), or neither (\<^verbatim>\<open>STRING_CMP_NEQ\<close>, also when the input is longer
  than the string).
\<close>

theorem strcmpi_decides:
  assumes "\<forall>d \<in> set s. uint d < 128" and "t \<noteq> []"
    and "parser_init True cls (parser_utils_strcmpi True s) = Some p"
  shows "\<exists>p'. parser_feed_all p t = Inr p' \<and> parser_events p' = [p_e1 p'] \<and>
     ev_type (p_e1 p') =
       (if length t \<le> length s \<and> list_all2 eqi t (take (length t) s)
        then (if length t = length s then STRING_CMP_EQ else STRING_CMP_MAYEQ)
        else STRING_CMP_NEQ)"
proof -
  have "parser_ok (strcmpi_def_of s) p" and "p_state p = 0"
    using parser_ok_init [OF assms(3)] assms(3) strcmpi.start
    by (auto simp: parser_init_def strcmpi_counts)
  from strcmpi_feed_all [OF assms(1) this assms(2)] show ?thesis
    by (auto simp: strcmpi_verdict_def starts_eqi_def)
qed

text \<open>The string "foo" against "FoO": equal.\<close>

theorem strcmpi_decides_witness:
  "\<exists>p p'. parser_init True (parser_no_classes (\<lambda>_. 0)) (parser_utils_strcmpi True [102, 111, 111]) = Some p \<and>
     parser_feed_all p [70, 111, 79] = Inr p' \<and> ev_type (p_e1 p') = STRING_CMP_EQ"
proof -
  obtain p where p: "parser_init True (parser_no_classes (\<lambda>_. 0))
      (parser_utils_strcmpi True [102, 111, 111]) = Some p"
    by (simp add: parser_init_def)
  from strcmpi_decides [OF _ _ p, of "[70, 111, 79]"] p show ?thesis
    by (auto simp: eqi_def c_tolower_def)
qed

end
