(* ===== verification/Users_File.thy ===== *)
theory Users_File
  imports Users
begin

text \<open>
  The users file of \<^verbatim>\<open>src/src/server/users.c\<close>: one line per user, an access level mark, the
  name, a colon and the password. A file is its list of bytes; an open file is the list of bytes
  not yet read. \<^verbatim>\<open>fgetc\<close> delivers into a \<^verbatim>\<open>char\<close>, which is signed, so the end of the file and
  every byte from 128 on are negative and cannot be told apart by the tests the code makes.
\<close>

section \<open>Reading\<close>

definition newline :: int where "newline = 10"
definition USERNAME_DELIMITER :: int where "USERNAME_DELIMITER = 58"
definition ADMIN_ACCESS_LEVEL_SPECIFIER :: int where "ADMIN_ACCESS_LEVEL_SPECIFIER = 64"
definition USER_ACCESS_LEVEL_SPECIFIER :: int where "USER_ACCESS_LEVEL_SPECIFIER = 35"

text \<open>\<^verbatim>\<open>isspace\<close> of the C locale.\<close>

definition isspace :: "int \<Rightarrow> bool" where
  "isspace c \<longleftrightarrow> c = 32 \<or> (9 \<le> c \<and> c \<le> 13)"

type_synonym line_no = "32 word"

fun skipLine :: "byte list \<Rightarrow> line_no \<Rightarrow> int \<times> byte list \<times> line_no" where
  "skipLine [] line = (-1, [], line)"
| "skipLine (b # bs) line =
     (let c = sint b; line' = (if c = newline then line + 1 else line) in
      if c \<ge> 0 \<and> c \<noteq> newline then skipLine bs line' else (c, bs, line'))"

fun skipWhiteSpaces :: "byte list \<Rightarrow> line_no \<Rightarrow> int \<times> byte list \<times> line_no" where
  "skipWhiteSpaces [] line = (-1, [], line)"
| "skipWhiteSpaces (b # bs) line =
     (let c = sint b; line' = (if c = newline then line + 1 else line) in
      if isspace c then skipWhiteSpaces bs line' else (c, bs, line'))"

text \<open>
  The two loops of the parser end by reading a terminator (or a negative character), or return
  from \<^verbatim>\<open>parse_user\<close> with a code.
\<close>

datatype field_result =
    Field "byte list" "byte list" line_no
  | Return int "byte list" line_no

fun parse_username :: "byte list \<Rightarrow> byte list \<Rightarrow> line_no \<Rightarrow> field_result" where
  "parse_username [] name line = Field name [] line"
| "parse_username (b # bs) name line =
     (let c = sint b in
      if c \<ge> 0 \<and> c \<noteq> USERNAME_DELIMITER then
        (if c < 32 \<or> length name > MAX_USERNAME_LEN then
           (if c \<noteq> newline then (case skipLine bs line of (r, bs', line') \<Rightarrow> Return r bs' line')
            else Return 1 bs (line + 1))
         else parse_username bs (name @ [b]) line)
      else Field name bs line)"

fun parse_password :: "byte list \<Rightarrow> byte list \<Rightarrow> line_no \<Rightarrow> field_result" where
  "parse_password [] pass line = Field pass [] line"
| "parse_password (b # bs) pass line =
     (let c = sint b in
      if c \<ge> 0 \<and> c \<noteq> newline then
        (if c < 32 \<or> length pass > MAX_PASSWORD_LEN
         then (case skipLine bs line of (r, bs', line') \<Rightarrow> Return r bs' line')
         else parse_password bs (pass @ [b]) line)
      else Field pass bs (if c = newline then line + 1 else line))"

text \<open>
  Writing the terminating zero of a field behind its last byte, in an array of 256 bytes.
\<close>

definition terminate_field :: "byte list \<Rightarrow> unit res" where
  "terminate_field s = guardr OutOfBounds (length s < 256)"

text \<open>
  The result code, the parsed user when the code is 0, the rest of the file and the line number.
\<close>

definition parse_user :: "byte list \<Rightarrow> line_no \<Rightarrow> (int \<times> user option \<times> byte list \<times> line_no) res" where
  "parse_user file line =
     (case skipWhiteSpaces file line of (c, bs, line) \<Rightarrow>
      if c < 0 then Inr (-1, None, bs, line)
      else if c \<noteq> ADMIN_ACCESS_LEVEL_SPECIFIER \<and> c \<noteq> USER_ACCESS_LEVEL_SPECIFIER
      then Inr (1, None, bs, line)
      else
        let level = (if c = ADMIN_ACCESS_LEVEL_SPECIFIER then ADMIN else USER) in
        case parse_username bs [] line of
          Return r bs' line' \<Rightarrow> Inr (r, None, bs', line')
        | Field name bs1 line1 \<Rightarrow>
            bindr (terminate_field name) (\<lambda>_.
              case parse_password bs1 [] line1 of
                Return r bs' line' \<Rightarrow> Inr (r, None, bs', line')
              | Field pass bs2 line2 \<Rightarrow>
                  bindr (terminate_field pass) (\<lambda>_.
                    Inr (0, Some \<lparr>u_name = name, u_pass = pass, u_level = level\<rparr>, bs2, line2))))"

lemma skipLine_shorter: "skipLine bs line = (r, bs', line') \<Longrightarrow> length bs' \<le> length bs"
  by (induction bs line rule: skipLine.induct) (fastforce simp: Let_def split: if_splits)+

lemma skipWhiteSpaces_shorter:
  "skipWhiteSpaces bs line = (c, bs', line') \<Longrightarrow> 0 \<le> c \<Longrightarrow> length bs' < length bs"
  by (induction bs line rule: skipWhiteSpaces.induct) (fastforce simp: Let_def split: if_splits)+

lemma parse_username_shorter:
  "parse_username bs name line = Field name' bs' line' \<Longrightarrow> length bs' \<le> length bs"
  "parse_username bs name line = Return r bs' line' \<Longrightarrow> length bs' \<le> length bs"
  by (induction bs name line rule: parse_username.induct)
    (fastforce simp: Let_def dest: skipLine_shorter split: if_splits prod.splits)+

lemma parse_password_shorter:
  "parse_password bs pass line = Field pass' bs' line' \<Longrightarrow> length bs' \<le> length bs"
  "parse_password bs pass line = Return r bs' line' \<Longrightarrow> length bs' \<le> length bs"
  by (induction bs pass line rule: parse_password.induct)
    (fastforce simp: Let_def dest: skipLine_shorter split: if_splits prod.splits)+

text \<open>Every call that does not end the parsing consumes at least one byte.\<close>

lemma parse_user_shorter:
  assumes "parse_user file line = Inr (r, u, bs', line')" and "0 \<le> r"
  shows "length bs' < length file"
proof -
  obtain c bs l where ws: "skipWhiteSpaces file line = (c, bs, l)" by (cases "skipWhiteSpaces file line") auto
  have c: "0 \<le> c" using assms ws by (auto simp: parse_user_def split: if_splits)
  have "length bs' \<le> length bs"
    using assms ws c
    by (fastforce simp: parse_user_def Let_def dest: parse_username_shorter parse_password_shorter
        split: if_splits field_result.splits)
  with skipWhiteSpaces_shorter [OF ws c] show ?thesis by simp
qed

function load_loop :: "users \<Rightarrow> byte list \<Rightarrow> line_no \<Rightarrow> users res" where
  "load_loop us file line =
     (case parse_user file line of
        Inl e \<Rightarrow> Inl e
      | Inr (r, u, bs, line') \<Rightarrow>
          if r < 0 then Inr us
          else (case u of
                  None \<Rightarrow> load_loop us bs line'
                | Some u' \<Rightarrow>
                    (case user_create us (Some (u_name u')) (Some (u_pass u')) (u_level u') of
                       Inl e \<Rightarrow> Inl e
                     | Inr (_, us') \<Rightarrow> load_loop us' bs line')))"
  by pat_completeness auto
termination
  by (relation "measure (\<lambda>(us, file, line). length file)") (auto dest: parse_user_shorter)

declare load_loop.simps [simp del]

text \<open>A file that cannot be opened leaves the table empty.\<close>

definition load_users :: "byte list option \<Rightarrow> users res" where
  "load_users file = (case file of None \<Rightarrow> Inr [] | Some bytes \<Rightarrow> load_loop [] bytes 1)"

definition users_init :: "bool \<Rightarrow> byte list option \<Rightarrow> (user_status \<times> users) res" where
  "users_init malloc_ok file =
     (if \<not> malloc_ok then Inr (USERS_NOMEM_ERROR, [])
      else bindr (load_users file) (\<lambda>us. Inr (USERS_OK, us)))"

section \<open>Writing\<close>

definition user_line :: "user \<Rightarrow> byte list" where
  "user_line u = [if u_level u = ADMIN then 64 else 35] @ u_name u @ [58] @ u_pass u @ [10]"

text \<open>
  The new content of the file; an empty table leaves the file as it was. \<open>can_open\<close> says whether
  the file can be opened for writing.
\<close>

definition save_users :: "bool \<Rightarrow> users \<Rightarrow> byte list option \<Rightarrow> user_status \<times> byte list option" where
  "save_users can_open us file =
     (if length us = 0 then (USERS_OK, file)
      else if \<not> can_open then (USERS_IO_ERROR, file)
      else (USERS_OK, Some (concat (map user_line us))))"

definition users_shutdown :: "bool \<Rightarrow> users \<Rightarrow> byte list option \<Rightarrow> user_status \<times> users \<times> byte list option" where
  "users_shutdown can_open us file =
     (case save_users can_open us file of (st, file') \<Rightarrow>
      if st \<noteq> USERS_OK then (USERS_IO_ERROR, us, file') else (USERS_OK, [], file'))"

section \<open>Reading back what was written\<close>

definition printable :: "byte \<Rightarrow> bool" where
  "printable b \<longleftrightarrow> 32 \<le> sint b"

definition storable :: "user \<Rightarrow> bool" where
  "storable u \<longleftrightarrow> (\<forall>b \<in> set (u_name u). printable b \<and> b \<noteq> 58) \<and> (\<forall>b \<in> set (u_pass u). printable b)"

lemma sint_58: "sint (b :: byte) = 58 \<longleftrightarrow> b = 58"
  using signed_word_eqI [of b 58] by auto

lemma sint_10: "sint (b :: byte) = 10 \<longleftrightarrow> b = 10"
  using signed_word_eqI [of b 10] by auto

lemma parse_username_run:
  "\<forall>b \<in> set s. printable b \<and> b \<noteq> 58 \<Longrightarrow> length acc + length s \<le> 256 \<Longrightarrow>
     parse_username (s @ 58 # rest) acc line = Field (acc @ s) rest line"
proof (induction s arbitrary: acc)
  case (Cons b s)
  then have "length acc \<le> 255" "32 \<le> sint b" "sint b \<noteq> 58" by (auto simp: printable_def sint_58)
  with Cons show ?case by (simp add: USERNAME_DELIMITER_def MAX_USERNAME_LEN_def)
qed (simp add: USERNAME_DELIMITER_def)

lemma parse_password_run:
  "\<forall>b \<in> set s. printable b \<Longrightarrow> length acc + length s \<le> 256 \<Longrightarrow>
     parse_password (s @ 10 # rest) acc line = Field (acc @ s) rest (line + 1)"
proof (induction s arbitrary: acc)
  case (Cons b s)
  then have "length acc \<le> 255" "32 \<le> sint b" by (auto simp: printable_def)
  with Cons show ?case by (simp add: newline_def MAX_PASSWORD_LEN_def)
qed (simp add: newline_def)

lemma parse_user_line:
  assumes "storable u" and "length (u_name u) \<le> 255" and "length (u_pass u) \<le> 255"
    and "u_level u = ADMIN \<or> u_level u = USER"
  shows "parse_user (user_line u @ rest) line = Inr (0, Some u, rest, line + 1)"
proof -
  have "parse_username (u_name u @ 58 # u_pass u @ 10 # rest) [] line =
      Field (u_name u) (u_pass u @ 10 # rest) line"
    using parse_username_run [of "u_name u" "[]" "u_pass u @ 10 # rest" line] assms
    by (simp add: storable_def)
  moreover have "parse_password (u_pass u @ 10 # rest) [] line = Field (u_pass u) rest (line + 1)"
    using parse_password_run [of "u_pass u" "[]" rest line] assms by (simp add: storable_def)
  ultimately show ?thesis
    using assms
    by (auto simp: parse_user_def user_line_def isspace_def newline_def Let_def terminate_field_def
        ADMIN_ACCESS_LEVEL_SPECIFIER_def USER_ACCESS_LEVEL_SPECIFIER_def ADMIN_def USER_def)
qed

lemma user_create_new:
  assumes "users_ok (us @ [u])"
  shows "user_create us (Some (u_name u)) (Some (u_pass u)) (u_level u) = Inr (USERS_OK, us @ [u])"
  using assms
  by (auto simp: user_create_def users_ok_def get_user_index_def find_index_None strcpy_into_def)

lemma load_loop_end: "load_loop us [] line = Inr us"
  by (subst load_loop.simps) (simp add: parse_user_def)

lemma load_loop_lines:
  "users_ok (us @ vs) \<Longrightarrow> \<forall>u \<in> set vs. storable u \<Longrightarrow>
     load_loop us (concat (map user_line vs)) line = Inr (us @ vs)"
proof (induction vs arbitrary: us line)
  case Nil
  then show ?case by (simp add: load_loop_end)
next
  case (Cons v vs)
  then have p: "parse_user (user_line v @ concat (map user_line vs)) line =
      Inr (0, Some v, concat (map user_line vs), line + 1)"
    by (intro parse_user_line) (auto simp: users_ok_def MAX_USERNAME_LEN_def MAX_PASSWORD_LEN_def)
  have ok: "users_ok (us @ [v])" using Cons.prems by (auto simp: users_ok_def)
  have "load_loop us (concat (map user_line (v # vs))) line =
      load_loop (us @ [v]) (concat (map user_line vs)) (line + 1)"
    using p user_create_new [OF ok] by (subst load_loop.simps) simp
  with Cons show ?case by simp
qed

section \<open>Properties\<close>

text \<open>
  Saving and loading the users is the identity: for every non-empty table that respects the
  limits and whose names and passwords are printable ASCII, with no colon in a name, the file
  written at shutdown is read back at the next start as the same users with the same passwords and
  access levels in the same order.
\<close>

theorem users_file_roundtrip:
  assumes "users_ok us" and "us \<noteq> []" and "\<forall>u \<in> set us. storable u"
    and "users_shutdown True us old = (st, us', saved)"
  shows "st = USERS_OK \<and> us' = [] \<and> users_init True saved = Inr (USERS_OK, us)"
  using assms load_loop_lines [of "[]" us 1]
  by (auto simp: users_shutdown_def save_users_def users_init_def load_users_def)

theorem users_file_roundtrip_witness:
  "\<exists>st us' saved. users_shutdown True
      [\<lparr>u_name = [97, 100], u_pass = [58, 120], u_level = ADMIN\<rparr>, \<lparr>u_name = [98], u_pass = [], u_level = USER\<rparr>]
      None = (st, us', saved) \<and>
    users_init True saved = Inr (USERS_OK,
      [\<lparr>u_name = [97, 100], u_pass = [58, 120], u_level = ADMIN\<rparr>, \<lparr>u_name = [98], u_pass = [], u_level = USER\<rparr>])"
proof -
  let ?us = "[\<lparr>u_name = [97, 100], u_pass = [58, 120], u_level = ADMIN\<rparr>, \<lparr>u_name = [98], u_pass = [], u_level = USER\<rparr>]"
  obtain st us' saved where r: "users_shutdown True ?us None = (st, us', saved)"
    by (cases "users_shutdown True ?us None") auto
  have "users_ok ?us" "\<forall>u \<in> set ?us. storable u"
    by (simp_all add: users_ok_def MAX_USERS_REGISTERED_def MAX_USERNAME_LEN_def MAX_PASSWORD_LEN_def
        storable_def printable_def)
  from users_file_roundtrip [OF this(1) _ this(2) r] r show ?thesis by blast
qed

text \<open>
  Deleting the last user does not survive a restart: an empty table is not written at shutdown,
  so the file still holds the user that was deleted and the next start loads it again, with its
  password and access level.
\<close>

theorem last_deleted_user_returns:
  assumes "users_ok [u]" and "storable u"
    and "user_delete [u] (Some (u_name u)) = (st, us)"
    and "users_shutdown True us (Some (user_line u)) = (st', us', saved)"
  shows "st = USERS_OK \<and> us = [] \<and> st' = USERS_OK \<and> users_init True saved = Inr (USERS_OK, [u])"
  using assms load_loop_lines [of "[]" "[u]" 1]
  by (auto simp: user_delete_def get_user_index_def users_shutdown_def save_users_def users_init_def
      load_users_def)

theorem last_deleted_user_returns_witness:
  "\<exists>st us st' us' saved.
     user_delete [\<lparr>u_name = [97], u_pass = [98], u_level = ADMIN\<rparr>] (Some [97]) = (st, us) \<and>
     users_shutdown True us (Some (user_line \<lparr>u_name = [97], u_pass = [98], u_level = ADMIN\<rparr>)) = (st', us', saved) \<and>
     users_init True saved = Inr (USERS_OK, [\<lparr>u_name = [97], u_pass = [98], u_level = ADMIN\<rparr>])"
proof -
  let ?u = "\<lparr>u_name = [97], u_pass = [98], u_level = ADMIN\<rparr>"
  obtain st us where d: "user_delete [?u] (Some (u_name ?u)) = (st, us)"
    by (cases "user_delete [?u] (Some (u_name ?u))") auto
  obtain st' us' saved where s: "users_shutdown True us (Some (user_line ?u)) = (st', us', saved)"
    by (cases "users_shutdown True us (Some (user_line ?u))") auto
  have "users_ok [?u]" "storable ?u"
    by (simp_all add: users_ok_def MAX_USERS_REGISTERED_def MAX_USERNAME_LEN_def MAX_PASSWORD_LEN_def
        storable_def printable_def)
  from last_deleted_user_returns [OF this d s] d s show ?thesis by auto
qed

text \<open>
  A name with a colon changes identity on reload: the file format does not escape the
  delimiter, so a user created with a name \<open>a:b\<close> and a password \<open>p\<close> comes back as the user \<open>a\<close>
  with the password \<open>b:p\<close>.
\<close>

theorem colon_in_name_reloads_as_other_user:
  assumes "storable \<lparr>u_name = a, u_pass = b @ 58 # p, u_level = l\<rparr>"
    and "length (a @ 58 # b @ p) < 255" and "l = ADMIN \<or> l = USER"
    and "users_shutdown True [\<lparr>u_name = a @ 58 # b, u_pass = p, u_level = l\<rparr>] old = (st, us', saved)"
  shows "users_init True saved = Inr (USERS_OK, [\<lparr>u_name = a, u_pass = b @ 58 # p, u_level = l\<rparr>])"
proof -
  let ?u = "\<lparr>u_name = a, u_pass = b @ 58 # p, u_level = l\<rparr>"
  have "user_line \<lparr>u_name = a @ 58 # b, u_pass = p, u_level = l\<rparr> = user_line ?u"
    by (simp add: user_line_def)
  then have "saved = Some (concat (map user_line [?u]))"
    using assms(4) by (auto simp: users_shutdown_def save_users_def)
  moreover have "users_ok [?u]"
    using assms(2,3)
    by (simp add: users_ok_def MAX_USERS_REGISTERED_def MAX_USERNAME_LEN_def MAX_PASSWORD_LEN_def)
  ultimately show ?thesis
    using load_loop_lines [of "[]" "[?u]" 1] assms(1) by (simp add: users_init_def load_users_def)
qed

theorem colon_in_name_reloads_as_other_user_witness:
  "\<exists>st us' saved.
     users_shutdown True [\<lparr>u_name = [97, 58, 98], u_pass = [99], u_level = USER\<rparr>] None = (st, us', saved) \<and>
     users_init True saved = Inr (USERS_OK, [\<lparr>u_name = [97], u_pass = [98, 58, 99], u_level = USER\<rparr>])"
proof -
  obtain st us' saved where s:
    "users_shutdown True [\<lparr>u_name = [97] @ 58 # [98], u_pass = [99], u_level = USER\<rparr>] None = (st, us', saved)"
    by (cases "users_shutdown True [\<lparr>u_name = [97] @ 58 # [98], u_pass = [99], u_level = USER\<rparr>] None") auto
  from colon_in_name_reloads_as_other_user [OF _ _ _ s] s show ?thesis
    by (simp add: storable_def printable_def)
qed

end
