(* ===== verification/Net_Utils.thy ===== *)
theory Net_Utils
  imports Request
begin

text \<open>
  The helpers over blocking and non-blocking sockets: \<^verbatim>\<open>send_all\<close> of
  \<^verbatim>\<open>src/src/server/io_utils.c\<close>, and the two loops and the address printer of
  \<^verbatim>\<open>src/src/lib/netutils/netutils.c\<close>. The answers of a socket are given call by call. A
  loop that could repeat an interrupted call for ever is a partial function; the others end for
  every sequence of answers, by a measure.
\<close>

section \<open>Sending everything\<close>

text \<open>The result is None when the loop never ends; otherwise the value returned and what was sent.\<close>

partial_function (option) send_loop :: "(nat \<Rightarrow> send_answer) \<Rightarrow> nat \<Rightarrow> int \<Rightarrow> byte list \<Rightarrow> byte list \<Rightarrow>
    (int \<times> byte list) option" where
  "send_loop ans i len sent p =
     (if p = [] then Some (len, sent)
      else case ans i of
          Takes k \<Rightarrow>
            if take k p \<noteq> [] then send_loop ans (i + 1) len (sent @ take k p) (drop k p) else Some (-1, sent)
        | SendErr e \<Rightarrow>
            if e = EAGAIN then Some (len - int (length p), sent)
            else if e = EINTR then send_loop ans (i + 1) len sent p
            else Some (-1, sent))"

text \<open>
  The length is kept in an \<^verbatim>\<open>int\<close>; one that comes out negative asks the socket to read far
  behind the memory.
\<close>

definition send_all :: "(nat \<Rightarrow> send_answer) \<Rightarrow> byte list \<Rightarrow> (int \<times> byte list) res option" where
  "send_all ans buf =
     (let left = sint (of_nat (length buf) :: 32 word) in
      if left < 0 then Some (Inl OutOfBounds)
      else map_option Inr (send_loop ans 0 left [] (take (nat left) buf)))"

text \<open>The number of interruptions before the next other answer.\<close>

definition interruptions :: "(nat \<Rightarrow> send_answer) \<Rightarrow> nat \<Rightarrow> nat" where
  "interruptions ans i = (LEAST d. ans (i + d) \<noteq> SendErr EINTR)"

lemma interruptions_step:
  assumes "\<forall>i. \<exists>j \<ge> i. ans j \<noteq> SendErr EINTR" and "ans i = SendErr EINTR"
  shows "interruptions ans (i + 1) < interruptions ans i"
proof -
  obtain j where "i \<le> j" "ans j \<noteq> SendErr EINTR" using assms(1) by blast
  then have ex: "\<exists>d. ans (i + d) \<noteq> SendErr EINTR" using le_Suc_ex by blast
  let ?d = "interruptions ans i"
  have d: "ans (i + ?d) \<noteq> SendErr EINTR" unfolding interruptions_def using ex by (rule LeastI_ex)
  then have pos: "?d \<noteq> 0" using assms(2) by (metis add_0_right)
  then have "ans (i + 1 + (?d - 1)) \<noteq> SendErr EINTR" using d by simp
  then have "interruptions ans (i + 1) \<le> ?d - 1" unfolding interruptions_def [of ans "i + 1"] by (rule Least_le)
  with pos show ?thesis by simp
qed

lemma send_loop_returns:
  assumes "\<forall>i. \<exists>j \<ge> i. ans j \<noteq> SendErr EINTR"
  shows "\<exists>r n. send_loop ans i (int (length sent + length p)) sent p = Some (r, sent @ take n p) \<and> n \<le> length p \<and>
    (r = int (length sent + n) \<or> r = -1 \<and> n < length p)"
proof (induction "(length p, interruptions ans i)" arbitrary: i sent p rule: wf_induct_rule [OF wf_lex_prod [OF wf_less wf_less]])
  case (1 i p sent)
  note unfolded = send_loop.simps [of ans i "int (length sent + length p)" sent p]
  show ?case
  proof (cases "p = []")
    case True
    then show ?thesis unfolding unfolded by simp
  next
    case False
    show ?thesis
    proof (cases "ans i")
      case (Takes k)
      show ?thesis
      proof (cases "k = 0")
        case True
        then show ?thesis using Takes False unfolding unfolded by (intro exI [of _ "-1"] exI [of _ 0]) simp
      next
        case pos: False
        let ?s = "sent @ take k p" and ?q = "drop k p"
        have len: "length ?s + length ?q = length sent + length p" by simp
        have less: "((length ?q, interruptions ans (i + 1)), (length p, interruptions ans i)) \<in> {(x, y). x < y} <*lex*> {(x, y). x < y}"
          using False pos by simp
        from 1 [OF less, of ?s] obtain r n where r: "send_loop ans (i + 1) (int (length ?s + length ?q)) ?s ?q = Some (r, ?s @ take n ?q)"
          "n \<le> length ?q" "r = int (length ?s + n) \<or> r = -1 \<and> n < length ?q" by blast
        have "?s @ take n ?q = sent @ take (min k (length p) + n) p"
          by (simp add: take_add min_def)
        then show ?thesis using Takes False pos r unfolding unfolded len
          by (intro exI [of _ r] exI [of _ "min k (length p) + n"]) auto
      qed
    next
      case (SendErr e)
      show ?thesis
      proof (cases "e = EINTR")
        case True
        then have "((length p, interruptions ans (i + 1)), (length p, interruptions ans i)) \<in> {(x, y). x < y} <*lex*> {(x, y). x < y}"
          using interruptions_step [OF assms] SendErr by simp
        from 1 [OF this, of sent] show ?thesis using SendErr False True unfolding unfolded by (simp add: EAGAIN_def EINTR_def)
      next
        case other: False
        show ?thesis
        proof (cases "e = EAGAIN")
          case True
          then show ?thesis using SendErr False unfolding unfolded by (intro exI [of _ "int (length sent)"] exI [of _ 0]) simp
        next
          case False
          then show ?thesis using SendErr other \<open>p \<noteq> []\<close> unfolding unfolded by (intro exI [of _ "-1"] exI [of _ 0]) simp
        qed
      qed
    qed
  qed
qed



section \<open>Draining a buffer into a blocking socket\<close>

text \<open>The result: 0 or an error number, what was sent, and the buffer.\<close>

function sock_blocking_write :: "(nat \<Rightarrow> send_answer) \<Rightarrow> nat \<Rightarrow> int \<Rightarrow> buffer \<Rightarrow> (int \<times> byte list \<times> buffer) res" where
  "sock_blocking_write ans i errno b =
     (case buffer_read_ptr b of
        Inl e \<Rightarrow> Inl e
      | Inr (ptr, n) \<Rightarrow>
          (case ans i of
             SendErr e \<Rightarrow> Inr (e, [], b)
           | Takes k \<Rightarrow>
               let bs = take k (take n (drop ptr (b_data b))) in
               if bs = [] then Inr (errno, [], b)
               else (case buffer_read_adv b (int (length bs)) of
                   Inl e \<Rightarrow> Inl e
                 | Inr b' \<Rightarrow>
                     if buffer_can_read b'
                     then bindr (sock_blocking_write ans (i + 1) errno b') (\<lambda>(ret, sent, b''). Inr (ret, bs @ sent, b''))
                     else Inr (0, bs, b'))))"
  by pat_completeness auto

lemma read_adv_shrinks:
  assumes "buffer_read_adv b (int n) = Inr b'" and "0 < n" and "buffer_can_read b'"
  shows "b_write b' - b_read b' < b_write b - b_read b"
  using assms by (auto simp: buffer_read_adv_def buffer_compact_def can_read_iff Let_def split: if_splits)

termination sock_blocking_write
  by (relation "measure (\<lambda>(ans, i, errno, b). b_write b - b_read b)")
    (auto intro: read_adv_shrinks)

declare sock_blocking_write.simps [simp del]

lemma blocking_write_run:
  assumes "buffer_ok b" and "contents b \<noteq> []" and "\<forall>i. \<exists>k > 0. ans i = Takes k"
  shows "\<exists>b'. sock_blocking_write ans i errno b = Inr (0, contents b, b') \<and> buffer_ok b' \<and> contents b' = []"
  using assms
proof (induction ans i errno b rule: sock_blocking_write.induct)
  case (1 ans i errno b)
  obtain k where k: "0 < k" "ans i = Takes k" using 1(4) by blast
  have ptr: "buffer_read_ptr b = Inr (b_read b, b_write b - b_read b)"
    using 1(2) by (simp add: buffer_read_ptr_def buffer_ok_def)
  have bs: "take k (take (b_write b - b_read b) (drop (b_read b) (b_data b))) = take k (contents b)"
    by (simp add: contents_def)
  have ne: "take k (contents b) \<noteq> []" using k 1(3) by simp
  obtain b' where adv: "buffer_read_adv b (int (length (take k (contents b)))) = Inr b'" and ok: "buffer_ok b'"
    and rest: "contents b' = drop (length (take k (contents b))) (contents b)"
    using read_adv_total [OF 1(2), of "length (take k (contents b))"] by auto
  have rest': "contents b' = drop k (contents b)" unfolding rest by (simp add: min_def)
  have step: "sock_blocking_write ans i errno b =
      (let bs = take k (contents b) in
       if bs = [] then Inr (errno, [], b)
       else (case buffer_read_adv b (int (length bs)) of
           Inl e \<Rightarrow> Inl e
         | Inr b' \<Rightarrow>
             if buffer_can_read b'
             then bindr (sock_blocking_write ans (i + 1) errno b') (\<lambda>(ret, sent, b''). Inr (ret, bs @ sent, b''))
             else Inr (0, bs, b')))"
    unfolding sock_blocking_write.simps [of ans i errno b] ptr k(2) sum.case prod.case send_answer.case bs ..
  show ?case
  proof (cases "buffer_can_read b'")
    case False
    then have "drop k (contents b) = []" using can_read_contents [OF ok] rest' by simp
    then have "take k (contents b) = contents b" by simp
    then show ?thesis using False ne adv ok rest' unfolding step by simp
  next
    case True
    then have more: "contents b' \<noteq> []" using can_read_contents [OF ok] by simp
    have "\<exists>b''. sock_blocking_write ans (i + 1) errno b' = Inr (0, contents b', b'') \<and> buffer_ok b'' \<and> contents b'' = []"
      by (rule 1(1) [OF ptr refl k(2) refl _ _ True ok more 1(4)]) (use ne adv in \<open>simp_all only: bs not_False_eq_True\<close>)
    then obtain b'' where b'': "sock_blocking_write ans (i + 1) errno b' = Inr (0, contents b', b'')" "buffer_ok b''" "contents b'' = []"
      by blast
    have "take k (contents b) @ contents b' = contents b" using rest' by simp
    then show ?thesis using True ne adv b'' unfolding step by simp
  qed
qed

section \<open>Copying from one blocking socket to another\<close>

text \<open>One block: the inner loop.\<close>

function copy_block :: "(nat \<Rightarrow> send_answer) \<Rightarrow> nat \<Rightarrow> int \<Rightarrow> byte list \<Rightarrow> int option \<times> byte list \<times> nat" where
  "copy_block ans i errno bs =
     (case ans i of
        SendErr e \<Rightarrow> (Some e, [], i + 1)
      | Takes k \<Rightarrow>
          if take k bs = [] then (Some errno, [], i + 1)
          else if drop k bs = [] then (None, take k bs, i + 1)
          else let (err, sent, j) = copy_block ans (i + 1) errno (drop k bs) in (err, take k bs @ sent, j))"
  by pat_completeness auto

termination copy_block
  by (relation "measure (\<lambda>(ans, i, errno, bs). length bs)") auto

declare copy_block.simps [simp del]

text \<open>
  The source is given as the segments that arrive, its end as the end of the list; a block is at
  most 4096 bytes of the first segment. A failing \<^verbatim>\<open>recv\<close> ends the loop like the end of the
  stream.
\<close>

function sock_blocking_copy :: "(nat \<Rightarrow> send_answer) \<Rightarrow> nat \<Rightarrow> int \<Rightarrow> recv_answer list \<Rightarrow> int \<times> byte list" where
  "sock_blocking_copy ans i errno [] = (0, [])"
| "sock_blocking_copy ans i errno (RecvErr e # segs) = (0, [])"
| "sock_blocking_copy ans i errno (Avail bs # segs) =
     (if bs = [] then (0, [])
      else let (err, sent, j) = copy_block ans i errno (take 4096 bs) in
        case err of
          Some e \<Rightarrow> (e, sent)
        | None \<Rightarrow>
            let (ret, more) = sock_blocking_copy ans j errno (if length bs \<le> 4096 then segs else Avail (drop 4096 bs) # segs)
            in (ret, sent @ more))"
  by pat_completeness auto

fun segment_size :: "recv_answer \<Rightarrow> nat" where
  "segment_size (Avail bs) = length bs + 1"
| "segment_size (RecvErr e) = 1"

termination sock_blocking_copy
  by (relation "measure (\<lambda>(ans, i, errno, segs). sum_list (map segment_size segs))") auto

lemma copy_block_all:
  "\<forall>i. \<exists>k > 0. ans i = Takes k \<Longrightarrow> bs \<noteq> [] \<Longrightarrow> \<exists>j. copy_block ans i errno bs = (None, bs, j)"
proof (induction ans i errno bs rule: copy_block.induct)
  case (1 ans i errno bs)
  then obtain k where k: "0 < k" "ans i = Takes k" by blast
  note unfolded = copy_block.simps [of ans i errno bs]
  show ?case
  proof (cases "drop k bs = []")
    case True
    then show ?thesis using k 1(3) unfolding unfolded by simp
  next
    case False
    then obtain j where "copy_block ans (i + 1) errno (drop k bs) = (None, drop k bs, j)"
      using 1(1) [OF k(2) _ False 1(2) False] k 1(3) by auto
    then show ?thesis using k 1(3) False unfolding unfolded by simp
  qed
qed

text \<open>The bytes of segments that hold data and no failure.\<close>

lemma blocking_copy_run:
  assumes "\<forall>i. \<exists>k > 0. ans i = Takes k" and "\<forall>bs \<in> set segs. bs \<noteq> []"
  shows "sock_blocking_copy ans i errno (map Avail segs) = (0, concat segs)"
  using assms
proof (induction "sum_list (map (\<lambda>bs. length bs + 1) segs)" arbitrary: i segs rule: less_induct)
  case less
  show ?case
  proof (cases segs)
    case Nil
    then show ?thesis by simp
  next
    case (Cons bs rest)
    have ne: "bs \<noteq> []" "take 4096 bs \<noteq> []" using less.prems(2) Cons by auto
    from copy_block_all [OF less.prems(1) ne(2)] obtain j where j: "copy_block ans i errno (take 4096 bs) = (None, take 4096 bs, j)" by blast
    show ?thesis
    proof (cases "length bs \<le> 4096")
      case True
      have "sock_blocking_copy ans j errno (map Avail rest) = (0, concat rest)"
        by (rule less.hyps) (use less.prems Cons in auto)
      then show ?thesis using Cons ne j True by simp
    next
      case False
      have "sock_blocking_copy ans j errno (map Avail (drop 4096 bs # rest)) = (0, concat (drop 4096 bs # rest))"
        by (rule less.hyps) (use less.prems Cons False in auto)
      then show ?thesis using Cons ne j False by (simp add: append_assoc [symmetric] del: append_assoc)
    qed
  qed
qed

text \<open>
  The blocking helpers end with everything delivered. With a destination that takes at least
  one byte of every call, writing a buffer out sends exactly its contents and leaves it empty, and
  copying a stream sends exactly its bytes, however they are cut into segments and however few
  bytes each call takes.
\<close>

theorem blocking_helpers_deliver:
  assumes "\<forall>i. \<exists>k > 0. ans i = Takes k" and "buffer_ok b" and "contents b \<noteq> []" and "\<forall>bs \<in> set segs. bs \<noteq> []"
  shows "(\<exists>b'. sock_blocking_write ans i errno b = Inr (0, contents b, b') \<and> buffer_ok b' \<and> contents b' = []) \<and>
    sock_blocking_copy ans i errno (map Avail segs) = (0, concat segs)"
  using blocking_write_run [OF assms(2,3,1)] blocking_copy_run [OF assms(1,4)] by blast

theorem blocking_helpers_deliver_witness:
  "\<exists>b b'. contents b = [7, 8, 9] \<and> sock_blocking_write (\<lambda>_. Takes 2) 0 0 b = Inr (0, [7, 8, 9], b') \<and> contents b' = [] \<and>
    sock_blocking_copy (\<lambda>_. Takes 2) 0 0 [Avail [1, 2, 3], Avail [4]] = (0, [1, 2, 3, 4])"
proof -
  let ?b = "\<lparr>b_data = [7, 8, 9, 0], b_limit = 4, b_read = 0, b_write = 3\<rparr>"
  have "buffer_ok ?b" "contents ?b = [7, 8, 9]" by (simp_all add: buffer_ok_def contents_def)
  moreover from this obtain b' where "sock_blocking_write (\<lambda>_. Takes 2) 0 0 ?b = Inr (0, [7, 8, 9], b')" "contents b' = []"
    "sock_blocking_copy (\<lambda>_. Takes 2) 0 0 [Avail [1, 2, 3], Avail [4]] = (0, [1, 2, 3, 4])"
    using blocking_helpers_deliver [of "\<lambda>_. Takes 2" ?b "[[1, 2, 3], [4]]" 0 0] by (auto simp del: sock_blocking_copy.simps)
  ultimately show ?thesis by blast
qed

section \<open>Printing an address\<close>

text \<open>\<^verbatim>\<open>strncpy\<close> into the whole of an array: the string, cut or padded with zeros.\<close>

definition strncpy_all :: "byte list \<Rightarrow> byte list \<Rightarrow> byte list" where
  "strncpy_all buff s = take (length buff) (s @ replicate (length buff) 0)"

text \<open>\<^verbatim>\<open>strncat\<close> of one character: behind the string in the array, and the terminator behind it.\<close>

definition strncat_char :: "byte list \<Rightarrow> byte \<Rightarrow> byte list res" where
  "strncat_char buff c =
     bindr (string_at buff) (\<lambda>s.
     bindr (arr_set buff (length s) c) (\<lambda>b1. arr_set b1 (length s + 1) 0))"

text \<open>\<^verbatim>\<open>snprintf\<close> at an offset: as much as fits with a terminator.\<close>

definition snprintf_at :: "byte list \<Rightarrow> nat \<Rightarrow> byte list \<Rightarrow> byte list" where
  "snprintf_at buff pos s =
     (let room = length buff - pos in
      if room = 0 then buff else overwrite buff pos (take (room - 1) s @ [0]))"

text \<open>The texts ``null'', ``unknown ip'' and ``unknown'' in ASCII.\<close>

definition null_text :: "byte list" where "null_text = [110, 117, 108, 108]"
definition unknown_ip_text :: "byte list" where "unknown_ip_text = [117, 110, 107, 110, 111, 119, 110, 32, 105, 112]"
definition unknown_text :: "byte list" where "unknown_text = [117, 110, 107, 110, 111, 119, 110]"

text \<open>
  \<open>ntop\<close> is the text \<^verbatim>\<open>inet_ntop\<close> finds for an address, if any; it fails when the text and its
  terminator do not fit.
\<close>

definition sockaddr_to_human :: "(addrinfo \<Rightarrow> byte list option) \<Rightarrow> byte list \<Rightarrow> addrinfo option \<Rightarrow> byte list res" where
  "sockaddr_to_human ntop buff addr =
     (case addr of
        None \<Rightarrow> Inr (strncpy_all buff null_text)
      | Some ai \<Rightarrow>
          let handled = (ai_family ai = AF_INET \<or> ai_family ai = AF_INET6);
              size = length buff in
          bindr (if handled then
                   (case ntop ai of
                      Some t \<Rightarrow>
                        if length t < size then Inr (overwrite buff 0 (t @ [0]))
                        else arr_set (strncpy_all buff unknown_ip_text) (size - 1) 0
                    | None \<Rightarrow> arr_set (strncpy_all buff unknown_ip_text) (size - 1) 0)
                 else Inr (strncpy_all buff unknown_text)) (\<lambda>b1.
          bindr (strncat_char b1 58) (\<lambda>b2.
          bindr (arr_set b2 (size - 1) 0) (\<lambda>b3.
          bindr (string_at b3) (\<lambda>s.
            let b4 = (if handled then snprintf_at b3 (length s) (decimal (unat (ai_port ai))) else b3) in
            arr_set b4 (size - 1) 0)))))"


lemma cstr_ended: "0 \<notin> set s \<Longrightarrow> length s \<le> i \<Longrightarrow> cstr ((s @ 0 # r)[i := 0]) = s \<and> has_nul ((s @ 0 # r)[i := 0])"
proof -
  assume s: "0 \<notin> set s" "length s \<le> i"
  then obtain r' where "(s @ 0 # r)[i := 0] = s @ 0 # r'"
    by (cases "i - length s") (simp_all add: list_update_append)
  then show ?thesis using cstr_append_nul [OF s(1)] by (simp add: has_nul_def)
qed

lemma string_at_ended: "0 \<notin> set s \<Longrightarrow> length s \<le> i \<Longrightarrow> string_at ((s @ 0 # r)[i := 0]) = Inr s"
  by (simp add: string_at_def cstr_ended)

lemma decimal_no_zero: "0 \<notin> set (decimal n)"
proof (induction n rule: decimal.induct)
  case (1 n)
  have "of_nat (48 + k) \<noteq> (0 :: byte)" if "k < 10" for k
  proof -
    from that have "k \<in> {0, 1, 2, 3, 4, 5, 6, 7, 8, 9}" unfolding insert_iff empty_iff by arith
    then show ?thesis by auto
  qed
  from this [of n] this [of "n mod 10"] 1 show ?case unfolding decimal.simps [of n] by (auto simp del: of_nat_add)
qed

lemma printed_address:
  assumes fam: "ai_family ai = AF_INET \<or> ai_family ai = AF_INET6" and t: "ntop ai = Some t" "0 \<notin> set t"
    and room: "length t + 1 + length (decimal (unat (ai_port ai))) < length buff"
  shows "\<exists>b. sockaddr_to_human ntop buff (Some ai) = Inr b \<and> cstr b = t @ 58 # decimal (unat (ai_port ai)) \<and> length b = length buff"
proof -
  let ?d = "decimal (unat (ai_port ai))" and ?n = "length buff - 1"
  obtain x r where r: "drop (length t + 1) buff = x # r" using room by (cases "drop (length t + 1) buff") auto
  have lr: "length r = length buff - length t - 2" using arg_cong [OF r, of length] by simp
  have b1: "overwrite buff 0 (t @ [0]) = t @ 0 # x # r" using r by (simp add: overwrite_def)
  have s1: "string_at (t @ 0 # x # r) = Inr t" using string_at_ended [OF t(2), of "length t" "x # r"] by (simp add: list_update_append)
  have b2: "strncat_char (t @ 0 # x # r) 58 = Inr ((t @ [58]) @ 0 # r)" using s1 by (simp add: strncat_char_def list_update_append)
  have s3: "0 \<notin> set (t @ [58])" "length (t @ [58]) \<le> ?n" using t(2) room by auto
  have b3: "arr_set ((t @ [58]) @ 0 # r) ?n 0 = Inr (((t @ [58]) @ 0 # r)[?n := 0])" using lr room by (simp add: arr_set_def)
  let ?b3 = "((t @ [58]) @ 0 # r)[?n := 0]"
  have l3: "length ?b3 = length buff" using lr room by simp
  have tk: "take (length t + 1) ?b3 = t @ [58]"
    using s3(2) take_update_cancel [of "length (t @ [58])" ?n "(t @ [58]) @ 0 # r" 0] by simp
  obtain r4 where b4: "snprintf_at ?b3 (length (t @ [58])) ?d = (t @ 58 # ?d) @ 0 # r4"
    using room l3 tk by (auto simp: snprintf_at_def overwrite_def Let_def)
  have "length (snprintf_at ?b3 (length (t @ [58])) ?d) = length buff" using room l3 by (auto simp: snprintf_at_def Let_def)
  then have l4: "length ((t @ 58 # ?d) @ 0 # r4) = length buff" unfolding b4 .
  have fin: "arr_set ((t @ 58 # ?d) @ 0 # r4) ?n 0 = Inr (((t @ 58 # ?d) @ 0 # r4)[?n := 0])" using l4 room by (simp add: arr_set_def)
  have e: "0 \<notin> set (t @ 58 # ?d)" "length (t @ 58 # ?d) \<le> ?n" using t(2) decimal_no_zero room by auto
  have "sockaddr_to_human ntop buff (Some ai) = Inr (((t @ 58 # ?d) @ 0 # r4)[?n := 0])"
    unfolding sockaddr_to_human_def option.case Let_def using fam room
    by (simp add: t(1) b1 b2 b3 string_at_ended [OF s3] b4 fin del: length_append append_assoc append.simps One_nat_def)
  then show ?thesis using cstr_ended [OF e] l4 by auto
qed

text \<open>
  An address whose text just fits leaves no room for the colon: its terminator is written one
  byte behind the array.
\<close>

lemma full_address_overflows:
  assumes "ai_family ai = AF_INET \<or> ai_family ai = AF_INET6" and t: "ntop ai = Some t" "0 \<notin> set t"
    and full: "length buff = length t + 1"
  shows "sockaddr_to_human ntop buff (Some ai) = Inl OutOfBounds"
proof -
  have b1: "overwrite buff 0 (t @ [0]) = t @ [0]" using full by (simp add: overwrite_def)
  have "string_at (t @ [0]) = Inr t" using string_at_ended [OF t(2), of "length t" "[]"] by (simp add: list_update_append)
  then have "strncat_char (t @ [0]) 58 = Inl OutOfBounds" by (simp add: strncat_char_def)
  then show ?thesis using assms by (simp add: sockaddr_to_human_def b1)
qed

end
