(* ===== verification/Effects.thy ===== *)
theory Effects
  imports Monitor_Machine
begin

text \<open>
  What the callbacks do to the world, seen from outside: they touch only the object their
  descriptor belongs to, go through a few primitives, and only some of them connect, or change the
  directory. The primitives are the assumptions of two locales, one for the callbacks of a client
  and one for those of an administrator; inside, every callback is shown to preserve any property
  of worlds the primitives preserve.
\<close>

section \<open>Preservation\<close>

definition preserves :: "(world \<Rightarrow> bool) \<Rightarrow> world \<Rightarrow> ('x \<times> world) res \<Rightarrow> bool" where
  "preserves K w r \<longleftrightarrow> (K w \<longrightarrow> (\<forall>ret w'. r = Inr (ret, w') \<longrightarrow> K w'))"

definition preserves1 :: "(world \<Rightarrow> bool) \<Rightarrow> world \<Rightarrow> world res \<Rightarrow> bool" where
  "preserves1 K w r \<longleftrightarrow> (K w \<longrightarrow> (\<forall>w'. r = Inr w' \<longrightarrow> K w'))"

lemma preservesD: "preserves K w r \<Longrightarrow> r = Inr (ret, w') \<Longrightarrow> K w \<longrightarrow> K w'"
  by (simp add: preserves_def)

lemma preserves1D: "preserves1 K w r \<Longrightarrow> r = Inr w' \<Longrightarrow> K w \<longrightarrow> K w'"
  by (simp add: preserves1_def)

text \<open>The engine preserves what the callbacks of its table preserve.\<close>

definition table_preserves :: "('w \<Rightarrow> bool) \<Rightarrow> 'k \<Rightarrow> ('k, 'w) state_definition list \<Rightarrow> bool" where
  "table_preserves K key states \<longleftrightarrow> (\<forall>sd \<in> set states.
     (\<forall>f st w w'. on_arrival sd = Some f \<longrightarrow> K w \<longrightarrow> f st key w = Inr w' \<longrightarrow> K w') \<and>
     (\<forall>f st w w'. on_departure sd = Some f \<longrightarrow> K w \<longrightarrow> f st key w = Inr w' \<longrightarrow> K w'))"

lemma run_hook_preserves:
  assumes "\<forall>f. hook = Some f \<longrightarrow> (\<forall>st w w'. K w \<longrightarrow> f st key w = Inr w' \<longrightarrow> K w')" and "K w" and "run_hook hook st key w = Inr w'"
  shows "K w'"
  using assms by (auto simp: run_hook_def split: option.splits)

lemma stm_event_preserves:
  assumes table: "table_preserves K key states" and put: "\<And>m w. K w \<Longrightarrow> K (put m w)"
    and ready: "\<And>sd f w ret w'. sd \<in> set states \<Longrightarrow> ready sd = Some f \<Longrightarrow> K w \<Longrightarrow> f key w = Inr (ret, w') \<Longrightarrow> K w'"
    and K: "K w" and run: "stm_event ready get put states key w = Inr (ret, w')"
  shows "K w'"
proof -
  have hooks: "\<forall>f. on_arrival sd = Some f \<longrightarrow> (\<forall>st w w'. K w \<longrightarrow> f st key w = Inr w' \<longrightarrow> K w')"
    "\<forall>f. on_departure sd = Some f \<longrightarrow> (\<forall>st w w'. K w \<longrightarrow> f st key w = Inr w' \<longrightarrow> K w')" if "sd \<in> set states" for sd
    using table that by (auto simp: table_preserves_def)
  have at: "sd \<in> set states" if "arr_get states i = Inr sd" for i sd
    using that by (auto simp: arr_get_Inr_iff)
  from run obtain w1 m c sd f w2 where first: "handle_first get put states key w = Inr w1" and "arr_get states c = Inr sd"
    and f: "ready sd = Some f" "f key w1 = Inr (ret, w2)" and j: "jump get put states ret key w2 = Inr w'"
    by (auto simp: stm_event_def deref_def split: option.splits)
  then have sd: "sd \<in> set states" using at by blast
  have "K w1" using first K put
    by (auto simp: handle_first_def Let_def split: option.splits dest!: at run_hook_preserves [OF hooks(1)])
  then have w2: "K w2" using ready [OF sd f(1)] f(2) by blast
  have dep: "K w3" if "(case stm_current m of None \<Rightarrow> Inr w2
      | Some c \<Rightarrow> bindr (arr_get states c) (\<lambda>sd. run_hook (on_departure sd) (sd_state sd) key w2)) = Inr w3" for m w3
    using that w2 by (auto split: option.splits dest!: at run_hook_preserves [OF hooks(2)])
  show ?thesis
  proof (cases "w' = w2")
    case False
    obtain m where m: "get w2 = Inr m" using j by (auto simp: jump_def)
    let ?dep = "case stm_current m of None \<Rightarrow> Inr w2
        | Some c \<Rightarrow> bindr (arr_get states c) (\<lambda>sd. run_hook (on_departure sd) (sd_state sd) key w2)"
    have "\<exists>w3 m3 sd. ?dep = Inr w3 \<and> arr_get states ret = Inr sd \<and>
        run_hook (on_arrival sd) (sd_state sd) key (put (m3\<lparr>stm_current := Some ret\<rparr>) w3) = Inr w'"
      using j m False by (cases ?dep) (auto simp: jump_def Let_def split: if_splits)
    then obtain w3 m3 sd where "?dep = Inr w3" and sd: "arr_get states ret = Inr sd"
      and r: "run_hook (on_arrival sd) (sd_state sd) key (put (m3\<lparr>stm_current := Some ret\<rparr>) w3) = Inr w'" by blast
    then have "K (put (m3\<lparr>stm_current := Some ret\<rparr>) w3)" using dep put by blast
    then show ?thesis using run_hook_preserves [OF hooks(1) [OF at [OF sd]] _ r] by blast
  qed (use w2 in simp)
qed

section \<open>Callbacks of a client\<close>

locale world_effects =
  fixes K :: "world \<Rightarrow> bool"
  assumes K_errno [simp]: "K w \<Longrightarrow> K (w\<lparr>w_errno := e\<rparr>)"
    and K_stats [simp]: "K w \<Longrightarrow> K (w\<lparr>w_stats := st\<rparr>)"
    and K_emit [simp]: "K w \<Longrightarrow> \<forall>fd ai. x \<noteq> Connecting fd ai \<Longrightarrow> K (emit x w)"
    and K_interest: "set_interest fd i w = Inr w' \<Longrightarrow> K w \<longrightarrow> K w'"
    and K_unregister: "unregister env fd w = Inr w' \<Longrightarrow> K w \<longrightarrow> K w'"
begin

lemma K_interest_key: "set_interest_key key i w = Inr w' \<Longrightarrow> K w \<longrightarrow> K w'"
  unfolding set_interest_key_eq by (rule K_interest)

lemma K_recv: "sys_recv env fd k w = (m, bs, w') \<Longrightarrow> K w \<longrightarrow> K w'"
  by (auto simp: sys_recv_def split: recv_answer.splits)

lemma K_send: "sys_send env fd bs w = (m, w') \<Longrightarrow> K w \<longrightarrow> K w'"
  by (auto simp: sys_send_def split: send_answer.splits)

lemma K_send_snd [simp]: "K w \<Longrightarrow> K (snd (sys_send env fd bs w))"
  by (auto simp: sys_send_def split: send_answer.splits)

lemma K_close [simp]: "K w \<Longrightarrow> K (sys_close fd w)" "K w \<Longrightarrow> K (sys_shutdown fd w)"
  by (simp_all add: sys_close_def sys_shutdown_def)

end

locale client_effects = world_effects K for K :: "world \<Rightarrow> bool" +
  fixes a :: nat
  assumes K_put [simp]: "K w \<Longrightarrow> K (put_client a c w)"
    and K_free [simp]: "K w \<Longrightarrow> K (free_client a w)"
begin

lemma K_upd_client: "upd_client a f w = Inr w' \<Longrightarrow> K w \<longrightarrow> K w'"
  by (auto simp: upd_client_def bindr_Inr_iff)

lemma K_set_parser: "set_parser a u w = Inr w' \<Longrightarrow> K w \<longrightarrow> K w'"
  unfolding set_parser_def by (rule K_upd_client)

lemma K_upd_request: "upd_request a f w = Inr w' \<Longrightarrow> K w \<longrightarrow> K w'"
  by (auto simp: upd_request_def bindr_Inr_iff dest: K_set_parser)

lemma K_set_err: "set_err a e w = Inr w' \<Longrightarrow> K w \<longrightarrow> K w'"
  unfolding set_err_def by (rule K_upd_client)

lemmas K_steps = K_interest K_interest_key K_upd_client K_set_parser K_upd_request K_set_err K_recv K_send

lemma hello_event_preserves: "preserves K w (hello_event key a ev w)"
  unfolding hello_event_def preserves_def by (auto split: if_splits dest!: K_steps)

lemma hello_events_preserves: "preserves K w (hello_events key a evs w)"
proof (induction evs arbitrary: w)
  case (Cons ev evs)
  show ?case unfolding preserves_def
    by (auto split: option.splits dest!: preservesD [OF hello_event_preserves] preservesD [OF Cons.IH])
qed (simp add: preserves_def)

lemma hello_read_preserves: "preserves K w (hello_read env (fd, Some (ClientPtr a)) w)"
  unfolding hello_read_def preserves_def
  by (auto simp: Let_def split: if_splits prod.splits dest!: K_steps preservesD [OF hello_events_preserves])

lemma hello_write_preserves: "preserves K w (hello_write env (fd, Some (ClientPtr a)) w)"
  unfolding hello_write_def preserves_def by (auto simp: Let_def split: if_splits prod.splits dest!: K_steps)

lemma auth_event_preserves: "preserves K w (auth_event key a ev w)"
  unfolding auth_event_def preserves_def by (auto simp: Let_def split: if_splits dest!: K_steps)

lemma auth_events_preserves: "preserves K w (auth_events key a evs w)"
proof (induction evs arbitrary: w)
  case (Cons ev evs)
  show ?case unfolding preserves_def
    by (auto split: option.splits dest!: preservesD [OF auth_event_preserves] preservesD [OF Cons.IH])
qed (simp add: preserves_def)

lemma auth_read_preserves: "preserves K w (auth_read env (fd, Some (ClientPtr a)) w)"
  unfolding auth_read_def preserves_def
  by (auto simp: Let_def split: if_splits prod.splits dest!: K_steps preservesD [OF auth_events_preserves])

lemma auth_write_preserves: "preserves K w (auth_write env (fd, Some (ClientPtr a)) w)"
  unfolding auth_write_def preserves_def by (auto simp: Let_def split: if_splits prod.splits dest!: K_steps)

lemma setup_lookup_preserves: "preserves K w (setup_lookup env (fd, Some (ClientPtr a)) name port w)"
  unfolding setup_lookup_def preserves_def by (auto simp: Let_def split: if_splits dest!: K_steps)

lemma handle_request_fin_preserves: "preserves K w (handle_request_fin env (fd, Some (ClientPtr a)) rp w)"
  unfolding handle_request_fin_def start_connect_def preserves_def
  by (auto simp: Let_def split: if_splits dest!: K_steps preservesD [OF setup_lookup_preserves])

lemma fin_events_preserves: "preserves K w (fin_events env (fd, Some (ClientPtr a)) a evs w)"
proof (induction evs)
  case (Cons ev evs)
  then show ?case
    by (auto simp: preserves_def fail_request_def split: if_splits dest!: K_steps preservesD [OF handle_request_fin_preserves])
qed (simp add: preserves_def)

lemma request_event_preserves: "preserves K w (request_event env (fd, Some (ClientPtr a)) a ev w)"
  unfolding request_event_def preserves_def
  by (auto simp: refuse_def fail_request_def split: if_splits
      dest!: K_steps preservesD [OF handle_request_fin_preserves] preservesD [OF fin_events_preserves])

lemma request_bytes_preserves: "preserves K w (request_bytes env (fd, Some (ClientPtr a)) a bs w)"
proof (induction bs arbitrary: w)
  case (Cons b bs)
  show ?case unfolding preserves_def
    by (auto split: option.splits dest!: K_steps preservesD [OF request_event_preserves] preservesD [OF Cons.IH])
qed (simp add: preserves_def)

lemma request_read_preserves: "preserves K w (request_read env (fd, Some (ClientPtr a)) w)"
  unfolding request_read_def preserves_def
  by (auto simp: Let_def split: if_splits prod.splits dest!: K_steps preservesD [OF request_bytes_preserves])

lemma dns_lookup_preserves: "preserves K w (dns_lookup env (fd, Some (ClientPtr a)) w)"
  unfolding dns_lookup_def preserves_def by (auto simp: Let_def split: if_splits dest!: K_steps)

lemma request_write_preserves: "preserves K w (request_write env (fd, Some (ClientPtr a)) w)"
  unfolding request_write_def preserves_def by (auto simp: Let_def split: if_splits prod.splits dest!: K_steps)

lemma forward_read_preserves: "preserves K w (forward_read env (fd, Some (ClientPtr a)) w)"
  unfolding forward_read_def preserves_def by (auto simp: Let_def split: if_splits prod.splits dest!: K_steps)

lemma forward_write_preserves: "preserves K w (forward_write env (fd, Some (ClientPtr a)) w)"
  unfolding forward_write_def preserves_def by (auto simp: Let_def split: if_splits prod.splits dest!: K_steps)

lemma drop_fds_preserve:
  "preserves1 K w (drop_client_fd env a w)" "preserves1 K w (drop_destination_fd env a w)"
  unfolding drop_client_fd_def drop_destination_fd_def preserves1_def
  by (auto split: if_splits dest!: K_steps K_unregister)

lemma end_connection_preserves: "preserves1 K w (end_connection env st (fd, Some (ClientPtr a)) w)"
  unfolding end_connection_def preserves1_def
  by (auto split: if_splits dest!: preserves1D [OF drop_fds_preserve(1)] preserves1D [OF drop_fds_preserve(2)])

lemma error_handler_preserves: "preserves1 K w (error_handler env st (fd, Some (ClientPtr a)) w)"
  unfolding error_handler_def preserves1_def
  by (auto simp: Let_def split: if_splits dest!: preserves1D [OF end_connection_preserves])

lemma arrivals_preserve:
  "preserves1 K w (hello_read_init env st (fd, Some (ClientPtr a)) w)"
  "preserves1 K w (auth_read_init env st (fd, Some (ClientPtr a)) w)"
  "preserves1 K w (request_read_init env st (fd, Some (ClientPtr a)) w)"
  "preserves1 K w (forward_setup st (fd, Some (ClientPtr a)) w)"
  unfolding hello_read_init_def auth_read_init_def request_read_init_def forward_setup_def preserves1_def
  by (auto simp: Let_def split: if_splits prod.splits dest!: K_steps preserves1D [OF error_handler_preserves])

lemma K_set_machine: "K w \<Longrightarrow> K (set_client_machine a m w)"
  by (cases "w_clients w a") (simp_all add: set_client_machine_def fun_upd_idem K_put [unfolded put_client_def])

lemma client_hooks_preserve:
  assumes "sd \<in> set (client_states env)"
  shows "on_departure sd = None" and "on_arrival sd = Some f \<Longrightarrow> preserves1 K w (f st (fd, Some (ClientPtr a)) w)"
  using assms arrivals_preserve end_connection_preserves error_handler_preserves by (auto simp: client_states_def)

lemma client_table_preserves: "table_preserves K (fd, Some (ClientPtr a)) (client_states env)"
  unfolding table_preserves_def
  by (auto simp: client_hooks_preserve(1) dest!: preserves1D [OF client_hooks_preserve(2)])

lemma after_event_preserves:
  assumes "k' < 11"
  shows "preserves1 K w (after_event env k k' (fd, Some (ClientPtr a)) a c w)"
proof -
  have "client_states env ! k' \<in> set (client_states env)" using assms by simp
  note hook = client_hooks_preserve(2) [OF this]
  show ?thesis
  proof (cases "on_arrival (client_states env ! k')")
    case (Some f)
    from hook [OF Some, of "put_client a (moved c k') w" k' fd]
    have h: "K w \<Longrightarrow> f k' (fd, Some (ClientPtr a)) (put_client a (moved c k') w) = Inr w' \<Longrightarrow> K w'" for w'
      unfolding preserves1_def using K_put by blast
    show ?thesis unfolding preserves1_def after_event_def Some run_hook_def option.case
      by (cases "k' = k") (auto dest: h)
  qed (simp add: preserves1_def after_event_def run_hook_def)
qed

lemma read_callbacks_preserve:
  assumes "sd \<in> set (client_states env)" and "on_read_ready sd = Some f"
  shows "preserves K w (f (fd, Some (ClientPtr a)) w)"
  using assms hello_read_preserves auth_read_preserves request_read_preserves forward_read_preserves
  by (auto simp: client_states_def)

lemma read_event_preserves: "preserves1 K w (handle_read_client env (fd, Some (ClientPtr a)) w)"
proof -
  have main: "K w'" if "K w" and run: "bindr (stm_event on_read_ready (client_machine a) (set_client_machine a) (client_states env) (fd, Some (ClientPtr a)) w)
      (\<lambda>(_, w'). Inr w') = Inr w'" for w'
  proof -
    from run obtain ret where "stm_event on_read_ready (client_machine a) (set_client_machine a) (client_states env) (fd, Some (ClientPtr a)) w = Inr (ret, w')"
      by auto
    from stm_event_preserves [OF client_table_preserves K_set_machine _ \<open>K w\<close> this] read_callbacks_preserve show ?thesis by (auto simp: preserves_def)
  qed
  show ?thesis unfolding preserves1_def handle_read_event by (intro impI allI) (rule main)
qed

end

text \<open>The callback that connects also opens descriptors and registers them for the client.\<close>

locale client_connects = client_effects K a for K :: "world \<Rightarrow> bool" and a :: nat +
  assumes K_connecting [simp]: "K w \<Longrightarrow> K (emit (Connecting fd ai) w)"
    and K_register: "selector_register al j (w_sel w) fd (Some CLIENT_HANDLER) i (Some (ClientPtr a)) = Inr (st, s) \<Longrightarrow>
      K w \<longrightarrow> K (w\<lparr>w_sel := s\<rparr>)"
begin

lemma connect_loop_preserves: "preserves K w (connect_loop env (fd, Some (ClientPtr a)) a addrs w)"
proof (induction addrs arbitrary: w)
  case (Cons addr rest)
  show ?case unfolding preserves_def
    by (auto simp: Let_def split: if_splits connect_answer.splits
        dest!: K_steps K_register preservesD [OF Cons.IH])
qed (simp add: preserves_def)

lemma connect_next_preserves: "preserves K w (connect_next env (fd, Some (ClientPtr a)) a addrs w)"
  unfolding connect_next_def preserves_def
  by (auto split: option.splits dest!: K_steps preservesD [OF connect_loop_preserves])

lemma try_connect_preserves: "preserves K w (try_connect env (fd, Some (ClientPtr a)) w)"
  unfolding try_connect_def preserves_def
  by (auto simp: Let_def split: if_splits option.splits dest!: K_steps preservesD [OF connect_next_preserves])

lemma write_callbacks_preserve:
  assumes "sd \<in> set (client_states env)" and "on_write_ready sd = Some f"
  shows "preserves K w (f (fd, Some (ClientPtr a)) w)"
  using assms hello_write_preserves auth_write_preserves dns_lookup_preserves try_connect_preserves
    request_write_preserves forward_write_preserves
  by (auto simp: client_states_def)

lemma write_event_preserves: "preserves1 K w (handle_write_client env (fd, Some (ClientPtr a)) w)"
proof -
  have main: "K w'" if "K w" and run: "bindr (stm_event on_write_ready (client_machine a) (set_client_machine a) (client_states env) (fd, Some (ClientPtr a)) w)
      (\<lambda>(_, w'). Inr w') = Inr w'" for w'
  proof -
    from run obtain ret where "stm_event on_write_ready (client_machine a) (set_client_machine a) (client_states env) (fd, Some (ClientPtr a)) w = Inr (ret, w')"
      by auto
    from stm_event_preserves [OF client_table_preserves K_set_machine _ \<open>K w\<close> this] write_callbacks_preserve show ?thesis by (auto simp: preserves_def)
  qed
  show ?thesis unfolding preserves1_def handle_write_event by (intro impI allI) (rule main)
qed

end

section \<open>Callbacks of an administrator\<close>

locale monitor_effects = world_effects K for K :: "world \<Rightarrow> bool" +
  fixes a :: nat
  assumes K_put [simp]: "K w \<Longrightarrow> K (put_monitor a m w)"
begin

lemma K_upd_monitor: "upd_monitor a f w = Inr w' \<Longrightarrow> K w \<longrightarrow> K w'"
  by (auto simp: upd_monitor_def bindr_Inr_iff)

lemma K_set_error: "set_monitor_error a e w = Inr w' \<Longrightarrow> K w \<longrightarrow> K w'"
  unfolding set_monitor_error_def by (rule K_upd_monitor)

lemma K_set_auth: "set_monitor_auth a mp w = Inr w' \<Longrightarrow> K w \<longrightarrow> K w'"
  unfolding set_monitor_auth_def by (rule K_upd_monitor)

lemma K_set_req: "set_monitor_req a mrq w = Inr w' \<Longrightarrow> K w \<longrightarrow> K w'"
  unfolding set_monitor_req_def by (rule K_upd_monitor)

lemmas M_steps = K_interest K_interest_key K_upd_monitor K_set_error K_set_auth K_set_req K_recv K_send

lemma monitor_login_preserves: "preserves K w (monitor_login env key a mp w)"
  unfolding monitor_login_def auth_failed_def preserves_def by (auto simp: Let_def split: if_splits prod.splits dest!: M_steps)

lemma monitor_auth_event_preserves: "preserves K w (monitor_auth_event env key a ev w)"
  unfolding monitor_auth_event_def preserves_def
  by (auto split: if_splits dest!: M_steps preservesD [OF monitor_login_preserves])

lemma monitor_auth_events_preserves: "preserves K w (monitor_auth_events env key a evs w)"
proof (induction evs arbitrary: w)
  case (Cons ev evs)
  show ?case unfolding preserves_def
    by (auto split: option.splits dest!: preservesD [OF monitor_auth_event_preserves] preservesD [OF Cons.IH])
qed (simp add: preserves_def)

lemma monitor_auth_read_preserves: "preserves K w (monitor_auth_read env (fd, Some (MonitorPtr a)) w)"
  unfolding monitor_auth_read_def preserves_def
  by (auto simp: Let_def split: if_splits prod.splits dest!: M_steps preservesD [OF monitor_auth_events_preserves])

lemma closing_arrivals_preserve:
  "preserves1 K w (monitor_error_arrival env st (fd, Some (MonitorPtr a)) w)"
  "preserves1 K w (monitor_done_arrival env st (fd, Some (MonitorPtr a)) w)"
  unfolding monitor_error_arrival_def monitor_done_arrival_def preserves1_def
  by (auto simp: Let_def split: if_splits dest!: M_steps K_unregister)

lemma monitor_hooks_preserve:
  "preserves1 K w (monitor_auth_init env st (fd, Some (MonitorPtr a)) w)"
  "preserves1 K w (monitor_auth_finalize env st (fd, Some (MonitorPtr a)) w)"
  "preserves1 K w (monitor_req_init env st (fd, Some (MonitorPtr a)) w)"
  "preserves1 K w (monitor_req_finalize st (fd, Some (MonitorPtr a)) w)"
  unfolding monitor_auth_init_def monitor_auth_finalize_def monitor_req_init_def monitor_req_finalize_def preserves1_def
  by (auto simp: Let_def split: if_splits prod.splits dest!: M_steps preserves1D [OF closing_arrivals_preserve(1)])

lemma monitor_table_preserves: "table_preserves K (fd, Some (MonitorPtr a)) (monitor_states env)"
  unfolding table_preserves_def monitor_states_def
  by (auto dest!: preserves1D [OF monitor_hooks_preserve(1)] preserves1D [OF monitor_hooks_preserve(2)]
      preserves1D [OF monitor_hooks_preserve(3)] preserves1D [OF monitor_hooks_preserve(4)]
      preserves1D [OF closing_arrivals_preserve(1)] preserves1D [OF closing_arrivals_preserve(2)])

lemma K_set_monitor_machine: "K w \<Longrightarrow> K (set_monitor_machine a m w)"
  by (cases "w_monitors w a") (simp_all add: set_monitor_machine_def fun_upd_idem K_put [unfolded put_monitor_def])

end

text \<open>The callbacks that carry requests out also change the directory and the accepted methods.\<close>

locale monitor_administers = monitor_effects K a for K :: "world \<Rightarrow> bool" and a :: nat +
  assumes K_create: "user_create (w_users w) name pass lv = Inr (st, us) \<Longrightarrow> K w \<longrightarrow> K (w\<lparr>w_users := us\<rparr>)"
    and K_delete: "user_delete (w_users w) name = (st, us) \<Longrightarrow> K w \<longrightarrow> K (w\<lparr>w_users := us\<rparr>)"
    and K_change: "user_change_password (w_users w) name pass = Inr (st, us) \<Longrightarrow> K w \<longrightarrow> K (w\<lparr>w_users := us\<rparr>)"
    and K_methods: "change_auth_methods (Some cells) (w_methods w) = Inr (ast, ms) \<Longrightarrow> K w \<longrightarrow> K (w\<lparr>w_methods := ms\<rparr>)"
begin

lemmas K_directory = K_create K_delete K_change K_methods

lemma request_functions_preserve:
  "preserves K w (request_add_user cells w)" "preserves K w (request_remove_user cells w)"
  "preserves K w (request_change_passwd cells w)" "preserves K w (request_statistics a mrq w)"
  "preserves K w (request_change_methods cells w)"
  unfolding request_add_user_def request_remove_user_def request_change_passwd_def request_statistics_def
    request_change_methods_def preserves_def
  by (auto split: if_splits prod.splits dest!: M_steps K_directory)

lemma handle_request_preserves: "preserves K w (handle_request (fd, Some (MonitorPtr a)) w)"
  unfolding handle_request_def preserves_def
  by (auto split: if_splits dest!: M_steps preservesD [OF request_functions_preserve(1)]
      preservesD [OF request_functions_preserve(2)] preservesD [OF request_functions_preserve(3)]
      preservesD [OF request_functions_preserve(4)] preservesD [OF request_functions_preserve(5)])

lemma monitor_req_event_preserves: "preserves K w (monitor_req_event env (fd, Some (MonitorPtr a)) a ev w)"
  unfolding monitor_req_event_def monitor_req_end_def monitor_req_argument_def preserves_def
  by (auto split: if_splits dest!: M_steps preservesD [OF handle_request_preserves])

lemma monitor_req_events_preserves: "preserves K w (monitor_req_events env (fd, Some (MonitorPtr a)) a evs w)"
proof (induction evs arbitrary: w)
  case (Cons ev evs)
  show ?case unfolding preserves_def
    by (auto split: option.splits dest!: preservesD [OF monitor_req_event_preserves] preservesD [OF Cons.IH])
qed (simp add: preserves_def)

lemma monitor_req_read_preserves: "preserves K w (monitor_req_read env (fd, Some (MonitorPtr a)) w)"
  unfolding monitor_req_read_def preserves_def
  by (auto simp: Let_def split: if_splits prod.splits dest!: M_steps preservesD [OF monitor_req_events_preserves])

lemma monitor_req_write_preserves: "preserves K w (monitor_req_write env (fd, Some (MonitorPtr a)) w)"
  unfolding monitor_req_write_def send_response_def preserves_def
  by (auto simp: Let_def split: if_splits prod.splits dest!: M_steps)

lemma monitor_callbacks_preserve:
  assumes "sd \<in> set (monitor_states env)" and "on_read_ready sd = Some f \<or> on_write_ready sd = Some f"
  shows "preserves K w (f (fd, Some (MonitorPtr a)) w)"
  using assms monitor_auth_read_preserves monitor_req_read_preserves monitor_req_write_preserves
  by (auto simp: monitor_states_def)

lemma monitor_read_event_preserves: "preserves1 K w (handle_read_monitor env (fd, Some (MonitorPtr a)) w)"
proof -
  have main: "K w'" if "K w" and run: "bindr (stm_event on_read_ready (monitor_machine a) (set_monitor_machine a) (monitor_states env) (fd, Some (MonitorPtr a)) w)
      (\<lambda>(_, w'). Inr w') = Inr w'" for w'
  proof -
    from run obtain ret where "stm_event on_read_ready (monitor_machine a) (set_monitor_machine a) (monitor_states env) (fd, Some (MonitorPtr a)) w = Inr (ret, w')"
      by auto
    note ends = stm_event_preserves [OF monitor_table_preserves K_set_monitor_machine _ \<open>K w\<close> this]
    show ?thesis
    proof (rule ends)
      fix sd f w1 ret w2
      assume "sd \<in> set (monitor_states env)" and f: "on_read_ready sd = Some f" and w1: "K w1" "f (fd, Some (MonitorPtr a)) w1 = Inr (ret, w2)"
      from monitor_callbacks_preserve [OF this(1) disjI1, OF f] w1 show "K w2" unfolding preserves_def by blast
    qed
  qed
  show ?thesis unfolding preserves1_def handle_read_monitor_def stm_handler_read_def attached_simps bindr_simps by (intro impI allI) (rule main)
qed

lemma monitor_write_event_preserves: "preserves1 K w (handle_write_monitor env (fd, Some (MonitorPtr a)) w)"
proof -
  have main: "K w'" if "K w" and run: "bindr (stm_event on_write_ready (monitor_machine a) (set_monitor_machine a) (monitor_states env) (fd, Some (MonitorPtr a)) w)
      (\<lambda>(_, w'). Inr w') = Inr w'" for w'
  proof -
    from run obtain ret where "stm_event on_write_ready (monitor_machine a) (set_monitor_machine a) (monitor_states env) (fd, Some (MonitorPtr a)) w = Inr (ret, w')"
      by auto
    note ends = stm_event_preserves [OF monitor_table_preserves K_set_monitor_machine _ \<open>K w\<close> this]
    show ?thesis
    proof (rule ends)
      fix sd f w1 ret w2
      assume "sd \<in> set (monitor_states env)" and f: "on_write_ready sd = Some f" and w1: "K w1" "f (fd, Some (MonitorPtr a)) w1 = Inr (ret, w2)"
      from monitor_callbacks_preserve [OF this(1) disjI2, OF f] w1 show "K w2" unfolding preserves_def by blast
    qed
  qed
  show ?thesis unfolding preserves1_def handle_write_monitor_def stm_handler_write_def attached_simps bindr_simps by (intro impI allI) (rule main)
qed

end

end
