(* ===== verification/Server_Loop.thy ===== *)
theory Server_Loop
  imports Effects Links
begin

text \<open>
  The event loop of the server: the callbacks its handlers give to the selector
  (\<^verbatim>\<open>MASTER_HANDLER\<close>, \<^verbatim>\<open>CLIENT_HANDLER\<close>, \<^verbatim>\<open>PASSIVE_MONITOR_HANDLER\<close>,
  \<^verbatim>\<open>ACTIVE_MONITOR_HANDLER\<close>), the rounds of \<^verbatim>\<open>selector_select\<close> over them, and the worlds
  those rounds reach. The callbacks of the logger, which act on the logger only, are in the theory
  of the logger.
\<close>

section \<open>Rounds of the selector\<close>

text \<open>\<open>envs fd\<close> is what the system answers while a callback of descriptor \<open>fd\<close> runs.\<close>

definition read_callback :: "(int \<Rightarrow> env) \<Rightarrow> (fd_handler, attachment, world) callbacks" where
  "read_callback envs h =
     (case h of
        MASTER_HANDLER \<Rightarrow> Some (\<lambda>key. handle_read_master (envs (fst key)) key)
      | CLIENT_HANDLER \<Rightarrow> Some (\<lambda>key. handle_read_client (envs (fst key)) key)
      | PASSIVE_MONITOR_HANDLER \<Rightarrow> Some (\<lambda>key. handle_read_passive_monitor (envs (fst key)) key)
      | ACTIVE_MONITOR_HANDLER \<Rightarrow> Some (\<lambda>key. handle_read_monitor (envs (fst key)) key))"

definition write_callback :: "(int \<Rightarrow> env) \<Rightarrow> (fd_handler, attachment, world) callbacks" where
  "write_callback envs h =
     (case h of
        MASTER_HANDLER \<Rightarrow> None
      | CLIENT_HANDLER \<Rightarrow> Some (\<lambda>key. handle_write_client (envs (fst key)) key)
      | PASSIVE_MONITOR_HANDLER \<Rightarrow> None
      | ACTIVE_MONITOR_HANDLER \<Rightarrow> Some (\<lambda>key. handle_write_monitor (envs (fst key)) key))"

definition block_callback :: "(fd_handler, attachment, world) callbacks" where
  "block_callback h = None"

definition server_select :: "(int \<Rightarrow> env) \<Rightarrow> (int \<Rightarrow> env) \<Rightarrow> pselect_result \<Rightarrow> world \<Rightarrow> (selector_status \<times> world) res" where
  "server_select renvs wenvs result w =
     selector_select w_sel (\<lambda>s w. w\<lparr>w_sel := s\<rparr>) (read_callback renvs) (write_callback wenvs) block_callback result w"

text \<open>The worlds reached by rounds that return.\<close>

inductive server_reaches :: "world \<Rightarrow> world \<Rightarrow> bool" where
  reach_start: "server_reaches w w"
| reach_round: "server_reaches w0 w \<Longrightarrow> server_select renvs wenvs result w = Inr (status, w') \<Longrightarrow> server_reaches w0 w'"

text \<open>One callback of a round, with the key taken from the table of the selector.\<close>

definition registered_key :: "world \<Rightarrow> key \<Rightarrow> fd_handler \<Rightarrow> bool" where
  "registered_key w key h \<longleftrightarrow> (\<exists>i. sel_lookup (w_sel w) (fst key) = Some (i, Some h, snd key))"

text \<open>
  A property of worlds with a well formed selector is preserved by a round when every callback
  preserves it: a read callback is called with the key registered for its handler; a write
  callback may be called with a key taken before the read callback of the same descriptor.
\<close>

locale round_invariant =
  fixes P :: "world \<Rightarrow> bool" and renvs wenvs :: "int \<Rightarrow> env"
  assumes selector_good: "P w \<Longrightarrow> selector_ok (w_sel w)"
    and read_keeps: "P w \<Longrightarrow> registered_key w key h \<Longrightarrow> read_callback renvs h = Some f \<Longrightarrow> f key w = Inr w' \<Longrightarrow> P w'"
    and write_keeps: "P w \<Longrightarrow> write_callback wenvs h = Some f \<Longrightarrow> f key w = Inr w' \<Longrightarrow> P w'"
    and jobs_keep: "P w \<Longrightarrow> P (w\<lparr>w_sel := (w_sel w)\<lparr>s_jobs := js\<rparr>\<rparr>)"
begin

lemma table_entry:
  assumes "P w" and "arr_get (s_fds (w_sel w)) i = Inr it" and "ITEM_USED it"
  shows "it_fd it = int i" and "\<exists>h. it_handler it = Some h \<and> sel_lookup (w_sel w) (int i) = Some (it_interest it, Some h, it_data it)"
proof -
  from assms(2) have i: "i < length (s_fds (w_sel w))" "it = s_fds (w_sel w) ! i" by (auto simp: arr_get_Inr_iff)
  with selector_ok_item [OF selector_good [OF assms(1)] i(1)] assms(3) have ok: "it_fd it = int i" "it_handler it \<noteq> None"
    by (auto simp: item_ok_def)
  then show "it_fd it = int i" by simp
  from ok(2) obtain h where "it_handler it = Some h" by blast
  then show "\<exists>h. it_handler it = Some h \<and> sel_lookup (w_sel w) (int i) = Some (it_interest it, Some h, it_data it)"
    using i assms(3) by (auto simp: sel_lookup_def Let_def)
qed

lemma dispatch_keeps:
  assumes "P w" and "dispatch_fd w_sel (read_callback renvs) (write_callback wenvs) slave_r slave_w i w = Inr w'"
  shows "P w'"
proof -
  from assms(2) obtain it where it: "arr_get (s_fds (w_sel w)) i = Inr it" by (auto simp: dispatch_fd_def)
  show ?thesis
  proof (cases "ITEM_USED it")
    case False
    then show ?thesis using assms it by (simp add: dispatch_fd_def)
  next
    case True
    note fd = table_entry(1) [OF assms(1) it True]
    obtain h where h: "it_handler it = Some h" "sel_lookup (w_sel w) (int i) = Some (it_interest it, Some h, it_data it)"
      using table_entry(2) [OF assms(1) it True] by blast
    let ?key = "(it_fd it, it_data it)"
    from assms(2) it True obtain w1 where
      rd: "(if it_fd it \<in> slave_r \<and> wants (it_interest it) OP_READ then fire (read_callback renvs) it ?key w else Inr w) = Inr w1"
      and wr: "(if int i \<in> slave_w then bindr (arr_get (s_fds (w_sel w1)) i) (\<lambda>it1.
          if wants (it_interest it1) OP_WRITE then fire (write_callback wenvs) it1 ?key w1 else Inr w1) else Inr w1) = Inr w'"
      by (auto simp: dispatch_fd_def Let_def)
    have key: "registered_key w ?key h" using h(2) fd by (simp add: registered_key_def)
    have "P w1" using rd assms(1) h(1) read_keeps [OF assms(1) key]
      by (auto simp: fire_def deref_def split: if_splits option.splits)
    then show ?thesis using wr write_keeps [OF \<open>P w1\<close>]
      by (auto simp: fire_def deref_def split: if_splits option.splits)
  qed
qed

lemma loop_keeps:
  "P w \<Longrightarrow> handle_iteration_loop w_sel (read_callback renvs) (write_callback wenvs) slave_r slave_w is w = Inr w' \<Longrightarrow> P w'"
  by (induction "is" arbitrary: w) (auto dest: dispatch_keeps)

lemma no_blocking_jobs: "block_loop w_sel block_callback js w = Inr w' \<Longrightarrow> w' = w"
  by (induction js arbitrary: w) (auto simp: block_callback_def deref_def split: if_splits option.splits)

lemma notifications_keep:
  "P w \<Longrightarrow> handle_block_notifications w_sel (\<lambda>s w. w\<lparr>w_sel := s\<rparr>) block_callback w = Inr w' \<Longrightarrow> P w'"
  by (auto simp: handle_block_notifications_def jobs_keep dest!: no_blocking_jobs)

lemma select_keeps:
  assumes "P w" and "server_select renvs wenvs result w = Inr (status, w')"
  shows "P w'"
  using assms
  by (auto simp: server_select_def selector_select_def handle_iteration_def dest: loop_keeps notifications_keep
      split: pselect_result.splits if_splits)

end

lemma reaches_keeps:
  assumes "server_reaches w0 w" and "\<And>renvs wenvs. round_invariant P renvs wenvs" and "P w0"
  shows "P w"
  using assms by induction (auto dest: round_invariant.select_keeps)

text \<open>A round in which one descriptor is ready for reading runs its callback, once.\<close>

lemma idle_dispatch:
  assumes "selector_ok (get w)" and "i < 1025" and "int i \<notin> r" and "int i \<notin> wr"
  shows "dispatch_fd get rd wrcb r wr i w = Inr w"
proof -
  have i: "i < length (s_fds (get w))" using assms(1,2) selector_ok_size by fastforce
  with selector_ok_item [OF assms(1) i] assms(3,4) show ?thesis by (auto simp: dispatch_fd_def item_ok_def Let_def)
qed

lemma idle_loop:
  "selector_ok (get w) \<Longrightarrow> \<forall>i \<in> set is. i < 1025 \<and> int i \<notin> r \<and> int i \<notin> wr \<Longrightarrow>
     handle_iteration_loop get rd wrcb r wr is w = Inr w"
  by (induction "is") (simp_all add: idle_dispatch)

lemma iteration_append:
  "handle_iteration_loop get rd wrcb r wr (is @ js) w =
     bindr (handle_iteration_loop get rd wrcb r wr is w) (handle_iteration_loop get rd wrcb r wr js)"
  by (induction "is" arbitrary: w) (simp_all add: bindr_def split: sum.splits)

lemma register_jobs:
  "selector_ok s \<Longrightarrow> selector_register al j s fd h i d = Inr (st, s') \<Longrightarrow> s_jobs s' = s_jobs s"
  by (auto simp: selector_register_def INVALID_FD_iff Let_def split: if_splits dest!: selector_ok_size)

lemma round_of_one:
  assumes ok: "selector_ok (w_sel w)" and l: "sel_lookup (w_sel w) fd = Some (i, Some h, d)" and i: "wants i OP_READ"
    and f: "read_callback renvs h = Some f" "f (fd, d) w = Inr w'" and ok': "selector_ok (w_sel w')" "s_jobs (w_sel w') = []"
  shows "server_select renvs wenvs (PselectReady {fd} {}) w = Inr (SELECTOR_SUCCESS, w')"
proof -
  note it = sel_lookup_SomeD [OF l]
  have item: "item_ok (w_sel w) (nat fd) (s_fds (w_sel w) ! nat fd)" using selector_ok_item [OF ok it(2)] .
  then have fd: "it_fd (s_fds (w_sel w) ! nat fd) = fd" and mx: "fd \<le> s_max_fd (w_sel w)"
    using it(1,3) by (auto simp: item_ok_def)
  have r: "{fd} \<inter> s_master_r (w_sel w) = {fd}" using ok l i by (auto simp: selector_ok_def interest_set_def)
  have split: "[0..<nat (s_max_fd (w_sel w) + 1)] = [0..<nat fd] @ nat fd # [nat fd + 1..<nat (s_max_fd (w_sel w) + 1)]"
    using mx it(1) upt_add_eq_append [of 0 "nat fd" "nat (s_max_fd (w_sel w) + 1) - nat fd"]
      upt_conv_Cons [of "nat fd" "nat (s_max_fd (w_sel w) + 1)"] by simp
  have small: "nat (s_max_fd (w_sel w) + 1) \<le> 1025" using ok by (auto simp: selector_ok_def ITEMS_MAX_SIZE_def)
  let ?rd = "read_callback renvs" and ?wr = "write_callback wenvs"
  have before: "handle_iteration_loop w_sel ?rd ?wr {fd} {} [0..<nat fd] w = Inr w"
    using mx it(1) small by (intro idle_loop ok) auto
  have after: "handle_iteration_loop w_sel ?rd ?wr {fd} {} [nat fd + 1..<nat (s_max_fd (w_sel w) + 1)] w' = Inr w'"
    using mx it(1) small by (intro idle_loop ok') auto
  have here: "dispatch_fd w_sel ?rd ?wr {fd} {} (nat fd) w = Inr w'"
    using it i f fd by (simp add: dispatch_fd_def fire_def)
  have "handle_iteration w_sel ?rd ?wr {fd} {} w = Inr w'"
    unfolding handle_iteration_def split iteration_append before using here after by simp
  moreover have "(w_sel w')\<lparr>s_jobs := []\<rparr> = w_sel w'" using ok'(2) by simp
  ultimately show ?thesis using r ok'(2)
    by (simp add: server_select_def selector_select_def handle_block_notifications_def)
qed

section \<open>Types of the attached data\<close>

text \<open>
  The data of a descriptor is what its handler takes it for: the object of a client or of an
  administrator, or nothing for a listening socket.
\<close>

definition typed_entry :: "fd_handler option \<Rightarrow> attachment option \<Rightarrow> bool" where
  "typed_entry h d =
     (case h of
        None \<Rightarrow> False
      | Some CLIENT_HANDLER \<Rightarrow> (case d of Some (ClientPtr _) \<Rightarrow> True | _ \<Rightarrow> False)
      | Some ACTIVE_MONITOR_HANDLER \<Rightarrow> (case d of Some (MonitorPtr _) \<Rightarrow> True | _ \<Rightarrow> False)
      | Some _ \<Rightarrow> d = None)"

definition sel_typed :: "(fd_handler, attachment) fdselector \<Rightarrow> bool" where
  "sel_typed s \<longleftrightarrow> selector_ok s \<and> (\<forall>fd i h d. sel_lookup s fd = Some (i, h, d) \<longrightarrow> typed_entry h d)"

lemma sel_typed_ok: "sel_typed s \<Longrightarrow> selector_ok s"
  by (simp add: sel_typed_def)

lemma sel_typed_interest:
  assumes "sel_typed (w_sel w)" and "set_interest fd i w = Inr w'"
  shows "w' = w\<lparr>w_sel := w_sel w'\<rparr> \<and> sel_typed (w_sel w')"
proof -
  note ok = set_interest_ok [OF sel_typed_ok [OF assms(1)], of fd i]
  from ok(1) assms(2) have w': "w' = w\<lparr>w_sel := upd_interest (w_sel w) fd i\<rparr>" by simp
  have "typed_entry h d" if l: "sel_lookup (w_sel w') fd' = Some (j, h, d)" for fd' j h d
  proof -
    from l have "with_interest (sel_lookup (w_sel w)) fd i fd' = Some (j, h, d)" unfolding w' using ok(3) by simp
    then obtain j' where "sel_lookup (w_sel w) fd' = Some (j', h, d)"
      by (auto simp: with_interest_apply split: if_splits)
    then show ?thesis using assms(1) by (simp add: sel_typed_def)
  qed
  then show ?thesis using w' ok(2) by (simp add: sel_typed_def)
qed

lemma sel_typed_register:
  assumes "sel_typed s" and "selector_register al j s fd (Some h) i d = Inr (st, s')" and "typed_entry (Some h) d"
  shows "sel_typed s'"
  using sel_typed_ok [OF assms(1)]
proof (cases rule: register_cases [of _ fd al j h i d])
  case (fresh s1)
  then show ?thesis using assms by (auto simp: sel_typed_def split: if_splits)
next
  case (refused st1)
  then show ?thesis using assms by simp
qed

lemma sel_typed_drop: "sel_typed s \<Longrightarrow> sel_lookup s fd \<noteq> None \<Longrightarrow> sel_typed (drop_fd s fd)"
  using drop_fd_ok [of s fd] by (auto simp: sel_typed_def split: if_splits)

lemma sel_typed_jobs: "sel_typed (s\<lparr>s_jobs := js\<rparr>) = sel_typed s"
proof -
  have "sel_lookup (s\<lparr>s_jobs := js\<rparr>) = sel_lookup s" by (rule sel_lookup_cong) simp
  then show ?thesis by (simp add: sel_typed_def selector_ok_def item_ok_def interest_set_def)
qed

section \<open>What one callback may change\<close>

text \<open>
  From world \<open>w0\<close> to \<open>w\<close> only the clients in \<open>A\<close> and the administrators in \<open>B\<close> were touched or
  created (any may be gone); the directory and the accepted methods changed only if \<open>dir\<close>, and a
  connection was made only if \<open>con\<close>.
\<close>

definition held :: "nat set \<Rightarrow> nat set \<Rightarrow> bool \<Rightarrow> bool \<Rightarrow> world \<Rightarrow> world \<Rightarrow> bool" where
  "held A B dir con w0 w \<longleftrightarrow> sel_typed (w_sel w) \<and>
     (\<forall>b c. w_clients w b = Some c \<longrightarrow> b \<in> A \<or> w_clients w0 b = Some c) \<and>
     (\<forall>b m. w_monitors w b = Some m \<longrightarrow> b \<in> B \<or> w_monitors w0 b = Some m) \<and>
     (dir \<or> w_users w = w_users w0 \<and> w_methods w = w_methods w0) \<and>
     (con \<or> (\<forall>fd ai. Connecting fd ai \<in> set (w_trace w) \<longrightarrow> Connecting fd ai \<in> set (w_trace w0)))"

lemma held_refl: "sel_typed (w_sel w) \<Longrightarrow> held A B dir con w w"
  by (simp add: held_def)

lemma held_more: "held A B dir con w0 w \<Longrightarrow> held A B dir True w0 w"
  by (simp add: held_def)

lemma held_plain [simp]:
  "held A B dir con w0 (w\<lparr>w_errno := e\<rparr>) = held A B dir con w0 w"
  "held A B dir con w0 (w\<lparr>w_stats := st\<rparr>) = held A B dir con w0 w"
  "held A B dir con w0 (w\<lparr>w_next := n\<rparr>) = held A B dir con w0 w"
  by (simp_all add: held_def)

lemma held_emit: "held A B dir con w0 w \<Longrightarrow> con \<or> (\<forall>fd ai. x \<noteq> Connecting fd ai) \<Longrightarrow> held A B dir con w0 (emit x w)"
  by (auto simp: held_def emit_def)

lemma held_objects:
  "held A B dir con w0 w \<Longrightarrow> a \<in> A \<Longrightarrow> held A B dir con w0 (put_client a c w)"
  "held A B dir con w0 w \<Longrightarrow> a \<in> B \<Longrightarrow> held A B dir con w0 (put_monitor a m w)"
  "held A B dir con w0 w \<Longrightarrow> held A B dir con w0 (free_client a w)"
  "held A B dir con w0 w \<Longrightarrow> held A B dir con w0 (free_monitor a w)"
  by (auto simp: held_def put_client_def put_monitor_def free_client_def free_monitor_def)

lemma held_selector: "held A B dir con w0 w \<Longrightarrow> sel_typed s \<Longrightarrow> held A B dir con w0 (w\<lparr>w_sel := s\<rparr>)"
  by (simp add: held_def)

lemma held_directory:
  "held A B True con w0 w \<Longrightarrow> held A B True con w0 (w\<lparr>w_users := us\<rparr>)"
  "held A B True con w0 w \<Longrightarrow> held A B True con w0 (w\<lparr>w_methods := ms\<rparr>)"
  by (simp_all add: held_def)

lemma held_typed: "held A B dir con w0 w \<Longrightarrow> sel_typed (w_sel w)"
  by (simp add: held_def)

lemma held_interest: "set_interest fd i w = Inr w' \<Longrightarrow> held A B dir con w0 w \<longrightarrow> held A B dir con w0 w'"
  using sel_typed_interest [of w fd i w'] held_selector [of A B dir con w0 w "w_sel w'"] held_typed [of A B dir con w0 w]
  by metis

text \<open>The close callbacks, of whatever descriptor.\<close>

lemma close_client_machine: "stm_handler_close get client_departures key w = Inr w1 \<Longrightarrow> w1 = w"
  by (auto simp: stm_handler_close_def client_departures_def run_hook_def arr_get_Inr_iff split: option.splits)

lemma close_client_effect: "handle_close_client key w = Inr w' \<Longrightarrow> w' = w \<or> (\<exists>st. w' = w\<lparr>w_stats := st\<rparr>)"
  by (auto simp: handle_close_client_def dest!: close_client_machine split: if_splits)

lemma finalize_auth_effect:
  "monitor_auth_finalize env st (fd, Some (MonitorPtr b)) w = Inr w' \<Longrightarrow>
     \<exists>m bs. w' = put_monitor b m (snd (sys_send env fd bs w))"
  by (auto simp: monitor_auth_finalize_def Let_def split: prod.splits) (metis snd_conv)+

lemma held_send: "held A B dir con w0 w \<Longrightarrow> held A B dir con w0 (snd (sys_send env fd bs w))"
  by (auto simp: sys_send_def split: send_answer.splits intro!: held_emit)

lemma send_selector: "w_sel (snd (sys_send env fd bs w)) = w_sel w"
  by (auto simp: sys_send_def split: send_answer.splits)

lemma finalize_req_effect:
  "monitor_req_finalize st (fd, Some (MonitorPtr b)) w = Inr w' \<Longrightarrow> \<exists>m. w' = put_monitor b m w"
  by (auto simp: monitor_req_finalize_def)

lemma free_put_monitor [simp]: "free_monitor b (put_monitor b m w) = free_monitor b w"
  by (simp add: free_monitor_def put_monitor_def)

lemma held_close_monitor:
  assumes "handle_close_monitor env key w = Inr w'" and K: "held A B dir con w0 w"
  shows "held A B dir con w0 w' \<and> w_sel w' = w_sel w"
proof -
  obtain fd d where key: "key = (fd, d)" by (cases key)
  with assms(1) obtain b where d: "d = Some (MonitorPtr b)"
    by (cases d) (auto simp: handle_close_monitor_def attached_monitor_def split: attachment.splits)
  from assms(1) key d obtain w1 where w1: "stm_handler_close (monitor_machine b) (monitor_departures env) (fd, Some (MonitorPtr b)) w = Inr w1"
    and w': "w' = free_monitor b (sys_close fd w1)" by (auto simp: handle_close_monitor_def)
  have "w1 = w \<or> (\<exists>m bs. w1 = put_monitor b m (snd (sys_send env fd bs w))) \<or> (\<exists>m. w1 = put_monitor b m w)"
    using w1
    by (auto simp: stm_handler_close_def monitor_departures_def run_hook_def arr_get_Inr_iff nth_Cons'
        dest!: finalize_auth_effect finalize_req_effect split: option.splits if_splits) blast+
  then have "free_monitor b w1 = free_monitor b w \<or> (\<exists>bs. free_monitor b w1 = free_monitor b (snd (sys_send env fd bs w)))"
    by (metis free_put_monitor)
  moreover have "w' = sys_close fd (free_monitor b w1)" unfolding w' by (simp add: sys_close_def emit_def free_monitor_def)
  ultimately obtain w2 where w2: "w' = emit (Closed fd) (free_monitor b w2)" and "w2 = w \<or> (\<exists>bs. w2 = snd (sys_send env fd bs w))"
    unfolding sys_close_def by metis
  then have "held A B dir con w0 w2 \<and> w_sel w2 = w_sel w" using K held_send send_selector by auto
  then show ?thesis using w2 by (auto intro!: held_emit held_objects; simp add: free_monitor_def)
qed

lemma held_unregister:
  assumes run: "unregister env fd w = Inr w'"
  shows "held A B dir con w0 w \<longrightarrow> held A B dir con w0 w'"
proof
  assume K: "held A B dir con w0 w"
  note ok = sel_typed_ok [OF held_typed [OF K]]
  show "held A B dir con w0 w'"
  proof (cases "sel_lookup (w_sel w) fd")
    case None
    then have "w' = w" using run ok sel_lookup_item [of fd "w_sel w"]
      by (cases "INVALID_FD fd") (auto simp: unregister_def selector_unregister_fd_def arr_get_Inr_iff)
    then show ?thesis using K by simp
  next
    case (Some x)
    obtain i h0 d where l: "sel_lookup (w_sel w) fd = Some (i, h0, d)" using Some by (cases x) auto
    note it = sel_lookup_SomeD [OF l]
    have v: "\<not> INVALID_FD fd" using sel_lookup_valid [OF ok] l by simp
    from run it v obtain h w1 st s' where
      cl: "(case close_callback env h of None \<Rightarrow> Inr w | Some f \<Rightarrow> f (it_fd (s_fds (w_sel w) ! nat fd), d) w) = Inr w1"
      and fin: "unregister_finish (w_sel w1) fd = Inr (st, s')" and w': "w' = w1\<lparr>w_sel := s'\<rparr>"
      by (auto simp: unregister_def selector_unregister_fd_def)
    have w1: "held A B dir con w0 w1 \<and> w_sel w1 = w_sel w"
      using cl K by (cases h) (auto simp: close_callback_def dest!: close_client_effect held_close_monitor [OF _ K])
    have "sel_lookup (w_sel w) fd \<noteq> None" using Some by simp
    then have "s' = drop_fd (w_sel w) fd" and "sel_typed (drop_fd (w_sel w) fd)"
      using fin w1 drop_fd_ok(1) [OF ok] sel_typed_drop [OF held_typed [OF K]] by auto
    then show ?thesis using w' w1 held_selector by auto
  qed
qed

lemma error_arrival_held:
  assumes "monitor_error_arrival env s (fd, Some (MonitorPtr a)) w = Inr w'" and K: "held A B dir con w0 w"
  shows "held A B dir con w0 w'"
proof -
  have "\<exists>(m :: monitor_t) w2. set_interest fd OP_NOOP (if m_error m \<noteq> 0 then snd (sys_send env fd [m_error m] w) else w) = Inr w2 \<and>
      unregister env fd w2 = Inr w'"
    using assms(1) unfolding monitor_error_arrival_def set_interest_key_eq fst_conv attached_simps bindr_simps bindr_Inr_iff Let_def
    by blast
  then obtain m :: monitor_t and w2 where
    run: "set_interest fd OP_NOOP (if m_error m \<noteq> 0 then snd (sys_send env fd [m_error m] w) else w) = Inr w2"
      "unregister env fd w2 = Inr w'" by blast
  moreover have "held A B dir con w0 (if m_error m \<noteq> 0 then snd (sys_send env fd [m_error m] w) else w)"
    using K held_send by simp
  ultimately show ?thesis using held_interest held_unregister by blast
qed

section \<open>The callbacks hold what they do not own\<close>

interpretation held_client: client_connects "held {a} {} False True w0" a for a w0
  by unfold_locales (auto simp: held_emit held_objects held_interest held_unregister typed_entry_def
      dest!: sel_typed_register [OF held_typed] intro!: held_selector)

interpretation held_quiet: client_effects "held {a} {} False False w0" a for a w0
  by unfold_locales (auto simp: held_emit held_objects held_interest held_unregister)

interpretation held_admin: monitor_administers "held {} {a} True False w0" a for a w0
  by unfold_locales (auto simp: held_emit held_objects held_directory held_interest held_unregister)

interpretation held_login: monitor_effects "held {} {a} False False w0" a for a w0
  by unfold_locales (auto simp: held_emit held_objects held_interest held_unregister)

lemma client_event_held:
  assumes "sel_typed (w_sel w)"
    and "handle_read_client env (fd, Some (ClientPtr a)) w = Inr w' \<or> handle_write_client env (fd, Some (ClientPtr a)) w = Inr w'"
  shows "held {a} {} False True w w'"
  using assms held_client.read_event_preserves [where a = a and ?w0.0 = w and w = w and env = env and fd = fd]
    held_client.write_event_preserves [where a = a and ?w0.0 = w and w = w and env = env and fd = fd] held_refl
  by (auto simp: preserves1_def)

lemma monitor_event_held:
  assumes "sel_typed (w_sel w)"
    and "handle_read_monitor env (fd, Some (MonitorPtr a)) w = Inr w' \<or> handle_write_monitor env (fd, Some (MonitorPtr a)) w = Inr w'"
  shows "held {} {a} True False w w'"
  using assms held_admin.monitor_read_event_preserves [where a = a and ?w0.0 = w and w = w and env = env and fd = fd]
    held_admin.monitor_write_event_preserves [where a = a and ?w0.0 = w and w = w and env = env and fd = fd] held_refl
  by (auto simp: preserves1_def)

lemma accept_loop_effect: "accept_loop k ans w = Inr (sock, w') \<Longrightarrow> w' = w \<or> (\<exists>e. w' = w\<lparr>w_errno := e\<rparr>)"
proof (induction k ans w rule: accept_loop.induct)
  case (1 k ans w)
  then show ?case by fastforce
qed (auto split: if_splits)

text \<open>Accepting touches one object, a new one in its first state.\<close>

lemma accept_client_held:
  assumes run: "handle_read_master env key w = Inr w'" and good: "sel_typed (w_sel w)"
  shows "\<exists>a. held {a} {} False False w w' \<and>
    (\<forall>c. w_clients w' a = Some c \<longrightarrow> w_clients w a = Some c \<or> (\<exists>fd. c = new_client fd))"
proof -
  from run obtain sock w1 where acc: "accept_loop (e_accept_interrupts env) (e_accept env) w = Inr (sock, w1)"
    by (auto simp: handle_read_master_def)
  let ?a = "w_next w1"
  have w1: "held {?a} {} False False w w1" "w_clients w1 = w_clients w"
    using accept_loop_effect [OF acc] held_refl [OF good] by auto
  show ?thesis
  proof (cases sock)
    case None
    then show ?thesis using run acc w1 by (intro exI [of _ ?a]) (auto simp: handle_read_master_def)
  next
    case (Some fd)
    show ?thesis
    proof (cases "e_alloc env A_client")
      case False
      then have "w' = sys_close fd w1" using run acc Some by (simp add: handle_read_master_def)
      then show ?thesis using w1 by (intro exI [of _ ?a]) (auto simp: sys_close_def intro!: held_emit)
    next
      case True
      let ?w2 = "put_client ?a (new_client fd) (w1\<lparr>w_next := ?a + 1\<rparr>)"
      have m: "(new_client fd)\<lparr>c_stm := \<lparr>stm_initial = HELLO_READ, stm_max_state = ERROR, stm_current = None\<rparr>\<rparr> = new_client fd"
        by (simp add: new_client_def)
      have k2: "held {?a} {} False False w ?w2" using w1(1) by (intro held_objects(1)) simp_all
      from run acc Some True obtain st s where reg: "selector_register (e_alloc env A_selector) (e_realloc_junk env) (w_sel ?w2) fd
          (Some CLIENT_HANDLER) INITIAL_CLIENT_INTERESTS (Some (ClientPtr ?a)) = Inr (st, s)"
        and w': "w' = (if st \<noteq> SELECTOR_SUCCESS then free_client ?a (sys_close fd (?w2\<lparr>w_sel := s\<rparr>))
          else ?w2\<lparr>w_sel := s, w_stats := increment_current_connections (w_stats w1)\<rparr>)"
        using client_stm_init [of env] m
        by (auto simp: handle_read_master_def Let_def new_client_def split: if_splits)
      have "sel_typed s" using sel_typed_register [OF held_typed [OF k2] reg] by (simp add: typed_entry_def)
      then have k3: "held {?a} {} False False w (?w2\<lparr>w_sel := s\<rparr>)" using k2 by (intro held_selector)
      then have "held {?a} {} False False w w'" unfolding w' sys_close_def
        by (auto simp del: put_client_norm intro!: held_objects(3) held_emit)
      moreover have "w_clients w' ?a = Some c \<Longrightarrow> c = new_client fd" for c
        unfolding w' by (auto simp: free_client_def sys_close_def emit_def split: if_splits)
      ultimately show ?thesis by blast
    qed
  qed
qed

lemma accept_monitor_held:
  assumes run: "handle_read_passive_monitor env key w = Inr w'" and good: "sel_typed (w_sel w)"
  shows "\<exists>a. held {} {a} False False w w' \<and>
    (\<forall>m. w_monitors w' a = Some m \<longrightarrow> w_monitors w a = Some m \<or> m = new_monitor)"
proof -
  from run obtain sock w1 where acc: "accept_loop (e_accept_interrupts env) (e_accept env) w = Inr (sock, w1)"
    by (auto simp: handle_read_passive_monitor_def)
  let ?a = "w_next w1"
  have w1: "held {} {?a} False False w w1" "w_monitors w1 = w_monitors w"
    using accept_loop_effect [OF acc] held_refl [OF good] by auto
  show ?thesis
  proof (cases sock)
    case None
    then show ?thesis using run acc w1 by (intro exI [of _ ?a]) (auto simp: handle_read_passive_monitor_def)
  next
    case (Some fd)
    show ?thesis
    proof (cases "e_alloc env A_monitor")
      case False
      then have "w' = sys_close fd w1" using run acc Some by (simp add: handle_read_passive_monitor_def)
      then show ?thesis using w1 by (intro exI [of _ ?a]) (auto simp: sys_close_def intro!: held_emit)
    next
      case True
      let ?w2 = "put_monitor ?a new_monitor (w1\<lparr>w_next := ?a + 1\<rparr>)"
      have m: "new_monitor\<lparr>m_stm := m_stm new_monitor\<rparr> = new_monitor" by simp
      have k2: "held {} {?a} False False w ?w2" using w1(1) by (intro held_objects(2)) simp_all
      from run acc Some True obtain st s where reg: "selector_register (e_alloc env A_selector) (e_realloc_junk env) (w_sel ?w2) fd
          (Some ACTIVE_MONITOR_HANDLER) INITIAL_ACTIVE_MONITOR_INTERESTS (Some (MonitorPtr ?a)) = Inr (st, s)"
        and w': "w' = (if st \<noteq> SELECTOR_SUCCESS then free_monitor ?a (sys_close fd (?w2\<lparr>w_sel := s\<rparr>)) else ?w2\<lparr>w_sel := s\<rparr>)"
        using monitor_stm_init [of env] m
        by (auto simp: handle_read_passive_monitor_def Let_def split: if_splits)
      have "sel_typed s" using sel_typed_register [OF held_typed [OF k2] reg] by (simp add: typed_entry_def)
      then have k3: "held {} {?a} False False w (?w2\<lparr>w_sel := s\<rparr>)" using k2 by (intro held_selector)
      then have "held {} {?a} False False w w'" unfolding w' sys_close_def
        by (auto simp del: put_monitor_norm intro!: held_objects(4) held_emit)
      moreover have "w_monitors w' ?a = Some m \<Longrightarrow> m = new_monitor" for m
        unfolding w' by (auto simp: free_monitor_def sys_close_def emit_def split: if_splits)
      ultimately show ?thesis by blast
    qed
  qed
qed

section \<open>The selector stays well typed\<close>

text \<open>What a callback of each handler is called with when it returns.\<close>

lemma client_key:
  assumes "handle_read_client env key w = Inr w' \<or> handle_write_client env key w = Inr w'"
  obtains fd a where "key = (fd, Some (ClientPtr a))"
  using assms
  by (cases key) (auto simp: handle_read_client_def handle_write_client_def attached_client_def split: option.splits attachment.splits)

lemma monitor_key:
  assumes "handle_read_monitor env key w = Inr w' \<or> handle_write_monitor env key w = Inr w'"
  obtains fd a where "key = (fd, Some (MonitorPtr a))"
  using assms
  by (cases key) (auto simp: handle_read_monitor_def handle_write_monitor_def attached_monitor_def split: option.splits attachment.splits)

lemma read_callback_typed:
  assumes good: "sel_typed (w_sel w)" and f: "read_callback renvs h = Some f" "f key w = Inr w'"
  shows "sel_typed (w_sel w')"
proof (cases h)
  case MASTER_HANDLER
  with f have "handle_read_master (renvs (fst key)) key w = Inr w'" by (auto simp: read_callback_def)
  from accept_client_held [OF this good] show ?thesis using held_typed by blast
next
  case PASSIVE_MONITOR_HANDLER
  with f have "handle_read_passive_monitor (renvs (fst key)) key w = Inr w'" by (auto simp: read_callback_def)
  from accept_monitor_held [OF this good] show ?thesis using held_typed by blast
next
  case CLIENT_HANDLER
  with f have run: "handle_read_client (renvs (fst key)) key w = Inr w'" by (auto simp: read_callback_def)
  then obtain fd a where "key = (fd, Some (ClientPtr a))" by (rule client_key [OF disjI1])
  then show ?thesis using run client_event_held [OF good disjI1] held_typed by blast
next
  case ACTIVE_MONITOR_HANDLER
  with f have run: "handle_read_monitor (renvs (fst key)) key w = Inr w'" by (auto simp: read_callback_def)
  then obtain fd a where "key = (fd, Some (MonitorPtr a))" by (rule monitor_key [OF disjI1])
  then show ?thesis using run monitor_event_held [OF good disjI1] held_typed by blast
qed

lemma write_callback_typed:
  assumes good: "sel_typed (w_sel w)" and f: "write_callback wenvs h = Some f" "f key w = Inr w'"
  shows "sel_typed (w_sel w')"
proof (cases h)
  case CLIENT_HANDLER
  with f have run: "handle_write_client (wenvs (fst key)) key w = Inr w'" by (auto simp: write_callback_def)
  then obtain fd a where "key = (fd, Some (ClientPtr a))" by (rule client_key [OF disjI2])
  then show ?thesis using run client_event_held [OF good disjI2] held_typed by blast
next
  case ACTIVE_MONITOR_HANDLER
  with f have run: "handle_write_monitor (wenvs (fst key)) key w = Inr w'" by (auto simp: write_callback_def)
  then obtain fd a where "key = (fd, Some (MonitorPtr a))" by (rule monitor_key [OF disjI2])
  then show ?thesis using run monitor_event_held [OF good disjI2] held_typed by blast
qed (use f in \<open>simp_all add: write_callback_def\<close>)

interpretation typed_rounds: round_invariant "\<lambda>w. sel_typed (w_sel w)" renvs wenvs for renvs wenvs
  by unfold_locales (auto simp: sel_typed_ok sel_typed_jobs dest: read_callback_typed write_callback_typed)

lemma reaches_typed: "server_reaches w0 w \<Longrightarrow> sel_typed (w_sel w0) \<Longrightarrow> sel_typed (w_sel w)"
  using reaches_keeps [of w0 w "\<lambda>w. sel_typed (w_sel w)"] typed_rounds.round_invariant_axioms by blast

end
