(* ===== verification/Server_Safety.thy ===== *)
theory Server_Safety
  imports Server_Loop Admin_Faults Connections
begin

text \<open>
  Invariants of whole runs of the event loop, for any traffic on any number of connections and any
  answers of the system: the directory stays well formed; without an administrator in it nothing
  that arrives changes the directory or the accepted methods; and when moreover nobody can log in
  and the method without authentication is not accepted, the proxy never connects to anything.
  The program that starts the loop, and the statements about its runs, are in Server_Main.
\<close>

section \<open>The directory stays well formed\<close>

lemma user_create_ok: "user_create us name pass lv = Inr (st, us') \<Longrightarrow> users_ok us \<Longrightarrow> users_ok us'"
  by (auto simp: user_create_def users_ok_def get_user_index_def find_index_None strcpy_into_def
      MAX_USERNAME_LEN_def MAX_PASSWORD_LEN_def split: option.splits if_splits)

lemma user_delete_ok:
  assumes "user_delete us name = (st, us')" and "users_ok us"
  shows "users_ok us'"
proof (cases "us' = us")
  case False
  with assms(1) obtain i where i: "i < length us" and us': "us' = take i us @ drop (Suc i) us"
    using delete_list_eq [of _ us]
    by (auto simp: user_delete_def get_user_index_def Let_def dest!: find_index_Some split: option.splits)
  have "set us' \<subseteq> set us" unfolding us' by (auto dest: in_set_takeD in_set_dropD)
  moreover have "length us' \<le> length us" unfolding us' by simp
  moreover have "distinct (map u_name us')" unfolding us' by (rule distinct_delete) (use assms(2) in \<open>simp add: users_ok_def\<close>)
  ultimately show ?thesis using assms(2) by (fastforce simp: users_ok_def)
qed (use assms(2) in simp)

lemma user_change_ok:
  assumes "user_change_password us name pass = Inr (st, us')" and ok: "users_ok us"
  shows "users_ok us'"
proof (cases "us' = us")
  case False
  with assms(1) obtain i p where us': "us' = us[i := (us ! i)\<lparr>u_pass := p\<rparr>]" and i: "i < length us" and p: "length p \<le> MAX_PASSWORD_LEN"
    by (auto simp: user_change_password_def get_user_index_def strcpy_into_def dest!: find_index_Some split: option.splits)
  have names: "map u_name us' = map u_name us" unfolding us' using i by (simp add: map_update list_update_same_conv)
  have "u \<in> set us \<or> u = (us ! i)\<lparr>u_pass := p\<rparr>" if "u \<in> set us'" for u
    using that set_update_subset_insert [of us i] unfolding us' by blast
  moreover have "us ! i \<in> set us" using i by simp
  ultimately show ?thesis using ok p names i unfolding users_ok_def us' by fastforce
qed (use ok in simp)

definition server_ok :: "world \<Rightarrow> bool" where
  "server_ok w \<longleftrightarrow> sel_typed (w_sel w) \<and> users_ok (w_users w)"

lemma server_ok_held: "held A B False con w w' \<Longrightarrow> server_ok w \<Longrightarrow> server_ok w'"
  by (simp add: held_def server_ok_def)

lemma server_ok_start: "server_ok w \<Longrightarrow> held {} {} False False w w"
  by (simp add: server_ok_def held_refl)

lemma server_ok_interest:
  assumes "set_interest fd i w = Inr w'"
  shows "server_ok w \<longrightarrow> server_ok w'"
  using held_interest [OF assms, of "{}" "{}" False False w] server_ok_start [of w] server_ok_held [of "{}" "{}" False w w'] by blast

lemma server_ok_unregister:
  assumes "unregister env fd w = Inr w'"
  shows "server_ok w \<longrightarrow> server_ok w'"
  using held_unregister [OF assms, of "{}" "{}" False False w] server_ok_start [of w] server_ok_held [of "{}" "{}" False w w'] by blast

interpretation users_kept: monitor_administers server_ok a for a
  by unfold_locales (simp_all add: server_ok_interest server_ok_unregister,
    auto simp: server_ok_def emit_def put_monitor_def dest: user_create_ok user_delete_ok user_change_ok)

lemma server_ok_read:
  assumes K: "server_ok w" and f: "read_callback renvs h = Some f" "f key w = Inr w'"
  shows "server_ok w'"
proof -
  have good: "sel_typed (w_sel w)" using K by (simp add: server_ok_def)
  show ?thesis
  proof (cases h)
    case MASTER_HANDLER
    with f have "handle_read_master (renvs (fst key)) key w = Inr w'" by (auto simp: read_callback_def)
    from accept_client_held [OF this good] show ?thesis using server_ok_held K by blast
  next
    case PASSIVE_MONITOR_HANDLER
    with f have "handle_read_passive_monitor (renvs (fst key)) key w = Inr w'" by (auto simp: read_callback_def)
    from accept_monitor_held [OF this good] show ?thesis using server_ok_held K by blast
  next
    case CLIENT_HANDLER
    with f have run: "handle_read_client (renvs (fst key)) key w = Inr w'" by (auto simp: read_callback_def)
    then obtain fd a where "key = (fd, Some (ClientPtr a))" by (rule client_key [OF disjI1])
    then show ?thesis using run client_event_held [OF good disjI1] server_ok_held K by blast
  next
    case ACTIVE_MONITOR_HANDLER
    with f have run: "handle_read_monitor (renvs (fst key)) key w = Inr w'" by (auto simp: read_callback_def)
    then obtain fd a where "key = (fd, Some (MonitorPtr a))" by (rule monitor_key [OF disjI1])
    then show ?thesis using preserves1D [OF users_kept.monitor_read_event_preserves] run K by blast
  qed
qed

lemma server_ok_write:
  assumes K: "server_ok w" and f: "write_callback wenvs h = Some f" "f key w = Inr w'"
  shows "server_ok w'"
proof -
  have good: "sel_typed (w_sel w)" using K by (simp add: server_ok_def)
  from f have "handle_write_client (wenvs (fst key)) key w = Inr w' \<or> handle_write_monitor (wenvs (fst key)) key w = Inr w'"
    by (cases h) (auto simp: write_callback_def)
  then show ?thesis
  proof
    assume run: "handle_write_client (wenvs (fst key)) key w = Inr w'"
    then obtain fd a where "key = (fd, Some (ClientPtr a))" by (rule client_key [OF disjI2])
    then show ?thesis using run client_event_held [OF good disjI2] server_ok_held K by blast
  next
    assume run: "handle_write_monitor (wenvs (fst key)) key w = Inr w'"
    then obtain fd a where "key = (fd, Some (MonitorPtr a))" by (rule monitor_key [OF disjI2])
    then show ?thesis using preserves1D [OF users_kept.monitor_write_event_preserves] run K by blast
  qed
qed

lemma server_ok_jobs: "server_ok (w\<lparr>w_sel := (w_sel w)\<lparr>s_jobs := js\<rparr>\<rparr>) = server_ok w"
  by (simp add: server_ok_def sel_typed_jobs)

lemma server_ok_selector: "server_ok w \<Longrightarrow> selector_ok (w_sel w)"
  by (simp add: server_ok_def sel_typed_ok)

interpretation ok_rounds: round_invariant server_ok renvs wenvs for renvs wenvs
  by unfold_locales (auto simp: server_ok_jobs dest: server_ok_read server_ok_write server_ok_selector)

lemma reaches_ok: "server_reaches w0 w \<Longrightarrow> server_ok w0 \<Longrightarrow> server_ok w"
  using reaches_keeps [of w0 w server_ok] ok_rounds.round_invariant_axioms by blast

section \<open>Connections that have not logged in\<close>

text \<open>A connection of the monitor from its acceptance to the end of its login.\<close>

definition at_login :: "monitor_t \<Rightarrow> bool" where
  "at_login m \<longleftrightarrow> monitor_in m MONITOR_AUTH \<and> (\<exists>mp p. m_parser m = M_auth mp \<and> map_p mp = Some p \<and>
     parser_ok monitor_auth_parser_def p \<and> p_state p \<le> MONITOR_AUTH_STATE_PASSWD)"

definition before_login :: "monitor_t \<Rightarrow> bool" where
  "before_login m \<longleftrightarrow> m_stm m = m_stm new_monitor \<or> at_login m"

lemma before_login_new: "before_login new_monitor"
  by (simp add: before_login_def)

definition no_admin :: "users \<Rightarrow> bool" where
  "no_admin us \<longleftrightarrow> (\<forall>u \<in> set us. u_level u \<noteq> ADMIN)"

lemma no_admin_login:
  assumes "no_admin us"
  shows "user_login us name pass \<noteq> (USERS_OK, Some ADMIN)"
proof
  assume "user_login us name pass = (USERS_OK, Some ADMIN)"
  then obtain i where i: "get_user_index us name = Some i" and lv: "u_level (us ! i) = ADMIN"
    by (auto simp: user_login_def split: option.splits if_splits)
  from i have "i < length us" by (auto simp: get_user_index_def dest: find_index_Some split: option.splits)
  then show False using assms lv by (auto simp: no_admin_def)
qed

lemma no_admin_granted: "no_admin us \<Longrightarrow> \<not> granted us mp"
  by (simp add: granted_def no_admin_login)

text \<open>The part of a login that goes on leaves the parser where a login can go on.\<close>

definition goes_on :: "nat \<Rightarrow> monitor_t \<Rightarrow> world \<Rightarrow> bool" where
  "goes_on a m w1 \<longleftrightarrow> (\<exists>m1. w_monitors w1 a = Some m1 \<and> m_stm m1 = m_stm m \<and> (\<exists>mp p. m_parser m1 = M_auth mp \<and>
     map_p mp = Some p \<and> parser_ok monitor_auth_parser_def p \<and> p_state p \<le> MONITOR_AUTH_STATE_PASSWD))"

lemma goes_on_login: "goes_on a m w1 \<Longrightarrow> at_login m \<Longrightarrow> \<exists>m1. w_monitors w1 a = Some m1 \<and> m_stm m1 = m_stm m \<and> at_login m1"
  by (auto simp: goes_on_def at_login_def monitor_in_def)

lemma event_goes_on:
  assumes run: "monitor_auth_event env (fd, Some (MonitorPtr a)) a ev w1 = Inr (None, w2)"
    and m1: "w_monitors w1 a = Some m1" "m_stm m1 = m_stm m" "m_parser m1 = M_auth mp" "map_p mp = Some p"
    and p: "parser_ok monitor_auth_parser_def p" "p_state p \<le> MONITOR_AUTH_STATE_PASSWD"
  shows "goes_on a m w2"
proof -
  have set: "goes_on a m (put_monitor a (m1\<lparr>m_parser := M_auth mp'\<rparr>) w1)"
    if "map_p mp' = Some p \<or> map_p mp' = Some (parser_set_state p MONITOR_AUTH_STATE_PLEN)" for mp'
    using that m1(2) p by (auto simp: goes_on_def monitor_auth_table_defs intro!: parser_ok_set_state)
  show ?thesis using run m1(1,3,4)
    by (auto simp: monitor_auth_event_def set_monitor_auth_def set_monitor_error_def intro!: set
        split: if_splits dest!: login_event)
qed

lemma login_verdict: "monitor_login env key a mp w = Inr (ret, w1) \<Longrightarrow> ret = Some MONITOR_ERROR \<or> ret = Some MONITOR_REQ"
  by (auto simp: monitor_login_def auth_failed_def Let_def split: prod.splits if_splits)

lemma event_leaves: "monitor_auth_event env key a ev w = Inr (Some st, w2) \<Longrightarrow> st \<noteq> MONITOR_AUTH"
  by (auto simp: monitor_auth_event_def split: if_splits dest!: login_verdict)

lemma auth_read_waits:
  assumes l: "login_at w a fd m st mp p" and st: "st \<le> MONITOR_AUTH_STATE_PASSWD"
    and run: "monitor_auth_read env (fd, Some (MonitorPtr a)) w = Inr (MONITOR_AUTH, w1)"
  shows "goes_on a m w1"
proof -
  have m: "w_monitors w a = Some m" "m_parser m = M_auth mp" "map_p mp = Some p" "parser_ok monitor_auth_parser_def p" "p_state p = st"
    using l by (auto simp: login_at_def monitor_linked_def)
  show ?thesis
  proof (cases "\<exists>b bs. e_recv env fd = Avail (b # bs)")
    case False
    show ?thesis using run m st False
      by (cases "e_recv env fd"; cases "case e_recv env fd of Avail bs \<Rightarrow> bs")
        (auto simp: monitor_auth_read_def sys_recv_def set_monitor_error_def goes_on_def split: if_splits)
  next
    case True
    then obtain b bs where inp: "e_recv env fd = Avail (b # bs)" by blast
    have "st = MONITOR_AUTH_STATE_ULEN \<or> st = MONITOR_AUTH_STATE_UNAME \<or> st = MONITOR_AUTH_STATE_PLEN \<or> st = MONITOR_AUTH_STATE_PASSWD"
      using st by (auto simp: monitor_auth_consts)
    then obtain ty dest where feed: "parser_feed p b = Inr (stepped p b ty dest)" and dest: "dest \<le> MONITOR_AUTH_STATE_PASSWD"
      using monitor_auth_feed [OF m(4), of b] m(5) by (auto simp: monitor_auth_consts)
    let ?p = "stepped p b ty dest"
    let ?mp = "mp\<lparr>map_p := Some ?p\<rparr>"
    have p: "parser_ok monitor_auth_parser_def ?p" "p_state ?p \<le> MONITOR_AUTH_STATE_PASSWD"
      using m(4) dest by (auto simp: monitor_auth_table_defs intro!: parser_ok_stepped)
    from run login_read [OF l inp feed] obtain r where
      r: "monitor_auth_event env (fd, Some (MonitorPtr a)) a (p_e1 ?p) (byte_in a fd m ?mp b w) = Inr (r, w1)"
      "MONITOR_AUTH = (case r of Some st \<Rightarrow> st | None \<Rightarrow> MONITOR_AUTH)" by auto
    have "r = None" using r by (cases r) (auto dest: event_leaves)
    with event_goes_on [where ?m1.0 = "with_login m ?mp" and m = m and mp = ?mp and p = ?p, OF r(1) [unfolded this]] p
    show ?thesis by simp
  qed
qed

section \<open>Events of a monitor before its login\<close>

lemma error_arrival_releases:
  assumes own: "monitor_owned w a fd" and ok: "selector_ok (w_sel w)"
    and run: "monitor_error_arrival env s (fd, Some (MonitorPtr a)) w = Inr w'"
  shows "w_monitors w' a = None"
proof -
  from run obtain m s where "w_monitors w a = Some m"
    and un: "unregister env fd ((if m_error m \<noteq> 0 then snd (sys_send env fd [m_error m] w) else w)\<lparr>w_sel := s\<rparr>) = Inr w'"
    and s: "s = upd_interest (w_sel w) fd OP_NOOP"
    using set_interest_ok(1) [of "if _ then snd (sys_send env fd _ w) else w" fd OP_NOOP] ok
    by (auto simp: monitor_error_arrival_def Let_def set_interest_key_eq set_interest_ok(1) split: if_splits)
  let ?w = "(if m_error m \<noteq> 0 then snd (sys_send env fd [m_error m] w) else w)\<lparr>w_sel := s\<rparr>"
  have ok1: "selector_ok (w_sel ?w)" using set_interest_ok(2) [OF ok] s by simp
  have "monitor_owned ?w a fd" using own ok s by (simp add: monitor_owned_def interest_simps with_interest_apply)
  then obtain i where l: "sel_lookup (w_sel ?w) fd = Some (i, Some ACTIVE_MONITOR_HANDLER, Some (MonitorPtr a))"
    by (auto simp: monitor_owned_def)
  note it = sel_lookup_SomeD [OF l]
  have v: "\<not> INVALID_FD fd" using sel_lookup_valid [OF ok1] l by simp
  from un it v show ?thesis
    by (auto simp: unregister_def selector_unregister_fd_def close_callback_def handle_close_monitor_def free_monitor_def)
qed

lemma at_login_event:
  assumes own: "monitor_owned w a fd" and m: "w_monitors w a = Some m" "at_login m" and no: "no_admin (w_users w)"
    and run: "handle_read_monitor env (fd, Some (MonitorPtr a)) w = Inr w'" and K: "held {} {a} False False w0 w"
  shows "held {} {a} False False w0 w' \<and> (\<forall>m'. w_monitors w' a = Some m' \<longrightarrow> before_login m')"
proof -
  let ?k = "(fd, Some (MonitorPtr a))"
  note ok = sel_typed_ok [OF held_typed [OF K]]
  from m(2) obtain mp p where st: "monitor_in m MONITOR_AUTH" and p: "m_parser m = M_auth mp" "map_p mp = Some p"
    "parser_ok monitor_auth_parser_def p" "p_state p \<le> MONITOR_AUTH_STATE_PASSWD" by (auto simp: at_login_def)
  have l: "login_at w a fd m (p_state p) mp p"
    using own ok m(1) st p by (simp add: login_at_def monitor_linked_def)
  from monitor_event_run [where ready = on_read_ready and env = env and key = ?k, OF m(1) st, of "monitor_auth_read env"] run
  obtain ret w1 where rd: "monitor_auth_read env ?k w = Inr (ret, w1)"
    and j: "jump (monitor_machine a) (set_monitor_machine a) (monitor_states env) ret ?k w1 = Inr w'"
    by (auto simp: handle_read_monitor_event)
  have K1: "held {} {a} False False w0 w1"
    using held_login.monitor_auth_read_preserves [where a = a and ?w0.0 = w0 and env = env and fd = fd and w = w] rd K
    by (simp add: preserves_def)
  from auth_read_result [OF l p(4) rd] no_admin_granted [OF no] obtain m1 mp1 where
    m1: "w_monitors w1 a = Some m1" "m_stm m1 = m_stm m" "m_parser m1 = M_auth mp1" "w_sel w1 = w_sel w"
    and ret: "ret = MONITOR_AUTH \<or> ret = MONITOR_ERROR" by (auto simp: auth_result_def)
  have get: "monitor_machine a w1 = Inr (m_stm m)" using m1 by simp
  from ret show ?thesis
  proof
    assume e: "ret = MONITOR_AUTH"
    then have "w' = w1" using j mstm.jump_stay [OF get, of MONITOR_AUTH "monitor_states env" ?k] st by (simp add: monitor_in_def)
    then show ?thesis using K1 goes_on_login [OF auth_read_waits [OF l p(4) rd [unfolded e]] m(2)]
      by (auto simp: before_login_def)
  next
    assume e: "ret = MONITOR_ERROR"
    let ?w2 = "snd (sys_send env fd [if m_user_access_level m1 = ADMIN then 0 else 1] w1)"
    let ?m2 = "m1\<lparr>m_parser := M_auth (mp1\<lparr>map_p := None\<rparr>)\<rparr>"
    have dep: "monitor_auth_finalize env MONITOR_AUTH ?k w1 = Inr (put_monitor a ?m2 ?w2)"
      using m1 by (simp add: monitor_auth_finalize_def case_prod_unfold Let_def)
    let ?w3 = "put_monitor a (monitor_moved ?m2 MONITOR_ERROR) (put_monitor a ?m2 ?w2)"
    have err: "monitor_error_arrival env MONITOR_ERROR ?k ?w3 = Inr w'"
      using j mstm.jump_depart [OF get, of MONITOR_AUTH MONITOR_ERROR "monitor_states env" "monitor_auth_finalize env" ?k, OF _ _ _ _ _ _ _ dep]
        st m1(2) e by (simp add: monitor_in_def monitor_moved_def)
    have "held {} {a} False False w0 ?w3" by (intro held_objects(2) held_send K1) simp_all
    then have "held {} {a} False False w0 w'"
      using held_login.closing_arrivals_preserve(1) [where a = a and ?w0.0 = w0 and env = env and fd = fd and w = ?w3] err
      by (simp add: preserves1_def)
    moreover have "monitor_owned ?w3 a fd" "selector_ok (w_sel ?w3)" using own ok m1(4) by (simp_all add: monitor_owned_def)
    ultimately show ?thesis using error_arrival_releases [OF _ _ err] by simp
  qed
qed

lemma first_login_event:
  assumes own: "monitor_owned w a fd" and m: "w_monitors w a = Some m" "m_stm m = m_stm new_monitor" and no: "no_admin (w_users w)"
    and run: "handle_read_monitor env (fd, Some (MonitorPtr a)) w = Inr w'" and good: "sel_typed (w_sel w)"
  shows "held {} {a} False False w w' \<and> (\<forall>m'. w_monitors w' a = Some m' \<longrightarrow> before_login m')"
proof -
  let ?k = "(fd, Some (MonitorPtr a))"
  have alloc: "e_alloc env A_parser"
  proof (rule ccontr)
    assume none: "\<not> e_alloc env A_parser"
    have ini: "stm_current (m_stm m) = None" "stm_initial (m_stm m) = MONITOR_AUTH"
      using m(2) by (simp_all add: new_monitor_def)
    from run mstm.first_event [of a w "m_stm m" "monitor_states env" on_read_ready ?k, OF _ ini(1)] m(1) ini obtain w1 m2 where
      init: "monitor_auth_init env MONITOR_AUTH ?k (set_monitor_machine a ((m_stm m)\<lparr>stm_current := Some MONITOR_AUTH\<rparr>) w) = Inr w1"
      and get: "monitor_machine a w1 = Inr m2"
      by (auto simp: handle_read_monitor_event)
    from init none m(1) obtain m3 where err: "monitor_error_arrival env MONITOR_ERROR ?k (put_monitor a m3 w) = Inr w1"
      by (auto simp: monitor_auth_init_def monitor_auth_parser_init_def parser_init_def set_monitor_error_def Let_def)
    have "w_monitors w1 a = None"
      using error_arrival_releases [OF _ _ err] own sel_typed_ok [OF good] by simp
    then show False using get by (auto simp: monitor_machine_def get_monitor_def)
  qed
  let ?w1 = "put_monitor a (started env m) w"
  have st: "at_login (started env m)"
    using m(2) parser_ok_fresh [of monitor_auth_parser_def env]
    by (simp add: at_login_def started_def monitor_in_def new_monitor_def, simp add: fresh_parser_def monitor_auth_table_defs)
  have "held {} {a} False False w ?w1" using held_refl [OF good] by (simp add: held_objects(2))
  moreover have "handle_read_monitor env ?k ?w1 = Inr w'" using run first_monitor_event [OF m alloc] by simp
  ultimately show ?thesis using at_login_event [where m = "started env m" and w = ?w1 and ?w0.0 = w, OF _ _ st] own no by simp
qed

lemma auth_state_writes: "arr_get (monitor_states env) MONITOR_AUTH = Inr sd \<Longrightarrow> on_write_ready sd = None"
  by (auto simp: arr_get_Inr_iff)

text \<open>There is nothing to write before the login: an event for it stops the program.\<close>

lemma no_write_before_login:
  assumes m: "w_monitors w a = Some m" and before: "before_login m" and good: "sel_typed (w_sel w)"
  shows "handle_write_monitor env (fd, Some (MonitorPtr a)) w \<noteq> Inr w'"
proof
  let ?k = "(fd, Some (MonitorPtr a))"
  assume run: "handle_write_monitor env ?k w = Inr w'"
  show False
  proof (cases "at_login m")
    case True
    then show False using run mstm.event_without_callback [of a w "m_stm m" MONITOR_AUTH "monitor_states env" on_write_ready ?k] m
      by (simp add: handle_write_monitor_event at_login_def monitor_in_def)
  next
    case False
    with before have stm: "m_stm m = m_stm new_monitor" by (simp add: before_login_def)
    then have ini: "stm_current (m_stm m) = None" "stm_initial (m_stm m) = MONITOR_AUTH" by (simp_all add: new_monitor_def)
    from run mstm.first_event [of a w "m_stm m" "monitor_states env" on_write_ready ?k, OF _ ini(1)] m ini obtain w1 m2 c sd f where
      init: "monitor_auth_init env MONITOR_AUTH ?k (put_monitor a (monitor_moved m MONITOR_AUTH) w) = Inr w1"
      and get: "w_monitors w1 a = Some m2" "stm_current (m_stm m2) = Some c"
      and sd: "arr_get (monitor_states env) c = Inr sd" "on_write_ready sd = Some f"
      by (auto simp: handle_write_monitor_event monitor_moved_def monitor_machine_def get_monitor_def deref_def
          split: option.splits)
    have "stm_current (m_stm m2) = Some MONITOR_AUTH"
    proof (cases "e_alloc env A_parser")
      case True
      then show ?thesis using init get(1)
        by (auto simp: monitor_auth_init_def monitor_auth_parser_init_def parser_init_def Let_def upd_monitor_def bindr_Inr_iff)
    next
      case False
      let ?m3 = "(monitor_moved m MONITOR_AUTH)\<lparr>m_parser := M_auth (zero_monitor_auth\<lparr>map_p := None\<rparr>), m_error := MONITOR_IO_ERROR\<rparr>"
      from init False have "monitor_error_arrival env MONITOR_ERROR ?k (put_monitor a ?m3 w) = Inr w1"
        by (simp add: monitor_auth_init_def monitor_auth_parser_init_def parser_init_def set_monitor_error_def Let_def)
      from error_arrival_held [OF this, of "{}" "{}" False False "put_monitor a ?m3 w"] good
      have "held {} {} False False (put_monitor a ?m3 w) w1" by (simp add: held_refl)
      then have "w_monitors (put_monitor a ?m3 w) a = Some m2" using get(1) unfolding held_def by blast
      then show ?thesis by auto
    qed
    then show False using get sd auth_state_writes by auto
  qed
qed

section \<open>The directory without administrators\<close>

definition locked :: "users \<Rightarrow> methods \<Rightarrow> world \<Rightarrow> bool" where
  "locked us ms w \<longleftrightarrow> sel_typed (w_sel w) \<and> w_users w = us \<and> w_methods w = ms \<and>
     (\<forall>a m. w_monitors w a = Some m \<longrightarrow> before_login m)"

lemma locked_held: "held A {} False con w w' \<Longrightarrow> locked us ms w \<Longrightarrow> locked us ms w'"
  unfolding held_def locked_def by blast

lemma locked_login:
  assumes "held {} {a} False con w w'" and "\<forall>m. w_monitors w' a = Some m \<longrightarrow> before_login m" and "locked us ms w"
  shows "locked us ms w'"
proof -
  have "before_login m" if "w_monitors w' b = Some m" for b m
  proof (cases "b = a")
    case False
    then show ?thesis using that assms(1,3) unfolding held_def locked_def by blast
  qed (use that assms(2) in blast)
  then show ?thesis using assms by (auto simp: held_def locked_def)
qed

text \<open>An event on a monitor connection, of a server without administrators.\<close>

lemma locked_monitor:
  assumes L: "locked us ms w" and no: "no_admin us" and own: "monitor_owned w a fd"
    and run: "handle_read_monitor env (fd, Some (MonitorPtr a)) w = Inr w'"
  shows "held {} {a} False False w w' \<and> (\<forall>m. w_monitors w' a = Some m \<longrightarrow> before_login m)"
proof -
  from run obtain m where m: "w_monitors w a = Some m"
    by (cases "w_monitors w a") (auto simp: handle_read_monitor_def stm_handler_read_def stm_event_def handle_first_def monitor_machine_def get_monitor_def)
  then have before: "before_login m" and good: "sel_typed (w_sel w)" and no': "no_admin (w_users w)"
    using L no by (auto simp: locked_def)
  show ?thesis
  proof (cases "at_login m")
    case True
    from at_login_event [OF own m True no' run held_refl [OF good]] show ?thesis .
  next
    case False
    with before have "m_stm m = m_stm new_monitor" by (simp add: before_login_def)
    from first_login_event [OF own m this no' run good] show ?thesis .
  qed
qed

lemma locked_read:
  assumes L: "locked us ms w" and no: "no_admin us" and reg: "registered_key w key h"
    and f: "read_callback renvs h = Some f" "f key w = Inr w'"
  shows "locked us ms w' \<and> (\<exists>a. h = CLIENT_HANDLER \<and> (\<exists>fd. key = (fd, Some (ClientPtr a))) \<or> held {} {a} False False w w' \<or>
    held {a} {} False False w w' \<and> (\<forall>c. w_clients w' a = Some c \<longrightarrow> w_clients w a = Some c \<or> (\<exists>fd. c = new_client fd)))"
proof -
  have good: "sel_typed (w_sel w)" using L by (simp add: locked_def)
  show ?thesis
  proof (cases h)
    case MASTER_HANDLER
    with f have "handle_read_master (renvs (fst key)) key w = Inr w'" by (auto simp: read_callback_def)
    from accept_client_held [OF this good] show ?thesis using locked_held [OF _ L] by blast
  next
    case PASSIVE_MONITOR_HANDLER
    with f have "handle_read_passive_monitor (renvs (fst key)) key w = Inr w'" by (auto simp: read_callback_def)
    from accept_monitor_held [OF this good] obtain a where a: "held {} {a} False False w w'"
      "\<forall>m. w_monitors w' a = Some m \<longrightarrow> w_monitors w a = Some m \<or> m = new_monitor" by blast
    have "\<forall>m. w_monitors w' a = Some m \<longrightarrow> before_login m" using a(2) L before_login_new by (auto simp: locked_def)
    from locked_login [OF a(1) this L] a(1) show ?thesis by blast
  next
    case CLIENT_HANDLER
    with f have run: "handle_read_client (renvs (fst key)) key w = Inr w'" by (auto simp: read_callback_def)
    then obtain fd a where "key = (fd, Some (ClientPtr a))" by (rule client_key [OF disjI1])
    then show ?thesis using run client_event_held [OF good disjI1] locked_held [OF _ L] CLIENT_HANDLER by blast
  next
    case ACTIVE_MONITOR_HANDLER
    with f have run: "handle_read_monitor (renvs (fst key)) key w = Inr w'" by (auto simp: read_callback_def)
    then obtain fd a where key: "key = (fd, Some (MonitorPtr a))" by (rule monitor_key [OF disjI1])
    then have "monitor_owned w a fd" using reg ACTIVE_MONITOR_HANDLER by (auto simp: registered_key_def monitor_owned_def)
    from locked_monitor [OF L no this] run key locked_login [OF _ _ L] show ?thesis by blast
  qed
qed

lemma locked_write:
  assumes L: "locked us ms w" and f: "write_callback wenvs h = Some f" "f key w = Inr w'"
  shows "\<exists>fd a. h = CLIENT_HANDLER \<and> key = (fd, Some (ClientPtr a)) \<and>
    handle_write_client (wenvs fd) (fd, Some (ClientPtr a)) w = Inr w' \<and> locked us ms w'"
proof -
  have good: "sel_typed (w_sel w)" using L by (simp add: locked_def)
  from f have "h = CLIENT_HANDLER \<and> handle_write_client (wenvs (fst key)) key w = Inr w' \<or>
      h = ACTIVE_MONITOR_HANDLER \<and> handle_write_monitor (wenvs (fst key)) key w = Inr w'"
    by (cases h) (auto simp: write_callback_def)
  then show ?thesis
  proof
    assume run: "h = CLIENT_HANDLER \<and> handle_write_client (wenvs (fst key)) key w = Inr w'"
    then obtain fd a where key: "key = (fd, Some (ClientPtr a))" using client_key [OF disjI2] by blast
    from client_event_held [OF good disjI2] run key have "held {a} {} False True w w'" by auto
    from locked_held [OF this L] run key show ?thesis by auto
  next
    assume run: "h = ACTIVE_MONITOR_HANDLER \<and> handle_write_monitor (wenvs (fst key)) key w = Inr w'"
    then obtain fd a where key: "key = (fd, Some (MonitorPtr a))" using monitor_key [OF disjI2] by blast
    from run key obtain m where m: "w_monitors w a = Some m"
      by (cases "w_monitors w a") (auto simp: handle_write_monitor_def stm_handler_write_def stm_event_def handle_first_def
          monitor_machine_def get_monitor_def)
    then have "before_login m" using L by (simp add: locked_def)
    from no_write_before_login [OF m this good] run key show ?thesis by auto
  qed
qed

lemma locked_jobs: "locked us ms (w\<lparr>w_sel := (w_sel w)\<lparr>s_jobs := js\<rparr>\<rparr>) = locked us ms w"
  by (simp add: locked_def sel_typed_jobs)

lemma locked_sel: "locked us ms w \<Longrightarrow> selector_ok (w_sel w)"
  by (simp add: locked_def sel_typed_ok)

lemma locked_rounds: "no_admin us \<Longrightarrow> round_invariant (locked us ms) renvs wenvs"
  by unfold_locales (auto simp: locked_jobs dest: locked_read locked_write locked_sel)

lemma locked_reaches:
  assumes "server_reaches w0 w" and "no_admin (w_users w0)" and "sel_typed (w_sel w0)" and "w_monitors w0 = Map.empty"
  shows "w_users w = w_users w0 \<and> w_methods w = w_methods w0 \<and> (\<forall>a m. w_monitors w a = Some m \<longrightarrow> before_login m)"
proof -
  have "locked (w_users w0) (w_methods w0) w0" using assms(3,4) by (auto simp: locked_def)
  from reaches_keeps [OF assms(1) locked_rounds [OF assms(2)] this] show ?thesis by (auto simp: locked_def)
qed

section \<open>Clients that are not let in\<close>

text \<open>
  A client before the requests, that was not offered to go without authentication and did not
  authenticate.
\<close>

definition kept_out_at :: "client_t \<Rightarrow> nat \<Rightarrow> bool" where
  "kept_out_at c k \<longleftrightarrow> k = HELLO_READ \<or> k = AUTH_READ \<or>
     k = HELLO_WRITE \<and> (\<forall>hp. c_parser c = P_hello hp \<longrightarrow> hp_method_selected hp \<noteq> 0) \<or>
     k = AUTH_WRITE \<and> (\<forall>ap. c_parser c = P_auth ap \<longrightarrow> ap_auth_status ap \<noteq> AUTH_SUCCESS)"

definition kept_out :: "client_t \<Rightarrow> bool" where
  "kept_out c \<longleftrightarrow> (\<exists>fd. c_stm c = c_stm (new_client fd)) \<or> (\<exists>k. in_state c k \<and> kept_out_at c k)"

definition closed_to_all :: "users \<Rightarrow> methods \<Rightarrow> bool" where
  "closed_to_all us ms \<longleftrightarrow> us = [] \<and> methods_ok ms \<and> 0 \<notin> method_set ms"

lemma select_method_not_open:
  assumes "select_method ms hp = Inr m" and "methods_ok ms" and "0 \<notin> method_set ms"
  shows "m \<noteq> 0"
proof
  assume z: "m = 0"
  have "unat (hp_nmethods hp) \<le> length (hp_methods hp)" using assms(1) by (auto simp: select_method_def guardr_def split: if_splits)
  from select_method_chosen [OF assms(2) this] assms(1) z
  have ch: "chosen_method ms (take (unat (hp_nmethods hp)) (hp_methods hp)) = 0" by simp
  then have "chosen_method ms (take (unat (hp_nmethods hp)) (hp_methods hp)) \<noteq> 0xFF" by simp
  from chosen_method_accepted(3) [OF this] ch assms(3) show False by simp
qed

lemma hello_event_choice:
  assumes "hello_event key a ev w = Inr (ret, w2)" and "methods_ok (w_methods w)" and "0 \<notin> method_set (w_methods w)"
  shows "w_methods w2 = w_methods w \<and> (ret = Some HELLO_WRITE \<longrightarrow>
    (\<exists>c hp. w_clients w2 a = Some c \<and> c_parser c = P_hello hp \<and> hp_method_selected hp \<noteq> 0))"
  using assms(1) select_method_not_open [OF _ assms(2,3)] unfolding hello_event_def
  by (auto split: if_splits)

lemma hello_events_choice:
  assumes "hello_events key a evs w = Inr (HELLO_WRITE, w2)" and "methods_ok (w_methods w)" and "0 \<notin> method_set (w_methods w)"
  shows "\<exists>c hp. w_clients w2 a = Some c \<and> c_parser c = P_hello hp \<and> hp_method_selected hp \<noteq> 0"
  using assms
proof (induction evs arbitrary: w)
  case (Cons ev evs)
  from Cons.prems(1) obtain ret w1 where ev: "hello_event key a ev w = Inr (ret, w1)"
    and rest: "(case ret of Some st \<Rightarrow> Inr (st, w1) | None \<Rightarrow> hello_events key a evs w1) = Inr (HELLO_WRITE, w2)" by auto
  from hello_event_choice [OF ev Cons.prems(2,3)] rest Cons.IH [of w1] Cons.prems(2,3) show ?case
    by (cases ret) auto
qed simp

lemma hello_read_choice:
  assumes "hello_read env (fd, Some (ClientPtr a)) w = Inr (HELLO_WRITE, w2)" and "methods_ok (w_methods w)"
    and "0 \<notin> method_set (w_methods w)"
  shows "\<exists>c hp. w_clients w2 a = Some c \<and> c_parser c = P_hello hp \<and> hp_method_selected hp \<noteq> 0"
  using assms
  by (auto simp: hello_read_def Let_def sys_recv_def split: if_splits prod.splits recv_answer.splits dest!: hello_events_choice)

lemma auth_event_refuses:
  assumes "auth_event key a ev w = Inr (ret, w2)" and "w_users w = []"
  shows "w_users w2 = [] \<and> (ret = Some AUTH_WRITE \<longrightarrow>
    (\<exists>c ap. w_clients w2 a = Some c \<and> c_parser c = P_auth ap \<and> ap_auth_status ap \<noteq> AUTH_SUCCESS))"
  using assms unfolding auth_event_def
  by (auto simp: Let_def user_login_def get_user_index_def AUTH_SUCCESS_def AUTH_FAILURE_def split: if_splits)

lemma auth_events_refuse:
  assumes "auth_events key a evs w = Inr (AUTH_WRITE, w2)" and "w_users w = []"
  shows "\<exists>c ap. w_clients w2 a = Some c \<and> c_parser c = P_auth ap \<and> ap_auth_status ap \<noteq> AUTH_SUCCESS"
  using assms
proof (induction evs arbitrary: w)
  case (Cons ev evs)
  from Cons.prems(1) obtain ret w1 where ev: "auth_event key a ev w = Inr (ret, w1)"
    and rest: "(case ret of Some st \<Rightarrow> Inr (st, w1) | None \<Rightarrow> auth_events key a evs w1) = Inr (AUTH_WRITE, w2)" by auto
  from auth_event_refuses [OF ev Cons.prems(2)] rest Cons.IH [of w1] show ?case by (cases ret) auto
qed simp

lemma auth_read_refuses:
  assumes "auth_read env (fd, Some (ClientPtr a)) w = Inr (AUTH_WRITE, w2)" and "w_users w = []"
  shows "\<exists>c ap. w_clients w2 a = Some c \<and> c_parser c = P_auth ap \<and> ap_auth_status ap \<noteq> AUTH_SUCCESS"
  using assms
  by (auto simp: auth_read_def Let_def sys_recv_def split: if_splits prod.splits recv_answer.splits dest!: auth_events_refuse)

lemma kept_out_callback:
  assumes cb: "callback_of env k f" and out: "kept_out_at c k" and w: "w_clients w a = Some c" and K: "held {a} {} False False w0 w"
    and run: "f (fd, Some (ClientPtr a)) w = Inr (ret, w2)" and c2: "w_clients w2 a = Some c2"
    and closed: "closed_to_all (w_users w) (w_methods w)"
  shows "held {a} {} False False w0 w2 \<and> (ret = ERROR \<or> kept_out_at c2 ret)"
proof -
  let ?key = "(fd, Some (ClientPtr a))"
  note out_def = kept_out_at_def closed_to_all_def
  from out consider (hr) "k = HELLO_READ" | (hw) "k = HELLO_WRITE" "\<forall>hp. c_parser c = P_hello hp \<longrightarrow> hp_method_selected hp \<noteq> 0"
    | (ar) "k = AUTH_READ" | (aw) "k = AUTH_WRITE" "\<forall>ap. c_parser c = P_auth ap \<longrightarrow> ap_auth_status ap \<noteq> AUTH_SUCCESS"
    by (auto simp: kept_out_at_def)
  then show ?thesis
  proof cases
    case hr
    then have f: "f = hello_read env" using cb by (auto simp: callback_of_def)
    have "held {a} {} False False w0 w2"
      using preservesD [OF held_quiet.hello_read_preserves [where a = a and ?w0.0 = w0], OF run [unfolded f]] K by simp
    moreover have "ret \<in> {HELLO_READ, HELLO_WRITE, ERROR}" using returnsD [OF hello_read_returns run [unfolded f]] by simp
    moreover have "kept_out_at c2 HELLO_WRITE" if "ret = HELLO_WRITE"
      using hello_read_choice [OF run [unfolded f that]] closed c2 by (auto simp: out_def)
    ultimately show ?thesis by (auto simp: kept_out_at_def)
  next
    case hw
    then have f: "f = hello_write env" using cb by (auto simp: callback_of_def)
    have "held {a} {} False False w0 w2"
      using preservesD [OF held_quiet.hello_write_preserves [where a = a and ?w0.0 = w0], OF run [unfolded f]] K by simp
    moreover have "ret \<in> {REQUEST_READ, AUTH_READ, ERROR}" using returnsD [OF hello_write_returns run [unfolded f]] by simp
    moreover have "ret \<noteq> REQUEST_READ" using hello_write_open [of env fd a w w2] run [unfolded f] w hw(2) by auto
    ultimately show ?thesis by (auto simp: kept_out_at_def)
  next
    case ar
    then have f: "f = auth_read env" using cb by (auto simp: callback_of_def)
    have "held {a} {} False False w0 w2"
      using preservesD [OF held_quiet.auth_read_preserves [where a = a and ?w0.0 = w0], OF run [unfolded f]] K by simp
    moreover have "ret \<in> {AUTH_READ, AUTH_WRITE, ERROR}" using returnsD [OF auth_read_returns run [unfolded f]] by simp
    moreover have "kept_out_at c2 AUTH_WRITE" if "ret = AUTH_WRITE"
      using auth_read_refuses [OF run [unfolded f that]] closed c2 by (auto simp: out_def)
    ultimately show ?thesis by (auto simp: kept_out_at_def)
  next
    case aw
    then have f: "f = auth_write env" using cb by (auto simp: callback_of_def)
    have "held {a} {} False False w0 w2"
      using preservesD [OF held_quiet.auth_write_preserves [where a = a and ?w0.0 = w0], OF run [unfolded f]] K by simp
    moreover have "ret \<in> {REQUEST_READ, ERROR}" using returnsD [OF auth_write_returns run [unfolded f]] by simp
    moreover have "ret \<noteq> REQUEST_READ" using auth_write_open [of env fd a w w2] run [unfolded f] w aw(2) by auto
    ultimately show ?thesis by auto
  qed
qed

lemma kept_out_arrival:
  assumes out: "ret = ERROR \<or> kept_out_at c2 ret" and w: "w_clients w2 a = Some c2" and st: "in_state c2 k" "kept_out_at c k"
    and run: "after_event env k ret (fd, Some (ClientPtr a)) a c2 w2 = Inr w'" and c': "w_clients w' a = Some c'"
  shows "kept_out c'"
proof -
  have le: "ret \<le> ERROR" using out by (auto simp: kept_out_at_def)
  note res = arrival_result [OF run w st(1) le c']
  have k: "k \<noteq> ERROR" using st(2) by (auto simp: kept_out_at_def)
  then have "kept_out_at c2 ret" using out res by auto
  moreover have "c_parser c' = c_parser c2" if "ret = HELLO_WRITE \<or> ret = AUTH_WRITE"
    using that run w c' by (cases "ret = k") (auto simp: after_event_simps)
  ultimately show ?thesis using res by (auto simp: kept_out_def kept_out_at_def)
qed

lemma kept_out_event:
  assumes step: "client_step env fd a w w'" and c: "w_clients w a = Some c" "in_state c k" "kept_out_at c k"
    and K: "held {a} {} False False w0 w" and closed: "closed_to_all (w_users w) (w_methods w)"
  shows "held {a} {} False False w0 w' \<and> (\<forall>c'. w_clients w' a = Some c' \<longrightarrow> kept_out c')"
proof -
  obtain f ret w2 c2 where cb: "callback_of env k f" and run: "f (fd, Some (ClientPtr a)) w = Inr (ret, w2)"
    and c2: "w_clients w2 a = Some c2" "c_stm c2 = c_stm c" and le: "ret \<le> ERROR"
    and after: "after_event env k ret (fd, Some (ClientPtr a)) a c2 w2 = Inr w'"
    using client_step_after [OF step c(1,2)] by blast
  from kept_out_callback [OF cb c(3,1) K run c2(1) closed]
  have K2: "held {a} {} False False w0 w2" and out: "ret = ERROR \<or> kept_out_at c2 ret" by simp_all
  have "ret < 11" using le by (simp add: ERROR_def)
  from preserves1D [OF held_quiet.after_event_preserves [where a = a and ?w0.0 = w0, OF this] after] K2
  have "held {a} {} False False w0 w'" by simp
  moreover have "in_state c2 k" using c(2) c2(2) by (simp add: in_state_def)
  ultimately show ?thesis using kept_out_arrival [OF out c2(1) _ c(3) after] by blast
qed

text \<open>The first event of a client prepares its parser, and is then an event in the first state.\<close>

lemma fresh_client_event:
  assumes c: "w_clients w a = Some c" "c_stm c = c_stm (new_client n)"
    and run: "bindr (stm_event ready (client_machine a) (set_client_machine a) (client_states env) (fd, Some (ClientPtr a)) w)
      (\<lambda>(_, w'). Inr w') = Inr w'"
  shows "\<exists>c1. in_state c1 HELLO_READ \<and>
    bindr (stm_event ready (client_machine a) (set_client_machine a) (client_states env) (fd, Some (ClientPtr a)) (put_client a c1 w))
      (\<lambda>(_, w'). Inr w') = Inr w'"
proof -
  let ?k = "(fd, Some (ClientPtr a))"
  have ini: "stm_current (c_stm c) = None" "stm_initial (c_stm c) = HELLO_READ" "stm_max_state (c_stm c) = ERROR"
    using c(2) by (simp_all add: new_client_def)
  have put: "set_client_machine a ((c_stm c)\<lparr>stm_current := Some HELLO_READ\<rparr>) w = put_client a (moved c HELLO_READ) w"
    using c(1) by (simp add: moved_def)
  note first = cstm.first_event [of a w "c_stm c" "client_states env" ready ?k, OF _ ini(1)]
  have alloc: "e_alloc env A_parser"
  proof (rule ccontr)
    assume none: "\<not> e_alloc env A_parser"
    from run first c(1) ini put obtain w1 m where
      init: "hello_read_init env HELLO_READ ?k (put_client a (moved c HELLO_READ) w) = Inr w1" and get: "client_machine a w1 = Inr m"
      by auto
    from init none have "w_clients w1 a = None"
      by (auto simp: hello_read_init_def hello_parser_init_def parser_init_def Let_def dest!: error_handler_frees)
    then show False using get by (auto simp: client_machine_def get_client_def)
  qed
  have init: "hello_read_init env HELLO_READ ?k (put_client a (moved c HELLO_READ) w) = Inr (put_client a (greeted env c) w)"
    using alloc
    by (simp add: hello_read_init_def hello_parser_init_def parser_init_def greeted_def fresh_parser_def zero_hello_def Let_def)
  have st: "in_state (greeted env c) HELLO_READ" using ini by (simp add: in_state_def greeted_def)
  then have "stm_current (c_stm (greeted env c)) = Some HELLO_READ" by (simp add: in_state_def)
  then have "stm_event ready (client_machine a) (set_client_machine a) (client_states env) ?k w =
      stm_event ready (client_machine a) (set_client_machine a) (client_states env) ?k (put_client a (greeted env c) w)"
    using first c(1) ini init put by (simp add: stm_event_def handle_first_def)
  then show ?thesis using st run by auto
qed

lemma closed_client_event:
  assumes step: "client_step env fd a w w'" and c: "w_clients w a = Some c" "kept_out c" and good: "sel_typed (w_sel w)"
    and closed: "closed_to_all (w_users w) (w_methods w)"
  shows "held {a} {} False False w w' \<and> (\<forall>c'. w_clients w' a = Some c' \<longrightarrow> kept_out c')"
proof (cases "\<exists>k. in_state c k \<and> kept_out_at c k")
  case True
  then obtain k where "in_state c k" "kept_out_at c k" by blast
  from kept_out_event [OF step c(1) this held_refl [OF good] closed] show ?thesis .
next
  case False
  then obtain n where n: "c_stm c = c_stm (new_client n)" using c(2) by (auto simp: kept_out_def)
  have "\<exists>c1. in_state c1 HELLO_READ \<and> client_step env fd a (put_client a c1 w) w'"
    using step [unfolded client_step_def]
  proof
    assume rd: "handle_read_client env (fd, Some (ClientPtr a)) w = Inr w'"
    from fresh_client_event [OF c(1) n rd [unfolded handle_read_event]] show ?thesis
      by (auto simp: client_step_def handle_read_event)
  next
    assume wr: "handle_write_client env (fd, Some (ClientPtr a)) w = Inr w'"
    from fresh_client_event [OF c(1) n wr [unfolded handle_write_event]] show ?thesis
      by (auto simp: client_step_def handle_write_event)
  qed
  then obtain c1 where st: "in_state c1 HELLO_READ" and step1: "client_step env fd a (put_client a c1 w) w'" by blast
  have K: "held {a} {} False False w (put_client a c1 w)" using held_refl [OF good] by (intro held_objects(1)) simp_all
  show ?thesis
    by (rule kept_out_event [OF step1 _ st _ K]) (use closed in \<open>simp_all add: kept_out_at_def\<close>)
qed

section \<open>The closed proxy\<close>

definition shut :: "users \<Rightarrow> methods \<Rightarrow> action set \<Rightarrow> world \<Rightarrow> bool" where
  "shut us ms made w \<longleftrightarrow> locked us ms w \<and> (\<forall>a c. w_clients w a = Some c \<longrightarrow> kept_out c) \<and>
     (\<forall>fd ai. Connecting fd ai \<in> set (w_trace w) \<longrightarrow> Connecting fd ai \<in> made)"

lemma shut_held:
  assumes "held {a} B False False w w'" and "shut us ms made w" and "locked us ms w'"
    and "\<forall>c. w_clients w' a = Some c \<longrightarrow> kept_out c"
  shows "shut us ms made w'"
proof -
  have "kept_out c" if "w_clients w' b = Some c" for b c
  proof (cases "b = a")
    case False
    then show ?thesis using that assms(1,2) unfolding held_def shut_def by blast
  qed (use that assms(4) in blast)
  then show ?thesis using assms(1-3) unfolding held_def shut_def by blast
qed

lemma kept_out_new: "kept_out (new_client fd)"
  by (auto simp: kept_out_def)

lemma shut_client:
  assumes S: "shut us ms made w" and closed: "closed_to_all us ms" and step: "client_step env fd a w w'" and L: "locked us ms w'"
  shows "shut us ms made w'"
proof -
  from step obtain c where c: "w_clients w a = Some c"
    by (cases "w_clients w a") (auto simp: client_step_def handle_read_event handle_write_event stm_event_def handle_first_def
        client_machine_def get_client_def)
  have "sel_typed (w_sel w)" "closed_to_all (w_users w) (w_methods w)" "kept_out c"
    using S closed c by (auto simp: shut_def locked_def)
  from closed_client_event [OF step c this(3,1,2)] show ?thesis using shut_held S L by blast
qed

lemma shut_read:
  assumes S: "shut us ms made w" and closed: "closed_to_all us ms" and reg: "registered_key w key h"
    and f: "read_callback renvs h = Some f" "f key w = Inr w'"
  shows "shut us ms made w'"
proof -
  have L: "locked us ms w" and no: "no_admin us" using S closed by (auto simp: shut_def closed_to_all_def no_admin_def)
  from locked_read [OF L no reg f] obtain a where L': "locked us ms w'"
    and "h = CLIENT_HANDLER \<and> (\<exists>fd. key = (fd, Some (ClientPtr a))) \<or> held {} {a} False False w w' \<or>
      held {a} {} False False w w' \<and> (\<forall>c. w_clients w' a = Some c \<longrightarrow> w_clients w a = Some c \<or> (\<exists>fd. c = new_client fd))" by blast
  from this(2) show ?thesis
  proof (elim disjE)
    assume h: "h = CLIENT_HANDLER \<and> (\<exists>fd. key = (fd, Some (ClientPtr a)))"
    then obtain fd where key: "key = (fd, Some (ClientPtr a))" by blast
    then have "client_step (renvs fd) fd a w w'" using f h by (auto simp: read_callback_def client_step_def)
    from shut_client [OF S closed this L'] show ?thesis .
  next
    assume "held {} {a} False False w w'"
    then show ?thesis using S L' unfolding held_def shut_def by blast
  next
    assume "held {a} {} False False w w' \<and> (\<forall>c. w_clients w' a = Some c \<longrightarrow> w_clients w a = Some c \<or> (\<exists>fd. c = new_client fd))"
    then show ?thesis using shut_held [OF _ S L'] S kept_out_new unfolding shut_def by blast
  qed
qed

lemma shut_write:
  assumes S: "shut us ms made w" and closed: "closed_to_all us ms" and f: "write_callback wenvs h = Some f" "f key w = Inr w'"
  shows "shut us ms made w'"
proof -
  have L: "locked us ms w" using S by (simp add: shut_def)
  from locked_write [OF L f] obtain fd a where "client_step (wenvs fd) fd a w w'" "locked us ms w'" by (auto simp: client_step_def)
  from shut_client [OF S closed this] show ?thesis .
qed

lemma shut_jobs: "shut us ms made (w\<lparr>w_sel := (w_sel w)\<lparr>s_jobs := js\<rparr>\<rparr>) = shut us ms made w"
  by (simp add: shut_def locked_jobs)

lemma shut_sel: "shut us ms made w \<Longrightarrow> selector_ok (w_sel w)"
  unfolding shut_def using locked_sel by blast

lemma shut_rounds: "closed_to_all us ms \<Longrightarrow> round_invariant (shut us ms made) renvs wenvs"
  by unfold_locales (auto simp: shut_jobs dest: shut_read shut_write shut_sel)

lemma shut_reaches:
  assumes "server_reaches w0 w" and "closed_to_all (w_users w0) (w_methods w0)" and "sel_typed (w_sel w0)"
    and "w_monitors w0 = Map.empty" and "w_clients w0 = Map.empty" and "Connecting fd ai \<in> set (w_trace w)"
  shows "Connecting fd ai \<in> set (w_trace w0)"
proof -
  have "shut (w_users w0) (w_methods w0) (set (w_trace w0)) w0" using assms(3-5) by (auto simp: shut_def locked_def)
  from reaches_keeps [OF assms(1) shut_rounds [OF assms(2)] this] assms(6) show ?thesis unfolding shut_def by blast
qed

end
