(* ===== verification/Server_Main.thy ===== *)
theory Server_Main
  imports Server_Safety Options Users_File
begin

text \<open>
  The program of the proxy, \<^verbatim>\<open>src/src/server/main.c\<close>: its start-up from the command line and the
  users file to the two listening sockets, its loop, and its shutdown; and the statements about its
  runs. The log is in the theory Logger; it shares the selector with the server but not its objects.
\<close>

section \<open>Start-up\<close>

text \<open>
  What the system answers: whether the users can be allocated, what their file holds, the two
  allocations of the selector and those of a registration, and for the two listening sockets the
  descriptor (-1 on failure) and whether each call on it succeeds.
\<close>

record host =
  h_users_alloc :: bool
  h_users_file :: "byte list option"
  h_selector_mem :: bool
  h_selector_alloc :: bool
  h_register_alloc :: bool
  h_junk :: "nat \<Rightarrow> (fd_handler, attachment) item"
  h_socket :: "nat \<Rightarrow> int"
  h_reuse :: "nat \<Rightarrow> bool"
  h_v6only :: "nat \<Rightarrow> bool"
  h_bind :: "nat \<Rightarrow> byte list \<Rightarrow> 16 word \<Rightarrow> bool"
  h_listen :: "nat \<Rightarrow> bool"

definition DEFAULT_MAX_CLIENTS :: nat where "DEFAULT_MAX_CLIENTS = 1000"
definition MASTER_INTERESTS :: fd_interest where "MASTER_INTERESTS = OP_READ"
definition INITIAL_PASSIVE_MONITOR_INTERESTS :: fd_interest where "INITIAL_PASSIVE_MONITOR_INTERESTS = OP_READ"

definition in6addr_any :: "byte list" where "in6addr_any = replicate 16 0"

text \<open>
  The users of the command line. When the table could not be allocated, the first of them is
  written through a null pointer.
\<close>

fun create_users :: "bool \<Rightarrow> users \<Rightarrow> (byte list \<times> byte list) list \<Rightarrow> users res" where
  "create_users allocated us [] = Inr us"
| "create_users allocated us ((name, pass) # rest) =
     (if \<not> allocated then Inl NullDeref
      else bindr (user_create us (Some name) (Some pass) USER) (\<lambda>(_, us'). create_users allocated us' rest))"

text \<open>
  One listening socket. \<open>pton\<close> is \<^verbatim>\<open>inet_pton\<close> for IPv6: the 16 bytes of a text that is an
  IPv6 address. Only a descriptor 0 is taken for a failure of \<^verbatim>\<open>socket\<close>.
\<close>

record listener =
  l_fd :: int
  l_addr :: "byte list"
  l_port :: "16 word"

definition open_listener :: "(byte list \<Rightarrow> byte list option) \<Rightarrow> host \<Rightarrow> nat \<Rightarrow> byte list \<Rightarrow> 16 word \<Rightarrow> listener outcome" where
  "open_listener pton h k addr sin_port =
     (let fd = h_socket h k; addr6 = (case pton addr of None \<Rightarrow> in6addr_any | Some a \<Rightarrow> a) in
      if fd = 0 then Inl 1
      else if \<not> h_reuse h k then Inl 1
      else if \<not> h_v6only h k then Inl 1
      else if \<not> h_bind h k addr6 sin_port then Inl 1
      else if \<not> h_listen h k then Inl 1
      else Inr \<lparr>l_fd = fd, l_addr = addr6, l_port = sin_port\<rparr>)"

text \<open>A registration that is refused is only logged; one with a null selector is refused.\<close>

definition register_listener :: "host \<Rightarrow> listener \<Rightarrow> fd_handler \<Rightarrow> fd_interest \<Rightarrow>
    (fd_handler, attachment) fdselector option \<Rightarrow> (fd_handler, attachment) fdselector option res" where
  "register_listener h l handler interest fds =
     (case fds of
        None \<Rightarrow> Inr None
      | Some s \<Rightarrow> bindr (selector_register (h_register_alloc h) (h_junk h) s (l_fd l) (Some handler) interest None)
          (\<lambda>(_, s'). Inr (Some s')))"

definition first_world :: "(fd_handler, attachment) fdselector \<Rightarrow> users \<Rightarrow> methods \<Rightarrow> world" where
  "first_world s us ms = \<lparr>w_sel = s, w_clients = Map.empty, w_monitors = Map.empty, w_next = 1, w_stats = stats_init,
     w_users = us, w_methods = ms, w_errno = 0, w_trace = []\<rparr>"

record server =
  sv_args :: socks5args
  sv_users_status :: user_status
  sv_master :: listener
  sv_monitor :: listener
  sv_world :: world

text \<open>
  Up to the loop: the exit status, or the running server. A selector that could not be allocated
  is a null pointer, which the first round of the loop follows.
\<close>

definition server_start :: "(byte list \<Rightarrow> byte list option) \<Rightarrow> host \<Rightarrow> byte list list \<Rightarrow> server outcome res" where
  "server_start pton h argv =
     (case parse_args argv of
        Inl status \<Rightarrow> Inr (Inl status)
      | Inr args \<Rightarrow>
     bindr (users_init (h_users_alloc h) (h_users_file h)) (\<lambda>(users_status, us0).
     bindr (create_users (h_users_alloc h) us0 (take MAX_USERS (args_users args))) (\<lambda>us.
     bindr (selector_new (h_selector_mem h) (h_selector_alloc h) (60, 0) DEFAULT_MAX_CLIENTS) (\<lambda>fds.
     bindr (change_auth_methods None accepted_methods_init) (\<lambda>(_, ms).
     case open_listener pton h 0 (socks_addr args) (socks_port args) of
       Inl status \<Rightarrow> Inr (Inl status)
     | Inr master \<Rightarrow>
     bindr (register_listener h master MASTER_HANDLER MASTER_INTERESTS fds) (\<lambda>fds1.
     case open_listener pton h 1 (mng_addr args) (mng_port args) of
       Inl status \<Rightarrow> Inr (Inl status)
     | Inr monitor \<Rightarrow>
     bindr (register_listener h monitor PASSIVE_MONITOR_HANDLER INITIAL_PASSIVE_MONITOR_INTERESTS fds1) (\<lambda>fds2.
     bindr (deref NullDeref fds2) (\<lambda>s.
       Inr (Inr \<lparr>sv_args = args, sv_users_status = users_status, sv_master = master, sv_monitor = monitor,
         sv_world = first_world s us ms\<rparr>)))))))))"

section \<open>The loop and the end\<close>

text \<open>
  The turns of \<^verbatim>\<open>while (running)\<close> until a signal clears the flag: for each, what the system
  answers the callbacks and \<^verbatim>\<open>pselect\<close>. The status of a round is not looked at.
\<close>

fun server_loop :: "((int \<Rightarrow> env) \<times> (int \<Rightarrow> env) \<times> pselect_result) list \<Rightarrow> world \<Rightarrow> world res" where
  "server_loop [] w = Inr w"
| "server_loop ((renvs, wenvs, result) # turns) w =
     bindr (server_select renvs wenvs result w) (\<lambda>(_, w'). server_loop turns w')"

text \<open>
  Only the first listening socket is closed explicitly; the selector then closes the connections
  still registered. \<open>can_open\<close> says whether the users file can be written; the result is its new
  content and the world.
\<close>

definition server_shutdown :: "env \<Rightarrow> bool \<Rightarrow> byte list option \<Rightarrow> int \<Rightarrow> world \<Rightarrow> (byte list option \<times> world) res" where
  "server_shutdown env can_open file master w =
     (case users_shutdown can_open (w_users w) file of (_, us, file') \<Rightarrow>
      bindr (selector_destroy w_sel (\<lambda>s w. w\<lparr>w_sel := s\<rparr>) (close_callback env) (sys_close master (w\<lparr>w_users := us\<rparr>)))
        (\<lambda>w'. Inr (file', w')))"

text \<open>A whole run: the exit status, or 0 with the users file it leaves.\<close>

definition server_main :: "(byte list \<Rightarrow> byte list option) \<Rightarrow> host \<Rightarrow> byte list list \<Rightarrow>
    ((int \<Rightarrow> env) \<times> (int \<Rightarrow> env) \<times> pselect_result) list \<Rightarrow> env \<Rightarrow> bool \<Rightarrow> (int \<times> byte list option \<times> action list) res" where
  "server_main pton h argv turns env can_open =
     bindr (server_start pton h argv) (\<lambda>started.
       case started of
         Inl status \<Rightarrow> Inr (status, h_users_file h, [])
       | Inr sv \<Rightarrow>
           bindr (server_loop turns (sv_world sv)) (\<lambda>w.
           bindr (server_shutdown env can_open (h_users_file h) (l_fd (sv_master sv)) w) (\<lambda>(file, w').
             Inr (0, file, w_trace w'))))"

section \<open>What a start-up leads to\<close>

lemma create_users_ok: "create_users al us new = Inr us' \<Longrightarrow> users_ok us \<Longrightarrow> users_ok us'"
  by (induction al us new rule: create_users.induct) (auto dest: user_create_ok split: if_splits)

lemma load_loop_ok: "load_loop us bytes line = Inr us' \<Longrightarrow> users_ok us \<Longrightarrow> users_ok us'"
proof (induction us bytes line rule: load_loop.induct)
  case (1 us bytes line)
  from 1(3) [unfolded load_loop.simps [of us bytes line]] 1(1,2,4) show ?case
    by (auto split: sum.splits prod.splits if_splits option.splits) (blast dest: user_create_ok)
qed

lemma users_init_ok: "users_init al file = Inr (st, us) \<Longrightarrow> users_ok us"
  by (auto simp: users_init_def load_users_def users_ok_Nil dest: load_loop_ok split: if_splits option.splits)

definition sel_idle :: "(fd_handler, attachment) fdselector \<Rightarrow> bool" where
  "sel_idle s \<longleftrightarrow> sel_typed s \<and> s_jobs s = []"

lemma register_listener_idle:
  assumes "register_listener h l handler i fds = Inr (Some s')" and "handler \<in> {MASTER_HANDLER, PASSIVE_MONITOR_HANDLER}"
    and "\<And>s. fds = Some s \<Longrightarrow> sel_idle s"
  shows "sel_idle s'"
proof -
  obtain s st where s: "fds = Some s" "selector_register (h_register_alloc h) (h_junk h) s (l_fd l) (Some handler) i None = Inr (st, s')"
    using assms(1) by (auto simp: register_listener_def split: option.splits)
  have good: "sel_typed s" "s_jobs s = []" using assms(3) [OF s(1)] by (simp_all add: sel_idle_def)
  from sel_typed_register [OF good(1) s(2)] register_jobs [OF sel_typed_ok [OF good(1)] s(2)] good(2) assms(2) show ?thesis
    by (auto simp: sel_idle_def typed_entry_def)
qed

lemma selector_new_idle:
  fixes s :: "(fd_handler, attachment) fdselector"
  assumes "selector_new mem al t DEFAULT_MAX_CLIENTS = Inr (Some s)"
  shows "sel_idle s"
proof -
  have "mem" "al" "s_jobs s = []" using assms
    by (auto simp: selector_new_def ensure_capacity_def items_init_def DEFAULT_MAX_CLIENTS_def Let_def split: if_splits)
  moreover obtain s' :: "(fd_handler, attachment) fdselector" where
    "selector_new True True t DEFAULT_MAX_CLIENTS = Inr (Some s')" "selector_ok s'" "sel_lookup s' = (\<lambda>_. None)"
    using selector_new_server [of DEFAULT_MAX_CLIENTS t] by (auto simp: DEFAULT_MAX_CLIENTS_def)
  ultimately show ?thesis using assms by (simp add: sel_typed_def sel_idle_def)
qed

definition fresh_server :: "world \<Rightarrow> bool" where
  "fresh_server w \<longleftrightarrow> server_ok w \<and> s_jobs (w_sel w) = [] \<and> w_clients w = Map.empty \<and> w_monitors w = Map.empty \<and> w_trace w = [] \<and>
     w_methods w = accepted_methods_init[0 := 2, 1 := -1]"

lemma server_start_fresh:
  assumes "server_start pton h argv = Inr (Inr sv)"
  shows "fresh_server (sv_world sv)"
proof -
  from assms obtain args where args: "parse_args argv = Inr args"
    by (cases "parse_args argv") (auto simp: server_start_def)
  from assms obtain ust us0 us fds fds1 s l1 l2 ms cst where
    init: "users_init (h_users_alloc h) (h_users_file h) = Inr (ust, us0)"
    and us: "create_users (h_users_alloc h) us0 (take MAX_USERS (args_users args)) = Inr us"
    and new: "selector_new (h_selector_mem h) (h_selector_alloc h) (60, 0) DEFAULT_MAX_CLIENTS = Inr fds"
    and ms: "change_auth_methods None accepted_methods_init = Inr (cst, ms)"
    and r1: "register_listener h l1 MASTER_HANDLER MASTER_INTERESTS fds = Inr fds1"
    and r2: "register_listener h l2 PASSIVE_MONITOR_HANDLER INITIAL_PASSIVE_MONITOR_INTERESTS fds1 = Inr (Some s)"
    and w: "sv_world sv = first_world s us ms"
    unfolding server_start_def args
    by (auto simp: deref_def split: sum.splits option.splits)
  have "sel_idle s"
  proof (rule register_listener_idle [OF r2])
    fix s1 assume "fds1 = Some s1"
    with r1 have r: "register_listener h l1 MASTER_HANDLER MASTER_INTERESTS fds = Inr (Some s1)" by simp
    show "sel_idle s1" by (rule register_listener_idle [OF r]) (use new selector_new_idle in auto)
  qed simp
  moreover have "users_ok us" using create_users_ok [OF us users_init_ok [OF init]] .
  moreover have "ms = accepted_methods_init[0 := 2, 1 := -1]"
    using ms change_default [of accepted_methods_init] by (simp add: accepted_methods_init_def)
  ultimately show ?thesis unfolding w fresh_server_def by (simp add: first_world_def server_ok_def sel_idle_def)
qed

lemma server_loop_reaches: "server_loop turns w = Inr w' \<Longrightarrow> server_reaches w0 w \<Longrightarrow> server_reaches w0 w'"
  by (induction turns w rule: server_loop.induct) (auto intro: reach_round)

lemma fresh_methods:
  assumes "fresh_server w"
  shows "methods_ok (w_methods w)" and "method_set (w_methods w) = {2}"
  using assms default_methods [OF _ change_default, of accepted_methods_init]
  by (simp_all add: fresh_server_def accepted_methods_init_def HELLO_AUTH_USER_PASS_def)

text \<open>A host whose calls succeed, with descriptors \<open>m\<close> and \<open>p\<close> for the two listening sockets.\<close>

definition good_host :: "host \<Rightarrow> int \<Rightarrow> int \<Rightarrow> bool" where
  "good_host h m p \<longleftrightarrow> h_users_alloc h \<and> h_selector_mem h \<and> h_selector_alloc h \<and> h_socket h 0 = m \<and> h_socket h 1 = p \<and>
     0 < m \<and> 0 < p \<and> m < 1024 \<and> p < 1024 \<and> m \<noteq> p \<and> (\<forall>k. h_reuse h k \<and> h_v6only h k \<and> h_listen h k) \<and> (\<forall>k a q. h_bind h k a q)"

definition address_or_any :: "(byte list \<Rightarrow> byte list option) \<Rightarrow> byte list \<Rightarrow> byte list" where
  "address_or_any pton a = (case pton a of None \<Rightarrow> in6addr_any | Some b \<Rightarrow> b)"

section \<open>A sample server\<close>

text \<open>A host whose calls succeed, with descriptors 3 and 4 for the listening sockets.\<close>

definition sample_host :: "byte list option \<Rightarrow> host" where
  "sample_host file = \<lparr>h_users_alloc = True, h_users_file = file, h_selector_mem = True, h_selector_alloc = True,
     h_register_alloc = True, h_junk = \<lambda>_. zero_item, h_socket = \<lambda>k. if k = 0 then 3 else 4, h_reuse = \<lambda>_. True,
     h_v6only = \<lambda>_. True, h_bind = \<lambda>_ _ _. True, h_listen = \<lambda>_. True\<rparr>"

lemma sample_host_sel [simp]:
  "h_users_alloc (sample_host file)" "h_users_file (sample_host file) = file" "h_selector_mem (sample_host file)"
  "h_selector_alloc (sample_host file)" "h_socket (sample_host file) 0 = 3" "h_socket (sample_host file) (Suc 0) = 4"
  "h_reuse (sample_host file) k" "h_v6only (sample_host file) k" "h_bind (sample_host file) k a p" "h_listen (sample_host file) k"
  by (simp_all add: sample_host_def)

section \<open>Starting\<close>

lemma start_result:
  assumes "parse_args argv = Inr args" and h: "good_host h m p" and "users_init True (h_users_file h) = Inr (ust, us0)"
    and "create_users True us0 (take MAX_USERS (args_users args)) = Inr us"
  shows "\<exists>s. server_start pton h argv = Inr (Inr \<lparr>sv_args = args, sv_users_status = ust,
      sv_master = \<lparr>l_fd = m, l_addr = address_or_any pton (socks_addr args), l_port = socks_port args\<rparr>,
      sv_monitor = \<lparr>l_fd = p, l_addr = address_or_any pton (mng_addr args), l_port = mng_port args\<rparr>,
      sv_world = first_world s us (accepted_methods_init[0 := 2, 1 := -1])\<rparr>) \<and>
    selector_ok s \<and> sel_lookup s = [m \<mapsto> (OP_READ, Some MASTER_HANDLER, None), p \<mapsto> (OP_READ, Some PASSIVE_MONITOR_HANDLER, None)]"
proof -
  let ?ms = "accepted_methods_init[0 := 2, 1 := -1]"
  obtain s0 :: "(fd_handler, attachment) fdselector" where
    s0: "selector_new True True (60, 0) DEFAULT_MAX_CLIENTS = Inr (Some s0)" "selector_ok s0" "sel_lookup s0 = (\<lambda>_. None)"
    using selector_new_server [of DEFAULT_MAX_CLIENTS "(60, 0)"] by (auto simp: DEFAULT_MAX_CLIENTS_def)
  have v: "\<not> INVALID_FD m" "\<not> INVALID_FD p" "m \<noteq> p" using h by (simp_all add: good_host_def INVALID_FD_iff)
  obtain s1 where s1: "selector_register (h_register_alloc h) (h_junk h) s0 m (Some MASTER_HANDLER) OP_READ None = Inr (SELECTOR_SUCCESS, s1)"
    "selector_ok s1" "sel_lookup s1 = [m \<mapsto> (OP_READ, Some MASTER_HANDLER, None)]"
    using selector_register_fresh [OF s0(2) v(1), of "h_register_alloc h" "h_junk h" MASTER_HANDLER OP_READ None] s0(3) by auto
  obtain s2 where s2: "selector_register (h_register_alloc h) (h_junk h) s1 p (Some PASSIVE_MONITOR_HANDLER) OP_READ None = Inr (SELECTOR_SUCCESS, s2)"
    "selector_ok s2" "sel_lookup s2 = (sel_lookup s1)(p \<mapsto> (OP_READ, Some PASSIVE_MONITOR_HANDLER, None))"
    using selector_register_fresh [OF s1(2) v(2), of "h_register_alloc h" "h_junk h" PASSIVE_MONITOR_HANDLER OP_READ None] s1(3) v(3) by auto
  have ms: "change_auth_methods None accepted_methods_init = Inr (AUTH_OK, ?ms)"
    by (rule change_default) (simp add: accepted_methods_init_def)
  have l: "open_listener pton h 0 a q = Inr \<lparr>l_fd = m, l_addr = address_or_any pton a, l_port = q\<rparr>"
    "open_listener pton h 1 a q = Inr \<lparr>l_fd = p, l_addr = address_or_any pton a, l_port = q\<rparr>" for a q
    using h by (simp_all add: open_listener_def good_host_def address_or_any_def Let_def)
  then show ?thesis
    using assms s0(1) ms s1 s2
    by (intro exI [of _ s2]) (simp add: server_start_def good_host_def register_listener_def MASTER_INTERESTS_def INITIAL_PASSIVE_MONITOR_INTERESTS_def)
qed


definition sample_pton :: "byte list \<Rightarrow> byte list option" where
  "sample_pton a = (if a = [58, 58, 49] then Some (replicate 15 0 @ [1]) else None)"

lemma parse_nothing: "parse_args [] = Inr default_args"
  by (simp add: parse_args_def getopt_long_def proxy_loop.simps)

lemma sample_good: "good_host (sample_host file) 3 4"
  by (simp add: good_host_def)

lemma sample_users_line: "user_line \<lparr>u_name = [97], u_pass = [98], u_level = USER\<rparr> = [35, 97, 58, 98, 10]"
  by (simp add: user_line_def USER_def ADMIN_def)

lemma sample_users_init:
  "users_init True (Some [35, 97, 58, 98, 10]) = Inr (USERS_OK, [\<lparr>u_name = [97], u_pass = [98], u_level = USER\<rparr>])"
  using load_loop_lines [of "[]" "[\<lparr>u_name = [97], u_pass = [98], u_level = USER\<rparr>]" 1]
  by (simp add: users_init_def load_users_def sample_users_line users_ok_def MAX_USERS_REGISTERED_def MAX_USERNAME_LEN_def
      MAX_PASSWORD_LEN_def storable_def printable_def)


section \<open>Servers whose clients are silent\<close>

text \<open>
  With nothing but listening sockets and clients that have not sent anything, destroying the selector
  returns.
\<close>

definition quiet :: "world \<Rightarrow> bool" where
  "quiet w \<longleftrightarrow> selector_ok (w_sel w) \<and>
     (\<forall>fd i h d. sel_lookup (w_sel w) fd = Some (i, h, d) \<longrightarrow> h = Some MASTER_HANDLER \<or> h = Some PASSIVE_MONITOR_HANDLER \<or>
        h = Some CLIENT_HANDLER \<and> (\<exists>a c. d = Some (ClientPtr a) \<and> w_clients w a = Some c \<and> stm_current (c_stm c) = None))"

lemma quiet_fewer:
  assumes "quiet w" and "selector_ok (w_sel w')" and "w_clients w' = w_clients w"
    and sub: "\<And>fd x. sel_lookup (w_sel w') fd = Some x \<Longrightarrow> sel_lookup (w_sel w) fd = Some x"
  shows "quiet w'"
  unfolding quiet_def
proof (intro conjI allI impI)
  fix fd i h d assume "sel_lookup (w_sel w') fd = Some (i, h, d)"
  from sub [OF this] assms(1,3) show "h = Some MASTER_HANDLER \<or> h = Some PASSIVE_MONITOR_HANDLER \<or>
        h = Some CLIENT_HANDLER \<and> (\<exists>a c. d = Some (ClientPtr a) \<and> w_clients w' a = Some c \<and> stm_current (c_stm c) = None)"
    unfolding quiet_def by simp
qed fact

lemma unregister_quiet:
  assumes q: "quiet w" and i: "i < 1025" and used: "ITEM_USED (s_fds (w_sel w) ! i)"
  shows "\<exists>w'. unregister env (int i) w = Inr w' \<and> quiet w'"
proof -
  have ok: "selector_ok (w_sel w)" and len: "i < length (s_fds (w_sel w))"
    using q i selector_ok_size [of "w_sel w"] by (auto simp: quiet_def)
  obtain x where l: "sel_lookup (w_sel w) (int i) = Some x" using used len by (auto simp: sel_lookup_def Let_def)
  obtain j hr d where x: "x = (j, hr, d)" by (cases x)
  note it = sel_lookup_SomeD [OF l [unfolded x]]
  have some: "sel_lookup (w_sel w) (int i) \<noteq> None" using l by simp
  note drop = drop_fd_ok [OF ok some]
  have v: "\<not> INVALID_FD (int i)" using sel_lookup_valid [OF ok some] .
  obtain h w1 where h: "hr = Some h"
    and cl: "(case close_callback env h of None \<Rightarrow> Inr w | Some f \<Rightarrow> f (it_fd (s_fds (w_sel w) ! i), d) w) = Inr w1"
    and w1: "w1 = w \<or> (\<exists>st. w1 = w\<lparr>w_stats := st\<rparr>)"
  proof -
    have "hr = Some MASTER_HANDLER \<or> hr = Some PASSIVE_MONITOR_HANDLER \<or>
        hr = Some CLIENT_HANDLER \<and> (\<exists>a c. d = Some (ClientPtr a) \<and> w_clients w a = Some c \<and> stm_current (c_stm c) = None)"
      using q l unfolding quiet_def x by blast
    then consider "hr = Some MASTER_HANDLER \<or> hr = Some PASSIVE_MONITOR_HANDLER"
      | a c where "hr = Some CLIENT_HANDLER" "d = Some (ClientPtr a)" "w_clients w a = Some c" "stm_current (c_stm c) = None"
      by blast
    then show thesis
    proof cases
      case 1
      then show ?thesis using that by (auto simp: close_callback_def)
    next
      case 2
      from close_client_ok [OF 2(3), of "it_fd (s_fds (w_sel w) ! i)"] 2 show ?thesis
        using that [of CLIENT_HANDLER] by (auto simp: close_callback_def split: if_splits)
    qed
  qed
  let ?w2 = "w1\<lparr>w_sel := drop_fd (w_sel w) (int i)\<rparr>"
  have "unregister env (int i) w = Inr ?w2"
    using it h cl v len w1 drop(1) by (auto simp: unregister_def selector_unregister_fd_def)
  moreover have "quiet ?w2" by (rule quiet_fewer [OF q]) (use drop(2,3) w1 in \<open>auto split: if_splits\<close>)
  ultimately show ?thesis by blast
qed

lemma destroy_loop_unregisters:
  "selector_destroy_loop w_sel (\<lambda>s w. w\<lparr>w_sel := s\<rparr>) (close_callback env) (i # is) w =
     bindr (arr_get (s_fds (w_sel w)) i) (\<lambda>it. bindr (if ITEM_USED it then unregister env (int i) w else Inr w)
       (selector_destroy_loop w_sel (\<lambda>s w. w\<lparr>w_sel := s\<rparr>) (close_callback env) is))"
  unfolding selector_destroy_loop.simps unregister_def ..

lemma destroy_quiet:
  "quiet w \<Longrightarrow> \<forall>i \<in> set is. i < 1025 \<Longrightarrow>
     \<exists>w'. selector_destroy_loop w_sel (\<lambda>s w. w\<lparr>w_sel := s\<rparr>) (close_callback env) is w = Inr w'"
proof (induction "is" arbitrary: w)
  case (Cons i "is")
  have len: "i < length (s_fds (w_sel w))" using Cons.prems selector_ok_size [of "w_sel w"] by (auto simp: quiet_def)
  show ?case
  proof (cases "ITEM_USED (s_fds (w_sel w) ! i)")
    case False
    then show ?thesis using Cons len by simp
  next
    case True
    obtain w1 where "unregister env (int i) w = Inr w1" "quiet w1" using unregister_quiet [OF Cons.prems(1) _ True] Cons.prems(2) by auto
    then show ?thesis using Cons.IH [of w1] Cons.prems(2) True len unfolding destroy_loop_unregisters by auto
  qed
qed simp

lemma quiet_shutdown:
  assumes "quiet w"
  shows "\<exists>w'. server_shutdown env can_open file m w = Inr (snd (snd (users_shutdown can_open (w_users w) file)), w')"
proof -
  obtain st us file' where u: "users_shutdown can_open (w_users w) file = (st, us, file')" by (cases "users_shutdown can_open (w_users w) file") auto
  let ?w = "sys_close m (w\<lparr>w_users := us\<rparr>)"
  have "quiet ?w" using assms by (simp add: quiet_def sys_close_def)
  moreover then have "\<forall>i \<in> set [0..<s_fd_size (w_sel ?w)]. i < 1025" using selector_ok_size [of "w_sel ?w"] by (auto simp: quiet_def)
  ultimately obtain w' where "selector_destroy_loop w_sel (\<lambda>s w. w\<lparr>w_sel := s\<rparr>) (close_callback env) [0..<s_fd_size (w_sel ?w)] ?w = Inr w'"
    using destroy_quiet by blast
  then show ?thesis using u by (simp add: server_shutdown_def selector_destroy_def)
qed

section \<open>A sample run\<close>

text \<open>The turn in which a first client is accepted, as descriptor 9.\<close>

definition accepting :: "env" where
  "accepting = (sample_env [])\<lparr>e_accept := Accepted 9\<rparr>"

definition accepting_turn :: "(int \<Rightarrow> env) \<times> (int \<Rightarrow> env) \<times> pselect_result" where
  "accepting_turn = (\<lambda>_. accepting, \<lambda>_. accepting, PselectReady {3} {})"

lemma accepting_turn_result:
  assumes idle: "sel_idle (w_sel w)" and l: "sel_lookup (w_sel w) 3 = Some (OP_READ, Some MASTER_HANDLER, None)"
    and free: "sel_lookup (w_sel w) 9 = None" and none: "w_clients w = Map.empty" and q: "quiet w"
  shows "\<exists>w'. server_loop [accepting_turn] w = Inr w' \<and> w_clients w' = [w_next w \<mapsto> new_client 9] \<and>
    sel_lookup (w_sel w') 9 = Some (INITIAL_CLIENT_INTERESTS, Some CLIENT_HANDLER, Some (ClientPtr (w_next w))) \<and>
    w_trace w' = w_trace w \<and> w_users w' = w_users w \<and> quiet w'"
proof -
  have ok: "selector_ok (w_sel w)" "s_jobs (w_sel w) = []" using idle by (simp_all add: sel_idle_def sel_typed_ok)
  have v: "\<not> INVALID_FD 9" by (simp add: INVALID_FD_iff)
  obtain s where s: "selector_register True (\<lambda>_. zero_item) (w_sel w) 9 (Some CLIENT_HANDLER) INITIAL_CLIENT_INTERESTS (Some (ClientPtr (w_next w))) = Inr (SELECTOR_SUCCESS, s)"
    "selector_ok s" "sel_lookup s = (sel_lookup (w_sel w))(9 \<mapsto> (INITIAL_CLIENT_INTERESTS, Some CLIENT_HANDLER, Some (ClientPtr (w_next w))))"
    using selector_register_fresh [OF ok(1) v free] by blast
  have env: "e_accept accepting = Accepted 9" "e_accept_interrupts accepting = 0" "e_realloc_junk accepting = (\<lambda>_. zero_item)"
    "e_alloc accepting x" for x by (simp_all add: accepting_def sample_env_def)
  have stm: "stm_init (client_states accepting) (c_stm (new_client 9)) = Inr (c_stm (new_client 9))"
    using client_stm_init [of accepting] by (simp add: new_client_def)
  obtain w' where run: "handle_read_master accepting (3, None) w = Inr w'"
    and w': "w_clients w' = [w_next w \<mapsto> new_client 9]" "w_sel w' = s" "w_trace w' = w_trace w" "w_users w' = w_users w"
    using s(1) stm env none by (auto simp: handle_read_master_def Let_def put_client_def)
  have "server_select (\<lambda>_. accepting) (\<lambda>_. accepting) (PselectReady {3} {}) w = Inr (SELECTOR_SUCCESS, w')"
    using round_of_one [where w = w and f = "handle_read_master accepting" and fd = 3 and renvs = "\<lambda>_. accepting" and h = MASTER_HANDLER
        and d = None and i = OP_READ and w' = w'] l s run w' ok register_jobs [OF ok(1) s(1)]
    by (simp add: read_callback_def wants_def OP_READ_def)
  moreover have "quiet w'" unfolding quiet_def
  proof (intro conjI allI impI)
    fix fd i h d assume "sel_lookup (w_sel w') fd = Some (i, h, d)"
    then consider "sel_lookup (w_sel w) fd = Some (i, h, d)" | "h = Some CLIENT_HANDLER" "d = Some (ClientPtr (w_next w))"
      unfolding w' s(3) by (auto split: if_splits)
    then show "h = Some MASTER_HANDLER \<or> h = Some PASSIVE_MONITOR_HANDLER \<or>
        h = Some CLIENT_HANDLER \<and> (\<exists>a c. d = Some (ClientPtr a) \<and> w_clients w' a = Some c \<and> stm_current (c_stm c) = None)"
    proof cases
      case 1
      then show ?thesis using q none unfolding quiet_def by fastforce
    next
      case 2
      then show ?thesis using w'(1) by (simp add: new_client_def)
    qed
  qed (use w' s(2) in simp)
  ultimately show ?thesis using w' s(3) by (simp add: accepting_turn_def)
qed

lemma sample_run:
  assumes "users_init True file = Inr (ust, us)"
  shows "\<exists>sv w. server_start sample_pton (sample_host file) [] = Inr (Inr sv) \<and> server_loop [accepting_turn] (sv_world sv) = Inr w \<and>
    w_clients w = [1 \<mapsto> new_client 9] \<and> w_users (sv_world sv) = us \<and> w_users w = us \<and>
    sel_lookup (w_sel w) 9 = Some (INITIAL_CLIENT_INTERESTS, Some CLIENT_HANDLER, Some (ClientPtr 1)) \<and> quiet w"
proof -
  have us: "create_users True us (take MAX_USERS (args_users default_args)) = Inr us" by (simp add: default_args_def)
  have init: "users_init True (h_users_file (sample_host file)) = Inr (ust, us)" using assms by simp
  obtain sv where sv: "server_start sample_pton (sample_host file) [] = Inr (Inr sv)" "w_users (sv_world sv) = us"
    "sel_lookup (w_sel (sv_world sv)) = [3 \<mapsto> (OP_READ, Some MASTER_HANDLER, None), 4 \<mapsto> (OP_READ, Some PASSIVE_MONITOR_HANDLER, None)]"
    "w_next (sv_world sv) = 1" "quiet (sv_world sv)"
    using start_result [OF parse_nothing sample_good init us, of sample_pton] by (auto simp: first_world_def quiet_def split: if_splits)
  have fresh: "sel_idle (w_sel (sv_world sv))" "w_clients (sv_world sv) = Map.empty"
    using server_start_fresh [OF sv(1)] by (simp_all add: fresh_server_def server_ok_def sel_idle_def)
  from accepting_turn_result [OF fresh(1) _ _ fresh(2) sv(5)] sv show ?thesis by auto
qed

section \<open>Runs\<close>

lemma run_reaches:
  assumes "server_start pton h argv = Inr (Inr sv)" and "server_loop turns (sv_world sv) = Inr w"
  shows "server_reaches (sv_world sv) w" and "server_ok w"
proof -
  show r: "server_reaches (sv_world sv) w" using server_loop_reaches [OF assms(2) reach_start] .
  show "server_ok w" using reaches_ok [OF r] server_start_fresh [OF assms(1)] by (simp add: fresh_server_def)
qed

text \<open>
  C3. Whatever arrives and whatever the system answers, at every turn of the loop the selector is
  well formed, and the untyped pointer registered with each descriptor is of the type the callbacks
  of its handler cast it to: a client's object for the handler of clients, an administrator's for
  that of administrators, and none for the two listening sockets.
\<close>

theorem registered_data_has_handlers_type:
  assumes "server_start pton h argv = Inr (Inr sv)" and "server_loop turns (sv_world sv) = Inr w"
    and "sel_lookup (w_sel w) fd = Some (i, hr, d)"
  shows "selector_ok (w_sel w) \<and> typed_entry hr d"
  using run_reaches(2) [OF assms(1,2)] assms(3) by (simp add: server_ok_def sel_typed_def)

theorem registered_data_has_handlers_type_witness:
  "\<exists>sv w. server_start sample_pton (sample_host None) [] = Inr (Inr sv) \<and> server_loop [accepting_turn] (sv_world sv) = Inr w \<and>
     sel_lookup (w_sel w) 9 = Some (INITIAL_CLIENT_INTERESTS, Some CLIENT_HANDLER, Some (ClientPtr 1)) \<and>
     selector_ok (w_sel w) \<and> typed_entry (Some CLIENT_HANDLER) (Some (ClientPtr 1))"
proof -
  obtain sv w where r: "server_start sample_pton (sample_host None) [] = Inr (Inr sv)" "server_loop [accepting_turn] (sv_world sv) = Inr w"
    "sel_lookup (w_sel w) 9 = Some (INITIAL_CLIENT_INTERESTS, Some CLIENT_HANDLER, Some (ClientPtr 1))"
    using sample_run [of None] by (auto simp: users_init_def load_users_def)
  then show ?thesis using registered_data_has_handlers_type [OF r] by blast
qed

text \<open>
  C16. The directory stays well formed at every turn: names are distinct, at most 50 users, names
  and passwords fit their arrays and every access level is one of the two; whatever the users file
  held at the start, the command line asked for, or administrators requested.
\<close>

theorem directory_stays_well_formed:
  assumes "server_start pton h argv = Inr (Inr sv)" and "server_loop turns (sv_world sv) = Inr w"
  shows "users_ok (w_users w)"
  using run_reaches(2) [OF assms] by (simp add: server_ok_def)

theorem directory_stays_well_formed_witness:
  "\<exists>sv w. server_start sample_pton (sample_host (Some [35, 97, 58, 98, 10])) [] = Inr (Inr sv) \<and>
     server_loop [accepting_turn] (sv_world sv) = Inr w \<and> w_users w \<noteq> [] \<and> users_ok (w_users w)"
proof -
  obtain sv w where r: "server_start sample_pton (sample_host (Some [35, 97, 58, 98, 10])) [] = Inr (Inr sv)"
    "server_loop [accepting_turn] (sv_world sv) = Inr w" "w_users w \<noteq> []"
    using sample_run [OF sample_users_init] by auto
  then show ?thesis using directory_stays_well_formed [OF r(1,2)] by blast
qed

text \<open>
  C2. The directory and the accepted methods belong to the administrators. If no user the server
  starts with is an administrator, then at every turn of the loop, whatever arrives on however many
  connections and whatever the system answers, the directory and the accepted methods are still
  those of the start, and no connection of the monitor is past its login.
\<close>

theorem only_administrators_administer:
  assumes "server_start pton h argv = Inr (Inr sv)" and "no_admin (w_users (sv_world sv))"
    and "server_loop turns (sv_world sv) = Inr w"
  shows "w_users w = w_users (sv_world sv) \<and> w_methods w = w_methods (sv_world sv) \<and>
    (\<forall>a m. w_monitors w a = Some m \<longrightarrow> before_login m)"
proof -
  have "sel_typed (w_sel (sv_world sv))" "w_monitors (sv_world sv) = Map.empty"
    using server_start_fresh [OF assms(1)] by (simp_all add: fresh_server_def server_ok_def)
  from locked_reaches [OF run_reaches(1) [OF assms(1,3)] assms(2) this] show ?thesis .
qed

theorem only_administrators_administer_witness:
  "\<exists>sv w. server_start sample_pton (sample_host (Some [35, 97, 58, 98, 10])) [] = Inr (Inr sv) \<and>
     server_loop [accepting_turn] (sv_world sv) = Inr w \<and> w_clients w 1 \<noteq> None \<and>
     w_users w = [\<lparr>u_name = [97], u_pass = [98], u_level = USER\<rparr>] \<and> w_methods w = w_methods (sv_world sv)"
proof -
  obtain sv w where r: "server_start sample_pton (sample_host (Some [35, 97, 58, 98, 10])) [] = Inr (Inr sv)"
    "server_loop [accepting_turn] (sv_world sv) = Inr w" and us: "w_users (sv_world sv) = [\<lparr>u_name = [97], u_pass = [98], u_level = USER\<rparr>]"
    "w_clients w = [1 \<mapsto> new_client 9]"
    using sample_run [OF sample_users_init] by auto
  have "no_admin (w_users (sv_world sv))" using us by (simp add: no_admin_def USER_def ADMIN_def)
  from only_administrators_administer [OF r(1) this r(2)] show ?thesis using r us by auto
qed

section \<open>The address of the monitor\<close>

lemma started_addresses:
  assumes "server_start pton h argv = Inr (Inr sv)"
  shows "parse_args argv = Inr (sv_args sv) \<and> l_addr (sv_master sv) = address_or_any pton (socks_addr (sv_args sv)) \<and>
    l_addr (sv_monitor sv) = address_or_any pton (mng_addr (sv_args sv))"
proof -
  have l: "l_addr l = address_or_any pton a" if "open_listener pton h k a q = Inr l" for k a q l
    using that by (auto simp: open_listener_def address_or_any_def Let_def split: if_splits)
  from assms obtain args where "parse_args argv = Inr args" by (cases "parse_args argv") (auto simp: server_start_def)
  then show ?thesis using assms by (auto simp: server_start_def l deref_def split: sum.splits option.splits)
qed

text \<open>
  C40. The monitor cannot be kept on an IPv4 address. The only use of an address is as an IPv6
  address; a text without a colon is none, and then the socket of the monitor listens on every
  address of the machine. In particular it does so by default, with the address 127.0.0.1.
\<close>

theorem monitor_listens_everywhere:
  assumes ipv6: "\<And>s. 58 \<notin> set s \<Longrightarrow> pton s = None"
    and "server_start pton h argv = Inr (Inr sv)" and "58 \<notin> set (mng_addr (sv_args sv))"
  shows "l_addr (sv_monitor sv) = in6addr_any"
  using started_addresses [OF assms(2)] ipv6 [OF assms(3)] by (simp add: address_or_any_def)

theorem monitor_listens_everywhere_witness:
  "\<exists>sv. server_start sample_pton (sample_host None) [] = Inr (Inr sv) \<and>
     mng_addr (sv_args sv) = [49, 50, 55, 46, 48, 46, 48, 46, 49] \<and> l_addr (sv_monitor sv) = replicate 16 0 \<and>
     sample_pton [58, 58, 49] = Some (replicate 15 0 @ [1])"
proof -
  obtain sv where sv: "server_start sample_pton (sample_host None) [] = Inr (Inr sv)"
    using sample_run [of None] by (auto simp: users_init_def load_users_def)
  have pton: "\<And>s. 58 \<notin> set s \<Longrightarrow> sample_pton s = None" by (auto simp: sample_pton_def)
  have "sv_args sv = default_args" using started_addresses [OF sv] parse_nothing by simp
  then have a: "mng_addr (sv_args sv) = [49, 50, 55, 46, 48, 46, 48, 46, 49]" by (simp add: default_args_def)
  then have "58 \<notin> set (mng_addr (sv_args sv))" by simp
  from monitor_listens_everywhere [OF pton sv this] a sv show ?thesis by (auto simp: in6addr_any_def sample_pton_def)
qed

section \<open>Shutting down and starting again\<close>

text \<open>What a shutdown does to the connections: nothing is connected.\<close>

lemma destroy_held:
  "selector_destroy_loop w_sel (\<lambda>s w. w\<lparr>w_sel := s\<rparr>) (close_callback env) is w = Inr w' \<Longrightarrow> held A B dir con w0 w \<Longrightarrow> held A B dir con w0 w'"
proof (induction "is" arbitrary: w)
  case (Cons i "is")
  then show ?case unfolding destroy_loop_unregisters using held_unregister [of env "int i" w _ A B dir con w0] by (auto split: if_splits)
qed simp

lemma shutdown_trace:
  assumes "server_shutdown env can_open file m w = Inr (file', w')" and "sel_typed (w_sel w)" and "Connecting fd ai \<in> set (w_trace w')"
  shows "Connecting fd ai \<in> set (w_trace w)"
proof -
  obtain st us f where u: "users_shutdown can_open (w_users w) file = (st, us, f)" by (cases "users_shutdown can_open (w_users w) file") auto
  let ?w = "sys_close m (w\<lparr>w_users := us\<rparr>)"
  from assms(1) u obtain w1 where w1: "selector_destroy_loop w_sel (\<lambda>s w. w\<lparr>w_sel := s\<rparr>) (close_callback env) [0..<s_fd_size (w_sel ?w)] ?w = Inr w1"
    "w_trace w' = w_trace w1" by (auto simp: server_shutdown_def selector_destroy_def)
  have "held {} {} True False ?w ?w" using assms(2) by (intro held_refl) (simp add: sys_close_def)
  from destroy_held [OF w1(1) this] have "Connecting fd ai \<in> set (w_trace ?w)" using assms(3) w1(2) unfolding held_def by auto
  then show ?thesis by (auto simp: sys_close_def emit_def)
qed

section \<open>A server without users\<close>

lemma unserved_loop:
  assumes "server_start pton h argv = Inr (Inr sv)" and "w_users (sv_world sv) = []"
    and "server_loop turns (sv_world sv) = Inr w"
  shows "Connecting fd ai \<notin> set (w_trace w)"
proof
  assume made: "Connecting fd ai \<in> set (w_trace w)"
  have fresh: "fresh_server (sv_world sv)" using server_start_fresh [OF assms(1)] .
  then have s: "sel_typed (w_sel (sv_world sv))" "w_monitors (sv_world sv) = Map.empty" "w_clients (sv_world sv) = Map.empty"
    "w_trace (sv_world sv) = []" by (simp_all add: fresh_server_def server_ok_def)
  have "closed_to_all (w_users (sv_world sv)) (w_methods (sv_world sv))"
    using fresh_methods [OF fresh] assms(2) by (simp add: closed_to_all_def)
  from shut_reaches [OF run_reaches(1) [OF assms(1,3)] this s(1-3) made] s(4) show False by simp
qed

text \<open>
  C1. A proxy without users serves nobody. Started with no user in its file and none on its command
  line, it never tries to connect to any destination, whatever arrives on however many connections
  of clients and administrators, and whatever the system answers, neither at any turn of its loop
  nor, when the run ends, in its shutdown: the methods it starts with do not let anybody in without
  authentication, nobody can authenticate, and nobody can change that.
\<close>

theorem without_users_never_connects:
  assumes "server_start pton h argv = Inr (Inr sv)" and "w_users (sv_world sv) = []"
  shows "(\<forall>w. server_loop turns (sv_world sv) = Inr w \<longrightarrow> Connecting fd ai \<notin> set (w_trace w)) \<and>
    (\<forall>status file' tr. server_main pton h argv turns env can_open = Inr (status, file', tr) \<longrightarrow>
       status = 0 \<and> Connecting fd ai \<notin> set tr)"
proof (intro conjI allI impI)
  show "Connecting fd ai \<notin> set (w_trace w)" if "server_loop turns (sv_world sv) = Inr w" for w
    using unserved_loop [OF assms that] .
  fix status file' tr assume "server_main pton h argv turns env can_open = Inr (status, file', tr)"
  then obtain w w' where w: "server_loop turns (sv_world sv) = Inr w" "status = 0" "tr = w_trace w'"
    "server_shutdown env can_open (h_users_file h) (l_fd (sv_master sv)) w = Inr (file', w')"
    using assms(1) by (auto simp: server_main_def)
  show "status = 0" by fact
  have "sel_typed (w_sel w)" using run_reaches(2) [OF assms(1) w(1)] by (simp add: server_ok_def)
  from shutdown_trace [OF w(4) this] unserved_loop [OF assms w(1)] w(3) show "Connecting fd ai \<notin> set tr" by blast
qed

theorem without_users_never_connects_witness:
  "\<exists>sv w file' tr. server_start sample_pton (sample_host None) [] = Inr (Inr sv) \<and> server_loop [accepting_turn] (sv_world sv) = Inr w \<and>
     w_clients w 1 \<noteq> None \<and> (\<forall>fd ai. Connecting fd ai \<notin> set (w_trace w)) \<and>
     server_main sample_pton (sample_host None) [] [accepting_turn] (sample_env []) True = Inr (0, file', tr) \<and>
     (\<forall>fd ai. Connecting fd ai \<notin> set tr)"
proof -
  obtain sv w where r: "server_start sample_pton (sample_host None) [] = Inr (Inr sv)" "server_loop [accepting_turn] (sv_world sv) = Inr w"
    "w_users (sv_world sv) = []" "w_clients w = [1 \<mapsto> new_client 9]" "quiet w"
    using sample_run [of None] by (auto simp: users_init_def load_users_def)
  obtain w' where w': "server_shutdown (sample_env []) True None (l_fd (sv_master sv)) w = Inr (snd (snd (users_shutdown True (w_users w) None)), w')"
    using quiet_shutdown [OF r(5)] by blast
  then have "server_main sample_pton (sample_host None) [] [accepting_turn] (sample_env []) True =
      Inr (0, snd (snd (users_shutdown True (w_users w) None)), w_trace w')"
    using r(1,2) by (simp add: server_main_def)
  then show ?thesis
    using without_users_never_connects [OF r(1,3), where turns = "[accepting_turn]" and env = "sample_env []" and can_open = True] r by auto
qed

lemma started_users:
  assumes "server_start pton h argv = Inr (Inr sv)"
  shows "\<exists>ust us0. users_init (h_users_alloc h) (h_users_file h) = Inr (ust, us0) \<and>
    create_users (h_users_alloc h) us0 (take MAX_USERS (args_users (sv_args sv))) = Inr (w_users (sv_world sv))"
proof -
  from assms obtain args where args: "parse_args argv = Inr args"
    by (cases "parse_args argv") (auto simp: server_start_def)
  from assms obtain ust us0 us s ms where
    init: "users_init (h_users_alloc h) (h_users_file h) = Inr (ust, us0)"
    and us: "create_users (h_users_alloc h) us0 (take MAX_USERS (args_users args)) = Inr us"
    and w: "sv_world sv = first_world s us ms" "sv_args sv = args"
    unfolding server_start_def args
    by (auto simp: deref_def split: sum.splits option.splits)
  then show ?thesis by (simp add: first_world_def)
qed

text \<open>
  C12. A restart keeps the users. Whatever happened between a start and a shutdown that could write
  the users file, the next start from that file (with no users on its command line) has exactly the
  users the first run ended with, in the same order, with their passwords and access levels; if
  there are any, and their names and passwords are printable, with no colon in a name.
\<close>

theorem restart_keeps_users:
  assumes "server_start pton h argv = Inr (Inr sv)" and "server_loop turns (sv_world sv) = Inr w"
    and "w_users w \<noteq> []" and "\<forall>u \<in> set (w_users w). storable u"
    and "server_shutdown env True (h_users_file h) m w = Inr (file', w')"
    and "server_start pton' h' argv' = Inr (Inr sv')" and "h_users_file h' = file'" and "h_users_alloc h'"
    and "args_users (sv_args sv') = []"
  shows "w_users (sv_world sv') = w_users w"
proof -
  have ok: "users_ok (w_users w)" using run_reaches(2) [OF assms(1,2)] by (simp add: server_ok_def)
  have "file' = snd (snd (users_shutdown True (w_users w) (h_users_file h)))"
    using assms(5) by (auto simp: server_shutdown_def split: prod.splits)
  then have "users_init True file' = Inr (USERS_OK, w_users w)"
    using load_loop_lines [of "[]" "w_users w" 1] ok assms(3,4)
    by (simp add: users_shutdown_def save_users_def users_init_def load_users_def)
  moreover have "parse_args argv' = Inr (sv_args sv')" using started_addresses [OF assms(6)] by simp
  ultimately show ?thesis using started_users [OF assms(6)] assms(7-9) by auto
qed

theorem restart_keeps_users_witness:
  "\<exists>sv w file' w' sv'. server_start sample_pton (sample_host (Some [35, 97, 58, 98, 10])) [] = Inr (Inr sv) \<and>
     server_loop [accepting_turn] (sv_world sv) = Inr w \<and> w_clients w 1 \<noteq> None \<and>
     server_shutdown (sample_env []) True (Some [35, 97, 58, 98, 10]) 3 w = Inr (file', w') \<and>
     server_start sample_pton (sample_host file') [] = Inr (Inr sv') \<and>
     w_users (sv_world sv') = [\<lparr>u_name = [97], u_pass = [98], u_level = USER\<rparr>]"
proof -
  let ?u = "[\<lparr>u_name = [97], u_pass = [98], u_level = USER\<rparr>]" and ?f = "Some [35, 97, 58, 98, 10 :: byte]"
  obtain sv w where r: "server_start sample_pton (sample_host ?f) [] = Inr (Inr sv)" "server_loop [accepting_turn] (sv_world sv) = Inr w"
    "w_users w = ?u" "w_clients w = [1 \<mapsto> new_client 9]" "quiet w"
    using sample_run [OF sample_users_init] by auto
  have saved: "snd (snd (users_shutdown True ?u ?f)) = ?f"
    using sample_users_line by (simp add: users_shutdown_def save_users_def)
  obtain w' where w': "server_shutdown (sample_env []) True ?f 3 w = Inr (?f, w')"
    using quiet_shutdown [OF r(5), of "sample_env []" True ?f 3] r(3) saved by auto
  have st: "\<forall>u \<in> set (w_users w). storable u" using r(3) by (simp add: storable_def printable_def)
  have "sv_args sv = default_args" using started_addresses [OF r(1)] parse_nothing by simp
  then have none: "args_users (sv_args sv) = []" by (simp add: default_args_def)
  from restart_keeps_users [OF r(1,2) _ st _ r(1), of "sample_env []" 3 ?f w'] r w' none
  show ?thesis by (intro exI [of _ sv] exI [of _ w] exI [of _ ?f] exI [of _ w'] exI [of _ sv]) simp
qed

end
