(* ===== verification/Spec2Isabelle.thy ===== *)
theory Spec2Isabelle
  imports Connecting Relay Admin_Faults Logger Client_Program Buffer Parser_Utils Selector Stm Users_File Net_Utils Server_Main
begin

text \<open>
  A model of the SOCKS version 5 proxy of this repository, with its management protocol and the
  client of that protocol, and the theorems about it. Paths below are relative to \<^verbatim>\<open>src/src\<close>.

  \<^bold>\<open>The program.\<close> One process with one thread waits in \<^verbatim>\<open>selector_select\<close> and calls the
  callbacks registered for the descriptors that are ready. A listening socket accepts clients of the
  proxy, another one administrators. Each connection has an object with a state machine; the
  callbacks of the machine's table read and write the sockets, feed a table-driven parser byte by
  byte, and return the next state. A client is greeted, authenticated against the directory of
  users, asks for a destination, is connected to it (with a name resolved by a thread, whose end is
  reported to the selector) and then relayed. An administrator logs in and makes one request: to
  change the users or the accepted methods, or to read the counters. The users are loaded from a
  file at the start and written to it at the end.

  \<^bold>\<open>Conventions.\<close> Bytes are \<open>8 word\<close>, other machine integers words or integers whose
  wrap-around is written out. An operation that may have undefined behaviour, or that calls
  \<^verbatim>\<open>abort\<close>, returns \<open>'a res\<close>, a sum with a fault on the left (theory Prelude): an access outside
  an array, a null or freed pointer, uninitialised memory, a failed assertion. So a theorem that says
  that an operation returns \<open>Inr\<close> says that it does none of these. Functions that call \<^verbatim>\<open>exit\<close>
  return \<open>'a outcome\<close>, with the exit status on the left (Options). Objects allocated with
  \<^verbatim>\<open>malloc\<close> live in maps from addresses in the record \<open>world\<close>; freeing removes them, and addresses
  are not reused, so that a use after free is a fault. The operating system is the record \<open>env\<close>: what
  it answers each call a callback makes, for every possible answer, errors included. What is done to it
  (bytes received and sent, descriptors closed and shut down, connections tried) is the trace of
  the world. Lemmas of the collection \<open>exec_simps\<close> run an operation symbolically, those of
  \<open>inv_intros\<close> preserve invariants.

  \<^bold>\<open>Libraries.\<close>
  \<^item> Prelude: faults, arrays, C strings.
  \<^item> Buffer (\<^verbatim>\<open>lib/buffer\<close>): record \<open>buffer\<close>, refined to a queue of bytes by the locale \<open>byte_fifo\<close>.
  \<^item> Parser (\<^verbatim>\<open>lib/parser/parser.c\<close>): the engine and its tables; the locale \<open>total_table\<close> says when a
    table handles every byte in every state, and is interpreted on each table of the program.
    Parser_Utils (\<^verbatim>\<open>parser_utils.c\<close>): the table for a word, equivalent to a comparison without case.
  \<^item> Selector (\<^verbatim>\<open>lib/selector\<close>): the table of registrations, its growth, the round with its
    dispatch, the notifications of blocking jobs; refined to a map from descriptors by \<open>fd_registry\<close>.
  \<^item> Stm (\<^verbatim>\<open>lib/stm\<close>): the engine of the state machines. The machine lies inside an object that a callback
    may free, so it is reached through the operations of the locale \<open>stm_access\<close>, interpreted in World for
    both kinds of objects.
  \<^item> Logger (\<^verbatim>\<open>lib/logger\<close>): the pending text, its dates, the two deferred writers, and the wait for
    a pending text. Net_Utils (\<^verbatim>\<open>lib/netutils\<close>, \<^verbatim>\<open>server/io_utils.c\<close>): blocking copies, \<^verbatim>\<open>send_all\<close>
    and the text of an address. Options (\<^verbatim>\<open>lib/args\<close>): the command line of the proxy.

  \<^bold>\<open>State of the server.\<close>
  \<^item> Users and Users_File (\<^verbatim>\<open>server/users.c\<close>): the table, refined to a map by the locale
    \<open>user_directory\<close>; reading and writing the file. Auth_Methods (\<^verbatim>\<open>server/auth_utils.c\<close>), Stats
    (\<^verbatim>\<open>server/monitor/stats.c\<close>).
  \<^item> World: \<open>client_t\<close> and \<open>monitor_t\<close> (\<^verbatim>\<open>client_utils.h\<close>, \<^verbatim>\<open>active_monitor.h\<close>) with their unions as
    tagged data, so that reading another member than was written is a fault; \<open>world\<close>, \<open>env\<close>, system calls.

  \<^bold>\<open>Clients.\<close>
  \<^item> Closing (\<^verbatim>\<open>closing.c\<close>, \<^verbatim>\<open>client_utils.c\<close>), Hello, Auth, Request, Forwarding (the files of these names):
    one definition per callback. Client_Machine: the table, the callbacks of the selector, the accept
    (\<^verbatim>\<open>client_utils.h\<close>, \<^verbatim>\<open>master_utils.c\<close>).
  \<^item> Negotiation: whole greetings and logins. Gate: which states can follow which, and the only ways
    to the request phase. Links and Connections: the invariant that an object, its two descriptors and its
    parser tag belong together, kept by every event. Request_Parsing: a reference parser of requests,
    and the independence from segmentation. Connecting: replies and failures. Relay: the relay is
    transparent, loses nothing on cooperative sockets, and delivers; the relation \<open>relay_run\<close> is any
    sequence of events on a relaying connection.

  \<^bold>\<open>Administrators.\<close>
  \<^item> Monitor_Auth, Monitor_Req, Monitor_Machine (\<^verbatim>\<open>server/monitor\<close>): login, requests, table and accept.
    Monitor_Client (\<^verbatim>\<open>client/monitor_utils.c\<close>): the messages of the client.
  \<^item> Monitor_Links, Monitor_Login, Monitor_Requests, Administration, Admin_Sessions: logins, requests and
    sessions as a whole, from the bytes the client writes to those it reads. Admin_Faults: what can go
    wrong, and that only administrators get to the requests.
  \<^item> Client_Program (\<^verbatim>\<open>lib/args_monitor\<close>, \<^verbatim>\<open>client/main.c\<close>): the client, and its run against the server.

  \<^bold>\<open>The server as a whole.\<close>
  \<^item> Effects: what a callback does to the world is a sequence of few primitives. Two families of locales
    (\<open>client_effects\<close>, \<open>client_connects\<close>; \<open>monitor_effects\<close>, \<open>monitor_administers\<close>) assume that a property of
    worlds is kept by the primitives and prove that it is kept by every callback.
  \<^item> Server_Loop (\<^verbatim>\<open>server/main.c\<close>): the rounds of the selector over all the handlers; the locale
    \<open>round_invariant\<close> turns what every callback keeps into what every round keeps. Every registered pointer has the
    type of its handler.
  \<^item> Server_Safety: invariants of runs with any number of connections. Server_Main: start-up, loop,
    shutdown, and the statements about the program from its command line on.

  \<^bold>\<open>Loops.\<close> Loops over bytes, arrays, argument lists and lists of addresses are structural recursions
  or have a measure. \<open>accept_loop\<close> takes the number of interruptions, and the turns of the main loop
  are a list that ends with the signal: the statements hold for lists of any length. Two loops need not end and are
  partial functions into option: \<open>send_loop\<close>, which is shown to return unless interrupted for ever, and
  \<open>logger_flush\<close>, for which a case that never returns is given. No fuel is used.

  \<^bold>\<open>Not modelled.\<close> The texts that are logged or printed, and the formatting by \<^verbatim>\<open>printf\<close>; the logger
  and the server are each composed with the selector, but not with one another, so that registering the
  two descriptors of the logger in the server's selector is left out of the start-up. Signals (one
  ends the list of turns), the masks set by \<^verbatim>\<open>selector_init\<close> and \<^verbatim>\<open>selector_close\<close>, and flags of
  descriptors. The threads of \<^verbatim>\<open>getaddrinfo_a\<close> and the C library are not code of the repository: the
  resolver and the sockets answer from \<open>env\<close>, \<^verbatim>\<open>inet_pton\<close> and \<^verbatim>\<open>inet_ntop\<close> are parameters, and of
  \<^verbatim>\<open>getopt_long\<close>, \<^verbatim>\<open>strtol\<close> and the string functions what the programs use is modelled. Failures to allocate
  are modelled where the code looks at them. Hosts are little-endian. The handlers
  \<^verbatim>\<open>ignore_read\<close>, \<^verbatim>\<open>ignore_write\<close> and those of the monitor of these names are never registered;
  \<^verbatim>\<open>monitor_error.c\<close> is empty; the Python tests are not part of the program.
\<close>

end
